(* ===== verification/Prelude.thy ===== *)
theory Prelude
  imports Main "HOL-Library.Multiset" "HOL-Library.Char_ord" "HOL-Library.List_Lexorder"
    "HOL-Library.Code_Target_Nat"
begin

text \<open>
  Shared vocabulary of the development: the errors the TypeScript code throws, JavaScript
  numbers, decimal strings (identifiers travel as strings in the code and as \<open>bigint\<close> in the
  database), the ranges of SQL integers, and the generic list facts the tables need.
\<close>

named_theorems db_simps \<open>how the table operations read and write rows\<close>
named_theorems wf_intros \<open>preservation of the well-formedness predicates\<close>

section \<open>Thrown values\<close>

text \<open>What \<open>driverError\<close> of a TypeORM \<open>QueryFailedError\<close> carries.\<close>

record driver_error =
  de_code :: string
  de_constraint :: "string option"

datatype checkout_failure =
  PRODUCT_NOT_FOUND | OUT_OF_STOCK | USER_NOT_FOUND | INSUFFICIENT_FUNDS

datatype order_status_failure = ORDER_NOT_FOUND | INVALID_TRANSITION

text \<open>
  The values the code throws: one constructor per error class, and \<open>HttpException\<close> for Nest's
  exceptions (status code and message). \<open>Foreign\<close> is any error raised by a library or a service.
\<close>

datatype js_error =
    PlainError string
  | QueryFailedError driver_error
  | CheckoutError checkout_failure "string option"
  | IdempotencyKeyReusedError string
  | OrderStatusError order_status_failure string
  | PoisonMessageError string
  | UnroutableEventError string
  | ProductCardBusyError string
  | InvalidCredentialsError
  | InvalidRefreshTokenError
  | AccessTokenRejectedError string
  | RevocationCheckUnavailableError
  | DenylistOutOfSyncError
  | HttpException nat string
  | Foreign string

type_synonym 'a result = "js_error + 'a"

text \<open>A database action: it takes the database and returns a result and the new database.\<close>

type_synonym ('s, 'a) action = "'s \<Rightarrow> 'a result \<times> 's"

definition return :: "'a \<Rightarrow> ('s, 'a) action" where
  "return x s = (Inr x, s)"

definition throw :: "js_error \<Rightarrow> ('s, 'a) action" where
  "throw e s = (Inl e, s)"

text \<open>Sequencing: a thrown error skips the rest.\<close>

definition andThen :: "('s, 'a) action \<Rightarrow> ('a \<Rightarrow> ('s, 'b) action) \<Rightarrow> ('s, 'b) action" where
  "andThen m f s = (case m s of (Inl e, s') \<Rightarrow> (Inl e, s') | (Inr x, s') \<Rightarrow> f x s')"

text \<open>Lifting a parameter check, which reads no state.\<close>

definition lift :: "'a result \<Rightarrow> ('s, 'a) action" where
  "lift r s = (r, s)"

lemma return_eq [simp]: "return x s = (r, s') \<longleftrightarrow> r = Inr x \<and> s' = s"
  by (auto simp: return_def)

lemma throw_eq [simp]: "throw e s = (r, s') \<longleftrightarrow> r = Inl e \<and> s' = s"
  by (auto simp: throw_def)

lemma lift_eq [simp]: "lift q s = (r, s') \<longleftrightarrow> r = q \<and> s' = s"
  by (auto simp: lift_def)

lemma andThen_Inr [simp]:
  "andThen m f s = (Inr y, s') \<longleftrightarrow> (\<exists>x s1. m s = (Inr x, s1) \<and> f x s1 = (Inr y, s'))"
  by (auto simp: andThen_def split: prod.splits sum.splits)

lemma andThen_Inl:
  "andThen m f s = (Inl e, s') \<longleftrightarrow>
     m s = (Inl e, s') \<or> (\<exists>x s1. m s = (Inr x, s1) \<and> f x s1 = (Inl e, s'))"
  by (auto simp: andThen_def split: prod.splits sum.splits)

lemma ex_two: "(\<exists>x y. (x = a \<and> y = b) \<and> P x y) \<longleftrightarrow> P a b"
  by blast

lemma andThen_step: "m s = (Inr x, s1) \<Longrightarrow> andThen m f s = f x s1"
  by (simp add: andThen_def)

lemma andThen_stop: "m s = (Inl e, s1) \<Longrightarrow> andThen m f s = (Inl e, s1)"
  by (simp add: andThen_def)

text \<open>A relation every outcome of an action respects; it composes.\<close>

definition steps_by :: "('s \<Rightarrow> 's \<Rightarrow> bool) \<Rightarrow> ('s, 'a) action \<Rightarrow> bool" where
  "steps_by R m \<longleftrightarrow> (\<forall>s r s'. m s = (r, s') \<longrightarrow> R s s')"

lemma steps_byI: "(\<And>s r s'. m s = (r, s') \<Longrightarrow> R s s') \<Longrightarrow> steps_by R m"
  by (simp add: steps_by_def)

lemma steps_byD: "steps_by R m \<Longrightarrow> m s = (r, s') \<Longrightarrow> R s s'"
  by (simp add: steps_by_def)

lemma steps_by_return: "reflp R \<Longrightarrow> steps_by R (return x)"
  by (auto simp: steps_by_def reflp_def)

lemma steps_by_throw: "reflp R \<Longrightarrow> steps_by R (throw e)"
  by (auto simp: steps_by_def reflp_def)

lemma steps_by_lift: "reflp R \<Longrightarrow> steps_by R (lift q)"
  by (auto simp: steps_by_def reflp_def)

lemma steps_by_andThen:
  assumes "transp R" and "steps_by R m" and "\<And>x. steps_by R (f x)"
  shows "steps_by R (andThen m f)"
proof (rule steps_byI)
  fix s r s'
  assume run: "andThen m f s = (r, s')"
  obtain q s1 where m: "m s = (q, s1)" by fastforce
  then have 1: "R s s1" by (rule steps_byD [OF assms(2)])
  show "R s s'"
  proof (cases q)
    case (Inl e)
    with m run 1 show ?thesis by (simp add: andThen_def)
  next
    case (Inr x)
    with m run have "f x s1 = (r, s')" by (simp add: andThen_def)
    then have "R s1 s'" by (rule steps_byD [OF assms(3)])
    with 1 assms(1) show ?thesis by (blast dest: transpD)
  qed
qed

lemma sum_case_Inr_iff:
  "(case r of Inl e \<Rightarrow> Inl (f e) | Inr x \<Rightarrow> g x) = Inr y \<longleftrightarrow> (\<exists>x. r = Inr x \<and> g x = Inr y)"
  by (cases r) auto

section \<open>JavaScript numbers\<close>

text \<open>
  A JavaScript number is an integer, or something \<open>Number.isInteger\<close> rejects (a fraction, \<open>NaN\<close>,
  an infinity), of which the code only ever uses the text it is printed as.
\<close>

datatype js_number = JsInt int | JsNonInt string

fun is_integer :: "js_number \<Rightarrow> bool" where
  "is_integer (JsInt i) = True"
| "is_integer (JsNonInt t) = False"

section \<open>Decimal strings\<close>

definition is_digit :: "char \<Rightarrow> bool" where
  "is_digit c \<longleftrightarrow> 48 \<le> (of_char c :: nat) \<and> (of_char c :: nat) \<le> 57"

definition digit_char :: "nat \<Rightarrow> char" where
  "digit_char d = char_of (48 + d)"

definition digit_val :: "char \<Rightarrow> nat" where
  "digit_val c = (of_char c :: nat) - 48"

fun dec :: "nat \<Rightarrow> string" where
  "dec n = (if n < 10 then [digit_char n] else dec (n div 10) @ [digit_char (n mod 10)])"

declare dec.simps [simp del]

definition num_of :: "string \<Rightarrow> nat" where
  "num_of s = foldl (\<lambda>acc c. acc * 10 + digit_val c) 0 s"

text \<open>The regular expression \<open>/^\d+$/\<close> that the controllers, the gateway and the consumer share.\<close>

definition isId :: "string \<Rightarrow> bool" where
  "isId s \<longleftrightarrow> s \<noteq> [] \<and> list_all is_digit s"

lemma is_digit_digit_char [simp]: "d < 10 \<Longrightarrow> is_digit (digit_char d)"
  by (simp add: is_digit_def digit_char_def)

lemma digit_val_digit_char [simp]: "d < 10 \<Longrightarrow> digit_val (digit_char d) = d"
  by (simp add: digit_val_def digit_char_def)

lemma digit_char_digit_val [simp]: "is_digit c \<Longrightarrow> digit_char (digit_val c) = c"
  by (simp add: is_digit_def digit_val_def digit_char_def)

lemma digit_val_less [simp]: "is_digit c \<Longrightarrow> digit_val c < 10"
  unfolding is_digit_def digit_val_def by linarith

lemma num_of_Nil [simp]: "num_of [] = 0"
  by (simp add: num_of_def)

lemma num_of_snoc [simp]: "num_of (s @ [c]) = num_of s * 10 + digit_val c"
  by (simp add: num_of_def)

lemma dec_nonempty [simp]: "dec n \<noteq> []"
  by (subst dec.simps) simp

lemma dec_digits: "list_all is_digit (dec n)"
proof (induction n rule: dec.induct)
  case (1 n)
  then show ?case by (cases "n < 10") (simp_all add: dec.simps [of n])
qed

lemma isId_dec [simp]: "isId (dec n)"
  by (simp add: isId_def dec_digits)

lemma num_of_dec [simp]: "num_of (dec n) = n"
proof (induction n rule: dec.induct)
  case (1 n)
  show ?case
  proof (cases "n < 10")
    case True
    then show ?thesis using num_of_snoc [of "[]"] by (simp add: dec.simps [of n])
  next
    case False
    with "1" have "num_of (dec (n div 10)) = n div 10" by simp
    with False show ?thesis by (simp add: dec.simps [of n])
  qed
qed

lemma dec_inject [simp]: "dec m = dec n \<longleftrightarrow> m = n"
  by (metis num_of_dec)


text \<open>Only a string without leading zeros is the decimal print of the number it denotes.\<close>

definition canonical_id :: "string \<Rightarrow> bool" where
  "canonical_id s \<longleftrightarrow> isId s \<and> dec (num_of s) = s"

lemma canonical_dec [simp]: "canonical_id (dec n)"
  by (simp add: canonical_id_def)

section \<open>SQL parameters and \<open>Number(\<dots>)\<close>\<close>

definition int4_max :: int where
  "int4_max = 2147483647"

definition int8_max :: nat where
  "int8_max = 9223372036854775807"

definition out_of_range :: js_error where
  "out_of_range = QueryFailedError \<lparr>de_code = ''22003'', de_constraint = None\<rparr>"

definition invalid_text :: js_error where
  "invalid_text = QueryFailedError \<lparr>de_code = ''22P02'', de_constraint = None\<rparr>"

text \<open>
  A number bound to an \<open>integer\<close> parameter, and a string bound to a \<open>bigint\<close> parameter. Both
  fail the statement when the value does not fit. PostgreSQL also reads a \<open>bigint\<close> with a sign or
  surrounding spaces, where the model has the error of unreadable text; no such string is bound, as
  every id comes from a route or a contract that checked it with \<open>isId\<close> or was printed from a
  \<open>bigint\<close> column.
\<close>

definition int4_param :: "int \<Rightarrow> int result" where
  "int4_param i = (if - int4_max - 1 \<le> i \<and> i \<le> int4_max then Inr i else Inl out_of_range)"

definition bigint_param :: "string \<Rightarrow> nat result" where
  "bigint_param s = (if \<not> isId s then Inl invalid_text
     else if num_of s \<le> int8_max then Inr (num_of s) else Inl out_of_range)"

text \<open>
  \<open>Number(s)\<close> on a string of digits: the nearest IEEE double (53 significant bits, ties to even),
  with infinity written as \<open>2 ^ 1024\<close>, above every finite double.
\<close>

fun bit_length :: "nat \<Rightarrow> nat" where
  "bit_length n = (if n = 0 then 0 else Suc (bit_length (n div 2)))"

declare bit_length.simps [simp del]

definition round_double :: "nat \<Rightarrow> nat" where
  "round_double n =
     (let sh = bit_length n - 53; q = n div 2 ^ sh; r = n mod 2 ^ sh; half = 2 ^ sh div 2
      in if sh = 0 then n
         else if half < r \<or> half = r \<and> odd q then (q + 1) * 2 ^ sh else q * 2 ^ sh)"

definition js_Number :: "string \<Rightarrow> nat" where
  "js_Number s =
     (let d = round_double (num_of s) in if bit_length d \<le> 1024 then d else 2 ^ 1024)"

lemma bit_length_le: "n < 2 ^ k \<Longrightarrow> bit_length n \<le> k"
proof (induction k arbitrary: n)
  case 0
  then show ?case by (simp add: bit_length.simps [of 0])
next
  case (Suc k)
  then have "n div 2 < 2 ^ k" by simp
  with Suc.IH show ?case by (auto simp: bit_length.simps [of n])
qed

lemma round_double_exact: "n < 2 ^ 53 \<Longrightarrow> round_double n = n"
  using bit_length_le [of n 53] by (simp add: round_double_def Let_def)

lemma js_Number_exact: "num_of s < 2 ^ 53 \<Longrightarrow> js_Number s = num_of s"
  using bit_length_le [of "num_of s" 53] by (simp add: js_Number_def Let_def round_double_exact)

section \<open>Tables\<close>

text \<open>
  A table is the list of its rows in insertion order. \<open>update_where\<close> is
  \<open>UPDATE \<dots> SET \<dots> WHERE\<close>; \<open>select_one\<close> is the first row of a \<open>SELECT \<dots> WHERE\<close>.
\<close>

definition update_where :: "('r \<Rightarrow> bool) \<Rightarrow> ('r \<Rightarrow> 'r) \<Rightarrow> 'r list \<Rightarrow> 'r list" where
  "update_where P f rows = map (\<lambda>r. if P r then f r else r) rows"

definition select_one :: "('r \<Rightarrow> bool) \<Rightarrow> 'r list \<Rightarrow> 'r option" where
  "select_one P rows = find P rows"

definition affected :: "('r \<Rightarrow> bool) \<Rightarrow> 'r list \<Rightarrow> nat" where
  "affected P rows = length (filter P rows)"

lemma update_where_Nil [simp]: "update_where P f [] = []"
  by (simp add: update_where_def)

lemma update_where_Cons [simp]:
  "update_where P f (r # rs) = (if P r then f r else r) # update_where P f rs"
  by (simp add: update_where_def)

lemma length_update_where [simp]: "length (update_where P f rows) = length rows"
  by (simp add: update_where_def)

lemma map_update_where:
  "(\<And>r. P r \<Longrightarrow> g (f r) = g r) \<Longrightarrow> map g (update_where P f rows) = map g rows"
  by (simp add: update_where_def)

lemma update_where_none: "\<forall>r \<in> set rows. \<not> P r \<Longrightarrow> update_where P f rows = rows"
  by (induction rows) auto

lemma set_update_where: "set (update_where P f rows) = (\<lambda>r. if P r then f r else r) ` set rows"
  by (simp add: update_where_def)

lemma select_one_None: "select_one P rows = None \<longleftrightarrow> (\<forall>r \<in> set rows. \<not> P r)"
  by (auto simp: select_one_def find_None_iff)

lemma select_one_Some: "select_one P rows = Some r \<Longrightarrow> r \<in> set rows \<and> P r"
  by (auto simp: select_one_def find_Some_iff)

lemma distinct_key_eq:
  "distinct (map key rows) \<Longrightarrow> r \<in> set rows \<Longrightarrow> r' \<in> set rows \<Longrightarrow> key r = key r' \<Longrightarrow> r = r'"
  by (auto simp: distinct_map inj_on_def)

lemma select_one_unique:
  assumes "distinct (map key rows)" and "r \<in> set rows" and "P r"
    and "\<And>r'. r' \<in> set rows \<Longrightarrow> P r' \<Longrightarrow> key r' = key r"
  shows "select_one P rows = Some r"
proof (cases "select_one P rows")
  case None
  with assms show ?thesis by (auto simp: select_one_None)
next
  case (Some r')
  then have r': "r' \<in> set rows" "P r'" by (auto dest: select_one_Some)
  then have "key r' = key r" by (rule assms(4))
  with r' assms(1,2) have "r' = r" by (blast intro: distinct_key_eq)
  with Some show ?thesis by simp
qed

lemma list_ex_key [simp]: "list_ex (\<lambda>r. f r = k) rows \<longleftrightarrow> k \<in> f ` set rows"
  by (auto simp: list_ex_iff)

text \<open>A table of at most one row with a given key: the sum over the matching rows is that row's value.\<close>

lemma sum_list_update_unique:
  fixes g :: "'r \<Rightarrow> int"
  assumes "distinct (map key rows)" and "r \<in> set rows" and "P r"
    and "\<And>r'. r' \<in> set rows \<Longrightarrow> P r' \<Longrightarrow> key r' = key r"
  shows "sum_list (map g (update_where P f rows)) = sum_list (map g rows) - g r + g (f r)"
  using assms
proof (induction rows)
  case Nil
  then show ?case by simp
next
  case (Cons x rows)
  show ?case
  proof (cases "x = r")
    case True
    have "\<forall>y \<in> set rows. \<not> P y"
    proof (intro ballI notI)
      fix y assume y: "y \<in> set rows" "P y"
      with Cons.prems(4) have "key y = key x" by (simp add: True)
      with y Cons.prems(1) show False by (metis distinct.simps(2) image_eqI list.set_map list.simps(9))
    qed
    with True Cons.prems(3) show ?thesis by (simp add: update_where_none)
  next
    case False
    with Cons.prems(2) have r: "r \<in> set rows" by simp
    have "\<not> P x"
    proof
      assume "P x"
      then have "key x = key r" using Cons.prems(4) by simp
      with Cons.prems(1) r show False by (metis distinct.simps(2) image_eqI list.set_map list.simps(9))
    qed
    moreover have "sum_list (map g (update_where P f rows)) = sum_list (map g rows) - g r + g (f r)"
    proof (rule Cons.IH [OF _ r Cons.prems(3)])
      show "distinct (map key rows)" using Cons.prems(1) by simp
      show "key r' = key r" if "r' \<in> set rows" and "P r'" for r'
        using that Cons.prems(4) by simp
    qed
    ultimately show ?thesis by simp
  qed
qed

text \<open>The sequence behind a \<open>GENERATED ALWAYS AS IDENTITY\<close> column only moves forward.\<close>

definition below :: "nat \<Rightarrow> nat list \<Rightarrow> bool" where
  "below n ids \<longleftrightarrow> (\<forall>i \<in> set ids. i < n)"

lemma below_fresh [dest]: "below n ids \<Longrightarrow> n \<notin> set ids"
  by (auto simp: below_def)

lemma below_snoc [simp]: "below n ids \<Longrightarrow> below (Suc n) (ids @ [n])"
  by (auto simp: below_def)

lemma below_mono: "below m ids \<Longrightarrow> m \<le> n \<Longrightarrow> below n ids"
  by (auto simp: below_def)

end
