(* ===== verification/Json.thy ===== *)
theory Json
  imports Prelude
begin

text \<open>
  JSON values as \<open>JSON.parse\<close> returns them, and the payload of the \<open>order.placed\<close> event of
  \<open>src/messaging/order-placed.event.ts\<close> with its JSON form.
\<close>

section \<open>JSON values\<close>

text \<open>An object is the list of its properties in insertion order, each key once.\<close>

datatype json =
    JNull
  | JBool bool
  | JNum js_number
  | JStr string
  | JArr "json list"
  | JObj "(string \<times> json) list"

text \<open>
  \<open>value?.key\<close>: undefined (None) on everything but an object that has the key.
\<close>

definition json_get :: "string \<Rightarrow> json option \<Rightarrow> json option" where
  "json_get k v = (case v of Some (JObj kvs) \<Rightarrow> map_of kvs k | _ \<Rightarrow> None)"

section \<open>The order.placed event\<close>

text \<open>
  Identifiers are strings in the event and numbers in the tables; \<open>occurredAt\<close>, an ISO string in
  the code, is the instant it denotes, in milliseconds.
\<close>

record event_item =
  ei_productId :: string
  ei_quantity :: int
  ei_unitPrice :: int

record event_data =
  ed_orderId :: string
  ed_userId :: string
  ed_total :: int
  ed_items :: "event_item list"

record OrderPlacedEvent =
  ev_eventId :: string
  ev_type :: string
  ev_occurredAt :: int
  ev_data :: event_data

record OrderPlacedSource =
  os_id :: string
  os_userId :: string
  os_total :: int
  os_createdAt :: int
  os_items :: "event_item list"

definition ORDER_AGGREGATE_TYPE :: string where
  "ORDER_AGGREGATE_TYPE = ''Order''"

definition ORDER_PLACED_TYPE :: string where
  "ORDER_PLACED_TYPE = ''order.placed''"

definition orderPlacedEventId :: "string \<Rightarrow> string" where
  "orderPlacedEventId orderId = ''order.placed:'' @ orderId"

definition toOrderPlacedEvent :: "OrderPlacedSource \<Rightarrow> OrderPlacedEvent" where
  "toOrderPlacedEvent order =
     \<lparr>ev_eventId = orderPlacedEventId (os_id order),
      ev_type = ORDER_PLACED_TYPE,
      ev_occurredAt = os_createdAt order,
      ev_data =
        \<lparr>ed_orderId = os_id order,
         ed_userId = os_userId order,
         ed_total = os_total order,
         ed_items = map (\<lambda>item. \<lparr>ei_productId = ei_productId item,
                                 ei_quantity = ei_quantity item,
                                 ei_unitPrice = ei_unitPrice item\<rparr>) (os_items order)\<rparr>\<rparr>"

lemma orderPlacedEventId_inject [simp]:
  "orderPlacedEventId a = orderPlacedEventId b \<longleftrightarrow> a = b"
  by (simp add: orderPlacedEventId_def)

lemma copy_items [simp]:
  "map (\<lambda>item. \<lparr>ei_productId = ei_productId item, ei_quantity = ei_quantity item,
                ei_unitPrice = ei_unitPrice item\<rparr>) items = items"
  by (simp add: map_idI)

text \<open>The value \<open>JSON.stringify(event)\<close> writes; \<open>toISO\<close> is \<open>Date.prototype.toISOString\<close>.\<close>

definition event_item_json :: "event_item \<Rightarrow> json" where
  "event_item_json i = JObj
     [(''productId'', JStr (ei_productId i)),
      (''quantity'', JNum (JsInt (ei_quantity i))),
      (''unitPrice'', JNum (JsInt (ei_unitPrice i)))]"

definition event_json :: "(int \<Rightarrow> string) \<Rightarrow> OrderPlacedEvent \<Rightarrow> json" where
  "event_json toISO ev = JObj
     [(''eventId'', JStr (ev_eventId ev)),
      (''type'', JStr (ev_type ev)),
      (''occurredAt'', JStr (toISO (ev_occurredAt ev))),
      (''data'', JObj
        [(''orderId'', JStr (ed_orderId (ev_data ev))),
         (''userId'', JStr (ed_userId (ev_data ev))),
         (''total'', JNum (JsInt (ed_total (ev_data ev)))),
         (''items'', JArr (map event_item_json (ed_items (ev_data ev))))])]"

end
