(* ===== verification/Guarded.thy ===== *)
theory Guarded
  imports Prelude
begin

text \<open>
  The guarded decrement \<open>UPDATE t SET c = c - $1 WHERE id = $2 AND c >= $1 RETURNING \<dots>\<close>, which
  checkout uses twice: on the stock of a product and on the balance of a user. The locale states
  what a column must satisfy, and holds the facts proved once for both.
\<close>

definition lower_row :: "('r \<Rightarrow> nat) \<Rightarrow> (int \<Rightarrow> 'r \<Rightarrow> 'r) \<Rightarrow> nat \<Rightarrow> int \<Rightarrow> 'r list \<Rightarrow> 'r list" where
  "lower_row rid lower k q rows = map (\<lambda>r. if rid r = k then lower q r else r) rows"

definition level_hit :: "('r \<Rightarrow> nat) \<Rightarrow> ('r \<Rightarrow> int) \<Rightarrow> nat \<Rightarrow> int \<Rightarrow> 'r \<Rightarrow> bool" where
  "level_hit rid level k q r \<longleftrightarrow> rid r = k \<and> q \<le> level r"

locale guarded_column =
  fixes rid :: "'r \<Rightarrow> nat"
    and level :: "'r \<Rightarrow> int"
    and lower :: "int \<Rightarrow> 'r \<Rightarrow> 'r"
  assumes rid_lower [simp]: "rid (lower q r) = rid r"
    and level_lower [simp]: "level (lower q r) = level r - q"
begin

lemma ids_lower_row [simp]: "map rid (lower_row rid lower k q rows) = map rid rows"
  by (simp add: lower_row_def)

lemma select_hit:
  assumes "distinct (map rid rows)" and "r \<in> set rows" and "level_hit rid level k q r"
  shows "select_one (level_hit rid level k q) rows = Some r"
  by (rule select_one_unique [OF assms(1,2)]) (use assms(3) in \<open>simp_all add: level_hit_def\<close>)

lemma update_hit:
  assumes "distinct (map rid rows)" and "r \<in> set rows" and "level_hit rid level k q r"
  shows "update_where (level_hit rid level k q) (lower q) rows = lower_row rid lower k q rows"
  unfolding update_where_def lower_row_def
proof (rule map_cong [OF refl])
  fix x assume x: "x \<in> set rows"
  have "x = r" if "rid x = k"
    using distinct_key_eq [OF assms(1) x assms(2)] that assms(3) by (simp add: level_hit_def)
  then show "(if level_hit rid level k q x then lower q x else x) = (if rid x = k then lower q x else x)"
    using assms(3) by (auto simp: level_hit_def)
qed

text \<open>The statement returns a row exactly when the guarded row exists, and then lowers that row only.\<close>

lemma hit_Some:
  assumes dist: "distinct (map rid rows)"
  shows "select_one (level_hit rid level k q) rows = Some r \<and>
      rows' = update_where (level_hit rid level k q) (lower q) rows \<longleftrightarrow>
    r \<in> set rows \<and> level_hit rid level k q r \<and> rows' = lower_row rid lower k q rows"
proof (cases "r \<in> set rows \<and> level_hit rid level k q r")
  case True
  then have "r \<in> set rows" "level_hit rid level k q r" by simp_all
  with select_hit [OF dist this] update_hit [OF dist this] show ?thesis by auto
next
  case False
  then show ?thesis by (auto dest: select_one_Some)
qed

lemma hit_None:
  "select_one (level_hit rid level k q) rows = None \<Longrightarrow>
   update_where (level_hit rid level k q) (lower q) rows = rows"
  by (auto simp: select_one_None intro: update_where_none)

lemma hit_None_iff:
  assumes "distinct (map rid rows)"
  shows "select_one (level_hit rid level k q) rows = None \<longleftrightarrow>
    k \<notin> rid ` set rows \<or> (\<exists>r \<in> set rows. rid r = k \<and> level r < q)"
  using assms by (auto simp: select_one_None level_hit_def not_le dest: distinct_key_eq)

text \<open>No row ever goes below zero, and the sum of the column falls by exactly what was taken.\<close>

lemma lower_row_nonneg:
  assumes "\<forall>r \<in> set rows. 0 \<le> level r" and "distinct (map rid rows)"
    and "r \<in> set rows" and "level_hit rid level k q r"
  shows "\<forall>r \<in> set (lower_row rid lower k q rows). 0 \<le> level r"
proof -
  have "0 \<le> level (if rid x = k then lower q x else x)" if x: "x \<in> set rows" for x
    using assms distinct_key_eq [OF assms(2) x assms(3)] x by (auto simp: level_hit_def)
  then show ?thesis unfolding lower_row_def set_map by blast
qed

end

end
