(* ===== verification/Schema.thy ===== *)
theory Schema
  imports Json Guarded
begin

text \<open>
  The relational schema: one record per entity class of \<open>src/entities\<close>, the check constraints the
  decorators declare, the unique and foreign keys (entities and migrations), the database state and
  the well-formedness predicate every committed state satisfies. Timestamps are microseconds,
  \<open>bigint\<close> identifiers are \<open>nat\<close>, \<open>integer\<close> columns are \<open>int\<close>.
\<close>

section \<open>Enumerations\<close>

datatype UserRole = buyer | seller | admin

datatype OrderStatus = pending | paid | cancelled

datatype job_status = JPending | JDone | JFailed

fun role_text :: "UserRole \<Rightarrow> string" where
  "role_text buyer = ''buyer''"
| "role_text seller = ''seller''"
| "role_text admin = ''admin''"

fun status_text :: "OrderStatus \<Rightarrow> string" where
  "status_text pending = ''pending''"
| "status_text paid = ''paid''"
| "status_text cancelled = ''cancelled''"

text \<open>
  \<open>ORDER BY status\<close> compares the texts: an instance of \<open>linorder\<close> for the status.
\<close>

lemma status_text_inject: "status_text a = status_text b \<longleftrightarrow> a = b"
  by (cases a; cases b) simp_all

instantiation OrderStatus :: linorder
begin

definition less_eq_OrderStatus :: "OrderStatus \<Rightarrow> OrderStatus \<Rightarrow> bool" where
  "less_eq_OrderStatus a b \<longleftrightarrow> status_text a \<le> status_text b"

definition less_OrderStatus :: "OrderStatus \<Rightarrow> OrderStatus \<Rightarrow> bool" where
  "less_OrderStatus a b \<longleftrightarrow> status_text a < status_text b"

instance
proof
  fix x y z :: OrderStatus
  show "(x < y) = (x \<le> y \<and> \<not> y \<le> x)"
    by (auto simp: less_OrderStatus_def less_eq_OrderStatus_def)
  show "x \<le> x" by (simp add: less_eq_OrderStatus_def)
  show "x \<le> y \<Longrightarrow> y \<le> z \<Longrightarrow> x \<le> z" by (auto simp: less_eq_OrderStatus_def)
  show "x \<le> y \<Longrightarrow> y \<le> x \<Longrightarrow> x = y"
    by (auto simp: less_eq_OrderStatus_def status_text_inject)
  show "x \<le> y \<or> y \<le> x" by (auto simp: less_eq_OrderStatus_def)
qed

end

section \<open>Entities\<close>

record User =
  u_id :: nat
  u_email :: string
  u_phone :: string
  u_name :: string
  u_balance :: int
  u_passwordHash :: "string option"
  u_role :: UserRole
  u_createdAt :: int

record Product =
  p_id :: nat
  p_name :: string
  p_description :: string
  p_price :: int
  p_stock :: int
  p_createdAt :: int

record Order =
  o_id :: nat
  o_userId :: nat
  o_status :: OrderStatus
  o_total :: int
  o_idempotencyKey :: "string option"
  o_createdAt :: int

record OrderItem =
  i_id :: nat
  i_orderId :: nat
  i_productId :: nat
  i_quantity :: int
  i_unitPrice :: int

record Job =
  j_id :: nat
  j_queue :: string
  j_type :: string
  j_payload :: json
  j_status :: job_status
  j_processed :: int
  j_attempts :: int
  j_lastError :: "string option"
  j_worker :: "string option"
  j_createdAt :: int
  j_processedAt :: "int option"

record Outbox =
  x_id :: string
  x_aggregateType :: string
  x_aggregateId :: string
  x_type :: string
  x_payload :: OrderPlacedEvent
  x_createdAt :: int
  x_publishedAt :: "int option"
  x_attempts :: int

record Receipt =
  r_id :: nat
  r_eventId :: string
  r_orderId :: nat
  r_total :: int
  r_issuedAt :: int

record ProcessedMessage =
  m_messageId :: string
  m_consumer :: string
  m_processedAt :: int

record RefreshToken =
  t_id :: string
  t_userId :: nat
  t_familyId :: string
  t_tokenHash :: string
  t_expiresAt :: int
  t_usedAt :: "int option"
  t_revokedAt :: "int option"
  t_createdAt :: int

section \<open>The database\<close>

text \<open>
  The identity sequences are not transactional: a rolled-back insert still consumes a value, so
  they are kept apart from the tables.
\<close>

record sequences =
  sq_product :: nat
  sq_order :: nat
  sq_item :: nat
  sq_job :: nat
  sq_receipt :: nat

record db =
  users :: "User list"
  products :: "Product list"
  orders :: "Order list"
  orderItems :: "OrderItem list"
  jobs :: "Job list"
  outbox :: "Outbox list"
  receipts :: "Receipt list"
  processedMessages :: "ProcessedMessage list"
  refreshTokens :: "RefreshToken list"
  seqs :: sequences

text \<open>
  \<open>dataSource.transaction(body)\<close>: commit when the body returns, roll every table back when it
  throws.
\<close>

definition transaction :: "(db, 'a) action \<Rightarrow> (db, 'a) action" where
  "transaction body d = (case body d of
      (Inr x, d') \<Rightarrow> (Inr x, d')
    | (Inl e, d') \<Rightarrow> (Inl e, d\<lparr>seqs := seqs d'\<rparr>))"

lemma transaction_Inr: "transaction body d = (Inr x, d') \<longleftrightarrow> body d = (Inr x, d')"
  by (auto simp: transaction_def split: prod.splits sum.splits)

lemma transaction_Inl:
  "transaction body d = (Inl e, d') \<longleftrightarrow> (\<exists>d''. body d = (Inl e, d'') \<and> d' = d\<lparr>seqs := seqs d''\<rparr>)"
  by (auto simp: transaction_def split: prod.splits sum.splits)

section \<open>Constraints\<close>

text \<open>
  The phone pattern is \<open>^\+380\d{9}$\<close>; \<open>email = lower(email)\<close> is read on ASCII letters.
\<close>

definition phone_ok :: "string \<Rightarrow> bool" where
  "phone_ok s \<longleftrightarrow> take 4 s = ''+380'' \<and> length s = 13 \<and> list_all is_digit (drop 4 s)"

definition lower_char :: "char \<Rightarrow> char" where
  "lower_char c = (let n = (of_char c :: nat) in if 65 \<le> n \<and> n \<le> 90 then char_of (n + 32) else c)"

definition toLowerCase :: "string \<Rightarrow> string" where
  "toLowerCase s = map lower_char s"

definition user_ok :: "User \<Rightarrow> bool" where
  "user_ok u \<longleftrightarrow> phone_ok (u_phone u) \<and> u_email u = toLowerCase (u_email u) \<and> 0 \<le> u_balance u \<and> u_balance u \<le> int4_max"

definition product_ok :: "Product \<Rightarrow> bool" where
  "product_ok p \<longleftrightarrow> 0 < p_price p \<and> p_price p \<le> int4_max \<and> 0 \<le> p_stock p \<and> p_stock p \<le> int4_max"

definition order_ok :: "Order \<Rightarrow> bool" where
  "order_ok r \<longleftrightarrow> 0 \<le> o_total r \<and> o_total r \<le> int4_max"

definition item_ok :: "OrderItem \<Rightarrow> bool" where
  "item_ok i \<longleftrightarrow> 0 < i_quantity i \<and> i_quantity i \<le> int4_max \<and> 0 < i_unitPrice i \<and> i_unitPrice i \<le> int4_max"

definition job_ok :: "Job \<Rightarrow> bool" where
  "job_ok j \<longleftrightarrow> 0 \<le> j_processed j \<and> 0 \<le> j_attempts j"

definition outbox_ok :: "Outbox \<Rightarrow> bool" where
  "outbox_ok x \<longleftrightarrow> 0 \<le> x_attempts x"

definition receipt_ok :: "Receipt \<Rightarrow> bool" where
  "receipt_ok r \<longleftrightarrow> 0 \<le> r_total r \<and> r_total r \<le> int4_max"

text \<open>\<open>orders_user_id_idempotency_key_key\<close>: NULL keys never conflict.\<close>

definition idempotency_unique :: "Order list \<Rightarrow> bool" where
  "idempotency_unique rs \<longleftrightarrow> distinct (map (\<lambda>r. (o_userId r, the (o_idempotencyKey r)))
     (filter (\<lambda>r. o_idempotencyKey r \<noteq> None) rs))"

definition checks_ok :: "db \<Rightarrow> bool" where
  "checks_ok d \<longleftrightarrow>
     list_all user_ok (users d) \<and> list_all product_ok (products d) \<and>
     list_all order_ok (orders d) \<and> list_all item_ok (orderItems d) \<and>
     list_all job_ok (jobs d) \<and> list_all outbox_ok (outbox d) \<and> list_all receipt_ok (receipts d)"

definition keys_ok :: "db \<Rightarrow> bool" where
  "keys_ok d \<longleftrightarrow>
     distinct (map u_id (users d)) \<and> distinct (map u_email (users d)) \<and> distinct (map u_phone (users d)) \<and>
     distinct (map p_id (products d)) \<and> distinct (map p_name (products d)) \<and>
     distinct (map o_id (orders d)) \<and> distinct (map i_id (orderItems d)) \<and>
     distinct (map j_id (jobs d)) \<and> distinct (map x_id (outbox d)) \<and>
     distinct (map r_orderId (receipts d)) \<and> distinct (map r_eventId (receipts d)) \<and>
     distinct (map (\<lambda>m. (m_messageId m, m_consumer m)) (processedMessages d)) \<and>
     distinct (map t_tokenHash (refreshTokens d)) \<and>
     distinct (map (\<lambda>r. (o_userId r, o_createdAt r)) (orders d)) \<and>
     idempotency_unique (orders d)"

definition foreign_keys_ok :: "db \<Rightarrow> bool" where
  "foreign_keys_ok d \<longleftrightarrow>
     o_userId ` set (orders d) \<subseteq> u_id ` set (users d) \<and>
     i_orderId ` set (orderItems d) \<subseteq> o_id ` set (orders d) \<and>
     i_productId ` set (orderItems d) \<subseteq> p_id ` set (products d) \<and>
     r_orderId ` set (receipts d) \<subseteq> o_id ` set (orders d) \<and>
     t_userId ` set (refreshTokens d) \<subseteq> u_id ` set (users d)"

definition sequences_ok :: "db \<Rightarrow> bool" where
  "sequences_ok d \<longleftrightarrow>
     below (sq_product (seqs d)) (map p_id (products d)) \<and>
     below (sq_order (seqs d)) (map o_id (orders d)) \<and>
     below (sq_item (seqs d)) (map i_id (orderItems d)) \<and>
     below (sq_job (seqs d)) (map j_id (jobs d)) \<and>
     below (sq_receipt (seqs d)) (map r_id (receipts d))"

definition db_ok :: "db \<Rightarrow> bool" where
  "db_ok d \<longleftrightarrow> checks_ok d \<and> keys_ok d \<and> foreign_keys_ok d \<and> sequences_ok d"

lemmas db_ok_defs = db_ok_def checks_ok_def keys_ok_def foreign_keys_ok_def sequences_ok_def

text \<open>What the proofs read off a well-formed database.\<close>

lemma db_okD:
  assumes "db_ok d"
  shows "distinct (map p_id (products d))" and "distinct (map u_id (users d))"
    and "distinct (map o_id (orders d))" and "distinct (map i_id (orderItems d))"
    and "distinct (map j_id (jobs d))"
    and "\<And>p. p \<in> set (products d) \<Longrightarrow> product_ok p"
    and "\<And>u. u \<in> set (users d) \<Longrightarrow> user_ok u"
    and "\<And>r. r \<in> set (orders d) \<Longrightarrow> order_ok r"
    and "\<And>i. i \<in> set (orderItems d) \<Longrightarrow> item_ok i"
  using assms by (auto simp: db_ok_defs list_all_iff)

definition empty_db :: db where
  "empty_db = \<lparr>users = [], products = [], orders = [], orderItems = [], jobs = [], outbox = [],
     receipts = [], processedMessages = [], refreshTokens = [],
     seqs = \<lparr>sq_product = 1, sq_order = 1, sq_item = 1, sq_job = 1, sq_receipt = 1\<rparr>\<rparr>"

lemma empty_db_ok: "db_ok empty_db"
  by (simp add: db_ok_defs empty_db_def idempotency_unique_def below_def)

end
