(* ===== verification/Checkout.thy ===== *)
theory Checkout
  imports Schema
begin

text \<open>
  The checkout transaction of \<open>src/services/checkout.service.ts\<close>: validation and ordering of the
  lines, the conditional stock and balance updates, the order, its items, the receipt job and the
  outbox row, all in one transaction.
\<close>

section \<open>Inputs and validation\<close>

record CheckoutLine =
  cl_productId :: string
  cl_quantity :: js_number

record CheckoutInput =
  ci_userId :: string
  ci_items :: "CheckoutLine list"
  ci_idempotencyKey :: "string option"

record CheckoutResult =
  cr_orderId :: string
  cr_total :: int

text \<open>
  What the database supplies to one transaction: \<open>now()\<close>, which is constant within it, and the
  \<open>gen_random_uuid()\<close> of the outbox row.
\<close>

record tx_env =
  tx_now :: int
  tx_uuid :: string

text \<open>The integer a validated quantity holds; \<open>validateLines\<close> has thrown for any other number.\<close>

fun int_value :: "js_number \<Rightarrow> int" where
  "int_value (JsInt i) = i"
| "int_value (JsNonInt t) = 0"

abbreviation qty :: "CheckoutLine \<Rightarrow> int" where
  "qty line \<equiv> int_value (cl_quantity line)"

definition validateLines :: "CheckoutLine list \<Rightarrow> CheckoutLine list result" where
  "validateLines items =
     (if items = [] then Inl (PlainError ''items must not be empty'')
      else if \<exists>item \<in> set items. \<not> is_integer (cl_quantity item) \<or> qty item \<le> 0
        then Inl (PlainError ''quantity must be a positive integer'')
      else Inr (sort_key (\<lambda>item. js_Number (cl_productId item)) items))"

section \<open>The statements of the transaction\<close>

text \<open>The SET clauses of the two guarded decrements.\<close>

definition lower_stock :: "int \<Rightarrow> Product \<Rightarrow> Product" where
  "lower_stock q p = p\<lparr>p_stock := p_stock p - q\<rparr>"

definition lower_balance :: "int \<Rightarrow> User \<Rightarrow> User" where
  "lower_balance q u = u\<lparr>u_balance := u_balance u - q\<rparr>"

interpretation stock: guarded_column p_id p_stock lower_stock
  by unfold_locales (simp_all add: lower_stock_def)

interpretation balance: guarded_column u_id u_balance lower_balance
  by unfold_locales (simp_all add: lower_balance_def)

text \<open>\<open>UPDATE products SET stock = stock - $1 WHERE id = $2 AND stock >= $1 RETURNING price\<close>\<close>

definition take_stock :: "int \<Rightarrow> string \<Rightarrow> (db, int option) action" where
  "take_stock quantity productId =
     andThen (lift (int4_param quantity)) (\<lambda>q.
     andThen (lift (bigint_param productId)) (\<lambda>k.
     (\<lambda>d. let hit = level_hit p_id p_stock k q
          in (Inr (map_option p_price (select_one hit (products d))),
              d\<lparr>products := update_where hit (lower_stock q) (products d)\<rparr>))))"

text \<open>\<open>SELECT 1 FROM products WHERE id = $1\<close>\<close>

definition product_found :: "string \<Rightarrow> (db, bool) action" where
  "product_found productId =
     andThen (lift (bigint_param productId)) (\<lambda>k.
     (\<lambda>d. (Inr (list_ex (\<lambda>p. p_id p = k) (products d)), d)))"

text \<open>The loop over the sorted lines; \<open>priced\<close> is the array it pushes to.\<close>

fun reserve :: "CheckoutLine list \<Rightarrow> event_item list \<Rightarrow> (db, event_item list) action" where
  "reserve [] priced = return priced"
| "reserve (line # lines) priced =
     andThen (take_stock (qty line) (cl_productId line)) (\<lambda>row.
       (case row of
          None \<Rightarrow> andThen (product_found (cl_productId line)) (\<lambda>found.
            throw (CheckoutError (if found then OUT_OF_STOCK else PRODUCT_NOT_FOUND)
              (Some (cl_productId line))))
        | Some price \<Rightarrow> reserve lines
            (priced @ [\<lparr>ei_productId = cl_productId line, ei_quantity = qty line,
                        ei_unitPrice = price\<rparr>])))"

definition order_total :: "event_item list \<Rightarrow> int" where
  "order_total priced = foldl (\<lambda>sum line. sum + ei_quantity line * ei_unitPrice line) 0 priced"

text \<open>\<open>UPDATE users SET balance = balance - $1 WHERE id = $2 AND balance >= $1 RETURNING balance\<close>\<close>

definition charge :: "int \<Rightarrow> string \<Rightarrow> (db, int option) action" where
  "charge amount userId =
     andThen (lift (int4_param amount)) (\<lambda>t.
     andThen (lift (bigint_param userId)) (\<lambda>k.
     (\<lambda>d. let hit = level_hit u_id u_balance k t
          in (Inr (map_option (u_balance \<circ> lower_balance t) (select_one hit (users d))),
              d\<lparr>users := update_where hit (lower_balance t) (users d)\<rparr>))))"

definition user_found :: "string \<Rightarrow> (db, bool) action" where
  "user_found userId =
     andThen (lift (bigint_param userId)) (\<lambda>k.
     (\<lambda>d. (Inr (list_ex (\<lambda>u. u_id u = k) (users d)), d)))"

definition violation :: "string \<Rightarrow> string \<Rightarrow> js_error" where
  "violation code constraint = QueryFailedError \<lparr>de_code = code, de_constraint = Some constraint\<rparr>"

text \<open>
  \<open>manager.save(manager.create(Order, ...))\<close>: one INSERT. The value of the identity sequence is
  drawn first; the two unique indexes are checked in the order they were created.
\<close>

definition insert_order ::
  "int \<Rightarrow> string \<Rightarrow> OrderStatus \<Rightarrow> int \<Rightarrow> string option \<Rightarrow> (db, Order) action" where
  "insert_order now userId status amount key =
     andThen (lift (bigint_param userId)) (\<lambda>uid.
     andThen (lift (int4_param amount)) (\<lambda>t.
     (\<lambda>d. let row = \<lparr>o_id = sq_order (seqs d), o_userId = uid, o_status = status, o_total = t,
                       o_idempotencyKey = key, o_createdAt = now\<rparr>;
              d1 = d\<lparr>seqs := (seqs d)\<lparr>sq_order := Suc (sq_order (seqs d))\<rparr>\<rparr>
          in if t < 0 then (Inl (violation ''23514'' ''orders_total_check''), d1)
             else if list_ex (\<lambda>r. o_userId r = uid \<and> o_createdAt r = now) (orders d)
               then (Inl (violation ''23505'' ''orders_user_id_created_at_idx''), d1)
             else if key \<noteq> None \<and> list_ex (\<lambda>r. o_userId r = uid \<and> o_idempotencyKey r = key) (orders d)
               then (Inl (violation ''23505'' ''orders_user_id_idempotency_key_key''), d1)
             else if \<not> list_ex (\<lambda>u. u_id u = uid) (users d)
               then (Inl (violation ''23503'' ''FK_a922b820eeef29ac1c6800e826a''), d1)
             else (Inr row, d1\<lparr>orders := orders d @ [row]\<rparr>))))"

text \<open>\<open>manager.insert(OrderItem, priced.map(...))\<close>: one INSERT of all the lines.\<close>

fun item_rows :: "nat \<Rightarrow> nat \<Rightarrow> event_item list \<Rightarrow> OrderItem list" where
  "item_rows k orderId [] = []"
| "item_rows k orderId (line # lines) =
     \<lparr>i_id = k, i_orderId = orderId, i_productId = num_of (ei_productId line),
      i_quantity = ei_quantity line, i_unitPrice = ei_unitPrice line\<rparr>
     # item_rows (Suc k) orderId lines"

definition insert_items :: "nat \<Rightarrow> event_item list \<Rightarrow> (db, unit) action" where
  "insert_items orderId priced d =
     (let rows = item_rows (sq_item (seqs d)) orderId priced;
          d1 = d\<lparr>seqs := (seqs d)\<lparr>sq_item := sq_item (seqs d) + length priced\<rparr>\<rparr>
      in if list_ex (\<lambda>i. i_quantity i \<le> 0) rows
           then (Inl (violation ''23514'' ''order_items_quantity_check''), d1)
         else if list_ex (\<lambda>i. i_unitPrice i \<le> 0) rows
           then (Inl (violation ''23514'' ''order_items_unit_price_check''), d1)
         else if \<not> list_ex (\<lambda>r. o_id r = orderId) (orders d)
           then (Inl (violation ''23503'' ''FK_145532db85752b29c57d2b7b1f1''), d1)
         else if list_ex (\<lambda>i. \<not> list_ex (\<lambda>p. p_id p = i_productId i) (products d)) rows
           then (Inl (violation ''23503'' ''FK_9263386c35b6b242540f9493b00''), d1)
         else (Inr (), d1\<lparr>orderItems := orderItems d @ rows\<rparr>))"

text \<open>\<open>manager.save(manager.create(Job, ...))\<close> with the column defaults.\<close>

definition insert_job :: "int \<Rightarrow> string \<Rightarrow> json \<Rightarrow> (db, unit) action" where
  "insert_job now type payload d =
     (let row = \<lparr>j_id = sq_job (seqs d), j_queue = ''default'', j_type = type, j_payload = payload,
                 j_status = JPending, j_processed = 0, j_attempts = 0, j_lastError = None,
                 j_worker = None, j_createdAt = now, j_processedAt = None\<rparr>
      in (Inr (), d\<lparr>jobs := jobs d @ [row],
                    seqs := (seqs d)\<lparr>sq_job := Suc (sq_job (seqs d))\<rparr>\<rparr>))"

definition insert_outbox ::
  "int \<Rightarrow> string \<Rightarrow> string \<Rightarrow> string \<Rightarrow> OrderPlacedEvent \<Rightarrow> (db, unit) action" where
  "insert_outbox now uuid aggregateType aggregateId event d =
     (if list_ex (\<lambda>x. x_id x = uuid) (outbox d)
        then (Inl (violation ''23505'' ''PK_340ab539f309f03bdaa14aa7649''), d)
      else (Inr (), d\<lparr>outbox := outbox d @
        [\<lparr>x_id = uuid, x_aggregateType = aggregateType, x_aggregateId = aggregateId,
          x_type = ev_type event, x_payload = event, x_createdAt = now, x_publishedAt = None,
          x_attempts = 0\<rparr>]\<rparr>))"

section \<open>The transaction\<close>

text \<open>\<open>hook\<close> is what \<open>hooks.afterOutboxWrite\<close> throws, if anything.\<close>

definition checkout_body ::
  "tx_env \<Rightarrow> js_error option \<Rightarrow> CheckoutInput \<Rightarrow> CheckoutLine list \<Rightarrow> (db, CheckoutResult) action" where
  "checkout_body env hook input lines =
     andThen (reserve lines []) (\<lambda>priced.
     let amount = order_total priced; userId = ci_userId input in
     andThen (charge amount userId) (\<lambda>charged.
     if charged = None then
       andThen (user_found userId) (\<lambda>found.
         throw (CheckoutError (if found then INSUFFICIENT_FUNDS else USER_NOT_FOUND) None))
     else
       andThen (insert_order (tx_now env) userId paid amount (ci_idempotencyKey input)) (\<lambda>order.
       andThen (insert_items (o_id order) priced) (\<lambda>_.
       andThen (insert_job (tx_now env) ''send_receipt''
                 (JObj [(''orderId'', JStr (dec (o_id order)))])) (\<lambda>_.
       let event = toOrderPlacedEvent
             \<lparr>os_id = dec (o_id order), os_userId = userId, os_total = amount,
              os_createdAt = o_createdAt order div 1000, os_items = priced\<rparr> in
       andThen (insert_outbox (tx_now env) (tx_uuid env) ORDER_AGGREGATE_TYPE
                 (dec (o_id order)) event) (\<lambda>_.
       case hook of
         Some e \<Rightarrow> throw e
       | None \<Rightarrow> return \<lparr>cr_orderId = dec (o_id order), cr_total = amount\<rparr>))))))"

definition checkout :: "tx_env \<Rightarrow> js_error option \<Rightarrow> CheckoutInput \<Rightarrow> (db, CheckoutResult) action" where
  "checkout env hook input d =
     (case validateLines (ci_items input) of
        Inl e \<Rightarrow> (Inl e, d)
      | Inr lines \<Rightarrow> transaction (checkout_body env hook input lines) d)"

end
