(* ===== verification/Checkout_Reserve.thy ===== *)
theory Checkout_Reserve
  imports Checkout
begin

text \<open>
  The stock loop of checkout against its specification: a run over the sorted lines succeeds exactly
  when every product exists and its stock covers the summed demand of all the lines, and then it has
  the effect of one simultaneous update.
\<close>

definition demand :: "CheckoutLine list \<Rightarrow> nat \<Rightarrow> int" where
  "demand lines k = sum_list (map qty (filter (\<lambda>l. num_of (cl_productId l) = k) lines))"

abbreviation drop_stock :: "nat \<Rightarrow> int \<Rightarrow> Product list \<Rightarrow> Product list" where
  "drop_stock k q ps \<equiv> lower_row p_id lower_stock k q ps"

definition take_demand :: "CheckoutLine list \<Rightarrow> Product list \<Rightarrow> Product list" where
  "take_demand lines ps = map (\<lambda>p. p\<lparr>p_stock := p_stock p - demand lines (p_id p)\<rparr>) ps"

definition price_of :: "Product list \<Rightarrow> nat \<Rightarrow> int" where
  "price_of ps k = (case find (\<lambda>p. p_id p = k) ps of Some p \<Rightarrow> p_price p | None \<Rightarrow> 0)"

definition priced_line :: "Product list \<Rightarrow> CheckoutLine \<Rightarrow> event_item" where
  "priced_line ps l = \<lparr>ei_productId = cl_productId l, ei_quantity = qty l,
     ei_unitPrice = price_of ps (num_of (cl_productId l))\<rparr>"

text \<open>The parameters of a line fit their SQL types.\<close>

definition line_fits :: "CheckoutLine \<Rightarrow> bool" where
  "line_fits l \<longleftrightarrow> isId (cl_productId l) \<and> num_of (cl_productId l) \<le> int8_max \<and>
     - int4_max - 1 \<le> qty l \<and> qty l \<le> int4_max"

definition covered :: "CheckoutLine list \<Rightarrow> Product list \<Rightarrow> CheckoutLine \<Rightarrow> bool" where
  "covered lines ps l \<longleftrightarrow> (\<exists>p \<in> set ps. p_id p = num_of (cl_productId l) \<and>
     demand lines (p_id p) \<le> p_stock p)"

definition reservable :: "CheckoutLine list \<Rightarrow> Product list \<Rightarrow> bool" where
  "reservable lines ps \<longleftrightarrow> (\<forall>l \<in> set lines. line_fits l \<and> covered lines ps l)"

section \<open>Demand and the simultaneous update\<close>

lemma demand_Nil [simp]: "demand [] k = 0"
  by (simp add: demand_def)

lemma demand_Cons [simp]:
  "demand (l # ls) k = (if num_of (cl_productId l) = k then qty l else 0) + demand ls k"
  by (simp add: demand_def)

lemma demand_nonneg: "\<forall>l \<in> set lines. 0 < qty l \<Longrightarrow> 0 \<le> demand lines k"
  by (induction lines) auto

lemma demand_zero: "\<forall>l \<in> set lines. num_of (cl_productId l) \<noteq> k \<Longrightarrow> demand lines k = 0"
  by (induction lines) auto

lemma demand_mset:
  assumes "mset xs = mset ys"
  shows "demand xs k = demand ys k"
proof -
  have "mset (map qty (filter (\<lambda>l. num_of (cl_productId l) = k) xs)) =
        mset (map qty (filter (\<lambda>l. num_of (cl_productId l) = k) ys))"
    using assms by simp
  then show ?thesis unfolding demand_def by (metis sum_mset_sum_list)
qed

lemma take_demand_ids [simp]: "map p_id (take_demand lines ps) = map p_id ps"
  by (simp add: take_demand_def)

lemma take_demand_Nil [simp]: "take_demand [] ps = ps"
  by (simp add: take_demand_def)

lemma take_demand_drop:
  "take_demand ls (drop_stock (num_of (cl_productId l)) (qty l) ps) = take_demand (l # ls) ps"
  by (simp add: take_demand_def lower_row_def lower_stock_def)

lemma price_of_drop [simp]: "price_of (drop_stock k q ps) j = price_of ps j"
  unfolding price_of_def lower_row_def lower_stock_def by (induction ps) auto

lemma priced_line_drop [simp]: "priced_line (drop_stock k q ps) l = priced_line ps l"
  by (simp add: priced_line_def)

lemma price_of_member: "distinct (map p_id ps) \<Longrightarrow> p \<in> set ps \<Longrightarrow> price_of ps (p_id p) = p_price p"
  unfolding price_of_def by (induction ps) (auto simp: image_iff)

section \<open>One statement\<close>

lemma take_stock_Inr:
  "take_stock q pid d = (Inr row, d') \<longleftrightarrow>
    isId pid \<and> num_of pid \<le> int8_max \<and> - int4_max - 1 \<le> q \<and> q \<le> int4_max \<and>
    row = map_option p_price (select_one (level_hit p_id p_stock (num_of pid) q) (products d)) \<and>
    d' = d\<lparr>products := update_where (level_hit p_id p_stock (num_of pid) q) (lower_stock q) (products d)\<rparr>"
  by (auto simp: take_stock_def int4_param_def bigint_param_def Let_def split: if_splits)

lemma take_stock_Some:
  assumes dist: "distinct (map p_id (products d))"
  shows "take_stock q pid d = (Inr (Some price), d') \<longleftrightarrow>
    isId pid \<and> num_of pid \<le> int8_max \<and> - int4_max - 1 \<le> q \<and> q \<le> int4_max \<and>
    (\<exists>p \<in> set (products d). level_hit p_id p_stock (num_of pid) q p \<and> price = p_price p) \<and>
    d' = d\<lparr>products := drop_stock (num_of pid) q (products d)\<rparr>"
proof -
  let ?hit = "level_hit p_id p_stock (num_of pid) q"
  let ?new = "update_where ?hit (lower_stock q) (products d)"
  have "Some price = map_option p_price (select_one ?hit (products d)) \<and> d' = d\<lparr>products := ?new\<rparr> \<longleftrightarrow>
      (\<exists>p. (select_one ?hit (products d) = Some p \<and> ?new = ?new) \<and> price = p_price p \<and> d' = d\<lparr>products := ?new\<rparr>)"
    by (cases "select_one ?hit (products d)") auto
  also have "\<dots> \<longleftrightarrow> (\<exists>p. (p \<in> set (products d) \<and> ?hit p \<and> ?new = drop_stock (num_of pid) q (products d))
      \<and> price = p_price p \<and> d' = d\<lparr>products := ?new\<rparr>)"
    unfolding stock.hit_Some [OF dist] ..
  also have "\<dots> \<longleftrightarrow> (\<exists>p \<in> set (products d). ?hit p \<and> price = p_price p) \<and>
      d' = d\<lparr>products := drop_stock (num_of pid) q (products d)\<rparr>"
    using stock.update_hit [OF dist] by auto
  finally show ?thesis unfolding take_stock_Inr by blast
qed

lemma reservable_Cons:
  assumes pos: "\<forall>x \<in> set (l # ls). 0 < qty x" and dist: "distinct (map p_id ps)"
  shows "reservable (l # ls) ps \<longleftrightarrow>
    line_fits l \<and> (\<exists>p \<in> set ps. p_id p = num_of (cl_productId l) \<and> qty l \<le> p_stock p) \<and>
    reservable ls (drop_stock (num_of (cl_productId l)) (qty l) ps)"
proof -
  let ?k = "num_of (cl_productId l)" and ?q = "qty l"
  have nn: "0 \<le> demand ls j" for j using pos by (intro demand_nonneg) simp
  have cov: "covered ls (drop_stock ?k ?q ps) x \<longleftrightarrow> covered (l # ls) ps x" for x
  proof -
    have "covered ls (drop_stock ?k ?q ps) x \<longleftrightarrow>
        (\<exists>p \<in> set ps. p_id p = num_of (cl_productId x) \<and>
           demand ls (p_id p) \<le> (if p_id p = ?k then p_stock p - ?q else p_stock p))"
      unfolding covered_def lower_row_def lower_stock_def set_map bex_simps by (intro bex_cong refl) auto
    also have "\<dots> \<longleftrightarrow> covered (l # ls) ps x"
      unfolding covered_def by (intro bex_cong refl) auto
    finally show ?thesis .
  qed
  have head: "covered (l # ls) ps l \<longleftrightarrow>
      (\<exists>p \<in> set ps. p_id p = ?k \<and> ?q \<le> p_stock p)" if "reservable ls (drop_stock ?k ?q ps)"
  proof
    assume "covered (l # ls) ps l"
    then show "\<exists>p \<in> set ps. p_id p = ?k \<and> ?q \<le> p_stock p"
      using nn [of ?k] unfolding covered_def by fastforce
  next
    assume "\<exists>p \<in> set ps. p_id p = ?k \<and> ?q \<le> p_stock p"
    then obtain p where p: "p \<in> set ps" "p_id p = ?k" "?q \<le> p_stock p" by blast
    show "covered (l # ls) ps l"
    proof (cases "\<exists>x \<in> set ls. num_of (cl_productId x) = ?k")
      case True
      then obtain x where x: "x \<in> set ls" "num_of (cl_productId x) = ?k" by blast
      with that have "covered (l # ls) ps x" by (simp add: reservable_def cov)
      with x show ?thesis by (simp add: covered_def)
    next
      case False
      then have "demand ls ?k = 0" by (intro demand_zero) blast
      with p show ?thesis unfolding covered_def by (intro bexI [of _ p]) auto
    qed
  qed
  have "reservable (l # ls) ps \<longleftrightarrow>
      line_fits l \<and> covered (l # ls) ps l \<and> reservable ls (drop_stock ?k ?q ps)"
    using cov by (auto simp: reservable_def)
  with head show ?thesis by blast
qed

section \<open>The loop\<close>

lemma reserve_Cons_Inr:
  "reserve (l # ls) acc d = (Inr pr, d') \<longleftrightarrow>
     (\<exists>price d1. take_stock (qty l) (cl_productId l) d = (Inr (Some price), d1) \<and>
        reserve ls (acc @ [\<lparr>ei_productId = cl_productId l, ei_quantity = qty l,
                            ei_unitPrice = price\<rparr>]) d1 = (Inr pr, d'))"
  by (auto split: option.splits)

declare reserve.simps(2) [simp del]

theorem reserve_iff:
  assumes "distinct (map p_id (products d))" and "\<forall>l \<in> set lines. 0 < qty l"
  shows "reserve lines acc d = (Inr pr, d') \<longleftrightarrow>
    reservable lines (products d) \<and>
    pr = acc @ map (priced_line (products d)) lines \<and>
    d' = d\<lparr>products := take_demand lines (products d)\<rparr>"
  using assms
proof (induction lines arbitrary: acc d)
  case Nil
  then show ?case by (auto simp: reservable_def)
next
  case (Cons l ls)
  let ?k = "num_of (cl_productId l)"
  let ?d1 = "d\<lparr>products := drop_stock ?k (qty l) (products d)\<rparr>"
  let ?item = "\<lambda>price. \<lparr>ei_productId = cl_productId l, ei_quantity = qty l, ei_unitPrice = price\<rparr>"
  have IH: "reserve ls acc' ?d1 = (Inr pr, d') \<longleftrightarrow>
      reservable ls (products ?d1) \<and> pr = acc' @ map (priced_line (products ?d1)) ls \<and>
      d' = ?d1\<lparr>products := take_demand ls (products ?d1)\<rparr>" for acc'
    by (rule Cons.IH) (use Cons.prems in simp_all)
  have price: "p_price p = price_of (products d) ?k" if "p \<in> set (products d)" "p_id p = ?k" for p
    using price_of_member [OF Cons.prems(1) that(1)] that(2) by simp
  have "reserve (l # ls) acc d = (Inr pr, d') \<longleftrightarrow>
      line_fits l \<and> (\<exists>p \<in> set (products d). level_hit p_id p_stock ?k (qty l) p \<and>
        reserve ls (acc @ [?item (p_price p)]) ?d1 = (Inr pr, d'))"
    unfolding reserve_Cons_Inr take_stock_Some [OF Cons.prems(1)] line_fits_def by auto
  also have "\<dots> \<longleftrightarrow> line_fits l \<and> (\<exists>p \<in> set (products d). level_hit p_id p_stock ?k (qty l) p) \<and>
      reserve ls (acc @ [?item (price_of (products d) ?k)]) ?d1 = (Inr pr, d')"
    using price by (auto simp: level_hit_def)
  also have "\<dots> \<longleftrightarrow> reservable (l # ls) (products d) \<and>
      pr = acc @ map (priced_line (products d)) (l # ls) \<and>
      d' = d\<lparr>products := take_demand (l # ls) (products d)\<rparr>"
    unfolding IH reservable_Cons [OF Cons.prems(2,1)]
    by (auto simp: take_demand_drop priced_line_def level_hit_def)
  finally show ?case .
qed


section \<open>Errors of the loop\<close>

text \<open>Why a line makes the loop throw: a parameter that does not fit, no such product, or stock that
  the summed demand exceeds.\<close>

definition line_fault :: "CheckoutLine list \<Rightarrow> Product list \<Rightarrow> js_error \<Rightarrow> CheckoutLine \<Rightarrow> bool" where
  "line_fault lines ps e l \<longleftrightarrow>
     e = CheckoutError PRODUCT_NOT_FOUND (Some (cl_productId l)) \<and>
       num_of (cl_productId l) \<notin> p_id ` set ps \<or>
     e = CheckoutError OUT_OF_STOCK (Some (cl_productId l)) \<and>
       (\<exists>p \<in> set ps. p_id p = num_of (cl_productId l) \<and> p_stock p < demand lines (p_id p)) \<or>
     (\<exists>q. e = QueryFailedError q) \<and> \<not> line_fits l"

lemma take_stock_Inl: "take_stock q pid d = (Inl e, d') \<Longrightarrow>
    d' = d \<and> (e = out_of_range \<or> e = invalid_text) \<and>
    \<not> (isId pid \<and> num_of pid \<le> int8_max \<and> - int4_max - 1 \<le> q \<and> q \<le> int4_max)"
  by (auto simp: take_stock_def andThen_Inl int4_param_def bigint_param_def Let_def split: if_splits)

lemma product_found_Inr: "product_found pid d = (Inr found, d') \<Longrightarrow>
    d' = d \<and> (found \<longleftrightarrow> num_of pid \<in> p_id ` set (products d))"
  by (auto simp: product_found_def bigint_param_def split: if_splits)

lemma line_fault_drop:
  assumes "line_fault ls (drop_stock (num_of (cl_productId l)) (qty l) ps) e x"
  shows "line_fault (l # ls) ps e x"
proof -
  let ?qs = "drop_stock (num_of (cl_productId l)) (qty l) ps"
  have ids: "p_id ` set ?qs = p_id ` set ps"
    by (metis list.set_map stock.ids_lower_row)
  have "\<exists>p \<in> set ps. p_id p = k \<and> p_stock p < demand (l # ls) (p_id p)"
    if ex: "\<exists>p \<in> set ?qs. p_id p = k \<and> p_stock p < demand ls (p_id p)" for k
  proof -
    from ex obtain p where "p \<in> set ps" "p_id p = k"
      "p_stock (if p_id p = num_of (cl_productId l) then lower_stock (qty l) p else p) < demand ls k"
      unfolding lower_row_def set_map by (auto simp: lower_stock_def split: if_splits)
    then show ?thesis by (intro bexI [of _ p]) (auto simp: lower_stock_def split: if_splits)
  qed
  with assms show ?thesis unfolding line_fault_def ids by blast
qed

lemma reserve_Inl:
  assumes "reserve lines acc d = (Inl e, d')" and "distinct (map p_id (products d))"
    and "\<forall>l \<in> set lines. 0 < qty l"
  shows "\<exists>l \<in> set lines. line_fault lines (products d) e l"
  using assms
proof (induction lines arbitrary: acc d)
  case Nil
  then show ?case by simp
next
  case (Cons l ls)
  let ?k = "num_of (cl_productId l)"
  have nn: "0 \<le> demand ls ?k" using Cons.prems(3) by (intro demand_nonneg) simp
  from Cons.prems(1) consider
      (params) "take_stock (qty l) (cl_productId l) d = (Inl e, d')"
    | (missing) d1 where "take_stock (qty l) (cl_productId l) d = (Inr None, d1)"
        "andThen (product_found (cl_productId l)) (\<lambda>found.
           throw (CheckoutError (if found then OUT_OF_STOCK else PRODUCT_NOT_FOUND)
             (Some (cl_productId l)))) d1 = ((Inl e, d') :: event_item list result \<times> db)"
    | (rest) price d1 where "take_stock (qty l) (cl_productId l) d = (Inr (Some price), d1)"
        "reserve ls (acc @ [\<lparr>ei_productId = cl_productId l, ei_quantity = qty l,
           ei_unitPrice = price\<rparr>]) d1 = (Inl e, d')"
  proof -
    obtain r d1 where ts: "take_stock (qty l) (cl_productId l) d = (r, d1)" by fastforce
    consider e' where "r = Inl e'" | "r = Inr None" | price where "r = Inr (Some price)"
      by (metis not_Some_eq sum.exhaust)
    then show ?thesis
    proof cases
      case 1
      with Cons.prems(1) ts show ?thesis by (intro params) (simp add: reserve.simps(2) andThen_stop)
    next
      case 2
      with Cons.prems(1) ts show ?thesis
        by (intro missing) (simp_all add: reserve.simps(2) andThen_def [where m = "take_stock (qty l) (cl_productId l)"])
    next
      case 3
      with Cons.prems(1) ts show ?thesis
        by (intro rest) (simp_all add: reserve.simps(2) andThen_def [where m = "take_stock (qty l) (cl_productId l)"])
    qed
  qed
  then show ?case
  proof cases
    case params
    then have "line_fault (l # ls) (products d) e l"
      by (auto dest!: take_stock_Inl simp: out_of_range_def invalid_text_def line_fits_def line_fault_def)
    then show ?thesis by simp
  next
    case missing
    from missing(1) have none: "select_one (level_hit p_id p_stock ?k (qty l)) (products d) = None"
      and d1: "d1 = d" and fits: "isId (cl_productId l)" "?k \<le> int8_max"
      by (auto simp: take_stock_Inr stock.hit_None)
    have "e = CheckoutError (if ?k \<in> p_id ` set (products d) then OUT_OF_STOCK else PRODUCT_NOT_FOUND)
        (Some (cl_productId l))"
      using missing(2) fits unfolding d1
      by (auto simp: andThen_Inl product_found_def bigint_param_def)
    moreover have "?k \<notin> p_id ` set (products d) \<or>
        (\<exists>p \<in> set (products d). p_id p = ?k \<and> p_stock p < demand (l # ls) (p_id p))"
      using none nn unfolding stock.hit_None_iff [OF Cons.prems(2)] by fastforce
    ultimately have "line_fault (l # ls) (products d) e l" unfolding line_fault_def
      by (cases "?k \<in> p_id ` set (products d)") simp_all
    then show ?thesis by simp
  next
    case rest
    from rest(1) have d1: "d1 = d\<lparr>products := drop_stock ?k (qty l) (products d)\<rparr>"
      by (simp add: take_stock_Some [OF Cons.prems(2)])
    have "\<exists>x \<in> set ls. line_fault ls (products d1) e x"
      by (rule Cons.IH [OF rest(2)]) (use Cons.prems d1 in simp_all)
    then show ?thesis unfolding d1 by (auto intro: line_fault_drop)
  qed
qed

end
