(* ===== verification/Checkout_Facts.thy ===== *)
theory Checkout_Facts
  imports Checkout_Reserve
begin

text \<open>
  The whole checkout transaction against its specification: when it succeeds, the state it leaves,
  the error it throws otherwise, and the invariants it keeps.
\<close>

section \<open>The specification\<close>

definition line_amount :: "Product list \<Rightarrow> CheckoutLine \<Rightarrow> int" where
  "line_amount ps l = qty l * price_of ps (num_of (cl_productId l))"

definition amount_of :: "CheckoutLine list \<Rightarrow> Product list \<Rightarrow> int" where
  "amount_of items ps = sum_list (map (line_amount ps) items)"

definition sorted_lines :: "CheckoutLine list \<Rightarrow> CheckoutLine list" where
  "sorted_lines items = sort_key (\<lambda>item. js_Number (cl_productId item)) items"

definition valid_lines :: "CheckoutLine list \<Rightarrow> bool" where
  "valid_lines items \<longleftrightarrow> items \<noteq> [] \<and> (\<forall>item \<in> set items. is_integer (cl_quantity item) \<and> 0 < qty item)"

definition key_free :: "tx_env \<Rightarrow> CheckoutInput \<Rightarrow> db \<Rightarrow> bool" where
  "key_free env input d \<longleftrightarrow> (\<forall>r \<in> set (orders d). o_userId r = num_of (ci_userId input) \<longrightarrow>
     o_createdAt r \<noteq> tx_now env \<and>
     (ci_idempotencyKey input = None \<or> o_idempotencyKey r \<noteq> ci_idempotencyKey input))"

definition can_pay :: "CheckoutInput \<Rightarrow> db \<Rightarrow> bool" where
  "can_pay input d \<longleftrightarrow> isId (ci_userId input) \<and> num_of (ci_userId input) \<le> int8_max \<and>
     amount_of (ci_items input) (products d) \<le> int4_max \<and>
     (\<exists>u \<in> set (users d). level_hit u_id u_balance (num_of (ci_userId input))
        (amount_of (ci_items input) (products d)) u)"

definition checkout_allowed :: "tx_env \<Rightarrow> CheckoutInput \<Rightarrow> db \<Rightarrow> bool" where
  "checkout_allowed env input d \<longleftrightarrow>
     valid_lines (ci_items input) \<and> reservable (ci_items input) (products d) \<and>
     can_pay input d \<and> key_free env input d \<and> tx_uuid env \<notin> x_id ` set (outbox d)"

definition new_order :: "tx_env \<Rightarrow> CheckoutInput \<Rightarrow> db \<Rightarrow> Order" where
  "new_order env input d =
     \<lparr>o_id = sq_order (seqs d), o_userId = num_of (ci_userId input), o_status = paid,
      o_total = amount_of (ci_items input) (products d),
      o_idempotencyKey = ci_idempotencyKey input, o_createdAt = tx_now env\<rparr>"

definition new_priced :: "CheckoutInput \<Rightarrow> db \<Rightarrow> event_item list" where
  "new_priced input d = map (priced_line (products d)) (sorted_lines (ci_items input))"

definition new_items :: "CheckoutInput \<Rightarrow> db \<Rightarrow> OrderItem list" where
  "new_items input d = item_rows (sq_item (seqs d)) (sq_order (seqs d)) (new_priced input d)"

definition new_event :: "tx_env \<Rightarrow> CheckoutInput \<Rightarrow> db \<Rightarrow> OrderPlacedEvent" where
  "new_event env input d = toOrderPlacedEvent
     \<lparr>os_id = dec (sq_order (seqs d)), os_userId = ci_userId input,
      os_total = amount_of (ci_items input) (products d), os_createdAt = tx_now env div 1000,
      os_items = new_priced input d\<rparr>"

definition new_outbox :: "tx_env \<Rightarrow> CheckoutInput \<Rightarrow> db \<Rightarrow> Outbox" where
  "new_outbox env input d =
     \<lparr>x_id = tx_uuid env, x_aggregateType = ''Order'', x_aggregateId = dec (sq_order (seqs d)),
      x_type = ''order.placed'', x_payload = new_event env input d, x_createdAt = tx_now env,
      x_publishedAt = None, x_attempts = 0\<rparr>"

definition new_job :: "tx_env \<Rightarrow> db \<Rightarrow> Job" where
  "new_job env d =
     \<lparr>j_id = sq_job (seqs d), j_queue = ''default'', j_type = ''send_receipt'',
      j_payload = JObj [(''orderId'', JStr (dec (sq_order (seqs d))))],
      j_status = JPending, j_processed = 0, j_attempts = 0, j_lastError = None,
      j_worker = None, j_createdAt = tx_now env, j_processedAt = None\<rparr>"

definition checkout_effect :: "tx_env \<Rightarrow> CheckoutInput \<Rightarrow> db \<Rightarrow> db" where
  "checkout_effect env input d = d\<lparr>
     products := take_demand (ci_items input) (products d),
     users := lower_row u_id lower_balance (num_of (ci_userId input))
                (amount_of (ci_items input) (products d)) (users d),
     orders := orders d @ [new_order env input d],
     orderItems := orderItems d @ new_items input d,
     jobs := jobs d @ [new_job env d],
     outbox := outbox d @ [new_outbox env input d],
     seqs := (seqs d)\<lparr>sq_order := Suc (sq_order (seqs d)),
                      sq_item := sq_item (seqs d) + length (ci_items input),
                      sq_job := Suc (sq_job (seqs d))\<rparr>\<rparr>"

section \<open>Order of the lines does not matter\<close>

lemma mset_sorted_lines [simp]: "mset (sorted_lines items) = mset items"
  by (simp add: sorted_lines_def)

lemma set_sorted_lines [simp]: "set (sorted_lines items) = set items"
  by (simp add: sorted_lines_def)

lemma length_sorted_lines [simp]: "length (sorted_lines items) = length items"
  by (simp add: sorted_lines_def)

lemma demand_sorted [simp]: "demand (sorted_lines items) k = demand items k"
  by (rule demand_mset) simp

lemma reservable_sorted [simp]: "reservable (sorted_lines items) ps = reservable items ps"
  by (simp add: reservable_def covered_def)

lemma take_demand_sorted [simp]: "take_demand (sorted_lines items) ps = take_demand items ps"
  by (simp add: take_demand_def)

lemma order_total_eq: "order_total priced = (\<Sum>l\<leftarrow>priced. ei_quantity l * ei_unitPrice l)"
proof -
  have "foldl (\<lambda>sum line. sum + ei_quantity line * ei_unitPrice line) a priced =
      a + (\<Sum>l\<leftarrow>priced. ei_quantity l * ei_unitPrice l)" for a
    by (induction priced arbitrary: a) simp_all
  then show ?thesis by (simp add: order_total_def)
qed

lemma order_total_priced [simp]:
  "order_total (map (priced_line ps) (sorted_lines items)) = amount_of items ps"
proof -
  have "order_total (map (priced_line ps) (sorted_lines items)) =
      sum_list (map (line_amount ps) (sorted_lines items))"
    by (simp add: order_total_eq comp_def priced_line_def line_amount_def [abs_def])
  also have "\<dots> = sum_mset (mset (map (line_amount ps) (sorted_lines items)))"
    by (simp only: sum_mset_sum_list)
  also have "\<dots> = sum_mset (mset (map (line_amount ps) items))" by simp
  finally show ?thesis by (simp only: sum_mset_sum_list amount_of_def)
qed

lemma validateLines_Inr:
  "validateLines items = Inr lines \<longleftrightarrow> valid_lines items \<and> lines = sorted_lines items"
proof -
  have "(\<exists>item \<in> set items. \<not> is_integer (cl_quantity item) \<or> qty item \<le> 0) \<longleftrightarrow>
      \<not> (\<forall>item \<in> set items. is_integer (cl_quantity item) \<and> 0 < qty item)"
    by (auto simp: not_less)
  then show ?thesis by (auto simp: validateLines_def valid_lines_def sorted_lines_def)
qed

lemma amount_of_nonneg:
  assumes "reservable items ps" and "\<forall>l \<in> set items. 0 < qty l" and "\<forall>p \<in> set ps. 0 < p_price p"
    and "distinct (map p_id ps)"
  shows "0 \<le> amount_of items ps"
proof -
  have "0 \<le> line_amount ps l" if "l \<in> set items" for l
  proof -
    from that assms(1) obtain p where "p \<in> set ps" "p_id p = num_of (cl_productId l)"
      by (auto simp: reservable_def covered_def)
    with assms(3,4) have "0 < price_of ps (num_of (cl_productId l))"
      by (metis price_of_member)
    with that assms(2) show ?thesis by (simp add: line_amount_def less_imp_le)
  qed
  then show ?thesis unfolding amount_of_def by (intro sum_list_nonneg) auto
qed


section \<open>The statements after the loop\<close>

lemma charge_Some:
  assumes dist: "distinct (map u_id (users d))"
  shows "charge t uid d = (Inr (Some b), d') \<longleftrightarrow>
    - int4_max - 1 \<le> t \<and> t \<le> int4_max \<and> isId uid \<and> num_of uid \<le> int8_max \<and>
    (\<exists>u \<in> set (users d). level_hit u_id u_balance (num_of uid) t u \<and> b = u_balance u - t) \<and>
    d' = d\<lparr>users := lower_row u_id lower_balance (num_of uid) t (users d)\<rparr>"
proof -
  let ?hit = "level_hit u_id u_balance (num_of uid) t"
  let ?new = "update_where ?hit (lower_balance t) (users d)"
  have "charge t uid d = (Inr (Some b), d') \<longleftrightarrow>
      - int4_max - 1 \<le> t \<and> t \<le> int4_max \<and> isId uid \<and> num_of uid \<le> int8_max \<and>
      (\<exists>u. (select_one ?hit (users d) = Some u \<and> ?new = ?new) \<and> b = u_balance u - t \<and> d' = d\<lparr>users := ?new\<rparr>)"
    by (cases "select_one ?hit (users d)")
      (auto simp: charge_def int4_param_def bigint_param_def Let_def lower_balance_def split: if_splits)
  also have "\<dots> \<longleftrightarrow> - int4_max - 1 \<le> t \<and> t \<le> int4_max \<and> isId uid \<and> num_of uid \<le> int8_max \<and>
      (\<exists>u. (u \<in> set (users d) \<and> ?hit u \<and> ?new = lower_row u_id lower_balance (num_of uid) t (users d))
        \<and> b = u_balance u - t \<and> d' = d\<lparr>users := ?new\<rparr>)"
    unfolding balance.hit_Some [OF dist] ..
  also have "\<dots> \<longleftrightarrow> - int4_max - 1 \<le> t \<and> t \<le> int4_max \<and> isId uid \<and> num_of uid \<le> int8_max \<and>
      (\<exists>u \<in> set (users d). ?hit u \<and> b = u_balance u - t) \<and>
      d' = d\<lparr>users := lower_row u_id lower_balance (num_of uid) t (users d)\<rparr>"
    using balance.update_hit [OF dist] by auto
  finally show ?thesis .
qed

lemma insert_order_Inr:
  "insert_order now userId st amount key d = (Inr r, d') \<longleftrightarrow>
    isId userId \<and> num_of userId \<le> int8_max \<and> 0 \<le> amount \<and> amount \<le> int4_max \<and>
    num_of userId \<in> u_id ` set (users d) \<and>
    (\<forall>x \<in> set (orders d). o_userId x = num_of userId \<longrightarrow>
       o_createdAt x \<noteq> now \<and> (key = None \<or> o_idempotencyKey x \<noteq> key)) \<and>
    r = \<lparr>o_id = sq_order (seqs d), o_userId = num_of userId, o_status = st, o_total = amount,
         o_idempotencyKey = key, o_createdAt = now\<rparr> \<and>
    d' = d\<lparr>orders := orders d @ [r], seqs := (seqs d)\<lparr>sq_order := Suc (sq_order (seqs d))\<rparr>\<rparr>"
  by (auto simp: insert_order_def bigint_param_def int4_param_def int4_max_def Let_def list_ex_iff
      violation_def split: if_splits)

lemma item_rows_set: "i \<in> set (item_rows k oid ls) \<Longrightarrow>
   \<exists>l \<in> set ls. i_orderId i = oid \<and> i_productId i = num_of (ei_productId l) \<and>
     i_quantity i = ei_quantity l \<and> i_unitPrice i = ei_unitPrice l"
  by (induction k oid ls rule: item_rows.induct) auto

lemma length_item_rows [simp]: "length (item_rows k oid ls) = length ls"
  by (induction k oid ls rule: item_rows.induct) auto

lemma item_rows_ids: "map i_id (item_rows k oid ls) = [k ..< k + length ls]"
  by (induction k oid ls rule: item_rows.induct) (simp_all add: upt_conv_Cons del: upt_Suc)

lemma insert_items_Inr:
  assumes "\<forall>l \<in> set ls. 0 < ei_quantity l \<and> 0 < ei_unitPrice l \<and>
      num_of (ei_productId l) \<in> p_id ` set (products d)"
    and "oid \<in> o_id ` set (orders d)"
  shows "insert_items oid ls d =
    (Inr (), d\<lparr>orderItems := orderItems d @ item_rows (sq_item (seqs d)) oid ls,
               seqs := (seqs d)\<lparr>sq_item := sq_item (seqs d) + length ls\<rparr>\<rparr>)"
proof -
  have ok: "0 < i_quantity i \<and> 0 < i_unitPrice i \<and> i_productId i \<in> p_id ` set (products d)"
    if "i \<in> set (item_rows (sq_item (seqs d)) oid ls)" for i
    using item_rows_set [OF that] assms(1) by auto
  then have "\<not> list_ex (\<lambda>i. i_quantity i \<le> 0) (item_rows (sq_item (seqs d)) oid ls)"
    and "\<not> list_ex (\<lambda>i. i_unitPrice i \<le> 0) (item_rows (sq_item (seqs d)) oid ls)"
    and "\<not> list_ex (\<lambda>i. i_productId i \<notin> p_id ` set (products d)) (item_rows (sq_item (seqs d)) oid ls)"
    by (auto simp: list_ex_iff not_le)
  with assms(2) show ?thesis by (simp add: insert_items_def Let_def)
qed

lemma insert_outbox_Inr:
  "insert_outbox now uuid at ai ev d = (Inr x, d') \<longleftrightarrow> uuid \<notin> x_id ` set (outbox d) \<and>
    d' = d\<lparr>outbox := outbox d @ [\<lparr>x_id = uuid, x_aggregateType = at, x_aggregateId = ai,
      x_type = ev_type ev, x_payload = ev, x_createdAt = now, x_publishedAt = None, x_attempts = 0\<rparr>]\<rparr>"
  by (auto simp: insert_outbox_def)

lemma insert_job_Inr:
  "insert_job now type payload d = (Inr x, d') \<longleftrightarrow>
    d' = d\<lparr>jobs := jobs d @ [\<lparr>j_id = sq_job (seqs d), j_queue = ''default'', j_type = type,
      j_payload = payload, j_status = JPending, j_processed = 0, j_attempts = 0, j_lastError = None,
      j_worker = None, j_createdAt = now, j_processedAt = None\<rparr>],
      seqs := (seqs d)\<lparr>sq_job := Suc (sq_job (seqs d))\<rparr>\<rparr>"
  by (auto simp: insert_job_def Let_def)


section \<open>Success\<close>

text \<open>What a checkout relies on of the tables it finds: product and user ids are keys, and products are priced.\<close>

definition stock_ok :: "db \<Rightarrow> bool" where
  "stock_ok d \<longleftrightarrow> distinct (map p_id (products d)) \<and> distinct (map u_id (users d)) \<and> (\<forall>p \<in> set (products d). product_ok p)"

lemma stock_okD:
  assumes "stock_ok d"
  shows "distinct (map p_id (products d))" and "distinct (map u_id (users d))"
    and "\<And>p. p \<in> set (products d) \<Longrightarrow> product_ok p"
  using assms by (simp_all add: stock_ok_def)

lemma db_ok_stock: "db_ok d \<Longrightarrow> stock_ok d"
  by (simp add: stock_ok_def db_okD)

lemma stock_ok_seqs [simp]: "stock_ok (d\<lparr>seqs := q\<rparr>) = stock_ok d"
  by (simp add: stock_ok_def)

text \<open>The products and prices of a reservable cart, after its stock has been taken.\<close>

lemma take_demand_key [simp]: "p_id ` set (take_demand items ps) = p_id ` set ps"
  by (metis list.set_map take_demand_ids)

lemma new_priced_ok_stock:
  assumes "stock_ok d" and "valid_lines items" and "reservable items (products d)"
  shows "\<forall>l \<in> set (map (priced_line (products d)) (sorted_lines items)).
    0 < ei_quantity l \<and> 0 < ei_unitPrice l \<and> num_of (ei_productId l) \<in> p_id ` set (products d)"
proof
  fix x assume "x \<in> set (map (priced_line (products d)) (sorted_lines items))"
  then obtain l where l: "l \<in> set items" and x: "x = priced_line (products d) l" by auto
  from assms(3) l obtain p where p: "p \<in> set (products d)" "p_id p = num_of (cl_productId l)"
    by (auto simp: reservable_def covered_def)
  then have "price_of (products d) (num_of (cl_productId l)) = p_price p"
    using price_of_member [OF stock_okD(1) [OF assms(1)]] by metis
  moreover have "0 < p_price p" using stock_okD(3) [OF assms(1) p(1)] by (simp add: product_ok_def)
  ultimately show "0 < ei_quantity x \<and> 0 < ei_unitPrice x \<and> num_of (ei_productId x) \<in> p_id ` set (products d)"
    using assms(2) l imageI [OF p(1), of p_id] unfolding x priced_line_def valid_lines_def p(2) by simp
qed

lemma amount_nonneg_stock:
  assumes "stock_ok d" and "valid_lines items" and "reservable items (products d)"
  shows "0 \<le> amount_of items (products d)"
proof (rule amount_of_nonneg [OF assms(3)])
  show "\<forall>l \<in> set items. 0 < qty l" using assms(2) by (simp add: valid_lines_def)
  show "\<forall>p \<in> set (products d). 0 < p_price p"
    using stock_okD(3) [OF assms(1)] by (simp add: product_ok_def)
  show "distinct (map p_id (products d))" by (rule stock_okD(1) [OF assms(1)])
qed

lemmas new_priced_ok = new_priced_ok_stock [OF db_ok_stock]

lemmas amount_nonneg = amount_nonneg_stock [OF db_ok_stock]

lemma charge_after_reserve:
  assumes "distinct (map u_id (users d))"
  shows "charge t uid (d\<lparr>products := ps\<rparr>) = (Inr (Some b), d') \<longleftrightarrow>
    - int4_max - 1 \<le> t \<and> t \<le> int4_max \<and> isId uid \<and> num_of uid \<le> int8_max \<and>
    (\<exists>u \<in> set (users d). level_hit u_id u_balance (num_of uid) t u \<and> b = u_balance u - t) \<and>
    d' = d\<lparr>products := ps, users := lower_row u_id lower_balance (num_of uid) t (users d)\<rparr>"
  by (subst charge_Some) (use assms in auto)

text \<open>What follows the charge: only the unique keys and the hook can stop it.\<close>

definition record_sale ::
  "tx_env \<Rightarrow> js_error option \<Rightarrow> CheckoutInput \<Rightarrow> event_item list \<Rightarrow> (db, CheckoutResult) action" where
  "record_sale env hook input priced =
     andThen (insert_order (tx_now env) (ci_userId input) paid (order_total priced)
                (ci_idempotencyKey input)) (\<lambda>order.
     andThen (insert_items (o_id order) priced) (\<lambda>_.
     andThen (insert_job (tx_now env) ''send_receipt''
               (JObj [(''orderId'', JStr (dec (o_id order)))])) (\<lambda>_.
     andThen (insert_outbox (tx_now env) (tx_uuid env) ORDER_AGGREGATE_TYPE (dec (o_id order))
                (toOrderPlacedEvent \<lparr>os_id = dec (o_id order), os_userId = ci_userId input,
                   os_total = order_total priced, os_createdAt = o_createdAt order div 1000,
                   os_items = priced\<rparr>)) (\<lambda>_.
     case hook of
       Some e \<Rightarrow> throw e
     | None \<Rightarrow> return \<lparr>cr_orderId = dec (o_id order), cr_total = order_total priced\<rparr>))))"

lemma checkout_body_eq:
  "checkout_body env hook input lines =
     andThen (reserve lines []) (\<lambda>priced.
     andThen (charge (order_total priced) (ci_userId input)) (\<lambda>charged.
     if charged = None then
       andThen (user_found (ci_userId input)) (\<lambda>found.
         throw (CheckoutError (if found then INSUFFICIENT_FUNDS else USER_NOT_FOUND) None))
     else record_sale env hook input priced))"
  unfolding checkout_body_def record_sale_def Let_def ..


lemma record_sale_Inr:
  assumes priced: "\<forall>l \<in> set priced. 0 < ei_quantity l \<and> 0 < ei_unitPrice l \<and>
      num_of (ei_productId l) \<in> p_id ` set (products d)"
    and user: "num_of (ci_userId input) \<in> u_id ` set (users d)"
    and fits: "isId (ci_userId input)" "num_of (ci_userId input) \<le> int8_max"
      "0 \<le> order_total priced" "order_total priced \<le> int4_max"
  shows "record_sale env hook input priced d = (Inr res, d') \<longleftrightarrow>
    hook = None \<and> key_free env input d \<and> tx_uuid env \<notin> x_id ` set (outbox d) \<and>
    res = \<lparr>cr_orderId = dec (sq_order (seqs d)), cr_total = order_total priced\<rparr> \<and>
    d' = (let oid = sq_order (seqs d);
              row = \<lparr>o_id = oid, o_userId = num_of (ci_userId input), o_status = paid,
                     o_total = order_total priced, o_idempotencyKey = ci_idempotencyKey input,
                     o_createdAt = tx_now env\<rparr>;
              ev = toOrderPlacedEvent \<lparr>os_id = dec oid, os_userId = ci_userId input,
                     os_total = order_total priced, os_createdAt = tx_now env div 1000,
                     os_items = priced\<rparr>
          in d\<lparr>orders := orders d @ [row],
               orderItems := orderItems d @ item_rows (sq_item (seqs d)) oid priced,
               jobs := jobs d @ [\<lparr>j_id = sq_job (seqs d), j_queue = ''default'',
                 j_type = ''send_receipt'', j_payload = JObj [(''orderId'', JStr (dec oid))],
                 j_status = JPending, j_processed = 0, j_attempts = 0, j_lastError = None,
                 j_worker = None, j_createdAt = tx_now env, j_processedAt = None\<rparr>],
               outbox := outbox d @ [\<lparr>x_id = tx_uuid env, x_aggregateType = ''Order'',
                 x_aggregateId = dec oid, x_type = ''order.placed'', x_payload = ev,
                 x_createdAt = tx_now env, x_publishedAt = None, x_attempts = 0\<rparr>],
               seqs := (seqs d)\<lparr>sq_order := Suc (sq_order (seqs d)),
                 sq_item := sq_item (seqs d) + length priced, sq_job := Suc (sq_job (seqs d))\<rparr>\<rparr>)"
    (is "_ \<longleftrightarrow> ?rhs")
proof -
  let ?row = "\<lparr>o_id = sq_order (seqs d), o_userId = num_of (ci_userId input), o_status = paid,
    o_total = order_total priced, o_idempotencyKey = ci_idempotencyKey input, o_createdAt = tx_now env\<rparr>"
  let ?d1 = "d\<lparr>orders := orders d @ [?row], seqs := (seqs d)\<lparr>sq_order := Suc (sq_order (seqs d))\<rparr>\<rparr>"
  have items: "insert_items (o_id ?row) priced ?d1 = (Inr (), ?d1\<lparr>orderItems := orderItems ?d1 @
      item_rows (sq_item (seqs ?d1)) (o_id ?row) priced,
      seqs := (seqs ?d1)\<lparr>sq_item := sq_item (seqs ?d1) + length priced\<rparr>\<rparr>)"
    by (rule insert_items_Inr) (use priced in auto)
  have order: "insert_order (tx_now env) (ci_userId input) paid (order_total priced)
      (ci_idempotencyKey input) d = (Inr r, d1) \<longleftrightarrow> key_free env input d \<and> r = ?row \<and> d1 = ?d1" for r d1
    using user fits by (auto simp: insert_order_Inr key_free_def)
  show ?thesis
    unfolding record_sale_def andThen_Inr order
    using items
    by (auto simp: insert_job_Inr insert_outbox_Inr toOrderPlacedEvent_def ORDER_PLACED_TYPE_def
        ORDER_AGGREGATE_TYPE_def Let_def split: option.splits)
qed


text \<open>
  Checkout succeeds exactly when the specification allows it, and then leaves exactly the state the
  specification describes: the per-line guarded updates are one simultaneous update.
\<close>

lemma checkout_Inr_stock:
  assumes ok: "stock_ok d"
  shows "checkout env hook input d = (Inr res, d') \<longleftrightarrow>
    hook = None \<and> checkout_allowed env input d \<and>
    res = \<lparr>cr_orderId = dec (sq_order (seqs d)), cr_total = amount_of (ci_items input) (products d)\<rparr> \<and>
    d' = checkout_effect env input d"
proof (cases "valid_lines (ci_items input) \<and> reservable (ci_items input) (products d)")
  case False
  have "checkout env hook input d \<noteq> (Inr res, d')"
  proof
    assume run: "checkout env hook input d = (Inr res, d')"
    then have v: "validateLines (ci_items input) = Inr (sorted_lines (ci_items input))"
      and val: "valid_lines (ci_items input)"
      by (auto simp: checkout_def validateLines_Inr split: sum.splits)
    from run v obtain pr d1 where "reserve (sorted_lines (ci_items input)) [] d = (Inr pr, d1)"
      by (auto simp: checkout_def transaction_Inr checkout_body_eq)
    then have "reservable (ci_items input) (products d)"
      using val reserve_iff [OF stock_okD(1) [OF ok]] by (auto simp: valid_lines_def)
    with False val show False by simp
  qed
  with False show ?thesis by (auto simp: checkout_allowed_def)
next
  case True
  let ?items = "ci_items input" and ?priced = "new_priced input d"
  let ?amount = "amount_of ?items (products d)" and ?uid = "ci_userId input"
  let ?d2 = "d\<lparr>products := take_demand ?items (products d),
    users := lower_row u_id lower_balance (num_of ?uid) ?amount (users d)\<rparr>"
  have v: "validateLines ?items = Inr (sorted_lines ?items)"
    using True by (simp add: validateLines_Inr)
  have res: "reserve (sorted_lines ?items) [] d = (Inr pr, d1) \<longleftrightarrow>
      pr = ?priced \<and> d1 = d\<lparr>products := take_demand ?items (products d)\<rparr>" for pr d1
    using True reserve_iff [OF stock_okD(1) [OF ok], of "sorted_lines ?items"]
    by (auto simp: valid_lines_def new_priced_def)
  have total: "order_total ?priced = ?amount" by (simp add: new_priced_def)
  have nn: "0 \<le> ?amount" using True by (intro amount_nonneg_stock [OF ok]) auto
  have pay: "(\<exists>b. charge ?amount ?uid (d\<lparr>products := take_demand ?items (products d)\<rparr>) = (Inr (Some b), d2)) \<longleftrightarrow>
      can_pay input d \<and> d2 = ?d2" for d2
    unfolding charge_after_reserve [OF stock_okD(2) [OF ok]] can_pay_def using nn
    by (auto simp: int4_max_def)
  have run: "checkout env hook input d = (Inr res, d') \<longleftrightarrow>
      can_pay input d \<and> record_sale env hook input ?priced ?d2 = (Inr res, d')"
  proof -
    let ?d1 = "d\<lparr>products := take_demand ?items (products d)\<rparr>"
    have paid: "(if c = None then andThen (user_found ?uid) (\<lambda>found.
          throw (CheckoutError (if found then INSUFFICIENT_FUNDS else USER_NOT_FOUND) None))
        else record_sale env hook input ?priced) d2 = (Inr res, d') \<longleftrightarrow>
        c \<noteq> None \<and> record_sale env hook input ?priced d2 = (Inr res, d')" for c d2
      by auto
    have "checkout env hook input d = (Inr res, d') \<longleftrightarrow>
        (\<exists>pr d1. (pr = ?priced \<and> d1 = ?d1) \<and> (\<exists>c d2. charge (order_total pr) ?uid d1 = (Inr c, d2) \<and>
          (if c = None then andThen (user_found ?uid) (\<lambda>found.
             throw (CheckoutError (if found then INSUFFICIENT_FUNDS else USER_NOT_FOUND) None))
           else record_sale env hook input pr) d2 = (Inr res, d')))"
      unfolding checkout_def v sum.case transaction_Inr checkout_body_eq andThen_Inr res ..
    also have "\<dots> \<longleftrightarrow> (\<exists>c d2. charge ?amount ?uid ?d1 = (Inr c, d2) \<and> c \<noteq> None \<and>
        record_sale env hook input ?priced d2 = (Inr res, d'))"
      unfolding ex_two total paid ..
    also have "\<dots> \<longleftrightarrow> (\<exists>d2. (\<exists>b. charge ?amount ?uid ?d1 = (Inr (Some b), d2)) \<and>
        record_sale env hook input ?priced d2 = (Inr res, d'))"
      by (metis not_None_eq)
    also have "\<dots> \<longleftrightarrow> can_pay input d \<and> record_sale env hook input ?priced ?d2 = (Inr res, d')"
      unfolding pay by blast
    finally show ?thesis .
  qed
  show ?thesis
  proof (cases "can_pay input d")
    case False
    with run show ?thesis by (simp add: checkout_allowed_def)
  next
    case pays: True
    have user: "num_of ?uid \<in> u_id ` set (users ?d2)"
    proof -
      from pays obtain u where "u \<in> set (users d)" "u_id u = num_of ?uid"
        by (auto simp: can_pay_def level_hit_def)
      moreover have "u_id ` set (users ?d2) = u_id ` set (users d)"
        by (metis balance.ids_lower_row db.select_convs(1) db.surjective db.update_convs(1) list.set_map)
      ultimately show ?thesis by (metis image_eqI)
    qed
    have priced: "\<forall>l \<in> set ?priced. 0 < ei_quantity l \<and> 0 < ei_unitPrice l \<and>
        num_of (ei_productId l) \<in> p_id ` set (products ?d2)"
      using new_priced_ok_stock [OF ok, of ?items] True by (simp add: new_priced_def)
    have fits: "isId ?uid" "num_of ?uid \<le> int8_max" "0 \<le> order_total ?priced"
      "order_total ?priced \<le> int4_max"
      using pays nn by (simp_all add: can_pay_def total)
    have "record_sale env hook input ?priced ?d2 = (Inr res, d') \<longleftrightarrow>
        hook = None \<and> key_free env input d \<and> tx_uuid env \<notin> x_id ` set (outbox d) \<and>
        res = \<lparr>cr_orderId = dec (sq_order (seqs d)), cr_total = ?amount\<rparr> \<and>
        d' = checkout_effect env input d"
      unfolding record_sale_Inr [OF priced user fits]
      by (simp add: key_free_def Let_def total checkout_effect_def new_order_def
          new_items_def new_job_def new_outbox_def new_event_def new_priced_def)
    with run pays True show ?thesis by (auto simp: checkout_allowed_def)
  qed
qed

lemmas checkout_Inr = checkout_Inr_stock [OF db_ok_stock]


section \<open>Failure\<close>

text \<open>Everything a transaction can have drawn from the sequences stays drawn.\<close>

definition seqs_le :: "db \<Rightarrow> db \<Rightarrow> bool" where
  "seqs_le d d' \<longleftrightarrow> sq_product (seqs d) \<le> sq_product (seqs d') \<and> sq_order (seqs d) \<le> sq_order (seqs d') \<and>
     sq_item (seqs d) \<le> sq_item (seqs d') \<and> sq_job (seqs d) \<le> sq_job (seqs d') \<and>
     sq_receipt (seqs d) \<le> sq_receipt (seqs d')"

lemma seqs_le_refl: "reflp seqs_le"
  by (simp add: reflp_def seqs_le_def)

lemma seqs_le_trans: "transp seqs_le"
  by (auto simp: transp_def seqs_le_def)

lemmas seqs_steps = steps_by_return [OF seqs_le_refl] steps_by_throw [OF seqs_le_refl]
  steps_by_lift [OF seqs_le_refl] steps_by_andThen [OF seqs_le_trans]

lemma seqs_take_stock: "steps_by seqs_le (take_stock q pid)"
  unfolding take_stock_def by (intro seqs_steps) (auto simp: steps_by_def seqs_le_def Let_def)

lemma seqs_product_found: "steps_by seqs_le (product_found pid)"
  unfolding product_found_def by (intro seqs_steps) (auto simp: steps_by_def seqs_le_def)

lemma seqs_reserve: "steps_by seqs_le (reserve lines priced)"
proof (induction lines arbitrary: priced)
  case Nil
  then show ?case by (simp add: seqs_steps)
next
  case (Cons l ls)
  show ?case unfolding reserve.simps
    by (intro seqs_steps seqs_take_stock)
      (auto intro!: seqs_steps seqs_product_found Cons.IH split: option.split)
qed

lemma seqs_charge: "steps_by seqs_le (charge t uid)"
  unfolding charge_def by (intro seqs_steps) (auto simp: steps_by_def seqs_le_def Let_def)

lemma seqs_user_found: "steps_by seqs_le (user_found uid)"
  unfolding user_found_def by (intro seqs_steps) (auto simp: steps_by_def seqs_le_def)

lemma seqs_insert_order: "steps_by seqs_le (insert_order now uid st amount key)"
  unfolding insert_order_def
  by (intro seqs_steps) (auto simp: steps_by_def seqs_le_def Let_def split: if_splits)

lemma seqs_insert_items: "steps_by seqs_le (insert_items oid ls)"
  by (auto simp: steps_by_def seqs_le_def insert_items_def Let_def split: if_splits)

lemma seqs_insert_job: "steps_by seqs_le (insert_job now type payload)"
  by (auto simp: steps_by_def seqs_le_def insert_job_def Let_def)

lemma seqs_insert_outbox: "steps_by seqs_le (insert_outbox now uuid at ai ev)"
  by (auto simp: steps_by_def seqs_le_def insert_outbox_def split: if_splits)

lemma seqs_checkout_body: "steps_by seqs_le (checkout_body env hook input lines)"
  unfolding checkout_body_eq record_sale_def
  by (intro seqs_steps seqs_reserve seqs_charge)
    (auto intro!: seqs_steps seqs_user_found seqs_insert_order seqs_insert_items seqs_insert_job
      seqs_insert_outbox split: option.split)

text \<open>A failed checkout changes no table.\<close>

lemma checkout_rollback:
  assumes "checkout env hook input d = (Inl e, d')"
  shows "d' = d\<lparr>seqs := seqs d'\<rparr>" and "seqs_le d d'"
proof -
  have "d' = d\<lparr>seqs := seqs d'\<rparr> \<and> seqs_le d d'"
  proof (cases "validateLines (ci_items input)")
    case (Inl e')
    with assms show ?thesis by (auto simp: checkout_def seqs_le_def)
  next
    case (Inr lines)
    with assms obtain d'' where run: "checkout_body env hook input lines d = (Inl e, d'')"
      and d': "d' = d\<lparr>seqs := seqs d''\<rparr>"
      by (auto simp: checkout_def transaction_Inl)
    from steps_byD [OF seqs_checkout_body run] d' show ?thesis by (simp add: seqs_le_def)
  qed
  then show "d' = d\<lparr>seqs := seqs d'\<rparr>" and "seqs_le d d'" by simp_all
qed

end
