(* ===== verification/Checkout_Ledger.thy ===== *)
theory Checkout_Ledger
  imports Checkout_Facts
begin

text \<open>
  What checkout keeps: the constraints of the schema, the stock ledger (stock plus sold quantity),
  the money ledger (balance plus order totals), and the agreement of an order with its items and
  with its outbox event.
\<close>

section \<open>Ledgers\<close>

definition stock_of :: "db \<Rightarrow> nat \<Rightarrow> int" where
  "stock_of d k = (case find (\<lambda>p. p_id p = k) (products d) of Some p \<Rightarrow> p_stock p | None \<Rightarrow> 0)"

definition balance_of :: "db \<Rightarrow> nat \<Rightarrow> int" where
  "balance_of d k = (case find (\<lambda>u. u_id u = k) (users d) of Some u \<Rightarrow> u_balance u | None \<Rightarrow> 0)"

definition sold :: "db \<Rightarrow> nat \<Rightarrow> int" where
  "sold d k = (\<Sum>i\<leftarrow>filter (\<lambda>i. i_productId i = k) (orderItems d). i_quantity i)"

definition spent :: "db \<Rightarrow> nat \<Rightarrow> int" where
  "spent d k = (\<Sum>r\<leftarrow>filter (\<lambda>r. o_userId r = k) (orders d). o_total r)"

definition items_of :: "db \<Rightarrow> nat \<Rightarrow> OrderItem list" where
  "items_of d oid = filter (\<lambda>i. i_orderId i = oid) (orderItems d)"

definition items_total :: "OrderItem list \<Rightarrow> int" where
  "items_total is = (\<Sum>i\<leftarrow>is. i_quantity i * i_unitPrice i)"

text \<open>Every order's total is the sum over its own items.\<close>

definition totals_ok :: "db \<Rightarrow> bool" where
  "totals_ok d \<longleftrightarrow> (\<forall>r \<in> set (orders d). o_total r = items_total (items_of d (o_id r)))"

section \<open>The new rows\<close>

lemma map_item_rows:
  "map i_quantity (item_rows k oid ls) = map ei_quantity ls"
  "map i_unitPrice (item_rows k oid ls) = map ei_unitPrice ls"
  "map i_productId (item_rows k oid ls) = map (num_of \<circ> ei_productId) ls"
  "map i_orderId (item_rows k oid ls) = map (\<lambda>_. oid) ls"
  by (induction k oid ls rule: item_rows.induct) auto

lemma items_total_rows [simp]: "items_total (item_rows k oid ls) = order_total ls"
  by (induction k oid ls rule: item_rows.induct) (auto simp: items_total_def order_total_eq)

lemma sold_rows:
  "(\<Sum>i\<leftarrow>filter (\<lambda>i. i_productId i = j) (item_rows k oid ls). i_quantity i) =
   (\<Sum>l\<leftarrow>filter (\<lambda>l. num_of (ei_productId l) = j) ls. ei_quantity l)"
  by (induction k oid ls rule: item_rows.induct) auto

lemma sold_priced:
  "(\<Sum>l\<leftarrow>filter (\<lambda>l. num_of (ei_productId l) = j) (map (priced_line ps) ls). ei_quantity l) = demand ls j"
  by (induction ls) (auto simp: priced_line_def)

lemma filter_item_rows_own [simp]:
  "filter (\<lambda>i. i_orderId i = oid) (item_rows k oid ls) = item_rows k oid ls"
  by (induction k oid ls rule: item_rows.induct) auto

lemma filter_item_rows_other:
  "j \<noteq> oid \<Longrightarrow> filter (\<lambda>i. i_orderId i = j) (item_rows k oid ls) = []"
  by (induction k oid ls rule: item_rows.induct) auto

section \<open>Effect on the ledgers\<close>

lemma stock_of_effect:
  "stock_of (checkout_effect env input d) k =
     (if k \<in> p_id ` set (products d) then stock_of d k - demand (ci_items input) k else 0)"
proof -
  have "(case find (\<lambda>p. p_id p = k) (take_demand items ps) of Some p \<Rightarrow> p_stock p | None \<Rightarrow> 0) =
      (if k \<in> p_id ` set ps
       then (case find (\<lambda>p. p_id p = k) ps of Some p \<Rightarrow> p_stock p | None \<Rightarrow> 0) - demand items k else 0)"
    for items ps
    by (induction ps) (auto simp: take_demand_def)
  then show ?thesis by (simp add: stock_of_def checkout_effect_def)
qed

lemma stock_of_none: "k \<notin> p_id ` set (products d) \<Longrightarrow> stock_of d k = 0"
proof -
  assume "k \<notin> p_id ` set (products d)"
  then have "find (\<lambda>p. p_id p = k) (products d) = None" by (auto simp: find_None_iff)
  then show ?thesis by (simp add: stock_of_def)
qed

lemma sold_effect: "sold (checkout_effect env input d) k = sold d k + demand (ci_items input) k"
  by (simp add: sold_def checkout_effect_def new_items_def sold_rows new_priced_def sold_priced)

lemma demand_unknown:
  assumes "reservable items ps" and "k \<notin> p_id ` set ps"
  shows "demand items k = 0"
  using assms unfolding reservable_def covered_def by (intro demand_zero) (metis image_eqI)

lemma stock_ledger_effect:
  assumes "checkout_allowed env input d"
  shows "stock_of (checkout_effect env input d) k + sold (checkout_effect env input d) k =
    stock_of d k + sold d k"
  using assms demand_unknown [of "ci_items input" "products d" k]
  by (auto simp: stock_of_effect sold_effect stock_of_none checkout_allowed_def)

lemma balance_of_effect:
  "balance_of (checkout_effect env input d) k =
     balance_of d k - (if k = num_of (ci_userId input) \<and> k \<in> u_id ` set (users d)
                       then amount_of (ci_items input) (products d) else 0)"
proof -
  have "(case find (\<lambda>u. u_id u = k) (lower_row u_id lower_balance j a us) of Some u \<Rightarrow> u_balance u | None \<Rightarrow> 0) =
      (case find (\<lambda>u. u_id u = k) us of Some u \<Rightarrow> u_balance u | None \<Rightarrow> 0) -
        (if k = j \<and> k \<in> u_id ` set us then a else 0)" for j a us
    by (induction us) (auto simp: lower_row_def lower_balance_def)
  then show ?thesis by (simp add: balance_of_def checkout_effect_def)
qed

lemma spent_effect:
  "spent (checkout_effect env input d) k = spent d k +
     (if k = num_of (ci_userId input) then amount_of (ci_items input) (products d) else 0)"
  by (simp add: spent_def checkout_effect_def new_order_def)

lemma money_ledger_effect:
  assumes "checkout_allowed env input d"
  shows "balance_of (checkout_effect env input d) k + spent (checkout_effect env input d) k =
    balance_of d k + spent d k"
proof -
  have "num_of (ci_userId input) \<in> u_id ` set (users d)"
    using assms unfolding checkout_allowed_def can_pay_def level_hit_def by (metis imageI)
  then show ?thesis by (simp add: balance_of_effect spent_effect)
qed

lemma checkout_effect_select [simp]:
  "users (checkout_effect env input d) = lower_row u_id lower_balance (num_of (ci_userId input))
     (amount_of (ci_items input) (products d)) (users d)"
  "products (checkout_effect env input d) = take_demand (ci_items input) (products d)"
  "orders (checkout_effect env input d) = orders d @ [new_order env input d]"
  "orderItems (checkout_effect env input d) = orderItems d @ new_items input d"
  "jobs (checkout_effect env input d) = jobs d @ [new_job env d]"
  "outbox (checkout_effect env input d) = outbox d @ [new_outbox env input d]"
  "receipts (checkout_effect env input d) = receipts d"
  "processedMessages (checkout_effect env input d) = processedMessages d"
  "refreshTokens (checkout_effect env input d) = refreshTokens d"
  "seqs (checkout_effect env input d) = (seqs d)\<lparr>sq_order := Suc (sq_order (seqs d)),
     sq_item := sq_item (seqs d) + length (ci_items input), sq_job := Suc (sq_job (seqs d))\<rparr>"
  by (simp_all add: checkout_effect_def)

lemma items_of_effect:
  assumes "db_ok d"
  shows "r \<in> set (orders d) \<Longrightarrow> items_of (checkout_effect env input d) (o_id r) = items_of d (o_id r)"
    and "items_of (checkout_effect env input d) (sq_order (seqs d)) = new_items input d"
proof -
  let ?oid = "sq_order (seqs d)"
  show "items_of (checkout_effect env input d) (o_id r) = items_of d (o_id r)" if "r \<in> set (orders d)"
  proof -
    have "o_id r < ?oid"
      using that assms by (auto simp: db_ok_def sequences_ok_def below_def)
    then show ?thesis by (simp add: items_of_def new_items_def filter_item_rows_other)
  qed
  have "i_orderId i < ?oid" if "i \<in> set (orderItems d)" for i
  proof -
    have "i_orderId i \<in> o_id ` set (orders d)"
      using that assms by (auto simp: db_ok_def foreign_keys_ok_def)
    then show ?thesis using assms by (auto simp: db_ok_def sequences_ok_def below_def)
  qed
  then have "filter (\<lambda>i. i_orderId i = ?oid) (orderItems d) = []"
    by (fastforce simp: filter_empty_conv)
  then show "items_of (checkout_effect env input d) ?oid = new_items input d"
    by (simp add: items_of_def new_items_def)
qed

lemma totals_effect:
  assumes "db_ok d" and "totals_ok d"
  shows "totals_ok (checkout_effect env input d)"
  using assms(2) items_of_effect [OF assms(1)] unfolding totals_ok_def
  by (auto simp: new_order_def new_items_def new_priced_def)

section \<open>The schema constraints are kept\<close>

lemma new_items_products:
  assumes "stock_ok d" and "checkout_allowed env input d" and "i \<in> set (item_rows k oid (new_priced input d))"
  shows "item_ok i" and "i_productId i \<in> p_id ` set (products d)" and "i_orderId i = oid"
proof -
  from assms(3) obtain l where l: "l \<in> set (new_priced input d)"
    and i: "i_orderId i = oid" "i_productId i = num_of (ei_productId l)"
      "i_quantity i = ei_quantity l" "i_unitPrice i = ei_unitPrice l"
    by (blast dest: item_rows_set)
  have ok: "0 < ei_quantity l \<and> 0 < ei_unitPrice l \<and> num_of (ei_productId l) \<in> p_id ` set (products d)"
    using new_priced_ok_stock [OF assms(1), of "ci_items input"] assms(2) l
    unfolding checkout_allowed_def new_priced_def by blast
  from l obtain c where c: "c \<in> set (ci_items input)" "l = priced_line (products d) c"
    by (auto simp: new_priced_def)
  then have "line_fits c" "covered (ci_items input) (products d) c"
    using assms(2) by (auto simp: checkout_allowed_def reservable_def)
  then obtain p where p: "p \<in> set (products d)" "p_id p = num_of (cl_productId c)"
    by (auto simp: covered_def)
  then have "ei_unitPrice l = p_price p"
    using price_of_member [OF stock_okD(1) [OF assms(1)] p(1)] c by (simp add: priced_line_def)
  moreover have "p_price p \<le> int4_max"
    using stock_okD(3) [OF assms(1) p(1)] by (simp add: product_ok_def)
  moreover have "ei_quantity l \<le> int4_max"
    using \<open>line_fits c\<close> c by (simp add: line_fits_def priced_line_def)
  ultimately show "item_ok i" "i_productId i \<in> p_id ` set (products d)" "i_orderId i = oid"
    using ok i by (simp_all add: item_ok_def)
qed

lemma take_demand_ok:
  assumes "\<forall>p \<in> set ps. product_ok p" and "reservable items ps" and "\<forall>l \<in> set items. 0 < qty l"
    and "distinct (map p_id ps)"
  shows "\<forall>p \<in> set (take_demand items ps). product_ok p"
proof
  fix q assume "q \<in> set (take_demand items ps)"
  then obtain p where p: "p \<in> set ps" and q: "q = p\<lparr>p_stock := p_stock p - demand items (p_id p)\<rparr>"
    by (auto simp: take_demand_def)
  have "demand items (p_id p) \<le> p_stock p"
  proof (cases "\<exists>l \<in> set items. num_of (cl_productId l) = p_id p")
    case True
    then obtain l r where "r \<in> set ps" "p_id r = p_id p" "demand items (p_id r) \<le> p_stock r"
      using assms(2) unfolding reservable_def covered_def by metis
    moreover from this have "r = p" using distinct_key_eq [OF assms(4) _ p] by blast
    ultimately show ?thesis by simp
  next
    case False
    then have "demand items (p_id p) = 0" by (intro demand_zero) blast
    with assms(1) p show ?thesis by (simp add: product_ok_def)
  qed
  moreover have "0 \<le> demand items (p_id p)" by (rule demand_nonneg [OF assms(3)])
  ultimately show "product_ok q" using assms(1) p by (auto simp: q product_ok_def)
qed

lemma lower_balance_ok:
  assumes "\<forall>u \<in> set us. user_ok u" and "distinct (map u_id us)" and "0 \<le> t"
    and "u \<in> set us" and "level_hit u_id u_balance k t u"
  shows "\<forall>u \<in> set (lower_row u_id lower_balance k t us). user_ok u"
proof
  fix v assume "v \<in> set (lower_row u_id lower_balance k t us)"
  then obtain x where x: "x \<in> set us" and v: "v = (if u_id x = k then lower_balance t x else x)"
    by (auto simp: lower_row_def)
  have "x = u" if "u_id x = k"
    using distinct_key_eq [OF assms(2) x assms(4)] that assms(5) by (simp add: level_hit_def)
  then show "user_ok v"
    using assms(1,3,5) x by (auto simp: v user_ok_def lower_balance_def level_hit_def)
qed


lemma map_lower_balance [simp]:
  "map u_email (lower_row u_id lower_balance k t us) = map u_email us"
  "map u_phone (lower_row u_id lower_balance k t us) = map u_phone us"
  by (simp_all add: lower_row_def lower_balance_def)

lemma map_take_demand [simp]: "map p_name (take_demand items ps) = map p_name ps"
  by (simp add: take_demand_def)

lemma user_ids_lower [simp]: "u_id ` set (lower_row u_id lower_balance k t us) = u_id ` set us"
  by (metis balance.ids_lower_row list.set_map)

lemma idempotency_unique_snoc:
  assumes "idempotency_unique rs"
    and "\<forall>x \<in> set rs. o_userId x = o_userId r \<longrightarrow> o_idempotencyKey r = None \<or> o_idempotencyKey x \<noteq> o_idempotencyKey r"
  shows "idempotency_unique (rs @ [r])"
  using assms by (auto simp: idempotency_unique_def)

text \<open>
  A checkout whose ids are new, with the sequences wherever they have got to since they were drawn.
\<close>

definition ids_new :: "sequences \<Rightarrow> nat \<Rightarrow> sequences \<Rightarrow> db \<Rightarrow> bool" where
  "ids_new q n q' d \<longleftrightarrow> sq_order q \<notin> o_id ` set (orders d) \<and> sq_order q < sq_order q' \<and>
     (\<forall>k. sq_item q \<le> k \<and> k < sq_item q + n \<longrightarrow> k \<notin> i_id ` set (orderItems d) \<and> k < sq_item q') \<and>
     sq_job q \<notin> j_id ` set (jobs d) \<and> sq_job q < sq_job q'"

lemma checkout_effect_at_ok:
  assumes ok: "db_ok d" and al: "checkout_allowed env input d"
    and new: "ids_new q (length (ci_items input)) q' d" and le: "seqs_le d (d\<lparr>seqs := q'\<rparr>)"
  shows "db_ok ((checkout_effect env input (d\<lparr>seqs := q\<rparr>))\<lparr>seqs := q'\<rparr>)"
proof -
  let ?d = "(checkout_effect env input (d\<lparr>seqs := q\<rparr>))\<lparr>seqs := q'\<rparr>" and ?items = "new_items input (d\<lparr>seqs := q\<rparr>)"
  have val: "valid_lines (ci_items input)" and res: "reservable (ci_items input) (products d)"
    and pay: "can_pay input d" and free: "key_free env input d"
    and uuid: "tx_uuid env \<notin> x_id ` set (outbox d)"
    using al by (auto simp: checkout_allowed_def)
  have nn: "0 \<le> amount_of (ci_items input) (products d)" by (rule amount_nonneg [OF ok val res])
  from pay obtain u where u: "u \<in> set (users d)"
    "level_hit u_id u_balance (num_of (ci_userId input)) (amount_of (ci_items input) (products d)) u"
    and top: "amount_of (ci_items input) (products d) \<le> int4_max"
    by (auto simp: can_pay_def)
  have ck: "checks_ok d" and ky: "keys_ok d" and fk: "foreign_keys_ok d" and sq: "sequences_ok d"
    using ok by (simp_all add: db_ok_def)
  have rows: "?items = item_rows (sq_item q) (sq_order q) (new_priced input d)"
    by (simp add: new_items_def new_priced_def)
  have ids: "map i_id ?items = [sq_item q ..< sq_item q + length (ci_items input)]"
    by (simp add: rows item_rows_ids new_priced_def)
  note items = new_items_products [OF db_ok_stock [OF ok] al, of _ "sq_item q" "sq_order q", folded rows]
  have range: "sq_item q \<le> i_id i \<and> i_id i < sq_item q + length (ci_items input)" if "i \<in> set ?items" for i
    using imageI [OF that, of i_id] unfolding list.set_map [symmetric] ids by simp
  have fresh: "sq_order q \<notin> o_id ` set (orders d)" "sq_job q \<notin> j_id ` set (jobs d)"
    "i_id ` set ?items \<inter> i_id ` set (orderItems d) = {}" "sq_order q < sq_order q'" "sq_job q < sq_job q'"
    "\<forall>i \<in> set ?items. i_id i < sq_item q'"
    using new range by (auto simp: ids_new_def)
  have "checks_ok ?d"
  proof -
    have "\<forall>x \<in> set (users ?d). user_ok x"
      using lower_balance_ok [OF _ db_okD(2) [OF ok] nn u] db_okD(7) [OF ok] by simp
    moreover have "\<forall>x \<in> set (products ?d). product_ok x"
      using take_demand_ok [OF _ res _ db_okD(1) [OF ok]] db_okD(6) [OF ok] val by (simp add: valid_lines_def)
    moreover have "\<forall>x \<in> set ?items. item_ok x" using items(1) by blast
    ultimately show ?thesis using ck nn top
      by (simp add: checks_ok_def list_all_iff ball_Un order_ok_def new_order_def job_ok_def new_job_def
          outbox_ok_def new_outbox_def)
  qed
  moreover have "keys_ok ?d"
  proof -
    have "idempotency_unique (orders d @ [new_order env input (d\<lparr>seqs := q\<rparr>)])"
      using ky free by (intro idempotency_unique_snoc)
        (auto simp: keys_ok_def key_free_def new_order_def)
    then have "idempotency_unique (orders ?d)" by simp
    moreover have "distinct (map (\<lambda>r. (o_userId r, o_createdAt r)) (orders ?d))"
      using ky free by (auto simp: keys_ok_def key_free_def new_order_def)
    moreover have "distinct (map o_id (orders ?d))"
      using ky fresh(1) by (simp add: keys_ok_def new_order_def)
    moreover have "distinct (map i_id (orderItems ?d))"
    proof -
      have "distinct (map i_id ?items)" unfolding ids by simp
      with ky fresh(3) show ?thesis by (simp add: keys_ok_def Int_commute)
    qed
    moreover have "distinct (map j_id (jobs ?d))"
      using ky fresh(2) by (simp add: keys_ok_def new_job_def)
    moreover have "distinct (map x_id (outbox ?d))"
      using ky uuid by (auto simp: keys_ok_def new_outbox_def)
    ultimately show ?thesis using ky by (simp add: keys_ok_def)
  qed
  moreover have "foreign_keys_ok ?d"
  proof -
    have "num_of (ci_userId input) \<in> u_id ` set (users d)"
      using u unfolding level_hit_def by (metis imageI)
    moreover have "\<forall>i \<in> set ?items. i_orderId i = sq_order q \<and> i_productId i \<in> p_id ` set (products d)"
      using items(2,3) by blast
    ultimately show ?thesis using fk
      by (auto simp: foreign_keys_ok_def new_order_def)
  qed
  moreover have "sequences_ok ?d"
    using sq le fresh(4-6) by (auto simp: sequences_ok_def seqs_le_def new_order_def new_job_def below_def)
  ultimately show ?thesis by (simp add: db_ok_def)
qed

lemma seqs_self: "(d :: db)\<lparr>seqs := seqs d\<rparr> = d"
  by simp

lemma checkout_effect_ok:
  assumes ok: "db_ok d" and al: "checkout_allowed env input d"
  shows "db_ok (checkout_effect env input d)"
proof -
  let ?q = "seqs (checkout_effect env input d)"
  have "ids_new (seqs d) (length (ci_items input)) ?q d"
    using ok by (auto simp: ids_new_def db_ok_def sequences_ok_def below_def)
  moreover have "seqs_le d (d\<lparr>seqs := ?q\<rparr>)" by (simp add: seqs_le_def)
  ultimately show ?thesis using checkout_effect_at_ok [OF ok al, of "seqs d" ?q] by (simp only: seqs_self)
qed

lemma seqs_only_ok:
  assumes "db_ok d" and "d' = d\<lparr>seqs := seqs d'\<rparr>" and "seqs_le d d'"
  shows "db_ok d'"
proof -
  have "checks_ok d'" "keys_ok d'" "foreign_keys_ok d'"
    using assms(1) by (subst assms(2), simp add: db_ok_defs)+
  moreover have "sequences_ok d'"
    using assms(1,3) by (subst assms(2)) (auto simp: db_ok_def sequences_ok_def seqs_le_def intro: below_mono)
  ultimately show ?thesis by (simp add: db_ok_def)
qed

end
