(* ===== verification/Checkout_Theorems.thy ===== *)
theory Checkout_Theorems
  imports Checkout_Ledger
begin

text \<open>
  The properties of checkout: the refinement of the transaction by its specification, atomicity,
  the meaning of every error, and the ledgers over any sequence of requests.
\<close>

section \<open>A concrete shop\<close>

definition shop_db :: db where
  "shop_db = empty_db\<lparr>
     users := [\<lparr>u_id = 1, u_email = ''a@b.c'', u_phone = ''+380501112233'', u_name = ''Ann'',
                u_balance = 1000, u_passwordHash = None, u_role = buyer, u_createdAt = 0\<rparr>],
     products := [\<lparr>p_id = 1, p_name = ''pen'', p_description = '''', p_price = 20, p_stock = 9, p_createdAt = 0\<rparr>,
                  \<lparr>p_id = 2, p_name = ''ink'', p_description = '''', p_price = 70, p_stock = 1, p_createdAt = 0\<rparr>],
     seqs := \<lparr>sq_product = 3, sq_order = 1, sq_item = 1, sq_job = 1, sq_receipt = 1\<rparr>\<rparr>"

definition shop_line :: "string \<Rightarrow> int \<Rightarrow> CheckoutLine" where
  "shop_line pid q = \<lparr>cl_productId = pid, cl_quantity = JsInt q\<rparr>"

definition shop_input :: "CheckoutLine list \<Rightarrow> CheckoutInput" where
  "shop_input ls = \<lparr>ci_userId = ''1'', ci_items = ls, ci_idempotencyKey = None\<rparr>"

definition shop_env :: tx_env where
  "shop_env = \<lparr>tx_now = 5000, tx_uuid = ''u1''\<rparr>"

lemma shop_db_ok: "db_ok shop_db"
  by code_simp


lemma shop_sale:
  "fst (checkout shop_env None (shop_input [shop_line ''2'' 1, shop_line ''1'' 3]) shop_db) =
     Inr \<lparr>cr_orderId = ''1'', cr_total = 130\<rparr>"
  by code_simp

lemma shop_allowed:
  "checkout_allowed shop_env (shop_input [shop_line ''2'' 1, shop_line ''1'' 3]) shop_db"
  by code_simp


section \<open>Runs of the transaction\<close>

lemma charge_None:
  assumes "charge t uid d = (Inr None, d')"
  shows "d' = d" and "isId uid" and "num_of uid \<le> int8_max"
    and "\<forall>u \<in> set (users d). u_id u = num_of uid \<longrightarrow> u_balance u < t"
proof -
  have hit: "select_one (level_hit u_id u_balance (num_of uid) t) (users d) = None"
    and fits: "isId uid \<and> num_of uid \<le> int8_max"
    and d': "d' = d\<lparr>users := update_where (level_hit u_id u_balance (num_of uid) t) (lower_balance t) (users d)\<rparr>"
    using assms by (auto simp: charge_def int4_param_def bigint_param_def Let_def split: if_splits)
  from hit have "update_where (level_hit u_id u_balance (num_of uid) t) (lower_balance t) (users d) = users d"
    by (rule balance.hit_None)
  with d' show "d' = d" by simp
  from fits show "isId uid" "num_of uid \<le> int8_max" by simp_all
  from hit show "\<forall>u \<in> set (users d). u_id u = num_of uid \<longrightarrow> u_balance u < t"
    by (auto simp: select_one_None level_hit_def not_le)
qed

lemma user_found_eq:
  "isId uid \<Longrightarrow> num_of uid \<le> int8_max \<Longrightarrow> user_found uid d = (Inr (num_of uid \<in> u_id ` set (users d)), d)"
  by (simp add: user_found_def andThen_def lift_def bigint_param_def)

lemma charge_Inl:
  "charge t uid d = (Inl e, d') \<Longrightarrow> d' = d \<and> (e = out_of_range \<or> e = invalid_text)"
  by (auto simp: charge_def andThen_Inl int4_param_def bigint_param_def Let_def split: if_splits)

lemma record_sale_Inl:
  assumes "record_sale env hook input pr d = (Inl e, d')"
  shows "(\<exists>q. e = QueryFailedError q) \<or> hook = Some e"
proof -
  have order: "insert_order n u st t k d1 = (Inl e, d2) \<Longrightarrow> \<exists>q. e = QueryFailedError q" for n u st t k d1 d2
    by (auto simp: insert_order_def andThen_Inl int4_param_def bigint_param_def Let_def
        out_of_range_def invalid_text_def violation_def split: if_splits)
  have items: "insert_items oid ls d1 = (Inl e, d2) \<Longrightarrow> \<exists>q. e = QueryFailedError q" for oid ls d1 d2
    by (auto simp: insert_items_def Let_def violation_def split: if_splits)
  have job: "insert_job n ty pl d1 \<noteq> (Inl e, d2)" for n ty pl d1 d2
    by (simp add: insert_job_def Let_def)
  have outbox: "insert_outbox n u at ai ev d1 = (Inl e, d2) \<Longrightarrow> \<exists>q. e = QueryFailedError q" for n u at ai ev d1 d2
    by (auto simp: insert_outbox_def violation_def split: if_splits)
  show ?thesis
    using assms unfolding record_sale_def
    by (auto simp: andThen_Inl job dest: order items outbox split: option.splits)
qed

text \<open>The error a failing checkout throws, statement by statement.\<close>

lemma checkout_Inl_cases:
  assumes "checkout env hook input d = (Inl e, d')"
  obtains (invalid) "\<not> valid_lines (ci_items input)" and "\<exists>m. e = PlainError m"
  | (line) d1 where "valid_lines (ci_items input)"
      and "reserve (sorted_lines (ci_items input)) [] d = (Inl e, d1)"
  | (user) pr d1 where "valid_lines (ci_items input)"
      and "reserve (sorted_lines (ci_items input)) [] d = (Inr pr, d1)"
      and "\<forall>u \<in> set (users d1). u_id u = num_of (ci_userId input) \<longrightarrow> u_balance u < order_total pr"
      and "e = CheckoutError (if num_of (ci_userId input) \<in> u_id ` set (users d1)
             then INSUFFICIENT_FUNDS else USER_NOT_FOUND) None"
  | (statement) pr d1 where "valid_lines (ci_items input)"
      and "reserve (sorted_lines (ci_items input)) [] d = (Inr pr, d1)"
      and "(\<exists>q. e = QueryFailedError q) \<or> hook = Some e"
proof (cases "validateLines (ci_items input)")
  case (Inl e')
  then have "\<not> valid_lines (ci_items input)"
    using validateLines_Inr [of "ci_items input"] by auto
  moreover have "\<exists>m. e = PlainError m"
    using Inl assms by (auto simp: checkout_def validateLines_def split: if_splits)
  ultimately show thesis by (rule invalid)
next
  case (Inr lines)
  then have val: "valid_lines (ci_items input)" and lines: "lines = sorted_lines (ci_items input)"
    by (simp_all add: validateLines_Inr)
  let ?uid = "ci_userId input"
  let ?rest = "\<lambda>priced. andThen (charge (order_total priced) ?uid) (\<lambda>charged.
     if charged = None then
       andThen (user_found ?uid) (\<lambda>found.
         throw (CheckoutError (if found then INSUFFICIENT_FUNDS else USER_NOT_FOUND) None))
     else record_sale env hook input priced)"
  from assms Inr obtain d'' where "checkout_body env hook input lines d = (Inl e, d'')"
    by (auto simp: checkout_def transaction_Inl)
  then have "andThen (reserve lines []) ?rest d = (Inl e, d'')" by (simp only: checkout_body_eq)
  then consider "reserve lines [] d = (Inl e, d'')"
    | pr d1 where "reserve lines [] d = (Inr pr, d1)" and "?rest pr d1 = (Inl e, d'')"
    unfolding andThen_Inl by blast
  then show thesis
  proof cases
    case 1
    with val lines show ?thesis by (auto intro: line)
  next
    case (2 pr d1)
    have res: "reserve (sorted_lines (ci_items input)) [] d = (Inr pr, d1)" using 2(1) lines by simp
    from 2(2) consider "charge (order_total pr) ?uid d1 = (Inl e, d'')"
      | c d2 where "charge (order_total pr) ?uid d1 = (Inr c, d2)"
          and "(if c = None then andThen (user_found ?uid) (\<lambda>found. throw (CheckoutError
            (if found then INSUFFICIENT_FUNDS else USER_NOT_FOUND) None))
            else record_sale env hook input pr) d2 = (Inl e, d'')"
      unfolding andThen_Inl [where m = "charge (order_total pr) ?uid"] by blast
    then show ?thesis
    proof cases
      case 1
      then show ?thesis using charge_Inl [OF 1] val res
        by (intro statement) (auto simp: out_of_range_def invalid_text_def)
    next
      case (2 c d2)
      show ?thesis
      proof (cases c)
        case None
        note none = charge_None [OF 2(1) [unfolded None]]
        from 2(2) None have "e = CheckoutError (if num_of ?uid \<in> u_id ` set (users d1)
               then INSUFFICIENT_FUNDS else USER_NOT_FOUND) None"
          unfolding none(1) andThen_def user_found_eq [OF none(2,3)] by (simp split: if_splits)
        with val res none(4) show ?thesis by (rule user)
      next
        case (Some b)
        with 2(2) have "record_sale env hook input pr d2 = (Inl e, d'')" by simp
        from val res record_sale_Inl [OF this] show ?thesis by (rule statement)
      qed
    qed
  qed
qed


section \<open>Sequences of requests\<close>

text \<open>
  A request is the environment the database supplies, what the hook throws, and the input.
\<close>

type_synonym checkout_request = "tx_env \<times> js_error option \<times> CheckoutInput"

fun run_checkouts :: "checkout_request list \<Rightarrow> db \<Rightarrow> db" where
  "run_checkouts [] d = d"
| "run_checkouts ((env, hook, input) # reqs) d = run_checkouts reqs (snd (checkout env hook input d))"

text \<open>What an outbox event says about the order it announces.\<close>

definition event_matches :: "db \<Rightarrow> OrderPlacedEvent \<Rightarrow> Order \<Rightarrow> bool" where
  "event_matches d ev r \<longleftrightarrow>
     ev_eventId ev = orderPlacedEventId (dec (o_id r)) \<and> ev_type ev = ORDER_PLACED_TYPE \<and>
     ev_occurredAt ev = o_createdAt r div 1000 \<and>
     ed_orderId (ev_data ev) = dec (o_id r) \<and> num_of (ed_userId (ev_data ev)) = o_userId r \<and>
     ed_total (ev_data ev) = o_total r \<and>
     map (\<lambda>i. (num_of (ei_productId i), ei_quantity i, ei_unitPrice i)) (ed_items (ev_data ev)) =
       map (\<lambda>i. (i_productId i, i_quantity i, i_unitPrice i)) (items_of d (o_id r))"

definition announced :: "db \<Rightarrow> bool" where
  "announced d \<longleftrightarrow> (\<forall>x \<in> set (outbox d). \<exists>r \<in> set (orders d).
     x_aggregateId x = dec (o_id r) \<and> event_matches d (x_payload x) r)"

lemma map_item_rows_event:
  "map (\<lambda>i. (i_productId i, i_quantity i, i_unitPrice i)) (item_rows k oid ls) =
   map (\<lambda>l. (num_of (ei_productId l), ei_quantity l, ei_unitPrice l)) ls"
  by (induction k oid ls rule: item_rows.induct) auto

lemma new_event_matches:
  assumes "db_ok d"
  shows "event_matches (checkout_effect env input d) (new_event env input d) (new_order env input d)"
  using items_of_effect(2) [OF assms, of env input]
  by (simp add: event_matches_def new_event_def new_order_def toOrderPlacedEvent_def new_items_def
      map_item_rows_event)

lemma announced_effect:
  assumes "db_ok d" and "announced d"
  shows "announced (checkout_effect env input d)"
proof -
  have old: "event_matches (checkout_effect env input d) ev r" if "event_matches d ev r" "r \<in> set (orders d)" for ev r
    using that(1) items_of_effect(1) [OF assms(1) that(2)] by (simp add: event_matches_def)
  have "x_aggregateId (new_outbox env input d) = dec (o_id (new_order env input d))"
    and "x_payload (new_outbox env input d) = new_event env input d"
    by (simp_all add: new_outbox_def new_order_def)
  with new_event_matches [OF assms(1), of env input]
  have "\<exists>r \<in> set (orders (checkout_effect env input d)). x_aggregateId (new_outbox env input d) = dec (o_id r) \<and>
      event_matches (checkout_effect env input d) (x_payload (new_outbox env input d)) r"
    by simp
  moreover have "\<exists>r \<in> set (orders (checkout_effect env input d)). x_aggregateId x = dec (o_id r) \<and>
      event_matches (checkout_effect env input d) (x_payload x) r" if "x \<in> set (outbox d)" for x
    using assms(2) that old unfolding announced_def checkout_effect_select by auto
  ultimately show ?thesis
    unfolding announced_def [of "checkout_effect env input d"] checkout_effect_select(6) by simp
qed

text \<open>One checkout either applies the effect or changes no table.\<close>

lemma checkout_step:
  assumes "db_ok d" and "checkout env hook input d = (r, d')"
  obtains (sale) "checkout_allowed env input d" and "d' = checkout_effect env input d"
  | (refusal) "d' = d\<lparr>seqs := seqs d'\<rparr>" and "seqs_le d d'"
proof (cases r)
  case (Inl e)
  with assms show thesis by (auto intro: refusal checkout_rollback)
next
  case (Inr res)
  with assms show thesis using checkout_Inr [OF assms(1)] by (auto intro: sale)
qed

lemma ledgers_seqs:
  assumes "d' = d\<lparr>seqs := seqs d'\<rparr>"
  shows "stock_of d' k = stock_of d k" and "sold d' k = sold d k" and "balance_of d' k = balance_of d k"
    and "spent d' k = spent d k" and "totals_ok d' = totals_ok d" and "announced d' = announced d"
  by (subst assms, simp add: stock_of_def sold_def balance_of_def spent_def totals_ok_def items_of_def
      announced_def event_matches_def)+

lemma ledgers_nonneg:
  assumes "db_ok d"
  shows "0 \<le> stock_of d k" and "0 \<le> balance_of d j"
proof -
  show "0 \<le> stock_of d k"
  proof (cases "find (\<lambda>p. p_id p = k) (products d)")
    case (Some p)
    then have "p \<in> set (products d)" by (auto simp: find_Some_iff)
    from db_okD(6) [OF assms this] Some show ?thesis by (simp add: stock_of_def product_ok_def)
  qed (simp add: stock_of_def)
  show "0 \<le> balance_of d j"
  proof (cases "find (\<lambda>u. u_id u = j) (users d)")
    case (Some u)
    then have "u \<in> set (users d)" by (auto simp: find_Some_iff)
    from db_okD(7) [OF assms this] Some show ?thesis by (simp add: balance_of_def user_ok_def)
  qed (simp add: balance_of_def)
qed

lemma run_checkouts_ok: "db_ok d \<Longrightarrow> db_ok (run_checkouts reqs d)"
proof (induction reqs d rule: run_checkouts.induct)
  case (2 env hook input reqs d)
  obtain r d' where run: "checkout env hook input d = (r, d')" by fastforce
  from "2.prems" run have "db_ok d'"
  proof (cases rule: checkout_step)
    case sale
    then show ?thesis using checkout_effect_ok [OF "2.prems"] by simp
  next
    case refusal
    then show ?thesis by (rule seqs_only_ok [OF "2.prems"])
  qed
  with "2.IH" run show ?case by simp
qed simp


lemma run_checkouts_keep:
  assumes step: "\<And>e i d. db_ok d \<Longrightarrow> P d \<Longrightarrow> checkout_allowed e i d \<Longrightarrow> P (checkout_effect e i d)"
    and seqs: "\<And>d d'. d' = d\<lparr>seqs := seqs d'\<rparr> \<Longrightarrow> P d \<Longrightarrow> P d'"
  shows "db_ok d \<Longrightarrow> P d \<Longrightarrow> P (run_checkouts reqs d)"
proof (induction reqs d rule: run_checkouts.induct)
  case (2 env hook input reqs d)
  obtain r d' where run: "checkout env hook input d = (r, d')" by fastforce
  have "db_ok d'" using run_checkouts_ok [OF "2.prems"(1), of "[(env, hook, input)]"] run by simp
  moreover have "P d'" using "2.prems"(1) run
  proof (cases rule: checkout_step)
    case sale
    then show ?thesis using step [OF "2.prems"] by simp
  next
    case refusal
    then show ?thesis using seqs "2.prems"(2) by blast
  qed
  ultimately show ?case using "2.IH" run by simp
qed simp

section \<open>Properties\<close>

text \<open>
  C1: checkout succeeds exactly when its specification allows it (positive integer quantities,
  stock for the summed demand of every product, funds for the total, a free idempotency key), and
  then returns the new order's id and total and leaves exactly the specified state.
\<close>

theorem checkout_correct:
  assumes "db_ok d"
  shows "checkout env hook input d = (Inr res, d') \<longleftrightarrow>
    hook = None \<and> checkout_allowed env input d \<and>
    res = \<lparr>cr_orderId = dec (sq_order (seqs d)), cr_total = amount_of (ci_items input) (products d)\<rparr> \<and>
    d' = checkout_effect env input d"
  by (rule checkout_Inr [OF assms])

abbreviation shop_cart :: CheckoutInput where
  "shop_cart \<equiv> shop_input [shop_line ''2'' 1, shop_line ''1'' 3]"

theorem checkout_correct_witness:
  "checkout shop_env None shop_cart shop_db =
     (Inr \<lparr>cr_orderId = ''1'', cr_total = 130\<rparr>, checkout_effect shop_env shop_cart shop_db)"
proof -
  have "dec (sq_order (seqs shop_db)) = ''1''" "amount_of (ci_items shop_cart) (products shop_db) = 130"
    by code_simp+
  then show ?thesis
    using checkout_correct [OF shop_db_ok, of shop_env None shop_cart] shop_allowed by simp
qed

text \<open>
  A checkout that throws, for whatever reason and at whatever statement, leaves every table as
  it was; only identity sequences may have advanced.
\<close>

lemma checkout_atomic:
  assumes "checkout env hook input d = (Inl e, d')"
  shows "d' = d\<lparr>seqs := seqs d'\<rparr> \<and> sq_order (seqs d) \<le> sq_order (seqs d')"
  using checkout_rollback [OF assms] by (simp add: seqs_le_def)

text \<open>
  C5: the reason a refused checkout reports is true of the state it ran in: the product is missing,
  its stock is below the demand summed over all lines, the user is missing, or the balance is below
  the total of an order whose lines are all in stock.
\<close>

theorem checkout_error_meaning:
  assumes "db_ok d" and "checkout env None input d = (Inl (CheckoutError reason pid), d')"
  shows "case reason of
      PRODUCT_NOT_FOUND \<Rightarrow> \<exists>l \<in> set (ci_items input). pid = Some (cl_productId l) \<and>
        num_of (cl_productId l) \<notin> p_id ` set (products d)
    | OUT_OF_STOCK \<Rightarrow> \<exists>l \<in> set (ci_items input). pid = Some (cl_productId l) \<and>
        (\<exists>p \<in> set (products d). p_id p = num_of (cl_productId l) \<and> p_stock p < demand (ci_items input) (p_id p))
    | USER_NOT_FOUND \<Rightarrow> reservable (ci_items input) (products d) \<and>
        num_of (ci_userId input) \<notin> u_id ` set (users d)
    | INSUFFICIENT_FUNDS \<Rightarrow> reservable (ci_items input) (products d) \<and>
        (\<exists>u \<in> set (users d). u_id u = num_of (ci_userId input) \<and>
           u_balance u < amount_of (ci_items input) (products d))"
  using assms(2)
proof (cases rule: checkout_Inl_cases)
  case (line d1)
  then have "\<exists>l \<in> set (sorted_lines (ci_items input)).
      line_fault (sorted_lines (ci_items input)) (products d) (CheckoutError reason pid) l"
    by (intro reserve_Inl [OF _ db_okD(1) [OF assms(1)]]) (auto simp: valid_lines_def)
  then obtain l where l: "l \<in> set (ci_items input)"
    "line_fault (ci_items input) (products d) (CheckoutError reason pid) l"
    by (auto simp: line_fault_def)
  show ?thesis
  proof (cases "num_of (cl_productId l) \<in> p_id ` set (products d)")
    case True
    with l(2) have "reason = OUT_OF_STOCK" "pid = Some (cl_productId l)"
      "\<exists>p \<in> set (products d). p_id p = num_of (cl_productId l) \<and> p_stock p < demand (ci_items input) (p_id p)"
      by (simp_all add: line_fault_def)
    with l(1) show ?thesis by (simp only: checkout_failure.case) blast
  next
    case False
    with l show ?thesis by (auto simp: line_fault_def)
  qed
next
  case (user pr d1)
  then have "reservable (ci_items input) (products d)" and "pr = new_priced input d"
    and d1: "d1 = d\<lparr>products := take_demand (ci_items input) (products d)\<rparr>"
    using reserve_iff [OF db_okD(1) [OF assms(1)], of "sorted_lines (ci_items input)"]
    by (auto simp: valid_lines_def new_priced_def)
  with user(3,4) show ?thesis by (auto simp: new_priced_def)
qed auto

theorem checkout_error_meaning_witness:
  "(\<exists>l \<in> set [shop_line ''1'' 5, shop_line ''1'' 5]. Some ''1'' = Some (cl_productId l) \<and>
     (\<exists>p \<in> set (products shop_db). p_id p = num_of (cl_productId l) \<and>
        p_stock p < demand [shop_line ''1'' 5, shop_line ''1'' 5] (p_id p)))"
proof -
  let ?input = "shop_input [shop_line ''1'' 5, shop_line ''1'' 5]"
  have "fst (checkout shop_env None ?input shop_db) = Inl (CheckoutError OUT_OF_STOCK (Some ''1''))"
    by code_simp
  then obtain d' where "checkout shop_env None ?input shop_db = (Inl (CheckoutError OUT_OF_STOCK (Some ''1'')), d')"
    by (metis prod.collapse)
  from checkout_error_meaning [OF shop_db_ok this] show ?thesis
    unfolding checkout_failure.case by (simp only: shop_input_def CheckoutInput.select_convs)
qed

text \<open>
  C2: over any sequence of checkouts, sold quantity plus remaining stock is constant for every
  product and stock never goes below zero, so nothing is sold twice; likewise what a user spent
  plus the balance left is constant and the balance never goes below zero.
\<close>

theorem checkouts_never_oversell:
  assumes "db_ok d"
  shows "stock_of (run_checkouts reqs d) k + sold (run_checkouts reqs d) k = stock_of d k + sold d k \<and>
    0 \<le> stock_of (run_checkouts reqs d) k \<and>
    balance_of (run_checkouts reqs d) j + spent (run_checkouts reqs d) j = balance_of d j + spent d j \<and>
    0 \<le> balance_of (run_checkouts reqs d) j"
proof -
  let ?e = "run_checkouts reqs d"
  have "stock_of ?e k + sold ?e k = stock_of d k + sold d k"
    by (rule run_checkouts_keep [where P = "\<lambda>e. stock_of e k + sold e k = stock_of d k + sold d k", OF _ _ assms])
      (simp_all add: stock_ledger_effect ledgers_seqs(1,2))
  moreover have "balance_of ?e j + spent ?e j = balance_of d j + spent d j"
    by (rule run_checkouts_keep [where P = "\<lambda>e. balance_of e j + spent e j = balance_of d j + spent d j", OF _ _ assms])
      (simp_all add: money_ledger_effect ledgers_seqs(3,4))
  moreover have "0 \<le> stock_of ?e k" "0 \<le> balance_of ?e j"
    by (simp_all add: ledgers_nonneg [OF run_checkouts_ok [OF assms]])
  ultimately show ?thesis by blast
qed

theorem checkouts_never_oversell_witness:
  "sold (run_checkouts [(shop_env, None, shop_cart), (shop_env, None, shop_cart)] shop_db) 2 = 1 \<and>
   0 \<le> stock_of (run_checkouts [(shop_env, None, shop_cart), (shop_env, None, shop_cart)] shop_db) 2"
  using checkouts_never_oversell [OF shop_db_ok, of "[(shop_env, None, shop_cart), (shop_env, None, shop_cart)]" 2]
  by (intro conjI) (code_simp, blast)

text \<open>
  C6: every constraint the schema declares (checks, unique and foreign keys, sequences), the total
  of every order being the sum over its items, and the agreement of every outbox event with its
  order are kept by any sequence of checkouts.
\<close>

theorem checkouts_keep_invariants:
  assumes "db_ok d" and "totals_ok d" and "announced d"
  shows "db_ok (run_checkouts reqs d) \<and> totals_ok (run_checkouts reqs d) \<and> announced (run_checkouts reqs d)"
proof (intro conjI)
  show "totals_ok (run_checkouts reqs d)"
    by (rule run_checkouts_keep [where P = totals_ok, OF _ _ assms(1,2)]) (blast intro: totals_effect, metis ledgers_seqs(5))
  show "announced (run_checkouts reqs d)"
    by (rule run_checkouts_keep [where P = announced, OF _ _ assms(1,3)]) (blast intro: announced_effect, metis ledgers_seqs(6))
qed (rule run_checkouts_ok [OF assms(1)])

theorem checkouts_keep_invariants_witness:
  "announced (run_checkouts [(shop_env, None, shop_cart)] shop_db) \<and>
   length (outbox (run_checkouts [(shop_env, None, shop_cart)] shop_db)) = 1"
proof -
  have "totals_ok shop_db" "announced shop_db"
    by (simp_all add: totals_ok_def announced_def shop_db_def empty_db_def)
  from checkouts_keep_invariants [OF shop_db_ok this, of "[(shop_env, None, shop_cart)]"]
  have "announced (run_checkouts [(shop_env, None, shop_cart)] shop_db)" by blast
  moreover have "length (outbox (run_checkouts [(shop_env, None, shop_cart)] shop_db)) = 1" by code_simp
  ultimately show ?thesis ..
qed

end
