(* ===== verification/Orders.thy ===== *)
theory Orders
  imports Checkout_Theorems
begin

text \<open>
  Reading and placing orders: \<open>src/repositories/orders.repository.ts\<close> and
  \<open>src/services/place-order.service.ts\<close> with the queue side of
  \<open>src/queue/product-card-refresher.ts\<close>. A placement reads, runs the checkout transaction and
  reads again; what other clients commit in between is an argument of the model.
\<close>

section \<open>A store that only grows\<close>

text \<open>
  The contract of every table that is looked up by a key and never loses a row: an operation keeps
  the state well formed, and a key that is found stays found with the same value.
\<close>

locale append_only =
  fixes ok :: "'s \<Rightarrow> bool"
    and lookup :: "'k \<Rightarrow> 's \<Rightarrow> 'v option"
    and step :: "'r \<Rightarrow> 's \<Rightarrow> 's"
  assumes step_ok: "ok s \<Longrightarrow> ok (step r s)"
    and step_keeps: "ok s \<Longrightarrow> lookup k s = Some v \<Longrightarrow> lookup k (step r s) = Some v"
begin

lemma run_ok: "ok s \<Longrightarrow> ok (fold step rs s)"
  by (induction rs arbitrary: s) (simp_all add: step_ok)

lemma run_keeps: "ok s \<Longrightarrow> lookup k s = Some v \<Longrightarrow> lookup k (fold step rs s) = Some v"
  by (induction rs arbitrary: s) (simp_all add: step_ok step_keeps)

end

section \<open>Reading orders\<close>

text \<open>An order as the repository loads it, with its items ordered by id.\<close>

record order_view =
  v_order :: Order
  v_items :: "OrderItem list"

definition load_order :: "db \<Rightarrow> Order \<Rightarrow> order_view" where
  "load_order d r = \<lparr>v_order = r, v_items = sort_key i_id (items_of d (o_id r))\<rparr>"

definition view_where :: "(Order \<Rightarrow> bool) \<Rightarrow> db \<Rightarrow> order_view option" where
  "view_where P d = map_option (load_order d) (select_one P (orders d))"

definition has_id :: "nat \<Rightarrow> Order \<Rightarrow> bool" where
  "has_id k r \<longleftrightarrow> o_id r = k"

definition has_key :: "nat \<Rightarrow> string \<Rightarrow> Order \<Rightarrow> bool" where
  "has_key uid key r \<longleftrightarrow> o_userId r = uid \<and> o_idempotencyKey r = Some key"

definition findById :: "string \<Rightarrow> (db, order_view option) action" where
  "findById oid = andThen (lift (bigint_param oid)) (\<lambda>k d. (Inr (view_where (has_id k) d), d))"

definition findByIdempotencyKey :: "string \<Rightarrow> string \<Rightarrow> (db, order_view option) action" where
  "findByIdempotencyKey userId key =
     andThen (lift (bigint_param userId)) (\<lambda>uid d. (Inr (view_where (has_key uid key) d), d))"

definition findOwnerId :: "string \<Rightarrow> (db, string option) action" where
  "findOwnerId oid = andThen (lift (bigint_param oid))
     (\<lambda>k d. (Inr (map_option (\<lambda>r. dec (o_userId r)) (select_one (has_id k) (orders d))), d))"

text \<open>\<open>take\<close> without a limit takes everything.\<close>

definition listByUser :: "string \<Rightarrow> nat option \<Rightarrow> (db, order_view list) action" where
  "listByUser userId limit = andThen (lift (bigint_param userId)) (\<lambda>uid d.
     let rows = sort_key (\<lambda>r. - o_createdAt r) (filter (\<lambda>r. o_userId r = uid) (orders d))
     in (Inr (map (load_order d) (case limit of None \<Rightarrow> rows | Some n \<Rightarrow> take n rows)), d))"

definition countByStatus :: "(db, (OrderStatus \<times> nat) list) action" where
  "countByStatus d = (Inr (map (\<lambda>s. (s, length (filter (\<lambda>r. o_status r = s) (orders d))))
     (sort (remdups (map o_status (orders d))))), d)"

text \<open>
  \<open>create\<close>: the checkout, then a read outside the transaction. \<open>gap\<close> is what other clients
  commit between the two.
\<close>

definition create_order :: "tx_env \<Rightarrow> (db \<Rightarrow> db) \<Rightarrow> CheckoutInput \<Rightarrow> (db, order_view) action" where
  "create_order env gap input =
     andThen (checkout env None input) (\<lambda>res.
     andThen (\<lambda>d. findById (cr_orderId res) (gap d)) (\<lambda>found.
     case found of
       None \<Rightarrow> throw (PlainError (''order '' @ cr_orderId res @ '' disappeared right after checkout''))
     | Some v \<Rightarrow> return v))"

section \<open>Comparing a retry with the stored order\<close>

text \<open>
  The text of a number in a template literal. Integers of at least \<open>10^21\<close> print with an exponent;
  no stored quantity is that large, so the comparison fails either way.
\<close>

fun js_text :: "js_number \<Rightarrow> string" where
  "js_text (JsInt i) = (if i < 0 then ''-'' @ dec (nat (- i)) else dec (nat i))"
| "js_text (JsNonInt t) = t"

definition line_text :: "string \<times> js_number \<Rightarrow> string" where
  "line_text line = fst line @ '':'' @ js_text (snd line)"

fun join_with :: "string \<Rightarrow> string list \<Rightarrow> string" where
  "join_with sep [] = []"
| "join_with sep [x] = x"
| "join_with sep (x # y # xs) = x @ sep @ join_with sep (y # xs)"

definition normalizeLines :: "(string \<times> js_number) list \<Rightarrow> string" where
  "normalizeLines lines = join_with '','' (sort (map line_text lines))"

definition view_lines :: "order_view \<Rightarrow> (string \<times> js_number) list" where
  "view_lines v = map (\<lambda>i. (dec (i_productId i), JsInt (i_quantity i))) (v_items v)"

definition input_lines :: "CheckoutInput \<Rightarrow> (string \<times> js_number) list" where
  "input_lines input = map (\<lambda>l. (cl_productId l, cl_quantity l)) (ci_items input)"

definition isSameRequest :: "order_view \<Rightarrow> CheckoutInput \<Rightarrow> bool" where
  "isSameRequest v input \<longleftrightarrow> normalizeLines (view_lines v) = normalizeLines (input_lines input)"

definition IDEMPOTENCY_INDEX :: string where
  "IDEMPOTENCY_INDEX = ''orders_user_id_idempotency_key_key''"

fun isIdempotencyConflict :: "js_error \<Rightarrow> bool" where
  "isIdempotencyConflict (QueryFailedError e) \<longleftrightarrow>
     de_code e = ''23505'' \<and> de_constraint e = Some IDEMPOTENCY_INDEX"
| "isIdempotencyConflict _ \<longleftrightarrow> False"

section \<open>Product card refreshes\<close>

text \<open>
  \<open>add\<close> is \<open>queue.add\<close> of BullMQ on the state \<open>'q\<close> of the queue: it takes the job id and the
  product id and may fail. All the additions are started; a failure is logged and dropped.
\<close>

type_synonym 'q queue_add = "string \<Rightarrow> string \<Rightarrow> 'q \<Rightarrow> js_error option \<times> 'q"

fun first_occurrences :: "string list \<Rightarrow> string list \<Rightarrow> string list" where
  "first_occurrences seen [] = []"
| "first_occurrences seen (x # xs) =
     (if x \<in> set seen then first_occurrences seen xs else x # first_occurrences (x # seen) xs)"

definition enqueueRefresh :: "'q queue_add \<Rightarrow> string \<Rightarrow> string \<Rightarrow> 'q \<Rightarrow> js_error option \<times> 'q" where
  "enqueueRefresh add productId eventKey = add (''refresh-'' @ productId @ ''-'' @ eventKey) productId"

definition refreshProducts :: "'q queue_add \<Rightarrow> string list \<Rightarrow> string \<Rightarrow> 'q \<Rightarrow> 'q" where
  "refreshProducts add productIds eventKey q =
     fold (\<lambda>pid q. snd (enqueueRefresh add pid eventKey q)) (first_occurrences [] productIds) q"

definition refreshOrder :: "'q queue_add \<Rightarrow> string \<Rightarrow> string \<Rightarrow> (db \<times> 'q, unit) action" where
  "refreshOrder add orderId eventKey s = (case findById orderId (fst s) of
      (Inl e, d) \<Rightarrow> (Inl e, (d, snd s))
    | (Inr None, d) \<Rightarrow> (Inr (), (d, snd s))
    | (Inr (Some v), d) \<Rightarrow>
        (Inr (), (d, refreshProducts add (map (dec \<circ> i_productId) (v_items v)) eventKey (snd s))))"

section \<open>Placing an order\<close>

record PlacedOrder =
  po_order :: order_view
  po_replay :: bool

text \<open>
  What surrounds one call: the transaction environment, the optional refresher, and what the other
  clients commit before the checkout, before the order is read back, and before the second lookup.
\<close>

record 'q place_env =
  pe_tx :: tx_env
  pe_refresher :: "'q queue_add option"
  pe_before :: "db \<Rightarrow> db"
  pe_readback :: "db \<Rightarrow> db"
  pe_again :: "db \<Rightarrow> db"

definition on_db :: "(db, 'a) action \<Rightarrow> (db \<times> 'q, 'a) action" where
  "on_db m s = (case m (fst s) of (r, d) \<Rightarrow> (r, (d, snd s)))"

definition findExisting :: "CheckoutInput \<Rightarrow> (db, PlacedOrder option) action" where
  "findExisting input =
     (case ci_idempotencyKey input of
        None \<Rightarrow> return None
      | Some key \<Rightarrow> if key = [] then return None else
          andThen (findByIdempotencyKey (ci_userId input) key) (\<lambda>found.
          case found of
            None \<Rightarrow> return None
          | Some order \<Rightarrow>
              if \<not> isSameRequest order input then throw (IdempotencyKeyReusedError key)
              else return (Some \<lparr>po_order = order, po_replay = True\<rparr>)))"

text \<open>The body of the \<open>try\<close>.\<close>

definition create_and_refresh :: "'q place_env \<Rightarrow> CheckoutInput \<Rightarrow> (db \<times> 'q, PlacedOrder) action" where
  "create_and_refresh env input =
     andThen (on_db (\<lambda>d. create_order (pe_tx env) (pe_readback env) input (pe_before env d))) (\<lambda>order s.
       (Inr \<lparr>po_order = order, po_replay = False\<rparr>,
        (fst s, case pe_refresher env of
           None \<Rightarrow> snd s
         | Some add \<Rightarrow> refreshProducts add (map (dec \<circ> i_productId) (v_items order))
             (''order-'' @ dec (o_id (v_order order)) @ ''-placed'') (snd s))))"

definition place :: "'q place_env \<Rightarrow> CheckoutInput \<Rightarrow> (db \<times> 'q, PlacedOrder) action" where
  "place env input =
     andThen (on_db (findExisting input)) (\<lambda>existing.
     case existing of
       Some p \<Rightarrow> return p
     | None \<Rightarrow> (\<lambda>s.
         case create_and_refresh env input s of
           (Inr p, s') \<Rightarrow> (Inr p, s')
         | (Inl e, s') \<Rightarrow>
             if \<not> isIdempotencyConflict e then (Inl e, s')
             else andThen (on_db (\<lambda>d. findExisting input (pe_again env d))) (\<lambda>winner.
                    case winner of None \<Rightarrow> throw e | Some p \<Rightarrow> return p) s'))"

end
