(* ===== verification/Orders_Same.thy ===== *)
theory Orders_Same
  imports Orders
begin

text \<open>
  The textual comparison \<open>isSameRequest\<close> makes between a stored order and a retried request, and
  the multiset of lines it stands for.
\<close>

definition plain :: "string \<Rightarrow> bool" where
  "plain s \<longleftrightarrow> s \<noteq> [] \<and> CHR '','' \<notin> set s"

lemma comma_split:
  "CHR '','' \<notin> set x \<Longrightarrow> takeWhile (\<lambda>c. c \<noteq> CHR '','') (x @ CHR '','' # rest) = x"
  "CHR '','' \<notin> set x \<Longrightarrow> takeWhile (\<lambda>c. c \<noteq> CHR '','') x = x"
  by (induction x) auto

lemma join_Cons: "xs \<noteq> [] \<Longrightarrow> join_with sep (x # xs) = x @ sep @ join_with sep xs"
  by (cases xs) simp_all

lemma join_with_first:
  "plain x \<Longrightarrow> takeWhile (\<lambda>c. c \<noteq> CHR '','') (join_with '','' (x # xs)) = x"
  by (cases "xs = []") (simp_all add: join_Cons comma_split plain_def)

lemma join_with_inject:
  "\<forall>x \<in> set xs. plain x \<Longrightarrow> \<forall>y \<in> set ys. plain y \<Longrightarrow>
   join_with '','' xs = join_with '','' ys \<Longrightarrow> xs = ys"
proof (induction xs arbitrary: ys)
  case Nil
  then show ?case by (cases ys; cases "tl ys") (auto simp: plain_def)
next
  case (Cons x xs)
  show ?case
  proof (cases ys)
    case Nil
    with Cons.prems show ?thesis by (cases xs) (auto simp: plain_def)
  next
    case (Cons y zs)
    have "x = y"
      using join_with_first [of x xs] join_with_first [of y zs] Cons.prems Cons by simp
    moreover have "join_with '','' xs = join_with '','' zs \<and> (xs = [] \<longleftrightarrow> zs = [])"
      using Cons.prems(3) unfolding Cons \<open>x = y\<close>
      by (cases "xs = []"; cases "zs = []") (simp_all add: join_Cons)
    ultimately show ?thesis
      using Cons.IH [of zs] Cons.prems Cons by simp
  qed
qed

lemma digit_not_mark: "list_all is_digit s \<Longrightarrow> c \<in> {CHR '','', CHR '':'', CHR ''-''} \<Longrightarrow> c \<notin> set s"
  by (auto simp: list_all_iff is_digit_def)

lemma dec_not_mark: "c \<in> {CHR '','', CHR '':'', CHR ''-''} \<Longrightarrow> c \<notin> set (dec n)"
  by (rule digit_not_mark [OF dec_digits])

lemma js_text_JsInt_inject [simp]: "js_text (JsInt i) = js_text (JsInt j) \<longleftrightarrow> i = j"
proof -
  have "''-'' @ dec m \<noteq> dec n" for m n
    using dec_not_mark [of "CHR ''-''" n] by (metis append_Cons insertCI list.set_intros(1))
  then show ?thesis by (auto simp: not_less) (metis append_Cons append_Nil)+
qed

definition plain_line :: "string \<times> js_number \<Rightarrow> bool" where
  "plain_line l \<longleftrightarrow> isId (fst l) \<and> is_integer (snd l)"

lemma line_text_plain: "plain_line l \<Longrightarrow> plain (line_text l)"
proof -
  assume l: "plain_line l"
  then obtain i where "snd l = JsInt i" by (cases "snd l") (auto simp: plain_line_def)
  with l digit_not_mark [of "fst l" "CHR '',''"] dec_not_mark [of "CHR '',''"] show ?thesis
    by (auto simp: plain_line_def plain_def line_text_def isId_def)
qed

lemma colon_split:
  assumes "x @ CHR '':'' # a = y @ CHR '':'' # b" and "CHR '':'' \<notin> set x" and "CHR '':'' \<notin> set y"
  shows "x = y \<and> a = b"
  using assms
proof (induction x arbitrary: y)
  case Nil
  then show ?case by (cases y) auto
next
  case (Cons c x)
  then show ?case by (cases y) auto
qed

lemma inj_line_text: "inj_on line_text {l. plain_line l}"
proof (rule inj_onI; simp only: mem_Collect_eq)
  fix l m assume l: "plain_line l" and m: "plain_line m" and eq: "line_text l = line_text m"
  have "fst l = fst m \<and> js_text (snd l) = js_text (snd m)"
    using eq l m digit_not_mark [of _ "CHR '':''"]
    by (intro colon_split) (simp_all add: line_text_def plain_line_def isId_def)
  moreover obtain i j where "snd l = JsInt i" "snd m = JsInt j"
    using l m by (cases "snd l"; cases "snd m") (auto simp: plain_line_def)
  ultimately show "l = m" by (metis js_text_JsInt_inject prod.expand)
qed

lemma sort_eq_iff: "sort xs = sort ys \<longleftrightarrow> mset xs = mset ys"
  by (metis mset_sort properties_for_sort sorted_sort)

lemma mset_map_inj:
  assumes inj: "inj_on f S"
    and "set xs \<subseteq> S" and "set ys \<subseteq> S"
  shows "mset (map f xs) = mset (map f ys) \<longleftrightarrow> mset xs = mset ys"
proof
  assume eq: "mset (map f xs) = mset (map f ys)"
  have undo: "map (the_inv_into S f) (map f zs) = zs" if "set zs \<subseteq> S" for zs
    using that by (induction zs) (auto simp: the_inv_into_f_f [OF inj])
  have "image_mset (the_inv_into S f) (mset (map f xs)) = image_mset (the_inv_into S f) (mset (map f ys))"
    using eq by simp
  then show "mset xs = mset ys"
    using undo [OF assms(2)] undo [OF assms(3)] by (metis mset_map)
qed simp

text \<open>On plain lines, equal normal forms are equal multisets of lines.\<close>

lemma normalizeLines_eq_iff:
  assumes "\<forall>l \<in> set xs. plain_line l" and "\<forall>l \<in> set ys. plain_line l"
  shows "normalizeLines xs = normalizeLines ys \<longleftrightarrow> mset xs = mset ys"
proof -
  have "normalizeLines xs = normalizeLines ys \<longleftrightarrow> sort (map line_text xs) = sort (map line_text ys)"
  proof
    assume "normalizeLines xs = normalizeLines ys"
    then show "sort (map line_text xs) = sort (map line_text ys)"
      unfolding normalizeLines_def
      by (rule join_with_inject [rotated 2]) (use assms line_text_plain in auto)
  qed (simp add: normalizeLines_def)
  also have "\<dots> \<longleftrightarrow> mset (map line_text xs) = mset (map line_text ys)" by (rule sort_eq_iff)
  also have "\<dots> \<longleftrightarrow> mset xs = mset ys"
    by (rule mset_map_inj [OF inj_line_text]) (use assms in auto)
  finally show ?thesis .
qed

end
