(* ===== verification/Orders_Theorems.thy ===== *)
theory Orders_Theorems
  imports Orders_Same
begin

text \<open>
  Placing an order: what is found stays found, a retry replays the order it created, whatever other
  checkouts commit in between.
\<close>

section \<open>Views are stable under checkouts\<close>

definition checkout_step_fun :: "checkout_request \<Rightarrow> db \<Rightarrow> db" where
  "checkout_step_fun req d = snd (checkout (fst req) (fst (snd req)) (snd (snd req)) d)"

lemma run_checkouts_fold: "run_checkouts reqs d = fold checkout_step_fun reqs d"
  by (induction reqs d rule: run_checkouts.induct) (simp_all add: checkout_step_fun_def)

lemma select_one_append:
  "select_one P (xs @ ys) = (case select_one P xs of None \<Rightarrow> select_one P ys | Some x \<Rightarrow> Some x)"
  by (induction xs) (auto simp: select_one_def)

lemma view_where_effect:
  assumes "db_ok d" and "view_where P d = Some v"
  shows "view_where P (checkout_effect env input d) = Some v"
proof -
  obtain r where r: "select_one P (orders d) = Some r" and v: "v = load_order d r"
    using assms(2) by (auto simp: view_where_def)
  from select_one_Some [OF r] have "r \<in> set (orders d)" by blast
  then have "items_of (checkout_effect env input d) (o_id r) = items_of d (o_id r)"
    by (rule items_of_effect(1) [OF assms(1)])
  then have "load_order (checkout_effect env input d) r = load_order d r"
    by (simp only: load_order_def)
  moreover have "select_one P (orders (checkout_effect env input d)) = Some r"
    using r by (simp add: select_one_append)
  ultimately show ?thesis using v by (simp only: view_where_def option.map)
qed

lemma view_where_seqs [simp]: "view_where P (d\<lparr>seqs := s\<rparr>) = view_where P d"
  by (simp add: view_where_def load_order_def [abs_def] items_of_def)

interpretation order_views: append_only db_ok view_where checkout_step_fun
proof
  fix d req
  assume ok: "db_ok d"
  show "db_ok (checkout_step_fun req d)"
    using run_checkouts_ok [OF ok, of "[req]"] by (simp add: run_checkouts_fold)
next
  fix d and req :: checkout_request and P v
  assume ok: "db_ok d" and v: "view_where P d = Some v"
  obtain env hook input where req: "req = (env, hook, input)" by (cases req) auto
  obtain r d' where run: "checkout env hook input d = (r, d')" by fastforce
  have "view_where P d' = Some v"
    using ok run
  proof (cases rule: checkout_step)
    case sale
    then show ?thesis using view_where_effect [OF ok v] by simp
  next
    case refusal
    then show ?thesis using view_where_seqs [where d = d and s = "seqs d'"] v by simp
  qed
  with req run show "view_where P (checkout_step_fun req d) = Some v"
    by (simp add: checkout_step_fun_def)
qed

lemma view_stable:
  "db_ok d \<Longrightarrow> view_where P d = Some v \<Longrightarrow> view_where P (run_checkouts reqs d) = Some v"
  unfolding run_checkouts_fold by (rule order_views.run_keeps)

section \<open>Looking a key up\<close>

lemma findExisting_key:
  assumes "ci_idempotencyKey input = Some key" and "key \<noteq> []"
  shows "findExisting input d = (Inr (Some p), d') \<longleftrightarrow>
    d' = d \<and> isId (ci_userId input) \<and> num_of (ci_userId input) \<le> int8_max \<and> po_replay p \<and>
    view_where (has_key (num_of (ci_userId input)) key) d = Some (po_order p) \<and>
    isSameRequest (po_order p) input"
  using assms
  by (cases p) (auto simp: findExisting_def findByIdempotencyKey_def bigint_param_def split: option.splits if_splits)

lemma findExisting_None:
  "findExisting input d = (Inr None, d') \<Longrightarrow> d' = d"
  by (auto simp: findExisting_def findByIdempotencyKey_def split: option.splits if_splits)

section \<open>The created order\<close>

definition new_view :: "tx_env \<Rightarrow> CheckoutInput \<Rightarrow> db \<Rightarrow> order_view" where
  "new_view env input d = \<lparr>v_order = new_order env input d, v_items = new_items input d\<rparr>"

lemma sort_new_items: "sort_key i_id (new_items input d) = new_items input d"
  by (simp add: sort_key_id_if_sorted new_items_def item_rows_ids)

lemma new_view_found:
  assumes ok: "db_ok d" and "P (new_order env input d)" and "\<forall>r \<in> set (orders d). \<not> P r"
  shows "view_where P (checkout_effect env input d) = Some (new_view env input d)"
proof -
  have "o_id (new_order env input d) = sq_order (seqs d)" by (simp add: new_order_def)
  moreover have "select_one P (orders d) = None" using assms(3) by (simp add: select_one_None)
  moreover have "select_one P [new_order env input d] = Some (new_order env input d)"
    using assms(2) by (simp add: select_one_def)
  ultimately show ?thesis
    using items_of_effect(2) [OF ok, of env input] sort_new_items
    by (simp add: view_where_def select_one_append load_order_def new_view_def)
qed

text \<open>A successful creation: the order it returns is the one a lookup by its key finds from then on.\<close>

lemma create_order_Inr:
  assumes ok: "db_ok d" and run: "create_order env (run_checkouts reqs) input d = (Inr v, d')"
  shows "checkout_allowed env input d" and "v = new_view env input d"
    and "d' = run_checkouts reqs (checkout_effect env input d)"
proof -
  from run obtain res d1 where co: "checkout env None input d = (Inr res, d1)"
    and found: "findById (cr_orderId res) (run_checkouts reqs d1) = (Inr (Some v), d')"
    unfolding create_order_def by (fastforce split: option.splits)
  from co have al: "checkout_allowed env input d" and d1: "d1 = checkout_effect env input d"
    and res: "cr_orderId res = dec (sq_order (seqs d))"
    by (simp_all add: checkout_Inr [OF ok])
  have "\<forall>r \<in> set (orders d). \<not> has_id (sq_order (seqs d)) r"
    using ok by (auto simp: db_ok_def sequences_ok_def below_def has_id_def)
  then have "view_where (has_id (sq_order (seqs d))) d1 = Some (new_view env input d)"
    unfolding d1 by (intro new_view_found [OF ok]) (simp add: has_id_def new_order_def)
  then have "view_where (has_id (sq_order (seqs d))) (run_checkouts reqs d1) = Some (new_view env input d)"
    using view_stable checkout_effect_ok [OF ok al] d1 by blast
  with found res show "v = new_view env input d" and "d' = run_checkouts reqs (checkout_effect env input d)"
    by (auto simp: findById_def bigint_param_def d1 split: if_splits)
  show "checkout_allowed env input d" by (rule al)
qed

lemma new_view_key:
  assumes ok: "db_ok d" and al: "checkout_allowed env input d" and key: "ci_idempotencyKey input = Some key"
  shows "view_where (has_key (num_of (ci_userId input)) key) (checkout_effect env input d) =
    Some (new_view env input d)"
  using al key
  by (intro new_view_found [OF ok]) (auto simp: has_key_def new_order_def checkout_allowed_def key_free_def)

text \<open>The normal form depends only on the multiset of lines, and canonical ids survive the tables.\<close>

lemma normalizeLines_mset: "mset xs = mset ys \<Longrightarrow> normalizeLines xs = normalizeLines ys"
  unfolding normalizeLines_def by (metis mset_map sort_eq_iff)

lemma same_request_mset:
  assumes "\<forall>l \<in> set (ci_items input). isId (cl_productId l) \<and> is_integer (cl_quantity l)"
  shows "isSameRequest v input \<longleftrightarrow>
    mset (map (\<lambda>i. (dec (i_productId i), i_quantity i)) (v_items v)) =
    mset (map (\<lambda>l. (cl_productId l, qty l)) (ci_items input))"
proof -
  have "map (\<lambda>l. (cl_productId l, cl_quantity l)) (ci_items input) =
      map (\<lambda>p. (fst p, JsInt (snd p))) (map (\<lambda>l. (cl_productId l, qty l)) (ci_items input))"
    unfolding map_map comp_def
  proof (rule map_cong [OF refl])
    fix l assume "l \<in> set (ci_items input)"
    with assms show "(cl_productId l, cl_quantity l) =
        (fst (cl_productId l, qty l), JsInt (snd (cl_productId l, qty l)))"
      by (cases "cl_quantity l") auto
  qed
  moreover have "view_lines v = map (\<lambda>p. (fst p, JsInt (snd p))) (map (\<lambda>i. (dec (i_productId i), i_quantity i)) (v_items v))"
    by (simp add: view_lines_def)
  moreover have "\<forall>l \<in> set (view_lines v). plain_line l" "\<forall>l \<in> set (input_lines input). plain_line l"
    using assms by (auto simp: view_lines_def input_lines_def plain_line_def)
  ultimately have "isSameRequest v input \<longleftrightarrow>
      mset (map (\<lambda>p. (fst p, JsInt (snd p))) (map (\<lambda>i. (dec (i_productId i), i_quantity i)) (v_items v))) =
      mset (map (\<lambda>p. (fst p, JsInt (snd p))) (map (\<lambda>l. (cl_productId l, qty l)) (ci_items input)))"
    unfolding isSameRequest_def by (simp only: normalizeLines_eq_iff input_lines_def)
  moreover have inj: "inj_on (\<lambda>p :: string \<times> int. (fst p, JsInt (snd p))) UNIV"
    by (auto simp: inj_on_def prod_eq_iff)
  ultimately show ?thesis by (simp only: mset_map_inj [OF inj subset_UNIV subset_UNIV])
qed

text \<open>Printing the stored ids changes the lines unless all were sent as they print.\<close>

lemma mset_image_canonical:
  assumes idem: "\<And>x. g (g x) = g x"
  shows "mset (map g xs) = mset xs \<longleftrightarrow> (\<forall>x \<in> set xs. g x = x)"
proof
  assume "mset (map g xs) = mset xs"
  then have "set xs = g ` set xs" by (metis mset_eq_setD list.set_map)
  then show "\<forall>x \<in> set xs. g x = x" using idem by (metis imageE)
next
  assume "\<forall>x \<in> set xs. g x = x"
  then show "mset (map g xs) = mset xs" by (simp add: map_idI)
qed

lemma new_view_same_iff:
  assumes ids: "\<forall>l \<in> set (ci_items input). isId (cl_productId l) \<and> is_integer (cl_quantity l)"
  shows "isSameRequest (new_view env input d) input \<longleftrightarrow> (\<forall>l \<in> set (ci_items input). canonical_id (cl_productId l))"
proof -
  let ?g = "\<lambda>x :: string \<times> int. (dec (num_of (fst x)), snd x)"
  let ?ls = "map (\<lambda>l. (cl_productId l, qty l)) (ci_items input)"
  have rows: "map (\<lambda>i. (dec (i_productId i), i_quantity i)) (item_rows k oid ls) =
      map (\<lambda>l. (dec (num_of (ei_productId l)), ei_quantity l)) ls" for k oid ls
    by (induction k oid ls rule: item_rows.induct) auto
  have "mset (map (\<lambda>i. (dec (i_productId i), i_quantity i)) (v_items (new_view env input d))) =
      mset (map (\<lambda>l. (dec (num_of (cl_productId l)), qty l)) (sorted_lines (ci_items input)))"
    by (simp add: new_view_def new_items_def rows new_priced_def priced_line_def comp_def)
  also have "\<dots> = mset (map ?g ?ls)" by (simp add: comp_def)
  finally have "isSameRequest (new_view env input d) input \<longleftrightarrow> mset (map ?g ?ls) = mset ?ls"
    unfolding same_request_mset [OF ids] by simp
  also have "\<dots> \<longleftrightarrow> (\<forall>x \<in> set ?ls. ?g x = x)" by (rule mset_image_canonical) simp
  also have "\<dots> \<longleftrightarrow> (\<forall>l \<in> set (ci_items input). canonical_id (cl_productId l))"
    using ids by (auto simp: canonical_id_def)
  finally show ?thesis .
qed

text \<open>A stored line prints its id canonically, so a request it equals was sent that way.\<close>

lemma same_request_canonical:
  assumes ids: "\<forall>l \<in> set (ci_items input). isId (cl_productId l) \<and> is_integer (cl_quantity l)"
    and same: "isSameRequest v input"
  shows "\<forall>l \<in> set (ci_items input). canonical_id (cl_productId l)"
proof -
  have "set (map (\<lambda>l. (cl_productId l, qty l)) (ci_items input)) = set (map (\<lambda>i. (dec (i_productId i), i_quantity i)) (v_items v))"
    using same unfolding same_request_mset [OF ids] by (metis mset_eq_setD)
  then have "(cl_productId l, qty l) \<in> (\<lambda>i. (dec (i_productId i), i_quantity i)) ` set (v_items v)" if "l \<in> set (ci_items input)" for l
    using that by force
  then show ?thesis by fastforce
qed


section \<open>Placing\<close>

definition quiet :: "'q place_env \<Rightarrow> checkout_request list \<Rightarrow> checkout_request list \<Rightarrow> checkout_request list \<Rightarrow> bool" where
  "quiet env before readback again \<longleftrightarrow> pe_before env = run_checkouts before \<and>
     pe_readback env = run_checkouts readback \<and> pe_again env = run_checkouts again"

text \<open>The three ways a placement returns an order.\<close>

lemma place_Inr_cases:
  assumes run: "place env input (d, q) = (Inr p, (d', q'))" and env: "quiet env A B C"
  obtains (existing) "findExisting input d = (Inr (Some p), d')"
  | (created) "create_order (pe_tx env) (run_checkouts B) input (run_checkouts A d) = (Inr (po_order p), d')"
      and "\<not> po_replay p"
  | (winner) e d1 where
      "create_order (pe_tx env) (run_checkouts B) input (run_checkouts A d) = (Inl e, d1)"
      and "isIdempotencyConflict e" and "findExisting input (run_checkouts C d1) = (Inr (Some p), d')"
proof -
  obtain r0 d0 where f: "findExisting input d = (r0, d0)" by fastforce
  show thesis
  proof (cases r0)
    case (Inl e)
    with run f show thesis by (simp add: place_def on_db_def andThen_def)
  next
    case (Inr found)
    show thesis
    proof (cases found)
      case (Some p0)
      with run f Inr have "findExisting input d = (Inr (Some p), d')"
        by (simp add: place_def on_db_def andThen_def return_def)
      then show thesis by (rule existing)
    next
      case None
      with f Inr have "d0 = d" using findExisting_None by blast
      obtain r1 d1 where c: "create_order (pe_tx env) (run_checkouts B) input (run_checkouts A d) = (r1, d1)"
        by fastforce
      show thesis
      proof (cases r1)
        case (Inl e)
        with c have cr: "create_and_refresh env input (d, q) = (Inl e, (d1, q))"
          using env by (simp add: create_and_refresh_def on_db_def andThen_def quiet_def)
        with run f Inr None \<open>d0 = d\<close> have conf: "isIdempotencyConflict e"
          and again: "andThen (on_db (\<lambda>d. findExisting input (pe_again env d))) (\<lambda>winner.
            case winner of None \<Rightarrow> throw e | Some p \<Rightarrow> return p) (d1, q) = (Inr p, (d', q'))"
          by (auto simp: place_def on_db_def [where m = "findExisting input"] andThen_def [where m = "on_db (findExisting input)"] split: if_splits)
        from again env have "findExisting input (run_checkouts C d1) = (Inr (Some p), d')"
          by (auto simp: on_db_def quiet_def split: option.splits prod.splits)
        with c Inl conf show thesis by (auto intro: winner)
      next
        case (Inr v)
        with c env have "\<exists>q1. create_and_refresh env input (d, q) = (Inr \<lparr>po_order = v, po_replay = False\<rparr>, (d1, q1))"
          by (simp add: create_and_refresh_def on_db_def andThen_def quiet_def)
        with run f \<open>r0 = Inr found\<close> None \<open>d0 = d\<close> have "p = \<lparr>po_order = v, po_replay = False\<rparr>" "d' = d1"
          by (auto simp: place_def on_db_def andThen_def)
        with c Inr show thesis by (auto intro: created)
      qed
    qed
  qed
qed

lemma create_order_keeps_ok:
  assumes "db_ok d" and "create_order env (run_checkouts reqs) input d = (r, d')"
  shows "db_ok d'"
proof -
  obtain q d1 where co: "checkout env None input d = (q, d1)" by fastforce
  have "db_ok d1" using run_checkouts_ok [OF assms(1), of "[(env, None, input)]"] co by simp
  moreover from this have "db_ok (run_checkouts reqs d1)" by (rule run_checkouts_ok)
  moreover have "d' = d1 \<or> d' = run_checkouts reqs d1"
    using assms(2) co
    by (auto simp: create_order_def andThen_def findById_def lift_def return_def throw_def
        split: sum.splits option.splits prod.splits)
  ultimately show ?thesis by blast
qed

text \<open>After any successful placement under a key, a lookup by the key finds the returned order.\<close>

lemma place_found:
  assumes ok: "db_ok d" and key: "ci_idempotencyKey input = Some key" "key \<noteq> []"
    and ids: "\<forall>l \<in> set (ci_items input). isId (cl_productId l) \<and> is_integer (cl_quantity l)"
    and env: "quiet env A B C" and run: "place env input (d, q) = (Inr p, (d', q'))"
  shows "db_ok d'" and "view_where (has_key (num_of (ci_userId input)) key) d' = Some (po_order p)"
    and "isSameRequest (po_order p) input \<longleftrightarrow> (\<forall>l \<in> set (ci_items input). canonical_id (cl_productId l))"
    and "isId (ci_userId input)" and "num_of (ci_userId input) \<le> int8_max"
proof -
  have "db_ok d' \<and> view_where (has_key (num_of (ci_userId input)) key) d' = Some (po_order p) \<and>
      (isSameRequest (po_order p) input \<longleftrightarrow> (\<forall>l \<in> set (ci_items input). canonical_id (cl_productId l))) \<and>
      isId (ci_userId input) \<and> num_of (ci_userId input) \<le> int8_max"
    using run env
  proof (cases rule: place_Inr_cases)
    case existing
    with ok show ?thesis using same_request_canonical [OF ids] by (auto simp: findExisting_key [OF key])
  next
    case created
    let ?d0 = "run_checkouts A d"
    have ok0: "db_ok ?d0" by (rule run_checkouts_ok [OF ok])
    note cr = create_order_Inr [OF ok0 created(1)]
    have ok1: "db_ok (checkout_effect (pe_tx env) input ?d0)" by (rule checkout_effect_ok [OF ok0 cr(1)])
    have "view_where (has_key (num_of (ci_userId input)) key) d' = Some (po_order p)"
      using view_stable [OF ok1 new_view_key [OF ok0 cr(1) key(1)]] cr(2,3) by simp
    moreover have "isSameRequest (po_order p) input \<longleftrightarrow> (\<forall>l \<in> set (ci_items input). canonical_id (cl_productId l))"
      unfolding cr(2) by (rule new_view_same_iff [OF ids])
    moreover have "isId (ci_userId input)" "num_of (ci_userId input) \<le> int8_max"
      using cr(1) by (simp_all add: checkout_allowed_def can_pay_def)
    moreover have "db_ok d'" using run_checkouts_ok [OF ok1] cr(3) by simp
    ultimately show ?thesis by blast
  next
    case (winner e d1)
    have "db_ok d1" by (rule create_order_keeps_ok [OF run_checkouts_ok [OF ok] winner(1)])
    then have "db_ok (run_checkouts C d1)" by (rule run_checkouts_ok)
    with winner(3) show ?thesis using same_request_canonical [OF ids] by (auto simp: findExisting_key [OF key])
  qed
  then show "db_ok d'" and "view_where (has_key (num_of (ci_userId input)) key) d' = Some (po_order p)"
    and "isSameRequest (po_order p) input \<longleftrightarrow> (\<forall>l \<in> set (ci_items input). canonical_id (cl_productId l))"
    and "isId (ci_userId input)" and "num_of (ci_userId input) \<le> int8_max" by blast+
qed

section \<open>Properties\<close>

text \<open>
  C7: the textual normal form decides exactly whether the stored lines and the requested lines are
  the same multiset of (product, quantity) pairs, whatever the order of the lines.
\<close>

theorem same_request_iff:
  assumes "\<forall>l \<in> set (ci_items input). isId (cl_productId l) \<and> is_integer (cl_quantity l)"
  shows "isSameRequest v input \<longleftrightarrow>
    mset (map (\<lambda>i. (dec (i_productId i), i_quantity i)) (v_items v)) =
    mset (map (\<lambda>l. (cl_productId l, qty l)) (ci_items input))"
  by (rule same_request_mset [OF assms])

definition keyed_input :: "string \<Rightarrow> CheckoutLine list \<Rightarrow> CheckoutInput" where
  "keyed_input key ls = \<lparr>ci_userId = ''1'', ci_items = ls, ci_idempotencyKey = Some key\<rparr>"

theorem same_request_iff_witness:
  "isSameRequest \<lparr>v_order = new_order shop_env shop_cart shop_db,
       v_items = new_items shop_cart shop_db\<rparr> (shop_input [shop_line ''1'' 3, shop_line ''2'' 1])"
proof -
  have "\<forall>l \<in> set (ci_items (shop_input [shop_line ''1'' 3, shop_line ''2'' 1])).
      isId (cl_productId l) \<and> is_integer (cl_quantity l)" by code_simp
  moreover have "mset (map (\<lambda>i. (dec (i_productId i), i_quantity i)) (new_items shop_cart shop_db)) =
      mset (map (\<lambda>l. (cl_productId l, qty l)) (ci_items (shop_input [shop_line ''1'' 3, shop_line ''2'' 1])))"
    by code_simp
  ultimately show ?thesis using same_request_iff by simp
qed

text \<open>
  C8: a request that has placed or replayed an order under a non-empty idempotency key never creates a
  second one. A retry of it, however many other checkouts commit in between (and in every gap of both
  calls), changes nothing, and replays the order the first call returned exactly when every product
  id was sent as the tables print it. If one was not (a leading zero), the retry is refused with
  \<open>IdempotencyKeyReusedError\<close> although the body is the same. The lines are those the routes let
  through: product ids of digits and integer quantities.
\<close>

theorem place_idempotent:
  assumes "db_ok d" and "ci_idempotencyKey input = Some key" and "key \<noteq> []"
    and "\<forall>l \<in> set (ci_items input). isId (cl_productId l) \<and> is_integer (cl_quantity l)"
    and "quiet env A B C" and "place env input (d, q) = (Inr p, (d', q'))"
  shows "place env2 input (run_checkouts reqs d', q2) =
    (if \<forall>l \<in> set (ci_items input). canonical_id (cl_productId l) then Inr (p\<lparr>po_replay := True\<rparr>)
     else Inl (IdempotencyKeyReusedError key), (run_checkouts reqs d', q2))"
proof -
  note found = place_found [OF assms]
  have "view_where (has_key (num_of (ci_userId input)) key) (run_checkouts reqs d') = Some (po_order p)"
    by (rule view_stable [OF found(1,2)])
  then have "findExisting input (run_checkouts reqs d') =
      (if \<forall>l \<in> set (ci_items input). canonical_id (cl_productId l) then Inr (Some (p\<lparr>po_replay := True\<rparr>))
       else Inl (IdempotencyKeyReusedError key), run_checkouts reqs d')"
    using found(3-5) assms(2,3)
    by (simp add: findExisting_def findByIdempotencyKey_def bigint_param_def andThen_def lift_def return_def throw_def)
  then show ?thesis by (simp add: place_def on_db_def andThen_def return_def)
qed


definition quiet_env :: "unit place_env" where
  "quiet_env = \<lparr>pe_tx = shop_env, pe_refresher = None, pe_before = run_checkouts [],
     pe_readback = run_checkouts [], pe_again = run_checkouts []\<rparr>"

theorem place_idempotent_witness:
  "\<exists>p d'. place quiet_env (keyed_input ''k'' [shop_line ''1'' 2]) (shop_db, ()) = (Inr p, (d', ())) \<and>
     place quiet_env (keyed_input ''k'' [shop_line ''1'' 2])
       (run_checkouts [(shop_env\<lparr>tx_now := 6000\<rparr>, None, shop_cart)] d', ()) =
     (Inr (p\<lparr>po_replay := True\<rparr>), (run_checkouts [(shop_env\<lparr>tx_now := 6000\<rparr>, None, shop_cart)] d', ()))"
proof -
  let ?in = "keyed_input ''k'' [shop_line ''1'' 2]"
  have "isl (fst (place quiet_env ?in (shop_db, ()))) = False" by code_simp
  then obtain p d' q' where run: "place quiet_env ?in (shop_db, ()) = (Inr p, (d', q'))"
    by (metis isl_def old.sum.exhaust prod.collapse sum.disc(1))
  have "quiet quiet_env [] [] []" by (simp add: quiet_def quiet_env_def)
  moreover have "\<forall>l \<in> set (ci_items ?in). isId (cl_productId l) \<and> is_integer (cl_quantity l)" by code_simp
  moreover have "\<forall>l \<in> set (ci_items ?in). canonical_id (cl_productId l)" by code_simp
  moreover have "ci_idempotencyKey ?in = Some ''k''" by (simp add: keyed_input_def)
  ultimately show ?thesis
    using place_idempotent [OF shop_db_ok _ _ _ _ run, of "''k''" "[]" "[]" "[]" quiet_env
        "[(shop_env\<lparr>tx_now := 6000\<rparr>, None, shop_cart)]" "()"] run by auto
qed

text \<open>
  A retry whose product id carries a leading zero is refused although the body is the same: the
  stored line prints the id without the zero.
\<close>

lemma leading_zero_retry_refused:
  "(case place quiet_env (keyed_input ''k'' [shop_line ''01'' 2]) (shop_db, ()) of
      (Inr p, s) \<Rightarrow> fst (place quiet_env (keyed_input ''k'' [shop_line ''01'' 2]) s)
    | (Inl e, s) \<Rightarrow> Inl e) = Inl (IdempotencyKeyReusedError ''k'')"
  by code_simp

end
