(* ===== verification/OrderEvents.thy ===== *)
theory OrderEvents
  imports Schema
begin

text \<open>
  The status event log of \<open>src/services/order-events.service.ts\<close>: a bounded buffer of events per
  order, a bounded map of buffers that evicts the order published least recently, and the subject
  that every published event goes through.
\<close>

section \<open>State and operations\<close>

record OrderStatusEvent =
  se_id :: nat
  se_orderId :: string
  se_status :: OrderStatus
  se_changedAt :: int

text \<open>
  \<open>buffers\<close> is the JavaScript \<open>Map\<close> in its insertion order; \<open>emitted\<close> is every value the subject
  has passed on. Instants are milliseconds.
\<close>

record event_log =
  buffers :: "(string \<times> OrderStatusEvent list) list"
  emitted :: "OrderStatusEvent list"

definition BUFFER_SIZE :: nat where
  "BUFFER_SIZE = 100"

definition MAX_ORDERS :: nat where
  "MAX_ORDERS = 1000"

definition buffer_of :: "string \<Rightarrow> event_log \<Rightarrow> OrderStatusEvent list" where
  "buffer_of oid s = (case map_of (buffers s) oid of Some b \<Rightarrow> b | None \<Rightarrow> [])"

definition last_id :: "OrderStatusEvent list \<Rightarrow> nat" where
  "last_id b = (if b = [] then 0 else se_id (last b))"

definition next_event :: "int \<Rightarrow> string \<Rightarrow> OrderStatus \<Rightarrow> event_log \<Rightarrow> OrderStatusEvent" where
  "next_event now oid status s = \<lparr>se_id = last_id (buffer_of oid s) + 1, se_orderId = oid,
     se_status = status, se_changedAt = now\<rparr>"

text \<open>\<open>buffer.push(event)\<close> and the \<open>shift\<close> of a full buffer.\<close>

definition push_event :: "OrderStatusEvent \<Rightarrow> OrderStatusEvent list \<Rightarrow> OrderStatusEvent list" where
  "push_event e b = (let b' = b @ [e] in if length b' > BUFFER_SIZE then tl b' else b')"

text \<open>\<open>delete\<close> and \<open>set\<close> move the order to the end; the first key of a full map is evicted.\<close>

definition store_buffer ::
  "string \<Rightarrow> OrderStatusEvent list \<Rightarrow> (string \<times> OrderStatusEvent list) list
    \<Rightarrow> (string \<times> OrderStatusEvent list) list" where
  "store_buffer oid b m =
     (let m' = filter (\<lambda>kv. fst kv \<noteq> oid) m @ [(oid, b)] in if length m' > MAX_ORDERS then tl m' else m')"

definition publish :: "int \<Rightarrow> string \<Rightarrow> OrderStatus \<Rightarrow> event_log \<Rightarrow> OrderStatusEvent \<times> event_log" where
  "publish now oid status s =
     (let event = next_event now oid status s;
          buffer = push_event event (buffer_of oid s)
      in (event, \<lparr>buffers = store_buffer oid buffer (buffers s), emitted = emitted s @ [event]\<rparr>))"

definition streamFor :: "string \<Rightarrow> OrderStatusEvent list \<Rightarrow> OrderStatusEvent list" where
  "streamFor oid evs = filter (\<lambda>e. se_orderId e = oid) evs"

definition missedSince :: "string \<Rightarrow> nat \<Rightarrow> event_log \<Rightarrow> OrderStatusEvent list" where
  "missedSince oid lastEventId s = filter (\<lambda>e. lastEventId < se_id e) (buffer_of oid s)"

definition empty_log :: event_log where
  "empty_log = \<lparr>buffers = [], emitted = []\<rparr>"

type_synonym publication = "int \<times> string \<times> OrderStatus"

fun publish_all :: "publication list \<Rightarrow> event_log \<Rightarrow> event_log" where
  "publish_all [] s = s"
| "publish_all ((now, oid, status) # ps) s = publish_all ps (snd (publish now oid status s))"

lemma publish_all_append: "publish_all (ps @ qs) s = publish_all qs (publish_all ps s)"
  by (induction ps s rule: publish_all.induct) simp_all

section \<open>Invariant\<close>

definition buffer_ok :: "string \<times> OrderStatusEvent list \<Rightarrow> bool" where
  "buffer_ok kv \<longleftrightarrow> snd kv \<noteq> [] \<and> length (snd kv) \<le> BUFFER_SIZE \<and>
     (\<forall>e \<in> set (snd kv). se_orderId e = fst kv) \<and>
     (\<exists>k. map se_id (snd kv) = [k ..< k + length (snd kv)])"

definition log_ok :: "event_log \<Rightarrow> bool" where
  "log_ok s \<longleftrightarrow> distinct (map fst (buffers s)) \<and> length (buffers s) \<le> MAX_ORDERS \<and>
     (\<forall>kv \<in> set (buffers s). buffer_ok kv)"

lemma upt_ids_last: "map se_id b = [k ..< k + length b] \<Longrightarrow> b \<noteq> [] \<Longrightarrow> se_id (last b) = k + length b - 1"
  by (metis last_map last_upt length_greater_0_conv less_add_same_cancel1)

lemma in_set_tlD: "x \<in> set (tl xs) \<Longrightarrow> x \<in> set xs"
  by (cases xs) auto

lemma map_tl_upt: "map f b = [k ..< k + length b] \<Longrightarrow> map f (tl b) = [Suc k ..< Suc k + length (tl b)]"
  by (cases b) (auto simp: upt_conv_Cons simp del: upt_Suc)

lemma buffer_of_cases:
  assumes "log_ok s"
  obtains "buffer_of oid s = []" | "buffer_ok (oid, buffer_of oid s)"
  using assms by (cases "map_of (buffers s) oid") (auto simp: buffer_of_def log_ok_def dest: map_of_SomeD)

lemma buffer_of_ok:
  assumes "log_ok s"
  shows "length (buffer_of oid s) \<le> BUFFER_SIZE" and "\<forall>e \<in> set (buffer_of oid s). se_orderId e = oid"
    and "\<exists>k. map se_id (buffer_of oid s) = [k ..< k + length (buffer_of oid s)]"
  using assms by (cases rule: buffer_of_cases [of s oid]; simp add: buffer_ok_def)+

lemma push_event_ids:
  assumes "map se_id b = [k ..< k + length b]" and "se_id e = last_id b + 1"
  shows "\<exists>j. map se_id (push_event e b) = [j ..< j + length (push_event e b)]"
proof -
  have "\<exists>j. map se_id (b @ [e]) = [j ..< j + length (b @ [e])]"
  proof (cases "b = []")
    case False
    then have "se_id e = k + length b"
      using assms upt_ids_last [OF assms(1)] by (cases b) (simp_all add: last_id_def)
    with assms(1) show ?thesis by (intro exI [of _ k]) simp
  qed (intro exI [of _ "se_id e"], simp)
  then obtain j where j: "map se_id (b @ [e]) = [j ..< j + length (b @ [e])]" ..
  then show ?thesis
    using map_tl_upt [OF j] by (cases "length (b @ [e]) > BUFFER_SIZE") (auto simp only: push_event_def Let_def if_True if_False)
qed

lemma push_event_ok:
  assumes "log_ok s"
  shows "buffer_ok (oid, push_event (next_event now oid status s) (buffer_of oid s))"
proof -
  obtain k where k: "map se_id (buffer_of oid s) = [k ..< k + length (buffer_of oid s)]"
    using buffer_of_ok(3) [OF assms] by blast
  have "se_id (next_event now oid status s) = last_id (buffer_of oid s) + 1" by (simp add: next_event_def)
  note ids = push_event_ids [OF k this]
  have "\<forall>e \<in> set (push_event (next_event now oid status s) (buffer_of oid s)). se_orderId e = oid"
    using buffer_of_ok(2) [OF assms, of oid]
    by (auto simp: push_event_def Let_def next_event_def dest!: in_set_tlD split: if_splits)
  moreover have "length (push_event e b) \<le> BUFFER_SIZE" if "length b \<le> BUFFER_SIZE" for e b
    using that by (simp add: push_event_def Let_def BUFFER_SIZE_def)
  moreover have "push_event e b \<noteq> []" for e b
    by (cases b) (simp_all add: push_event_def Let_def BUFFER_SIZE_def)
  ultimately show ?thesis
    using ids buffer_of_ok(1) [OF assms] by (simp add: buffer_ok_def)
qed

lemma publish_ok:
  assumes "log_ok s"
  shows "log_ok (snd (publish now oid status s))"
proof -
  let ?b = "push_event (next_event now oid status s) (buffer_of oid s)"
  let ?m = "filter (\<lambda>kv. fst kv \<noteq> oid) (buffers s) @ [(oid, ?b)]"
  have "distinct (map fst ?m)"
    using assms by (auto simp: log_ok_def distinct_map_filter)
  moreover have "length ?m \<le> Suc MAX_ORDERS"
    using assms order_trans [OF length_filter_le, of "buffers s" MAX_ORDERS "\<lambda>kv. fst kv \<noteq> oid"]
    by (simp add: log_ok_def)
  moreover have "\<forall>kv \<in> set ?m. buffer_ok kv"
    using assms push_event_ok [OF assms] by (auto simp: log_ok_def)
  moreover define m' where "m' = store_buffer oid ?b (buffers s)"
  moreover have "m' = ?m \<and> length ?m \<le> MAX_ORDERS \<or> m' = tl ?m"
    unfolding m'_def store_buffer_def Let_def by auto
  ultimately have "distinct (map fst m')" "length m' \<le> MAX_ORDERS" "\<forall>kv \<in> set m'. buffer_ok kv"
    by (auto simp only: map_tl distinct_tl length_tl dest!: in_set_tlD)
  then show ?thesis by (simp add: log_ok_def publish_def Let_def m'_def)
qed

lemma publish_all_ok: "log_ok s \<Longrightarrow> log_ok (publish_all ps s)"
  by (induction ps s rule: publish_all.induct) (simp_all add: publish_ok)

lemma empty_log_ok: "log_ok empty_log"
  by (simp add: log_ok_def empty_log_def)

end
