(* ===== verification/OrderEvents_Replay.thy ===== *)
theory OrderEvents_Replay
  imports OrderEvents
begin

text \<open>
  Resuming a stream: what \<open>missedSince\<close> returns to a client that saw an event, when it is complete,
  and what eviction does to it.
\<close>

section \<open>The buffer of one order during a run\<close>

text \<open>
  The order sits in the map with only orders published after it behind it, and the part of its
  buffer above the client's last id is the newest of what was emitted for it since, as many as the
  buffer holds.
\<close>

definition newest :: "OrderStatusEvent list \<Rightarrow> OrderStatusEvent list" where
  "newest news = drop (length news - BUFFER_SIZE) news"

lemma newest_all: "length news \<le> BUFFER_SIZE \<Longrightarrow> newest news = news"
  by (simp add: newest_def)

definition tracked :: "string \<Rightarrow> nat \<Rightarrow> string set \<Rightarrow> OrderStatusEvent list \<Rightarrow> event_log \<Rightarrow> bool" where
  "tracked oid n others news s \<longleftrightarrow> (\<exists>pre b post. buffers s = pre @ (oid, b) # post \<and>
     fst ` set post \<subseteq> others \<and> n \<le> last_id b \<and> filter (\<lambda>e. n < se_id e) b = newest news)"

lemma tracked_buffer:
  assumes "log_ok s" and "buffers s = pre @ (oid, b) # post"
  shows "buffer_of oid s = b" and "buffer_ok (oid, b)"
    and "oid \<notin> fst ` set pre" and "oid \<notin> fst ` set post"
proof -
  have dist: "distinct (map fst (buffers s))" and oks: "\<forall>kv \<in> set (buffers s). buffer_ok kv"
    using assms(1) by (simp_all add: log_ok_def)
  have mem: "(oid, b) \<in> set (buffers s)" by (simp add: assms(2))
  from map_of_is_SomeI [OF dist mem] show "buffer_of oid s = b" by (simp add: buffer_of_def)
  from oks mem show "buffer_ok (oid, b)" by blast
  from dist show "oid \<notin> fst ` set pre" "oid \<notin> fst ` set post" by (auto simp: assms(2))
qed

lemma tracked_missed:
  assumes "log_ok s" and "tracked oid n others news s"
  shows "missedSince oid n s = newest news"
  using assms tracked_buffer(1) [OF assms(1)] by (auto simp: tracked_def missedSince_def)

text \<open>Increasing ids: if any event of a buffer is at or below \<open>n\<close>, its first one is.\<close>

lemma hd_below:
  assumes ids: "map se_id b = [k ..< k + length b]" and "length (filter (\<lambda>e. n < se_id e) b) < length b"
  shows "se_id (hd b) \<le> n"
proof -
  from assms(2) obtain e where "e \<in> set b" "se_id e \<le> n"
    by (metis (mono_tags, lifting) filter_True nat_neq_iff not_le_imp_less)
  then have "se_id e \<in> set [k ..< k + length b]" unfolding ids [symmetric] by simp
  moreover from \<open>e \<in> set b\<close> have "se_id (hd b) = k"
    using ids by (cases b) (auto simp: upt_conv_Cons simp del: upt_Suc)
  ultimately show ?thesis using \<open>se_id e \<le> n\<close> by simp
qed

lemma filter_push:
  assumes "buffer_ok (oid, b)" and "se_id e = last_id b + 1" and "n \<le> last_id b"
    and "length (filter (\<lambda>e. n < se_id e) b) < BUFFER_SIZE"
  shows "filter (\<lambda>e. n < se_id e) (push_event e b) = filter (\<lambda>e. n < se_id e) b @ [e]"
proof (cases "length b < BUFFER_SIZE")
  case True
  with assms show ?thesis by (simp add: push_event_def Let_def)
next
  case False
  with assms(1) have len: "length b = BUFFER_SIZE" by (simp add: buffer_ok_def)
  obtain k where "map se_id b = [k ..< k + length b]" using assms(1) by (auto simp: buffer_ok_def)
  then have "se_id (hd b) \<le> n" by (rule hd_below) (use assms(4) len in simp)
  with assms len show ?thesis by (cases b) (auto simp: push_event_def Let_def buffer_ok_def)
qed

lemma last_id_push: "last_id (push_event e b) = se_id e"
  by (cases b) (simp_all add: push_event_def Let_def last_id_def BUFFER_SIZE_def)

text \<open>A full buffer of new events drops the oldest of them.\<close>

lemma newest_push:
  assumes "buffer_ok (oid, b)" and "se_id e = last_id b + 1" and "n \<le> last_id b"
    and "filter (\<lambda>e. n < se_id e) b = newest news"
  shows "filter (\<lambda>e. n < se_id e) (push_event e b) = newest (news @ [e])"
proof (cases "length news < BUFFER_SIZE")
  case True
  then have news: "filter (\<lambda>e. n < se_id e) b = news" using assms(4) by (simp add: newest_all)
  with filter_push [OF assms(1-3)] True show ?thesis by (simp add: newest_all)
next
  case False
  then have len: "length (newest news) = BUFFER_SIZE" by (simp add: newest_def)
  with assms(1,4) have "length (filter (\<lambda>e. n < se_id e) b) = length b"
    using length_filter_le [of "\<lambda>e. n < se_id e" b] by (simp add: buffer_ok_def)
  then have all: "\<forall>x \<in> set b. n < se_id x" and b: "b = newest news"
    using assms(4) by (simp_all add: length_filter_conv_card filter_id_conv) (metis filter_id_conv length_filter_less less_irrefl)+
  have "push_event e b = tl b @ [e]"
    using len unfolding b [symmetric] by (cases b) (auto simp: push_event_def Let_def BUFFER_SIZE_def)
  moreover have "tl b = drop (Suc (length news) - BUFFER_SIZE) news"
    using False b by (simp add: newest_def tl_drop drop_Suc Suc_diff_le)
  moreover have "filter (\<lambda>e. n < se_id e) (tl b @ [e]) = tl b @ [e]"
    using all assms(2,3) by (auto simp: filter_id_conv dest: in_set_tlD)
  ultimately show ?thesis using False by (simp add: newest_def BUFFER_SIZE_def)
qed

lemma tracked_own:
  assumes ok: "log_ok s" and tr: "tracked oid n others news s"
    and pub: "publish now oid st s = (e, s')"
  shows "tracked oid n others (news @ [e]) s'"
proof -
  obtain pre b post where m: "buffers s = pre @ (oid, b) # post"
    and b: "n \<le> last_id b" "filter (\<lambda>e. n < se_id e) b = newest news"
    using tr by (auto simp: tracked_def)
  note t = tracked_buffer [OF ok m]
  have "filter (\<lambda>kv. fst kv \<noteq> oid) pre = pre" "filter (\<lambda>kv. fst kv \<noteq> oid) post = post"
    using t(3,4) by (auto simp: filter_id_conv)
  then have "filter (\<lambda>kv. fst kv \<noteq> oid) (buffers s) = pre @ post" by (simp add: m)
  moreover have "length (pre @ post) < MAX_ORDERS" using ok m by (simp add: log_ok_def)
  ultimately have "buffers s' = (pre @ post) @ (oid, push_event e b) # []" and e: "se_id e = last_id b + 1"
    using pub t(1) by (auto simp: publish_def Let_def store_buffer_def next_event_def)
  moreover have "filter (\<lambda>e. n < se_id e) (push_event e b) = newest (news @ [e])"
    by (rule newest_push [OF t(2) e b])
  moreover have "n \<le> last_id (push_event e b)" using e b(1) by (simp add: last_id_push)
  ultimately show ?thesis unfolding tracked_def by (metis empty_subsetI image_empty list.set(1))
qed

lemma tracked_other:
  assumes ok: "log_ok s" and tr: "tracked oid n others news s" and "x \<noteq> oid" and "x \<in> others"
    and fin: "finite others" "card others < MAX_ORDERS" and "oid \<notin> others"
  shows "tracked oid n others news (snd (publish now x st s))"
proof -
  obtain pre b post where m: "buffers s = pre @ (oid, b) # post" and post: "fst ` set post \<subseteq> others"
    and b: "n \<le> last_id b" "filter (\<lambda>e. n < se_id e) b = newest news"
    using tr by (auto simp: tracked_def)
  let ?P = "\<lambda>kv :: string \<times> OrderStatusEvent list. fst kv \<noteq> x"
  let ?xb = "(x, push_event (next_event now x st s) (buffer_of x s))"
  let ?post = "filter ?P post @ [?xb]"
  have new: "fst ` set ?post \<subseteq> others" using post \<open>x \<in> others\<close> by auto
  have m': "filter ?P (buffers s) @ [?xb] = filter ?P pre @ (oid, b) # ?post"
    using \<open>x \<noteq> oid\<close> by (simp add: m)
  have "distinct (map fst ?post)"
    using ok m by (auto simp: log_ok_def distinct_map_filter)
  from distinct_card [OF this] have "length ?post = card (fst ` set ?post)"
    by (simp only: length_map list.set_map)
  also have "\<dots> \<le> card others" by (rule card_mono [OF fin(1) new])
  finally have "length ((oid, b) # ?post) \<le> MAX_ORDERS" using fin(2) by simp
  then have keep: "filter ?P pre \<noteq> []" if "length (filter ?P pre @ (oid, b) # ?post) > MAX_ORDERS"
    using that by (cases "filter ?P pre = []") simp_all
  obtain pre' where "store_buffer x (snd ?xb) (buffers s) = pre' @ (oid, b) # ?post"
  proof (cases "length (filter ?P pre @ (oid, b) # ?post) > MAX_ORDERS")
    case True
    then have "store_buffer x (snd ?xb) (buffers s) = tl (filter ?P pre) @ (oid, b) # ?post"
      unfolding store_buffer_def Let_def snd_conv m' by (simp only: if_True tl_append2 [OF keep [OF True]])
    then show ?thesis by (rule that)
  next
    case False
    then have "store_buffer x (snd ?xb) (buffers s) = filter ?P pre @ (oid, b) # ?post"
      unfolding store_buffer_def Let_def snd_conv m' by (simp only: if_False)
    then show ?thesis by (rule that)
  qed
  then have "buffers (snd (publish now x st s)) = pre' @ (oid, b) # ?post"
    by (simp add: publish_def Let_def)
  with new b show ?thesis unfolding tracked_def by blast
qed

definition about :: "string \<Rightarrow> publication \<Rightarrow> bool" where
  "about oid = (\<lambda>p. fst (snd p) = oid)"

lemma tracked_run:
  assumes ok: "log_ok s" and tr: "tracked oid n others [] s"
    and fin: "finite others" "card others < MAX_ORDERS" "oid \<notin> others"
  shows "fst ` snd ` set ps \<subseteq> insert oid others \<Longrightarrow>
    \<exists>news. length news = length (filter (about oid) ps) \<and>
      tracked oid n others news (publish_all ps s) \<and>
      streamFor oid (emitted (publish_all ps s)) = streamFor oid (emitted s) @ news"
proof (induction ps rule: rev_induct)
  case Nil
  with tr show ?case by (simp add: newest_def)
next
  case (snoc p ps)
  obtain now x st where p: "p = (now, x, st)" by (cases p) auto
  let ?s = "publish_all ps s"
  from snoc obtain news where news: "length news = length (filter (about oid) ps)"
    "tracked oid n others news ?s" "streamFor oid (emitted ?s) = streamFor oid (emitted s) @ news"
    by auto
  have oks: "log_ok ?s" by (rule publish_all_ok [OF ok])
  obtain e s' where pub: "publish now x st ?s = (e, s')" by fastforce
  then have emit: "emitted s' = emitted ?s @ [e]" "se_orderId e = x"
    by (auto simp: publish_def Let_def next_event_def)
  have run: "publish_all (ps @ [p]) s = s'" using pub by (simp add: publish_all_append p)
  show ?case
  proof (cases "x = oid")
    case True
    from tracked_own [OF oks news(2) pub [unfolded True]] news emit True
    show ?thesis unfolding run by (intro exI [of _ "news @ [e]"]) (simp add: streamFor_def p about_def)
  next
    case False
    with snoc.prems have "x \<in> others" by (simp add: p)
    from tracked_other [OF oks news(2) False this fin, of now st] news emit False pub
    show ?thesis unfolding run by (intro exI [of _ news]) (simp add: streamFor_def p about_def)
  qed
qed

lemma tracked_start:
  assumes ok: "log_ok s" and pub: "publish now oid st s = (e, s')"
  shows "tracked oid (se_id e) others [] s'"
proof -
  let ?b = "push_event e (buffer_of oid s)"
  have ok': "log_ok s'" using publish_ok [OF ok, of now oid st] pub by simp
  have e: "e = next_event now oid st s" and m: "buffers s' = store_buffer oid ?b (buffers s)"
    using pub by (auto simp: publish_def Let_def)
  have "\<exists>pre. buffers s' = pre @ (oid, ?b) # []"
    unfolding m store_buffer_def Let_def
    by (cases "filter (\<lambda>kv. fst kv \<noteq> oid) (buffers s)") (auto simp: MAX_ORDERS_def)
  then obtain pre where pre: "buffers s' = pre @ (oid, ?b) # []" ..
  obtain k where k: "map se_id ?b = [k ..< k + length ?b]" "?b \<noteq> []"
    using tracked_buffer(2) [OF ok' pre] by (auto simp: buffer_ok_def)
  have "se_id x \<le> se_id e" if "x \<in> set ?b" for x
  proof -
    from that have "se_id x \<in> set [k ..< k + length ?b]" unfolding k(1) [symmetric] by simp
    moreover have "se_id e = k + length ?b - 1"
      using upt_ids_last [OF k] last_id_push [of e "buffer_of oid s"] k(2) by (simp add: last_id_def)
    ultimately show ?thesis by (simp only: set_upt atLeastLessThan_iff) linarith
  qed
  then have "filter (\<lambda>x. se_id e < se_id x) ?b = []" by (auto simp: filter_empty_conv not_less)
  with pre show ?thesis unfolding tracked_def newest_def by (metis drop_Nil empty_subsetI image_empty last_id_push list.set(1) order_refl)
qed

section \<open>Whatever is evicted\<close>

text \<open>
  The buffer of an order ends with the newest of the events emitted for it since a moment; what stands
  before them is at or below the id the client saw then. When the map evicts the order, the buffer starts
  again empty, with its ids from 1.
\<close>

definition trailing :: "string \<Rightarrow> nat \<Rightarrow> OrderStatusEvent list \<Rightarrow> event_log \<Rightarrow> bool" where
  "trailing oid n news s \<longleftrightarrow> (\<exists>old k. buffer_of oid s = old @ drop k news \<and> (\<forall>e \<in> set old. se_id e \<le> n))"

lemma map_of_tl: "distinct (map fst ys) \<Longrightarrow> map_of (tl ys) k = map_of ys k \<or> map_of (tl ys) k = None"
  by (cases ys) (auto simp: map_of_eq_None_iff)

lemma buffer_of_published:
  assumes "log_ok s" and "publish now x st s = (e, s')"
  shows "buffer_of oid s' = (if x = oid then push_event e (buffer_of oid s) else buffer_of oid s) \<or>
    x \<noteq> oid \<and> buffer_of oid s' = []"
proof -
  let ?b = "push_event e (buffer_of x s)" and ?m = "filter (\<lambda>kv. fst kv \<noteq> x) (buffers s) @ [(x, push_event e (buffer_of x s))]"
  have bufs: "buffers s' = (if length ?m > MAX_ORDERS then tl ?m else ?m)"
    using assms(2) by (auto simp: publish_def Let_def store_buffer_def)
  have "map_of (filter (\<lambda>kv. fst kv \<noteq> x) (buffers s)) x = None" by (simp add: map_of_eq_None_iff image_iff)
  moreover have "map_of (filter (\<lambda>kv. fst kv \<noteq> x) ys) oid = map_of ys oid" if "x \<noteq> oid" for ys :: "(string \<times> OrderStatusEvent list) list"
    using that by (induction ys) auto
  ultimately have full: "map_of ?m oid = (if x = oid then Some ?b else map_of (buffers s) oid)"
    by (auto simp: map_add_def split: option.splits)
  have "distinct (map fst ?m)" using assms(1) by (auto simp: log_ok_def distinct_map_filter)
  note evicted = map_of_tl [OF this, of oid]
  have own: "map_of (tl ?m) x = Some ?b" if "length ?m > MAX_ORDERS"
  proof (cases "filter (\<lambda>kv. fst kv \<noteq> x) (buffers s)")
    case Nil
    with that show ?thesis by (simp add: MAX_ORDERS_def)
  next
    case (Cons y ys)
    have "\<forall>kv \<in> set (filter (\<lambda>kv. fst kv \<noteq> x) (buffers s)). fst kv \<noteq> x" by simp
    then have "x \<notin> fst ` set ys" unfolding Cons by auto
    then have "map_of ys x = None" by (simp add: map_of_eq_None_iff)
    with Cons show ?thesis by (simp add: map_add_def)
  qed
  have read: "buffer_of oid s' = (case map_of (buffers s') oid of Some b \<Rightarrow> b | None \<Rightarrow> [])" for oid
    by (simp only: buffer_of_def)
  show ?thesis
  proof (cases "x = oid")
    case True
    have "map_of (buffers s') x = Some ?b" using full own True unfolding bufs by (cases "length ?m > MAX_ORDERS") simp_all
    with True read [of x] show ?thesis by simp
  next
    case False
    have "map_of (buffers s') oid = map_of (buffers s) oid \<or> map_of (buffers s') oid = None"
      using full evicted False unfolding bufs by (cases "length ?m > MAX_ORDERS") (simp_all only: if_True if_False simp_thms)
    with False read [of oid] show ?thesis by (auto simp: buffer_of_def)
  qed
qed

lemma trailing_step:
  assumes ok: "log_ok s" and tr: "trailing oid n news s" and pub: "publish now x st s = (e, s')"
  shows "trailing oid n (if x = oid then news @ [e] else news) s'"
proof -
  obtain old k where b: "buffer_of oid s = old @ drop k news" "\<forall>e \<in> set old. se_id e \<le> n"
    using tr by (auto simp: trailing_def)
  show ?thesis using buffer_of_published [OF ok pub, of oid]
  proof (elim disjE conjE)
    assume none: "x \<noteq> oid" "buffer_of oid s' = []"
    then show ?thesis unfolding trailing_def by (intro exI [of _ "[]"] exI [of _ "length news"]) simp
  next
    assume b': "buffer_of oid s' = (if x = oid then push_event e (buffer_of oid s) else buffer_of oid s)"
    show ?thesis
    proof (cases "x = oid")
      case False
      with b b' show ?thesis unfolding trailing_def by auto
    next
      case True
      let ?k = "min k (length news)"
      have all: "buffer_of oid s @ [e] = old @ drop ?k (news @ [e])" using b(1) by (simp add: min_def)
      show ?thesis
      proof (cases "length (buffer_of oid s @ [e]) > BUFFER_SIZE")
        case False
        with True b' all b(2) show ?thesis unfolding trailing_def push_event_def Let_def by (intro exI [of _ old] exI [of _ ?k]) simp
      next
        case full: True
        then have pushed: "buffer_of oid s' = tl (old @ drop ?k (news @ [e]))"
          unfolding all [symmetric] using True b' by (simp add: push_event_def)
        show ?thesis
        proof (cases old)
          case Nil
          then have "buffer_of oid s' = [] @ drop (Suc ?k) (news @ [e])" unfolding pushed by (simp only: append_Nil tl_drop drop_Suc)
          then show ?thesis using True unfolding trailing_def by (intro exI [of _ "[]"] exI [of _ "Suc ?k"]) simp
        next
          case (Cons y ys)
          with True pushed b(2) show ?thesis unfolding trailing_def by (intro exI [of _ ys] exI [of _ ?k]) simp
        qed
      qed
    qed
  qed
qed

text \<open>Above an id, a buffer is one of its ends.\<close>

lemma above_drop:
  assumes "map se_id xs = [k ..< k + length xs]"
  shows "filter (\<lambda>e. n < se_id e) xs = drop (Suc n - k) xs"
  using assms
proof (induction xs arbitrary: k)
  case (Cons x xs)
  then have "se_id x = k" "map se_id xs = [Suc k ..< Suc k + length xs]" by (simp_all add: upt_conv_Cons del: upt_Suc)
  with Cons.IH [of "Suc k"] show ?case
    by (cases "n < k") (simp_all add: Suc_diff_le not_less)
qed simp

lemma trailing_run:
  assumes ok: "log_ok s" and tr: "trailing oid n [] s"
  shows "\<exists>news. length news = length (filter (about oid) ps) \<and> trailing oid n news (publish_all ps s) \<and>
    streamFor oid (emitted (publish_all ps s)) = streamFor oid (emitted s) @ news"
proof (induction ps rule: rev_induct)
  case Nil
  with tr show ?case by simp
next
  case (snoc p ps)
  obtain now x st where p: "p = (now, x, st)" by (cases p) auto
  let ?s = "publish_all ps s"
  from snoc obtain news where news: "length news = length (filter (about oid) ps)" "trailing oid n news ?s"
    "streamFor oid (emitted ?s) = streamFor oid (emitted s) @ news" by auto
  obtain e s' where pub: "publish now x st ?s = (e, s')" by fastforce
  then have emit: "emitted s' = emitted ?s @ [e]" "se_orderId e = x"
    by (auto simp: publish_def Let_def next_event_def)
  have run: "publish_all (ps @ [p]) s = s'" using pub by (simp add: publish_all_append p)
  from trailing_step [OF publish_all_ok [OF ok] news(2) pub] news(1,3) emit show ?case
    unfolding run by (intro exI [of _ "if x = oid then news @ [e] else news"]) (simp add: streamFor_def p about_def)
qed

text \<open>
  What a returning client is given is the newest part of what was emitted for its order since, whatever
  has been evicted; as long as fewer than 1000 other orders were published, only what no longer fits into
  the 100 events of the buffer is missing.
\<close>

lemma missed_is_end:
  assumes ok: "log_ok s" and pub: "publish now oid st s = (e, s')"
  shows "\<exists>lost. streamFor oid (emitted (publish_all ps s')) =
      streamFor oid (emitted s') @ lost @ missedSince oid (se_id e) (publish_all ps s') \<and>
    (card (fst ` snd ` set ps - {oid}) < MAX_ORDERS \<longrightarrow> length lost = length (filter (about oid) ps) - BUFFER_SIZE)"
proof -
  let ?S = "publish_all ps s'" and ?others = "fst ` snd ` set ps - {oid}"
  have ok': "log_ok s'" using publish_ok [OF ok, of now oid st] pub by simp
  have "missedSince oid (se_id e) s' = []"
    using tracked_missed [OF ok' tracked_start [OF ok pub]] by (simp add: newest_def)
  then have "trailing oid (se_id e) [] s'"
    by (auto simp: trailing_def missedSince_def filter_empty_conv not_less)
  from trailing_run [OF ok' this, of ps] obtain news old k where news: "length news = length (filter (about oid) ps)"
    "streamFor oid (emitted ?S) = streamFor oid (emitted s') @ news"
    and b: "buffer_of oid ?S = old @ drop k news" "\<forall>x \<in> set old. se_id x \<le> se_id e"
    by (auto simp: trailing_def)
  obtain j where "map se_id (buffer_of oid ?S) = [j ..< j + length (buffer_of oid ?S)]"
    using buffer_of_ok(3) [OF publish_all_ok [OF ok']] by blast
  then have "map se_id (drop k news) = drop (length old) [j ..< j + length (old @ drop k news)]"
    unfolding b(1) by (metis append_eq_conv_conj length_map map_append)
  then have "map se_id (drop k news) = [j + length old ..< j + length old + length (drop k news)]" by (simp add: add.assoc)
  note ids = above_drop [OF this]
  have "filter (\<lambda>x. se_id e < se_id x) old = []" using b(2) by (auto simp: filter_empty_conv not_less)
  then have "missedSince oid (se_id e) ?S = filter (\<lambda>x. se_id e < se_id x) (drop k news)"
    unfolding missedSince_def b(1) by simp
  then obtain m where m: "missedSince oid (se_id e) ?S = drop m news" using ids by (metis drop_drop)
  have "length (take m news) = length news - BUFFER_SIZE" if few: "card ?others < MAX_ORDERS"
  proof -
    obtain xs where "tracked oid (se_id e) ?others xs ?S" "streamFor oid (emitted ?S) = streamFor oid (emitted s') @ xs"
      using tracked_run [OF ok' tracked_start [OF ok pub] _ few] by auto
    with news(2) tracked_missed [OF publish_all_ok [OF ok']] have "drop m news = newest news" unfolding m [symmetric] by auto
    then have "length (drop m news) = length (newest news)" by simp
    then show ?thesis by (auto simp: newest_def)
  qed
  with news m show ?thesis by (intro exI [of _ "take m news"]) simp
qed

section \<open>Bounds and eviction\<close>

text \<open>
  In every state the log reaches, no buffer holds more than 100 events and no more than 1000
  orders are buffered; every buffer holds events of its own order with consecutive ids.
\<close>

lemma log_bounded:
  "length (buffers (publish_all ps empty_log)) \<le> MAX_ORDERS \<and>
   length (buffer_of oid (publish_all ps empty_log)) \<le> BUFFER_SIZE \<and>
   (\<exists>k. map (\<lambda>e. (se_orderId e, se_id e)) (buffer_of oid (publish_all ps empty_log)) =
      map (Pair oid) [k ..< k + length (buffer_of oid (publish_all ps empty_log))])"
proof -
  let ?s = "publish_all ps empty_log" and ?b = "buffer_of oid (publish_all ps empty_log)"
  have ok: "log_ok ?s" by (rule publish_all_ok [OF empty_log_ok])
  obtain k where k: "map se_id ?b = [k ..< k + length ?b]" using buffer_of_ok(3) [OF ok] by blast
  have "map (\<lambda>e. (se_orderId e, se_id e)) ?b = map (Pair oid) (map se_id ?b)"
    using buffer_of_ok(2) [OF ok, of oid] by simp
  then have "\<exists>k. map (\<lambda>e. (se_orderId e, se_id e)) ?b = map (Pair oid) [k ..< k + length ?b]"
    unfolding k by blast
  with ok buffer_of_ok(1) [OF ok] show ?thesis by (simp add: log_ok_def)
qed


text \<open>
  Eviction forgets the numbering: when a full map evicts an order, its next event is numbered 1
  again, and a client that comes back with an old id is told it missed nothing.
\<close>

lemma evicted_order_restarts:
  assumes "log_ok s" and "buffers s = (oid, b) # rest" and "length (buffers s) = MAX_ORDERS"
    and "x \<notin> fst ` set (buffers s)" and "1 \<le> n"
  shows "se_id (fst (publish t2 oid st2 (snd (publish t1 x st1 s)))) = 1"
    and "missedSince oid n (snd (publish t2 oid st2 (snd (publish t1 x st1 s)))) = []"
proof -
  let ?s1 = "snd (publish t1 x st1 s)"
  have "filter (\<lambda>kv. fst kv \<noteq> x) (buffers s) = buffers s"
    using assms(4) by (auto simp: filter_id_conv)
  with assms(2,3) have m: "buffers ?s1 = rest @ [(x, push_event (next_event t1 x st1 s) (buffer_of x s))]"
    by (simp add: publish_def Let_def store_buffer_def)
  have "oid \<notin> fst ` set (buffers ?s1)"
    using assms(1,2,4) unfolding m by (auto simp: log_ok_def)
  then have none: "buffer_of oid ?s1 = []"
    unfolding buffer_of_def by (metis map_of_eq_None_iff option.simps(4))
  then show "se_id (fst (publish t2 oid st2 ?s1)) = 1"
    by (simp add: publish_def Let_def next_event_def last_id_def)
  have ok1: "log_ok ?s1" by (rule publish_ok [OF assms(1)])
  obtain e s2 where pub: "publish t2 oid st2 ?s1 = (e, s2)" by fastforce
  have "tracked oid (se_id e) {} [] s2" by (rule tracked_start [OF ok1 pub])
  then have "missedSince oid (se_id e) s2 = []"
    using tracked_missed publish_ok [OF ok1, of t2 oid st2] pub by (fastforce simp: newest_def)
  moreover have "se_id e = 1"
    using pub none by (auto simp: publish_def Let_def next_event_def last_id_def)
  ultimately show "missedSince oid n (snd (publish t2 oid st2 ?s1)) = []"
    using pub assms(5) by (auto simp: missedSince_def filter_empty_conv not_less)
qed

end
