(* ===== verification/OrderStatusService.thy ===== *)
theory OrderStatusService
  imports OrderEvents_Replay Orders_Theorems
begin

text \<open>
  Changing the status of an order: \<open>src/services/order-status.service.ts\<close>. One guarded UPDATE
  decides; a change that took effect is published and queues product card refreshes.
\<close>

section \<open>The operation\<close>

fun ALLOWED_PREVIOUS :: "OrderStatus \<Rightarrow> OrderStatus list" where
  "ALLOWED_PREVIOUS pending = [paid]"
| "ALLOWED_PREVIOUS paid = [pending]"
| "ALLOWED_PREVIOUS cancelled = [pending, paid]"

record 'q app_state =
  app_db :: db
  app_log :: event_log
  app_queue :: 'q

definition quoted :: "string \<Rightarrow> string" where
  "quoted s = CHR 0x27 # s @ [CHR 0x27]"

definition set_status :: "OrderStatus \<Rightarrow> Order \<Rightarrow> Order" where
  "set_status st r = r\<lparr>o_status := st\<rparr>"

definition status_hit :: "nat \<Rightarrow> OrderStatus \<Rightarrow> Order \<Rightarrow> bool" where
  "status_hit k st r \<longleftrightarrow> has_id k r \<and> o_status r \<in> set (ALLOWED_PREVIOUS st)"

text \<open>\<open>now\<close> is the instant \<open>publish\<close> stamps the event with; the refresher is optional.\<close>

definition change_status ::
  "'q queue_add option \<Rightarrow> int \<Rightarrow> string \<Rightarrow> OrderStatus \<Rightarrow> ('q app_state, OrderStatusEvent) action" where
  "change_status refresher now orderId status s =
     (case bigint_param orderId of
        Inl e \<Rightarrow> (Inl e, s)
      | Inr k \<Rightarrow>
          let d = app_db s; hit = status_hit k status in
          if affected hit (orders d) = 1 then
            let d1 = d\<lparr>orders := update_where hit (set_status status) (orders d)\<rparr>;
                (event, log) = publish now orderId status (app_log s);
                s1 = s\<lparr>app_db := d1, app_log := log\<rparr>
            in (case refresher of
                  None \<Rightarrow> (Inr event, s1)
                | Some add \<Rightarrow>
                    (case refreshOrder add orderId
                        (''order-'' @ orderId @ ''-'' @ status_text status @ ''-'' @ dec (nat (se_changedAt event)))
                        (d1, app_queue s1) of
                       (Inl e, (d2, q2)) \<Rightarrow> (Inl e, s1\<lparr>app_db := d2, app_queue := q2\<rparr>)
                     | (Inr _, (d2, q2)) \<Rightarrow> (Inr event, s1\<lparr>app_db := d2, app_queue := q2\<rparr>)))
          else (case select_one (has_id k) (orders d) of
                  None \<Rightarrow> (Inl (OrderStatusError ORDER_NOT_FOUND
                      (''Order '' @ quoted orderId @ '' was not found'')), s)
                | Some r \<Rightarrow> (Inl (OrderStatusError INVALID_TRANSITION
                      (''Order '' @ quoted orderId @ '' cannot change status from '' @
                       quoted (status_text (o_status r)) @ '' to '' @ quoted (status_text status))), s)))"

section \<open>The state machine\<close>

inductive status_step :: "OrderStatus \<Rightarrow> OrderStatus \<Rightarrow> bool" where
  pay: "status_step pending paid"
| unpay: "status_step paid pending"
| cancel_pending: "status_step pending cancelled"
| cancel_paid: "status_step paid cancelled"

code_pred status_step .

inductive_cases from_cancelled: "status_step cancelled st"
inductive_simps status_step_simps: "status_step a b"

lemma ALLOWED_PREVIOUS_iff: "a \<in> set (ALLOWED_PREVIOUS b) \<longleftrightarrow> status_step a b"
  by (cases a; cases b) (auto intro: status_step.intros elim: status_step.cases)

section \<open>One change\<close>

lemma affected_one:
  assumes dist: "distinct (map o_id rows)" and only: "\<And>r. P r \<Longrightarrow> o_id r = k"
  shows "affected P rows = 1 \<longleftrightarrow> (\<exists>r \<in> set rows. P r)"
proof -
  have "affected P rows \<le> 1" using dist
  proof (induction rows)
    case (Cons x rows)
    show ?case
    proof (cases "P x")
      case True
      have "filter P rows = []"
      proof (rule ccontr)
        assume "filter P rows \<noteq> []"
        then obtain y where "y \<in> set rows" "P y" by (auto simp: filter_empty_conv)
        then have "o_id y = o_id x" using only True by simp
        with \<open>y \<in> set rows\<close> Cons.prems show False by (metis distinct.simps(2) image_eqI list.set_map list.simps(9))
      qed
      with True show ?thesis by (simp add: affected_def)
    next
      case False
      with Cons show ?thesis by (simp add: affected_def)
    qed
  qed (simp add: affected_def)
  moreover have "affected P rows \<noteq> 0 \<longleftrightarrow> (\<exists>r \<in> set rows. P r)"
    by (auto simp: affected_def filter_empty_conv)
  ultimately show ?thesis by auto
qed

lemma refreshOrder_db: "isId oid \<Longrightarrow> num_of oid \<le> int8_max \<Longrightarrow>
   \<exists>q'. refreshOrder add oid key (d, q) = (Inr (), (d, q'))"
  by (auto simp: refreshOrder_def findById_def andThen_def lift_def bigint_param_def split: option.split)

text \<open>The row an effective change leaves.\<close>

definition move_status :: "nat \<Rightarrow> OrderStatus \<Rightarrow> Order \<Rightarrow> Order" where
  "move_status k st r = (if o_id r = k then set_status st r else r)"

lemma set_status_same [simp]: "o_id (set_status st r) = o_id r" "o_userId (set_status st r) = o_userId r"
  "o_createdAt (set_status st r) = o_createdAt r" "o_idempotencyKey (set_status st r) = o_idempotencyKey r"
  "o_total (set_status st r) = o_total r" "o_status (set_status st r) = st"
  by (simp_all add: set_status_def)

lemma move_status_same [simp]: "o_id (move_status k st r) = o_id r" "o_userId (move_status k st r) = o_userId r"
  "o_createdAt (move_status k st r) = o_createdAt r" "o_idempotencyKey (move_status k st r) = o_idempotencyKey r"
  "o_total (move_status k st r) = o_total r"
  by (simp_all add: move_status_def)

definition status_effect :: "int \<Rightarrow> string \<Rightarrow> OrderStatus \<Rightarrow> 'q app_state \<Rightarrow> 'q \<Rightarrow> 'q app_state" where
  "status_effect now oid st s q = s\<lparr>
     app_db := (app_db s)\<lparr>orders := map (move_status (num_of oid) st) (orders (app_db s))\<rparr>,
     app_log := snd (publish now oid st (app_log s)), app_queue := q\<rparr>"

lemma update_status_hit:
  assumes "distinct (map o_id rows)" and "r \<in> set rows" and "status_hit k st r"
  shows "update_where (status_hit k st) (set_status st) rows =
    map (move_status k st) rows"
  unfolding update_where_def
proof (rule map_cong [OF refl])
  fix x assume x: "x \<in> set rows"
  have "x = r" if "o_id x = k"
    using distinct_key_eq [OF assms(1) x assms(2)] that assms(3) by (simp add: status_hit_def has_id_def)
  then show "(if status_hit k st x then set_status st x else x) = move_status k st x"
    using assms(3) by (auto simp: status_hit_def has_id_def move_status_def)
qed

lemma change_status_cases:
  assumes ok: "db_ok (app_db s)" and fits: "isId oid" "num_of oid \<le> int8_max"
    and run: "change_status ref now oid st s = (res, s')"
  shows "case select_one (has_id (num_of oid)) (orders (app_db s)) of
      None \<Rightarrow> s' = s \<and> (\<exists>m. res = Inl (OrderStatusError ORDER_NOT_FOUND m))
    | Some r \<Rightarrow>
        if status_step (o_status r) st
        then res = Inr (fst (publish now oid st (app_log s))) \<and> (\<exists>q. s' = status_effect now oid st s q)
        else s' = s \<and> (\<exists>m. res = Inl (OrderStatusError INVALID_TRANSITION m))"
proof -
  let ?k = "num_of oid" and ?rows = "orders (app_db s)"
  have dist: "distinct (map o_id ?rows)" by (rule db_okD(3) [OF ok])
  have hits: "affected (status_hit ?k st) ?rows = 1 \<longleftrightarrow>
      (\<exists>r \<in> set ?rows. o_id r = ?k \<and> status_step (o_status r) st)"
    by (subst affected_one [OF dist]) (auto simp: status_hit_def has_id_def ALLOWED_PREVIOUS_iff)
  have bp: "bigint_param oid = Inr ?k" using fits by (simp add: bigint_param_def)
  show ?thesis
  proof (cases "select_one (has_id ?k) ?rows")
    case None
    then have "\<not> (\<exists>r \<in> set ?rows. o_id r = ?k \<and> status_step (o_status r) st)"
      by (auto simp: select_one_None has_id_def)
    with None run bp hits show ?thesis by (auto simp: change_status_def Let_def)
  next
    case (Some r)
    then have r: "r \<in> set ?rows" "o_id r = ?k" by (auto dest: select_one_Some simp: has_id_def)
    have ex: "(\<exists>x \<in> set ?rows. o_id x = ?k \<and> status_step (o_status x) st) \<longleftrightarrow> status_step (o_status r) st"
      using r distinct_key_eq [OF dist] by metis
    show ?thesis
    proof (cases "status_step (o_status r) st")
      case False
      with Some run bp hits ex show ?thesis by (auto simp: change_status_def Let_def)
    next
      case True
      have upd: "update_where (status_hit ?k st) (set_status st) ?rows =
          map (move_status ?k st) ?rows"
        using r True by (intro update_status_hit [OF dist]) (simp_all add: status_hit_def has_id_def ALLOWED_PREVIOUS_iff)
      obtain ev log where pub: "publish now oid st (app_log s) = (ev, log)" by fastforce
      show ?thesis
      proof (cases ref)
        case None
        with Some True run bp hits ex upd pub have "res = Inr ev" "s' = status_effect now oid st s (app_queue s)"
          by (cases s; auto simp: change_status_def Let_def status_effect_def)+
        with Some True pub show ?thesis by auto
      next
        case ref: (Some add)
        let ?d = "(app_db s)\<lparr>orders := map (move_status ?k st) ?rows\<rparr>"
        let ?key = "''order-'' @ oid @ ''-'' @ status_text st @ ''-'' @ dec (nat (se_changedAt ev))"
        obtain q' where "refreshOrder add oid ?key (?d, app_queue s) = (Inr (), (?d, q'))"
          using refreshOrder_db [OF fits, where add = add and key = "?key" and d = "?d" and q = "app_queue s"]
          by blast
        with Some True run bp hits ex upd pub ref have "res = Inr ev" "s' = status_effect now oid st s q'"
          by (cases s; auto simp: change_status_def Let_def status_effect_def)+
        with Some True pub show ?thesis by auto
      qed
    qed
  qed
qed


section \<open>Sequences of changes\<close>

fun run_changes ::
  "'q queue_add option \<Rightarrow> publication list \<Rightarrow> 'q app_state \<Rightarrow> 'q app_state" where
  "run_changes ref [] s = s"
| "run_changes ref ((now, oid, st) # cs) s = run_changes ref cs (snd (change_status ref now oid st s))"

text \<open>A row after some changes: the same row with a status the machine can reach.\<close>

definition moved :: "Order \<Rightarrow> Order \<Rightarrow> bool" where
  "moved r r' \<longleftrightarrow> (\<exists>st. status_step\<^sup>*\<^sup>* (o_status r) st \<and> r' = set_status st r)"

lemma moved_refl: "moved r r"
  unfolding moved_def by (intro exI [of _ "o_status r"]) (simp add: set_status_def)

lemma moved_trans: "moved r r' \<Longrightarrow> moved r' r'' \<Longrightarrow> moved r r''"
  unfolding moved_def set_status_def
proof (elim exE conjE)
  fix a b assume "status_step\<^sup>*\<^sup>* (o_status r) a" "r' = r\<lparr>o_status := a\<rparr>"
    "status_step\<^sup>*\<^sup>* (o_status r') b" "r'' = r'\<lparr>o_status := b\<rparr>"
  then show "\<exists>st. status_step\<^sup>*\<^sup>* (o_status r) st \<and> r'' = r\<lparr>o_status := st\<rparr>"
    by (intro exI [of _ b]) (auto intro: rtranclp_trans)
qed

lemma change_status_bad_id:
  "\<not> (isId oid \<and> num_of oid \<le> int8_max) \<Longrightarrow> snd (change_status ref now oid st s) = s"
  by (auto simp: change_status_def bigint_param_def)

lemma status_effect_ok:
  assumes "db_ok (app_db s)"
  shows "db_ok (app_db (status_effect now oid st s q))"
proof -
  let ?f = "move_status (num_of oid) st"
  have "idempotency_unique (map ?f rows) = idempotency_unique rows" for rows
    by (simp add: idempotency_unique_def filter_map comp_def)
  then show ?thesis
    using assms
    by (simp add: db_ok_defs status_effect_def comp_def order_ok_def list_all_iff image_image)
qed

lemma change_status_step:
  assumes ok: "db_ok (app_db s)"
  shows "db_ok (app_db (snd (change_status ref now oid st s)))" (is "db_ok ?d'")
    and "list_all2 moved (orders (app_db s)) (orders (app_db (snd (change_status ref now oid st s))))"
proof -
  obtain res s' where run: "change_status ref now oid st s = (res, s')" by fastforce
  have "s' = s \<or> (\<exists>q. s' = status_effect now oid st s q \<and>
      (\<forall>r \<in> set (orders (app_db s)). o_id r = num_of oid \<longrightarrow> status_step (o_status r) st))"
  proof (cases "isId oid \<and> num_of oid \<le> int8_max")
    case True
    show ?thesis
    proof (cases "select_one (has_id (num_of oid)) (orders (app_db s))")
      case None
      with change_status_cases [OF ok _ _ run] True show ?thesis by auto
    next
      case (Some r)
      then have "\<forall>x \<in> set (orders (app_db s)). o_id x = num_of oid \<longrightarrow> x = r"
        using distinct_key_eq [OF db_okD(3) [OF ok]] by (auto dest: select_one_Some simp: has_id_def)
      with change_status_cases [OF ok _ _ run] True Some show ?thesis by (auto split: if_splits)
    qed
  next
    case False
    from change_status_bad_id [OF this, of ref now st s] run show ?thesis by simp
  qed
  then have "db_ok (app_db s') \<and> list_all2 moved (orders (app_db s)) (orders (app_db s'))"
  proof (elim disjE exE conjE)
    assume "s' = s"
    then show ?thesis using ok by (auto simp: list_all2_same moved_refl)
  next
    fix q assume s': "s' = status_effect now oid st s q"
      and step: "\<forall>r \<in> set (orders (app_db s)). o_id r = num_of oid \<longrightarrow> status_step (o_status r) st"
    have "list_all2 moved (orders (app_db s)) (orders (app_db s'))"
      using step moved_refl by (auto simp: s' status_effect_def list_all2_map2 list_all2_same move_status_def)
        (auto simp: moved_def)
    with s' status_effect_ok [OF ok] show ?thesis by simp
  qed
  with run show "db_ok ?d'"
    and "list_all2 moved (orders (app_db s)) (orders (app_db (snd (change_status ref now oid st s))))"
    by simp_all
qed

lemma run_changes_moved:
  "db_ok (app_db s) \<Longrightarrow> db_ok (app_db (run_changes ref cs s)) \<and>
   list_all2 moved (orders (app_db s)) (orders (app_db (run_changes ref cs s)))"
proof (induction ref cs s rule: run_changes.induct)
  case (1 ref s)
  then show ?case by (simp add: list_all2_same moved_refl)
next
  case (2 ref now oid st cs s)
  note step = change_status_step [OF "2.prems", of ref now oid st]
  from "2.IH" [OF step(1)] show ?case
    by (auto intro: list_all2_trans [of moved moved moved, OF _ step(2)] moved_trans)
qed

section \<open>Properties\<close>

text \<open>
  C9: a status change takes effect exactly when the order exists and the transition from its
  current status is allowed (pending and paid into each other, both into cancelled); then that row
  alone changes and one event is published. Otherwise nothing changes and the error says which of
  the two failed.
\<close>

theorem change_status_correct:
  assumes "db_ok (app_db s)" and "isId oid" and "num_of oid \<le> int8_max"
    and "change_status ref now oid st s = (res, s')"
  shows "case select_one (has_id (num_of oid)) (orders (app_db s)) of
      None \<Rightarrow> s' = s \<and> (\<exists>m. res = Inl (OrderStatusError ORDER_NOT_FOUND m))
    | Some r \<Rightarrow>
        if status_step (o_status r) st
        then res = Inr (fst (publish now oid st (app_log s))) \<and> (\<exists>q. s' = status_effect now oid st s q)
        else s' = s \<and> (\<exists>m. res = Inl (OrderStatusError INVALID_TRANSITION m))"
  by (rule change_status_cases [OF assms])

definition sold_app :: "unit app_state" where
  "sold_app = \<lparr>app_db = run_checkouts [(shop_env, None, shop_cart)] shop_db, app_log = empty_log, app_queue = ()\<rparr>"

lemma sold_app_ok: "db_ok (app_db sold_app)"
  unfolding sold_app_def app_state.select_convs by (rule run_checkouts_ok [OF shop_db_ok])

lemma sold_app_paid: "map_option o_status (select_one (has_id 1) (orders (app_db sold_app))) = Some paid"
  by code_simp

theorem change_status_correct_witness:
  "fst (change_status None 77 ''1'' cancelled sold_app) =
     Inr \<lparr>se_id = 1, se_orderId = ''1'', se_status = cancelled, se_changedAt = 77\<rparr>"
proof -
  obtain res s' where run: "change_status None 77 ''1'' cancelled sold_app = (res, s')" by fastforce
  obtain r where r: "select_one (has_id 1) (orders (app_db sold_app)) = Some r" "o_status r = paid"
    using sold_app_paid by auto
  have num: "num_of ''1'' = 1" "isId ''1''" "num_of ''1'' \<le> int8_max" by code_simp+
  have "fst (publish 77 ''1'' cancelled (app_log sold_app)) =
      \<lparr>se_id = 1, se_orderId = ''1'', se_status = cancelled, se_changedAt = 77\<rparr>" by code_simp
  with change_status_correct [OF sold_app_ok num(2,3) run] r run
  show ?thesis by (simp add: num status_step_simps)
qed

text \<open>
  C10: whatever changes are requested, every order keeps its row with only the status moved along
  the state machine, and an order that was cancelled stays cancelled.
\<close>

theorem cancelled_is_final:
  assumes "db_ok (app_db s)"
  shows "list_all2 (\<lambda>r r'. \<exists>st. status_step\<^sup>*\<^sup>* (o_status r) st \<and> r' = r\<lparr>o_status := st\<rparr> \<and>
      (o_status r = cancelled \<longrightarrow> r' = r)) (orders (app_db s)) (orders (app_db (run_changes ref cs s)))"
proof -
  have "status_step\<^sup>*\<^sup>* cancelled st \<Longrightarrow> st = cancelled" for st
    by (erule converse_rtranclpE) (auto elim: from_cancelled)
  then have "\<exists>st. status_step\<^sup>*\<^sup>* (o_status r) st \<and> r' = r\<lparr>o_status := st\<rparr> \<and> (o_status r = cancelled \<longrightarrow> r' = r)"
    if "moved r r'" for r r'
    using that by (cases r) (auto simp: moved_def set_status_def)
  with run_changes_moved [OF assms, of ref cs] show ?thesis by (auto elim!: list_all2_mono)
qed


theorem cancelled_is_final_witness:
  "\<exists>r r'. orders (app_db sold_app) = [r] \<and>
     orders (app_db (run_changes None [(1, ''1'', cancelled), (2, ''1'', paid)] sold_app)) = [r'] \<and>
     status_step\<^sup>*\<^sup>* (o_status r) (o_status r') \<and> o_status r' = cancelled"
proof -
  let ?cs = "[(1, ''1'', cancelled), (2, ''1'', paid)]"
  have "length (orders (app_db sold_app)) = 1" by code_simp
  then obtain r where r: "orders (app_db sold_app) = [r]" by (auto simp: length_Suc_conv)
  have "map o_status (orders (app_db (run_changes None ?cs sold_app))) = [cancelled]" by code_simp
  then obtain r' where r': "orders (app_db (run_changes None ?cs sold_app)) = [r']" "o_status r' = cancelled"
    by auto
  from cancelled_is_final [OF sold_app_ok, of None ?cs] have "status_step\<^sup>*\<^sup>* (o_status r) (o_status r')"
    unfolding r r'(1) by auto
  with r r' show ?thesis by blast
qed

end
