(* ===== verification/Loops.thy ===== *)
theory Loops
  imports Prelude
begin

text \<open>
  The unbounded loops of the program (\<open>for (;;)\<close> and \<open>while (true)\<close> with a return inside) as
  recursion on fuel, and the contract under which enough fuel exists: every round that does not
  leave the loop makes a measure smaller.
\<close>

fun repeat_until :: "nat \<Rightarrow> ('s \<Rightarrow> 'o \<times> 's) \<Rightarrow> ('o \<Rightarrow> bool) \<Rightarrow> 's \<Rightarrow> ('o list \<times> 's) option" where
  "repeat_until 0 body stop s = None"
| "repeat_until (Suc n) body stop s =
     (case body s of (x, s') \<Rightarrow>
        if stop x then Some ([x], s')
        else map_option (\<lambda>(xs, t). (x # xs, t)) (repeat_until n body stop s'))"

locale progressing =
  fixes ok :: "'s \<Rightarrow> bool"
    and body :: "'s \<Rightarrow> 'o \<times> 's"
    and stop :: "'o \<Rightarrow> bool"
    and size_of :: "'s \<Rightarrow> nat"
  assumes body_ok: "ok s \<Longrightarrow> body s = (x, s') \<Longrightarrow> ok s'"
    and progress: "ok s \<Longrightarrow> body s = (x, s') \<Longrightarrow> \<not> stop x \<Longrightarrow> size_of s' < size_of s"
begin

lemma enough_fuel: "ok s \<Longrightarrow> size_of s < n \<Longrightarrow> \<exists>xs t. repeat_until n body stop s = Some (xs, t)"
proof (induction n arbitrary: s)
  case (Suc n)
  obtain x s' where b: "body s = (x, s')" by fastforce
  show ?case
  proof (cases "stop x")
    case False
    have "size_of s' < n" using progress [OF Suc.prems(1) b False] Suc.prems(2) by simp
    from Suc.IH [OF body_ok [OF Suc.prems(1) b] this] show ?thesis using b False by auto
  qed (simp add: b)
qed simp

lemma result_ok: "ok s \<Longrightarrow> repeat_until n body stop s = Some (xs, t) \<Longrightarrow> ok t"
proof (induction n arbitrary: s xs)
  case (Suc n)
  obtain x s' where b: "body s = (x, s')" by fastforce
  from Suc.prems(2) b have "t = s' \<or> (\<exists>ys. repeat_until n body stop s' = Some (ys, t))"
    by (auto split: if_splits)
  with Suc.IH body_ok [OF Suc.prems(1) b] show ?case by blast
qed simp

text \<open>The last round is the one that leaves the loop.\<close>

lemma result_last: "ok s \<Longrightarrow> repeat_until n body stop s = Some (xs, t) \<Longrightarrow>
   \<exists>s1 x. ok s1 \<and> body s1 = (x, t) \<and> stop x"
proof (induction n arbitrary: s xs)
  case (Suc n)
  obtain x s' where b: "body s = (x, s')" by fastforce
  show ?case
  proof (cases "stop x")
    case True
    with Suc.prems b show ?thesis by auto
  next
    case False
    with Suc.prems b obtain ys where "repeat_until n body stop s' = Some (ys, t)" by auto
    from Suc.IH [OF body_ok [OF Suc.prems(1) b] this] show ?thesis .
  qed
qed simp

lemma result_nonempty: "repeat_until n body stop s = Some (xs, t) \<Longrightarrow> xs \<noteq> []"
  by (cases n) (auto split: prod.splits if_splits)

lemma result_output: "ok s \<Longrightarrow> repeat_until n body stop s = Some (xs, t) \<Longrightarrow>
   \<exists>s1. ok s1 \<and> body s1 = (last xs, t) \<and> stop (last xs)"
proof (induction n arbitrary: s xs)
  case (Suc n)
  obtain x s' where b: "body s = (x, s')" by fastforce
  show ?case
  proof (cases "stop x")
    case True
    with Suc.prems b show ?thesis by auto
  next
    case False
    with Suc.prems b obtain ys where ys: "repeat_until n body stop s' = Some (ys, t)" "xs = x # ys" by auto
    from Suc.IH [OF body_ok [OF Suc.prems(1) b] ys(1)] result_nonempty [OF ys(1)] ys(2) show ?thesis by simp
  qed
qed simp

text \<open>A quantity each round moves from the state to its output is conserved by the loop.\<close>

lemma result_sum:
  fixes left :: "'s \<Rightarrow> nat" and out :: "'o \<Rightarrow> nat"
  assumes move: "\<And>s x s'. ok s \<Longrightarrow> body s = (x, s') \<Longrightarrow> left s = left s' + out x"
  shows "ok s \<Longrightarrow> repeat_until n body stop s = Some (xs, t) \<Longrightarrow> left s = left t + sum_list (map out xs)"
proof (induction n arbitrary: s xs)
  case (Suc n)
  obtain x s' where b: "body s = (x, s')" by fastforce
  note mv = move [OF Suc.prems(1) b]
  show ?case
  proof (cases "stop x")
    case True
    with Suc.prems b mv show ?thesis by auto
  next
    case False
    with Suc.prems b obtain ys where "xs = x # ys" "repeat_until n body stop s' = Some (ys, t)" by auto
    with Suc.IH [OF body_ok [OF Suc.prems(1) b]] mv show ?thesis by simp
  qed
qed simp

text \<open>A relation every round respects is respected by the loop.\<close>

lemma result_rel:
  assumes rel: "\<And>s x s'. ok s \<Longrightarrow> body s = (x, s') \<Longrightarrow> R s s'" and "transp R"
  shows "ok s \<Longrightarrow> repeat_until n body stop s = Some (xs, t) \<Longrightarrow> R s t"
proof (induction n arbitrary: s xs)
  case (Suc n)
  obtain x s' where b: "body s = (x, s')" by fastforce
  note r = rel [OF Suc.prems(1) b]
  show ?case
  proof (cases "stop x")
    case True
    with Suc.prems b r show ?thesis by auto
  next
    case False
    with Suc.prems b obtain ys where "repeat_until n body stop s' = Some (ys, t)" by auto
    with Suc.IH [OF body_ok [OF Suc.prems(1) b]] r \<open>transp R\<close> show ?thesis by (blast dest: transpD)
  qed
qed simp

end

text \<open>Two bodies that agree on the states a loop passes through give the same loop.\<close>

lemma repeat_until_cong:
  assumes "\<And>s. I s \<Longrightarrow> body s = body' s" and "\<And>s x s'. I s \<Longrightarrow> body s = (x, s') \<Longrightarrow> I s'"
  shows "I s \<Longrightarrow> repeat_until n body stop s = repeat_until n body' stop s"
proof (induction n arbitrary: s)
  case (Suc n)
  obtain x s' where b: "body s = (x, s')" by fastforce
  with assms(1) [OF Suc.prems] have "body' s = (x, s')" by simp
  with b Suc.IH [OF assms(2) [OF Suc.prems b]] show ?case by simp
qed simp

section \<open>Runs that end\<close>

text \<open>A run that can only stop in a good state, after a bounded number of steps, reaches one.\<close>

lemma bounded_run_ends:
  assumes "\<And>n t. (R ^^ n) s t \<Longrightarrow> n \<le> (k::nat) \<and> ((\<exists>t'. R t t') \<or> Q t)"
  shows "\<exists>n t. (R ^^ n) s t \<and> Q t"
proof (rule ccontr)
  assume never: "\<nexists>n t. (R ^^ n) s t \<and> Q t"
  have "\<exists>t. (R ^^ n) s t" for n
  proof (induction n)
    case (Suc n)
    then obtain t where "(R ^^ n) s t" by blast
    with assms never obtain t' where "R t t'" by metis
    with \<open>(R ^^ n) s t\<close> show ?case by auto
  qed simp
  then obtain t where "(R ^^ Suc k) s t" by blast
  from assms [OF this] show False by simp
qed

end
