(* ===== verification/Jobs.thy ===== *)
theory Jobs
  imports Schema Loops
begin

text \<open>
  The job worker of \<open>src/services/job-worker.service.ts\<close>: claiming the next pending job with
  \<open>FOR UPDATE SKIP LOCKED\<close>, running its handler, recording the outcome, and the loop that drains a
  queue.
\<close>

section \<open>Operations\<close>

record ClaimedJob =
  cj_id :: string
  cj_type :: string
  cj_payload :: json
  cj_attempts :: int

datatype JobOutcome = job_done | job_retry | job_failed

record WorkerOptions =
  wo_queue :: string
  wo_maxAttempts :: int

definition DEFAULT_OPTIONS :: WorkerOptions where
  "DEFAULT_OPTIONS = \<lparr>wo_queue = ''default'', wo_maxAttempts = 3\<rparr>"

record WorkerStats =
  ws_done :: nat
  ws_retried :: nat
  ws_failed :: nat

text \<open>
  A handler runs on its own state \<open>'h\<close> (whatever it touches) and may throw; the thrown value is the
  message the worker records.
\<close>

type_synonym 'h job_handler = "ClaimedJob \<Rightarrow> 'h \<Rightarrow> string option \<times> 'h"

text \<open>
  \<open>SELECT \<dots> WHERE status = 'pending' AND queue = $1 ORDER BY id LIMIT 1 FOR UPDATE SKIP LOCKED\<close>;
  \<open>locked\<close> are the jobs other transactions hold.
\<close>

definition is_pending :: "string \<Rightarrow> Job \<Rightarrow> bool" where
  "is_pending queue j \<longleftrightarrow> j_status j = JPending \<and> j_queue j = queue"

definition claim_next :: "string \<Rightarrow> nat list \<Rightarrow> Job list \<Rightarrow> Job option" where
  "claim_next queue locked js =
     (case sort_key j_id (filter (\<lambda>j. is_pending queue j \<and> j_id j \<notin> set locked) js) of
        [] \<Rightarrow> None | j # _ \<Rightarrow> Some j)"

definition claimed :: "Job \<Rightarrow> ClaimedJob" where
  "claimed j = \<lparr>cj_id = dec (j_id j), cj_type = j_type j, cj_payload = j_payload j, cj_attempts = j_attempts j\<rparr>"

text \<open>The SET clauses of the two updates.\<close>

definition mark_failed :: "string \<Rightarrow> string \<Rightarrow> int \<Rightarrow> Job \<Rightarrow> Job" where
  "mark_failed message workerName maxAttempts j = j\<lparr>j_attempts := j_attempts j + 1,
     j_lastError := Some message, j_worker := Some workerName,
     j_status := (if j_attempts j + 1 \<ge> maxAttempts then JFailed else JPending)\<rparr>"

definition mark_done :: "int \<Rightarrow> string \<Rightarrow> Job \<Rightarrow> Job" where
  "mark_done now workerName j = j\<lparr>j_status := JDone, j_processed := j_processed j + 1,
     j_attempts := j_attempts j + 1, j_worker := Some workerName, j_processedAt := Some now\<rparr>"

definition set_job :: "nat \<Rightarrow> (Job \<Rightarrow> Job) \<Rightarrow> db \<Rightarrow> db" where
  "set_job k f d = d\<lparr>jobs := update_where (\<lambda>j. j_id j = k) f (jobs d)\<rparr>"

text \<open>\<open>rows[0]?.status === 'failed'\<close> of the RETURNING clause.\<close>

definition returned_failed :: "nat \<Rightarrow> db \<Rightarrow> bool" where
  "returned_failed k d = (case filter (\<lambda>j. j_id j = k) (jobs d) of
     [] \<Rightarrow> False | j # _ \<Rightarrow> j_status j = JFailed)"

definition processNextJob ::
  "WorkerOptions \<Rightarrow> string \<Rightarrow> int \<Rightarrow> nat list \<Rightarrow> 'h job_handler \<Rightarrow> db \<times> 'h \<Rightarrow> JobOutcome option \<times> db \<times> 'h" where
  "processNextJob opts workerName now locked handler s =
     (case claim_next (wo_queue opts) locked (jobs (fst s)) of
        None \<Rightarrow> (None, s)
      | Some job \<Rightarrow>
          (case handler (claimed job) (snd s) of
             (Some message, h) \<Rightarrow>
               let d = set_job (j_id job) (mark_failed message workerName (wo_maxAttempts opts)) (fst s)
               in (Some (if returned_failed (j_id job) d then job_failed else job_retry), d, h)
           | (None, h) \<Rightarrow> (Some job_done, set_job (j_id job) (mark_done now workerName) (fst s), h)))"

definition countPendingJobs :: "string \<Rightarrow> db \<Rightarrow> nat" where
  "countPendingJobs queue d = length (filter (is_pending queue) (jobs d))"

text \<open>
  One round of \<open>runWorker\<close>: the outcome, and the count the code looks at when there was no job.
  The loop ends on no outcome and no pending job. Clock and locks are constant here: one worker,
  alone on its queue.
\<close>

definition worker_round ::
  "WorkerOptions \<Rightarrow> string \<Rightarrow> int \<Rightarrow> 'h job_handler \<Rightarrow> db \<times> 'h \<Rightarrow> (JobOutcome option \<times> nat) \<times> (db \<times> 'h)" where
  "worker_round opts workerName now handler s =
     (case processNextJob opts workerName now [] handler s of
        (outcome, s') \<Rightarrow> ((outcome, countPendingJobs (wo_queue opts) (fst s')), s'))"

definition worker_stop :: "JobOutcome option \<times> nat \<Rightarrow> bool" where
  "worker_stop x \<longleftrightarrow> fst x = None \<and> snd x = 0"

definition tally :: "(JobOutcome option \<times> nat) list \<Rightarrow> WorkerStats" where
  "tally rounds = \<lparr>ws_done = length (filter (\<lambda>x. fst x = Some job_done) rounds),
     ws_retried = length (filter (\<lambda>x. fst x = Some job_retry) rounds),
     ws_failed = length (filter (\<lambda>x. fst x = Some job_failed) rounds)\<rparr>"

definition runWorker ::
  "nat \<Rightarrow> WorkerOptions \<Rightarrow> string \<Rightarrow> int \<Rightarrow> 'h job_handler \<Rightarrow> db \<times> 'h \<Rightarrow> (WorkerStats \<times> db \<times> 'h) option" where
  "runWorker fuel opts workerName now handler s =
     map_option (\<lambda>(rounds, s'). (tally rounds, s'))
       (repeat_until fuel (worker_round opts workerName now handler) worker_stop s)"

end
