(* ===== verification/Jobs_Theorems.thy ===== *)
theory Jobs_Theorems
  imports Jobs Checkout_Theorems
begin

text \<open>
  The worker drains its queue, every job ends done or failed, and any number of workers sharing a
  queue never hold the same job nor record it twice.
\<close>

section \<open>Claiming\<close>

lemma claim_next_Some:
  assumes "claim_next queue locked js = Some j"
  shows "j \<in> set js" and "is_pending queue j" and "j_id j \<notin> set locked"
    and "\<forall>x \<in> set js. is_pending queue x \<longrightarrow> j_id x \<notin> set locked \<longrightarrow> j_id j \<le> j_id x"
proof -
  let ?P = "\<lambda>j. is_pending queue j \<and> j_id j \<notin> set locked"
  obtain xs where xs: "sort_key j_id (filter ?P js) = j # xs"
    using assms by (auto simp: claim_next_def split: list.splits)
  then have "set (filter ?P js) = set (j # xs)" by (metis set_sort)
  then have "j \<in> set (filter ?P js)" and all: "set (filter ?P js) = insert j (set xs)" by auto
  then show "j \<in> set js" "is_pending queue j" "j_id j \<notin> set locked" by auto
  have "sorted (map j_id (j # xs))" by (metis sorted_sort_key xs)
  then show "\<forall>x \<in> set js. is_pending queue x \<longrightarrow> j_id x \<notin> set locked \<longrightarrow> j_id j \<le> j_id x"
    using all by auto
qed

lemma claim_next_None:
  "claim_next queue locked js = None \<longleftrightarrow> (\<forall>j \<in> set js. is_pending queue j \<longrightarrow> j_id j \<in> set locked)"
proof -
  have "claim_next queue locked js = None \<longleftrightarrow>
      sort_key j_id (filter (\<lambda>j. is_pending queue j \<and> j_id j \<notin> set locked) js) = []"
    by (simp add: claim_next_def split: list.split)
  moreover have "sort_key j_id xs = [] \<longleftrightarrow> xs = []" for xs
    by (metis length_0_conv length_sort)
  ultimately have "claim_next queue locked js = None \<longleftrightarrow>
      filter (\<lambda>j. is_pending queue j \<and> j_id j \<notin> set locked) js = []" by metis
  then show ?thesis by (auto simp: filter_empty_conv)
qed

section \<open>One job\<close>

lemma mark_same [simp]:
  "j_id (mark_failed m w n j) = j_id j" "j_queue (mark_failed m w n j) = j_queue j"
  "j_id (mark_done now w j) = j_id j" "j_queue (mark_done now w j) = j_queue j"
  by (simp_all add: mark_failed_def mark_done_def)

lemma set_job_rows:
  assumes "distinct (map j_id (jobs d))" and "j \<in> set (jobs d)"
  shows "sum_list (map g (jobs (set_job (j_id j) f d))) = sum_list (map g (jobs d)) - g j + (g (f j) :: int)"
  unfolding set_job_def
  by (simp, rule sum_list_update_unique [OF assms]) simp_all

lemma set_job_ids: "(\<And>j. j_id (f j) = j_id j) \<Longrightarrow> map j_id (jobs (set_job k f d)) = map j_id (jobs d)"
  by (simp add: set_job_def map_update_where)

lemma returned_failed_iff:
  assumes "distinct (map j_id (jobs d))" and "j \<in> set (jobs d)" and "\<And>x. j_id (f x) = j_id x"
  shows "returned_failed (j_id j) (set_job (j_id j) f d) \<longleftrightarrow> j_status (f j) = JFailed"
proof -
  have "filter (\<lambda>x. j_id x = j_id j) (update_where (\<lambda>x. j_id x = j_id j) f js) = [f j]"
    if "distinct (map j_id js)" "j \<in> set js" for js
    using that
  proof (induction js)
    case (Cons x js)
    show ?case
    proof (cases "x = j")
      case True
      then have "\<forall>y \<in> set js. j_id y \<noteq> j_id j" using Cons.prems(1) by (auto simp: image_iff)
      then have "filter (\<lambda>x. j_id x = j_id j) js = []" "update_where (\<lambda>x. j_id x = j_id j) f js = js"
        by (auto simp: filter_empty_conv update_where_none)
      with True assms(3) show ?thesis by simp
    next
      case False
      then have "j \<in> set js" "j_id x \<noteq> j_id j" using Cons.prems by (auto simp: image_iff)
      with Cons assms(3) show ?thesis by simp
    qed
  qed simp
  from this [OF assms(1,2)] show ?thesis by (simp add: returned_failed_def set_job_def)
qed

text \<open>What one call does, by the outcome it reports.\<close>

lemma processNextJob_cases:
  assumes dist: "distinct (map j_id (jobs d))"
    and run: "processNextJob opts w now locked handler (d, h) = (out, d', h')"
  obtains (idle) "out = None" and "d' = d" and "h' = h"
      and "\<forall>j \<in> set (jobs d). is_pending (wo_queue opts) j \<longrightarrow> j_id j \<in> set locked"
  | (finished) j where "claim_next (wo_queue opts) locked (jobs d) = Some j" and "out = Some job_done"
      and "handler (claimed j) h = (None, h')" and "d' = set_job (j_id j) (mark_done now w) d"
  | (threw) j m where "claim_next (wo_queue opts) locked (jobs d) = Some j"
      and "out = Some (if j_attempts j + 1 \<ge> wo_maxAttempts opts then job_failed else job_retry)"
      and "handler (claimed j) h = (Some m, h')"
      and "d' = set_job (j_id j) (mark_failed m w (wo_maxAttempts opts)) d"
proof (cases "claim_next (wo_queue opts) locked (jobs d)")
  case None
  then have "\<forall>j \<in> set (jobs d). is_pending (wo_queue opts) j \<longrightarrow> j_id j \<in> set locked"
    by (simp only: claim_next_None)
  moreover from None run have "out = None" "d' = d" "h' = h" by (simp_all add: processNextJob_def)
  ultimately show thesis using idle by blast
next
  case (Some j)
  obtain t h1 where t: "handler (claimed j) h = (t, h1)" by fastforce
  show thesis
  proof (cases t)
    case None
    with run Some t show thesis by (intro finished [of j]) (auto simp: processNextJob_def)
  next
    case msg: (Some m)
    have "returned_failed (j_id j) (set_job (j_id j) (mark_failed m w (wo_maxAttempts opts)) d) \<longleftrightarrow>
        j_status (mark_failed m w (wo_maxAttempts opts) j) = JFailed"
      by (rule returned_failed_iff [OF dist claim_next_Some(1) [OF Some]]) simp
    then have "returned_failed (j_id j) (set_job (j_id j) (mark_failed m w (wo_maxAttempts opts)) d) \<longleftrightarrow>
        j_attempts j + 1 \<ge> wo_maxAttempts opts"
      by (simp add: mark_failed_def)
    with run Some t msg show thesis by (intro threw [of j m]) (auto simp: processNextJob_def Let_def)
  qed
qed

section \<open>Draining a queue\<close>

definition job_cost :: "WorkerOptions \<Rightarrow> Job \<Rightarrow> int" where
  "job_cost opts j = (if is_pending (wo_queue opts) j then max 1 (wo_maxAttempts opts - j_attempts j) else 0)"

definition job_budget :: "WorkerOptions \<Rightarrow> db \<Rightarrow> int" where
  "job_budget opts d = sum_list (map (job_cost opts) (jobs d))"

lemma job_budget_nonneg: "0 \<le> job_budget opts d"
  unfolding job_budget_def by (intro sum_list_nonneg) (auto simp: job_cost_def)

lemma job_cost_done: "is_pending (wo_queue opts) j \<Longrightarrow> job_cost opts (mark_done now w j) < job_cost opts j"
  by (simp add: job_cost_def is_pending_def mark_done_def)

lemma job_cost_failed:
  "is_pending (wo_queue opts) j \<Longrightarrow> job_cost opts (mark_failed m w (wo_maxAttempts opts) j) < job_cost opts j"
  by (auto simp: job_cost_def is_pending_def mark_failed_def)

definition job_ids_ok :: "db \<times> 'h \<Rightarrow> bool" where
  "job_ids_ok s \<longleftrightarrow> distinct (map j_id (jobs (fst s)))"

definition pending_count :: "WorkerOptions \<Rightarrow> db \<Rightarrow> int" where
  "pending_count opts d = (\<Sum>j\<leftarrow>jobs d. if is_pending (wo_queue opts) j then 1 else 0)"

lemma pending_count_eq: "pending_count opts d = int (countPendingJobs (wo_queue opts) d)"
proof -
  have "(\<Sum>j\<leftarrow>js. if is_pending q j then 1 else 0) = int (length (filter (is_pending q) js))" for q js
    by (induction js) simp_all
  then show ?thesis by (simp add: pending_count_def countPendingJobs_def)
qed

definition settled :: "JobOutcome option \<Rightarrow> nat" where
  "settled out = (if out = Some job_done \<or> out = Some job_failed then 1 else 0)"

lemma processNextJob_progress:
  assumes dist: "distinct (map j_id (jobs d))"
    and run: "processNextJob opts w now [] handler (d, h) = (out, d', h')"
  shows "distinct (map j_id (jobs d'))"
    and "out \<noteq> None \<Longrightarrow> job_budget opts d' < job_budget opts d"
    and "out = None \<Longrightarrow> countPendingJobs (wo_queue opts) d' = 0"
    and "countPendingJobs (wo_queue opts) d = countPendingJobs (wo_queue opts) d' + settled out"
proof -
  have "distinct (map j_id (jobs d')) \<and> (out \<noteq> None \<longrightarrow> job_budget opts d' < job_budget opts d) \<and>
      (out = None \<longrightarrow> countPendingJobs (wo_queue opts) d' = 0) \<and>
      pending_count opts d = pending_count opts d' + int (settled out)"
    using dist run
  proof (cases rule: processNextJob_cases)
    case idle
    from idle(2,4) have "countPendingJobs (wo_queue opts) d' = 0"
      by (auto simp: countPendingJobs_def filter_empty_conv)
    with idle(1,2) dist show ?thesis by (simp add: settled_def)
  next
    case (finished j)
    note c = claim_next_Some(1,2) [OF finished(1)]
    have "distinct (map j_id (jobs d'))"
      unfolding finished(4) by (subst set_job_ids) (simp_all add: dist)
    moreover have "job_budget opts d' < job_budget opts d"
      unfolding job_budget_def finished(4) set_job_rows [OF dist c(1)]
      using job_cost_done [OF c(2), of now w] by simp
    moreover have "pending_count opts d = pending_count opts d' + 1"
      unfolding pending_count_def finished(4) set_job_rows [OF dist c(1)]
      using c(2) by (simp add: is_pending_def mark_done_def)
    ultimately show ?thesis using finished(2) by (simp add: settled_def)
  next
    case (threw j m)
    note c = claim_next_Some(1,2) [OF threw(1)]
    have "distinct (map j_id (jobs d'))"
      unfolding threw(4) by (subst set_job_ids) (simp_all add: dist)
    moreover have "job_budget opts d' < job_budget opts d"
      unfolding job_budget_def threw(4) set_job_rows [OF dist c(1)]
      using job_cost_failed [OF c(2), of m w] by simp
    moreover have "pending_count opts d = pending_count opts d' + int (settled out)"
      unfolding pending_count_def threw(4) set_job_rows [OF dist c(1)]
      using c(2) threw(2) by (simp add: is_pending_def mark_failed_def settled_def)
    ultimately show ?thesis using threw(2) by simp
  qed
  then show "distinct (map j_id (jobs d'))"
    and "out \<noteq> None \<Longrightarrow> job_budget opts d' < job_budget opts d"
    and "out = None \<Longrightarrow> countPendingJobs (wo_queue opts) d' = 0"
    and "countPendingJobs (wo_queue opts) d = countPendingJobs (wo_queue opts) d' + settled out"
    by (simp_all add: pending_count_eq)
qed

interpretation worker: progressing job_ids_ok "worker_round opts w now handler" worker_stop
  "\<lambda>s. nat (job_budget opts (fst s))" for opts w now handler
proof
  fix s s' x
  assume ok: "job_ids_ok s" and body: "worker_round opts w now handler s = (x, s')"
  obtain d h d' h' where s: "s = (d, h)" "s' = (d', h')" by fastforce
  from body obtain out where run: "processNextJob opts w now [] handler (d, h) = (out, d', h')"
    and x: "x = (out, countPendingJobs (wo_queue opts) d')"
    by (auto simp: worker_round_def s split: prod.splits)
  have dist: "distinct (map j_id (jobs d))" using ok by (simp add: job_ids_ok_def s)
  note p = processNextJob_progress [OF dist run]
  show "job_ids_ok s'" using p(1) by (simp add: job_ids_ok_def s)
  assume "\<not> worker_stop x"
  then have "out \<noteq> None" using p(3) by (cases out) (simp_all add: worker_stop_def x)
  with p(2) job_budget_nonneg [of opts d'] show "nat (job_budget opts (fst s')) < nat (job_budget opts (fst s))"
    by (simp add: s)
qed


lemma worker_round_settles:
  assumes "job_ids_ok s" and "worker_round opts w now handler s = (x, s')"
  shows "countPendingJobs (wo_queue opts) (fst s) = countPendingJobs (wo_queue opts) (fst s') + settled (fst x)"
  using assms processNextJob_progress(4) [of "fst s" opts w now handler "snd s" "fst x" "fst s'" "snd s'"]
  by (auto simp: worker_round_def job_ids_ok_def split: prod.splits)

lemma settled_sum: "sum_list (map (settled \<circ> fst) rounds) = ws_done (tally rounds) + ws_failed (tally rounds)"
  by (induction rounds) (auto simp: tally_def settled_def)

section \<open>Many workers\<close>

text \<open>
  Workers of one queue, each in its own transaction: a claim locks the row, the transaction then
  commits one of the two updates or is rolled back (a crash), and the lock goes with it.
\<close>

record pool =
  pl_db :: db
  pl_locks :: "(string \<times> nat) list"

definition release :: "string \<Rightarrow> (string \<times> nat) list \<Rightarrow> (string \<times> nat) list" where
  "release w locks = filter (\<lambda>l. fst l \<noteq> w) locks"

inductive pool_step :: "WorkerOptions \<Rightarrow> pool \<Rightarrow> pool \<Rightarrow> bool" for opts :: WorkerOptions where
  claim: "claim_next (wo_queue opts) (map snd locks) (jobs d) = Some j \<Longrightarrow> w \<notin> fst ` set locks \<Longrightarrow>
    pool_step opts \<lparr>pl_db = d, pl_locks = locks\<rparr> \<lparr>pl_db = d, pl_locks = (w, j_id j) # locks\<rparr>"
| succeed: "(w, k) \<in> set locks \<Longrightarrow>
    pool_step opts \<lparr>pl_db = d, pl_locks = locks\<rparr>
      \<lparr>pl_db = set_job k (mark_done now w) d, pl_locks = release w locks\<rparr>"
| throw: "(w, k) \<in> set locks \<Longrightarrow>
    pool_step opts \<lparr>pl_db = d, pl_locks = locks\<rparr>
      \<lparr>pl_db = set_job k (mark_failed m w (wo_maxAttempts opts)) d, pl_locks = release w locks\<rparr>"
| crash: "(w, k) \<in> set locks \<Longrightarrow>
    pool_step opts \<lparr>pl_db = d, pl_locks = locks\<rparr> \<lparr>pl_db = d, pl_locks = release w locks\<rparr>"

inductive_cases pool_stepE: "pool_step opts p p'"

text \<open>A call of \<open>processNextJob\<close> that finds a job is a claim followed by one of the two commits.\<close>

lemma processNextJob_pool:
  assumes dist: "distinct (map j_id (jobs d))" and "w \<notin> fst ` set locks"
    and "processNextJob opts w now (map snd locks) handler (d, h) = (Some out, d', h')"
  shows "\<exists>p. pool_step opts \<lparr>pl_db = d, pl_locks = locks\<rparr> p \<and>
    pool_step opts p \<lparr>pl_db = d', pl_locks = locks\<rparr>"
proof -
  have rel: "release w ((w, k) # locks) = locks" for k
    using assms(2) by (auto simp: release_def filter_id_conv)
  from dist assms(3) show ?thesis
  proof (cases rule: processNextJob_cases)
    case (finished j)
    from claim [where w = w, OF finished(1) assms(2)]
      succeed [of w "j_id j" "(w, j_id j) # locks" opts d now] rel finished(4)
    show ?thesis by auto
  next
    case (threw j m)
    from claim [where w = w, OF threw(1) assms(2)]
      throw [of w "j_id j" "(w, j_id j) # locks" opts d m] rel threw(4)
    show ?thesis by auto
  qed simp
qed

definition job_row_ok :: "Job \<Rightarrow> bool" where
  "job_row_ok j \<longleftrightarrow> j_processed j = (if j_status j = JDone then 1 else 0)"

definition pool_ok :: "WorkerOptions \<Rightarrow> pool \<Rightarrow> bool" where
  "pool_ok opts p \<longleftrightarrow> distinct (map j_id (jobs (pl_db p))) \<and> distinct (map fst (pl_locks p)) \<and>
     distinct (map snd (pl_locks p)) \<and> (\<forall>j \<in> set (jobs (pl_db p)). job_row_ok j) \<and>
     (\<forall>l \<in> set (pl_locks p). \<exists>j \<in> set (jobs (pl_db p)). j_id j = snd l \<and> is_pending (wo_queue opts) j)"

lemma release_ok:
  assumes "pool_ok opts \<lparr>pl_db = d, pl_locks = locks\<rparr>" and "(w, k) \<in> set locks"
  shows "distinct (map fst (release w locks))" and "distinct (map snd (release w locks))"
    and "l \<in> set (release w locks) \<Longrightarrow> l \<in> set locks \<and> snd l \<noteq> k"
proof -
  show "distinct (map fst (release w locks))" "distinct (map snd (release w locks))"
    using assms(1) by (simp_all add: pool_ok_def release_def distinct_map_filter)
  assume l: "l \<in> set (release w locks)"
  then have l': "l \<in> set locks" "fst l \<noteq> w" by (auto simp: release_def)
  have dist: "distinct (map snd locks)" using assms(1) by (simp add: pool_ok_def)
  have "snd l \<noteq> k"
  proof
    assume "snd l = k"
    then have "l = (w, k)" by (intro distinct_key_eq [OF dist l'(1) assms(2)]) simp
    with l'(2) show False by simp
  qed
  with l'(1) show "l \<in> set locks \<and> snd l \<noteq> k" ..
qed

lemma set_job_pool_ok:
  assumes ok: "pool_ok opts \<lparr>pl_db = d, pl_locks = locks\<rparr>" and lock: "(w, k) \<in> set locks"
    and same: "\<And>j. j_id (f j) = j_id j"
    and row: "\<And>j. job_row_ok j \<Longrightarrow> is_pending (wo_queue opts) j \<Longrightarrow> job_row_ok (f j)"
  shows "pool_ok opts \<lparr>pl_db = set_job k f d, pl_locks = release w locks\<rparr>"
proof -
  have dist: "distinct (map j_id (jobs d))" and rows: "\<forall>j \<in> set (jobs d). job_row_ok j"
    and held: "\<forall>l \<in> set locks. \<exists>j \<in> set (jobs d). j_id j = snd l \<and> is_pending (wo_queue opts) j"
    using ok by (simp_all add: pool_ok_def)
  obtain j where j: "j \<in> set (jobs d)" "j_id j = k" "is_pending (wo_queue opts) j"
    using held lock by force
  have "job_row_ok x" if "x \<in> set (jobs (set_job k f d))" for x
  proof -
    from that obtain y where y: "y \<in> set (jobs d)" "x = (if j_id y = k then f y else y)"
      by (auto simp: set_job_def set_update_where)
    show ?thesis
    proof (cases "j_id y = k")
      case True
      then have "y = j" using distinct_key_eq [OF dist y(1) j(1)] j(2) by simp
      with y row rows j show ?thesis by simp
    qed (use y rows in simp)
  qed
  moreover have "\<exists>x \<in> set (jobs (set_job k f d)). j_id x = snd l \<and> is_pending (wo_queue opts) x"
    if "l \<in> set (release w locks)" for l
  proof -
    from release_ok(3) [OF ok lock that] held
    obtain x where "x \<in> set (jobs d)" "j_id x = snd l" "is_pending (wo_queue opts) x" "snd l \<noteq> k" by blast
    then show ?thesis by (auto simp: set_job_def set_update_where intro!: bexI [of _ x] image_eqI [of _ _ x])
  qed
  ultimately show ?thesis
    using release_ok(1,2) [OF ok lock] dist set_job_ids [of f k d, OF same] by (simp add: pool_ok_def)
qed

lemma pool_step_ok: "pool_step opts p p' \<Longrightarrow> pool_ok opts p \<Longrightarrow> pool_ok opts p'"
proof (induction rule: pool_step.induct)
  case (claim locks d j w)
  from claim_next_Some [OF claim(1)] claim(2,3) show ?case by (auto simp: pool_ok_def)
next
  case (succeed w k locks d now)
  then show ?case
    by (intro set_job_pool_ok) (auto simp: job_row_ok_def mark_done_def is_pending_def)
next
  case (throw w k locks d m)
  then show ?case
    by (intro set_job_pool_ok) (auto simp: job_row_ok_def mark_failed_def is_pending_def)
next
  case (crash w k locks d)
  with release_ok [OF crash(2,1)] show ?case by (auto simp: pool_ok_def)
qed


section \<open>Properties\<close>

text \<open>
  C11: a worker alone on a queue always returns: with as many rounds as attempts are left (plus
  one), it ends with no pending job in the queue, having settled every job that was pending as
  done or failed, and every error a handler throws is contained.
\<close>

theorem runWorker_drains:
  assumes "distinct (map j_id (jobs d))" and "nat (job_budget opts d) < fuel"
  shows "\<exists>stats d' h'. runWorker fuel opts w now handler (d, h) = Some (stats, d', h') \<and>
    countPendingJobs (wo_queue opts) d' = 0 \<and>
    ws_done stats + ws_failed stats = countPendingJobs (wo_queue opts) d"
proof -
  have ok: "job_ids_ok (d, h)" using assms(1) by (simp add: job_ids_ok_def)
  obtain rounds t where run: "repeat_until fuel (worker_round opts w now handler) worker_stop (d, h) = Some (rounds, t)"
    using worker.enough_fuel [OF ok] assms(2) by fastforce
  obtain s1 x where "worker_round opts w now handler s1 = (x, t)" "worker_stop x"
    using worker.result_last [OF ok run] by blast
  then have zero: "countPendingJobs (wo_queue opts) (fst t) = 0"
    by (auto simp: worker_round_def worker_stop_def split: prod.splits)
  have "countPendingJobs (wo_queue opts) (fst (d, h)) =
      countPendingJobs (wo_queue opts) (fst t) + sum_list (map (settled \<circ> fst) rounds)"
    by (rule worker.result_sum [OF _ ok run]) (simp add: worker_round_settles)
  then have "ws_done (tally rounds) + ws_failed (tally rounds) = countPendingJobs (wo_queue opts) d"
    by (simp add: zero settled_sum)
  moreover have "runWorker fuel opts w now handler (d, h) = Some (tally rounds, fst t, snd t)"
    by (simp add: runWorker_def run)
  ultimately show ?thesis using zero by blast
qed

definition job_db :: db where
  "job_db = shop_db\<lparr>jobs := [new_job shop_env shop_db]\<rparr>"

text \<open>A handler that throws twice and then works.\<close>

definition flaky :: "nat job_handler" where
  "flaky j n = (if n < 2 then (Some ''boom'', n + 1) else (None, n))"

theorem runWorker_drains_witness:
  "map_option fst (runWorker 5 DEFAULT_OPTIONS ''w'' 9 flaky (job_db, 0)) =
     Some \<lparr>ws_done = 1, ws_retried = 2, ws_failed = 0\<rparr> \<and>
   (\<exists>stats d' h'. runWorker 5 DEFAULT_OPTIONS ''w'' 9 flaky (job_db, 0) = Some (stats, d', h') \<and>
     countPendingJobs ''default'' d' = 0)"
proof
  show "map_option fst (runWorker 5 DEFAULT_OPTIONS ''w'' 9 flaky (job_db, 0)) =
     Some \<lparr>ws_done = 1, ws_retried = 2, ws_failed = 0\<rparr>" by code_simp
  have "distinct (map j_id (jobs job_db))" "nat (job_budget DEFAULT_OPTIONS job_db) < 5" by code_simp+
  from runWorker_drains [OF this, of "''w''" 9 flaky 0]
  show "\<exists>stats d' h'. runWorker 5 DEFAULT_OPTIONS ''w'' 9 flaky (job_db, 0) = Some (stats, d', h') \<and>
     countPendingJobs ''default'' d' = 0"
    by (auto simp: DEFAULT_OPTIONS_def)
qed

text \<open>
  C12: however many workers share a queue, and however claims, commits and crashes interleave, no
  two workers hold the same job and no job is recorded as processed more than once: its counter is
  1 exactly when it is done.
\<close>

theorem workers_process_once:
  assumes "(pool_step opts)\<^sup>*\<^sup>* \<lparr>pl_db = d, pl_locks = []\<rparr> p"
    and "distinct (map j_id (jobs d))" and "\<forall>j \<in> set (jobs d). job_row_ok j"
  shows "distinct (map snd (pl_locks p)) \<and> distinct (map fst (pl_locks p)) \<and>
    (\<forall>j \<in> set (jobs (pl_db p)). j_processed j = (if j_status j = JDone then 1 else 0))"
proof -
  have "pool_ok opts \<lparr>pl_db = d, pl_locks = []\<rparr>" using assms(2,3) by (simp add: pool_ok_def)
  with assms(1) have "pool_ok opts p"
    by (induction rule: rtranclp_induct) (auto intro: pool_step_ok)
  then show ?thesis by (simp add: pool_ok_def job_row_ok_def)
qed

theorem workers_process_once_witness:
  "\<exists>p. (pool_step DEFAULT_OPTIONS)\<^sup>*\<^sup>* \<lparr>pl_db = job_db, pl_locks = []\<rparr> p \<and>
     map j_status (jobs (pl_db p)) = [JDone] \<and> map j_processed (jobs (pl_db p)) = [1]"
proof -
  let ?p = "\<lparr>pl_db = set_job 1 (mark_done 9 ''w'') job_db, pl_locks = []\<rparr>"
  have "map_option j_id (claim_next ''default'' [] (jobs job_db)) = Some 1" by code_simp
  then obtain j where j: "claim_next ''default'' [] (jobs job_db) = Some j" "j_id j = 1" by auto
  have "pool_step DEFAULT_OPTIONS \<lparr>pl_db = job_db, pl_locks = []\<rparr> \<lparr>pl_db = job_db, pl_locks = [(''w'', 1)]\<rparr>"
    using claim [of DEFAULT_OPTIONS "[]" job_db j "''w''"] j by (simp add: DEFAULT_OPTIONS_def)
  moreover have "pool_step DEFAULT_OPTIONS \<lparr>pl_db = job_db, pl_locks = [(''w'', 1)]\<rparr> ?p"
    using succeed [of "''w''" 1 "[(''w'', 1)]" DEFAULT_OPTIONS job_db 9] by (simp add: release_def)
  ultimately have run: "(pool_step DEFAULT_OPTIONS)\<^sup>*\<^sup>* \<lparr>pl_db = job_db, pl_locks = []\<rparr> ?p" by simp
  have st: "map j_status (jobs (pl_db ?p)) = [JDone]" by code_simp
  have ok: "distinct (map j_id (jobs job_db))" "\<forall>j \<in> set (jobs job_db). job_row_ok j" by code_simp+
  have "\<forall>j \<in> set (jobs (pl_db ?p)). j_processed j = 1"
    using workers_process_once [OF run ok] st by auto
  moreover from st obtain j where "jobs (pl_db ?p) = [j]" by auto
  ultimately have "map j_processed (jobs (pl_db ?p)) = [1]" by simp
  with run st show ?thesis by (intro exI [of _ ?p] conjI)
qed

end
