(* ===== verification/Messaging.thy ===== *)
theory Messaging
  imports Schema Loops
begin

text \<open>
  The sending side of the outbox: \<open>src/messaging/order-placed.publisher.ts\<close>,
  \<open>src/messaging/outbox-relay.ts\<close> and \<open>src/messaging/outbox-cleanup.ts\<close>. The broker is a
  parameter.
\<close>

section \<open>Messages and the broker\<close>

definition EVENTS_EXCHANGE :: string where "EVENTS_EXCHANGE = ''shop.events''"
definition DEAD_LETTER_EXCHANGE :: string where "DEAD_LETTER_EXCHANGE = ''shop.dlx''"
definition ORDER_PLACED_QUEUE :: string where "ORDER_PLACED_QUEUE = ''shop.order-placed''"
definition DEAD_LETTER_QUEUE :: string where "DEAD_LETTER_QUEUE = ''shop.dlq''"
definition ORDER_PLACED_ROUTING_KEY :: string where "ORDER_PLACED_ROUTING_KEY = ''order.placed''"
definition DELIVERY_LIMIT :: nat where "DELIVERY_LIMIT = 3"

text \<open>
  The body of a message is the JSON value its text denotes, or None when the text is not JSON; a
  message id is None when the property is missing.
\<close>

record amqp_message =
  am_exchange :: string
  am_routingKey :: string
  am_body :: "json option"
  am_persistent :: bool
  am_mandatory :: bool
  am_contentType :: string
  am_messageId :: "string option"
  am_type :: string
  am_timestamp :: int

text \<open>
  One \<open>channel.publish\<close> followed by \<open>channel.waitForConfirms\<close>, on the broker's state \<open>'b\<close>: the
  error the wait fails with, if any, and the ids of the messages the broker returned meanwhile.
\<close>

type_synonym 'b send = "amqp_message \<Rightarrow> 'b \<Rightarrow> (js_error option \<times> string list) \<times> 'b"

record 'b publisher =
  pub_open :: bool
  pub_returned :: "string list"
  pub_broker :: 'b

definition order_message :: "(int \<Rightarrow> string) \<Rightarrow> OrderPlacedEvent \<Rightarrow> string \<Rightarrow> amqp_message" where
  "order_message toISO event messageId =
     \<lparr>am_exchange = EVENTS_EXCHANGE, am_routingKey = ORDER_PLACED_ROUTING_KEY,
      am_body = Some (event_json toISO event), am_persistent = True, am_mandatory = True,
      am_contentType = ''application/json'', am_messageId = Some messageId, am_type = ev_type event,
      am_timestamp = ev_occurredAt event div 1000\<rparr>"

definition publish_event ::
  "'b send \<Rightarrow> (int \<Rightarrow> string) \<Rightarrow> OrderPlacedEvent \<Rightarrow> string \<Rightarrow> ('b publisher, unit) action" where
  "publish_event send toISO event messageId p =
     (if \<not> pub_open p then (Inl (PlainError ''publisher channel is not open''), p)
      else (case send (order_message toISO event messageId) (pub_broker p) of ((err, rets), b) \<Rightarrow>
        let returned = foldr List.insert rets (pub_returned p); p' = p\<lparr>pub_broker := b\<rparr> in
        case err of
          Some e \<Rightarrow> (Inl e, p'\<lparr>pub_returned := returned\<rparr>)
        | None \<Rightarrow>
            if messageId \<in> set returned
            then (Inl (UnroutableEventError messageId), p'\<lparr>pub_returned := removeAll messageId returned\<rparr>)
            else (Inr (), p'\<lparr>pub_returned := returned\<rparr>)))"

section \<open>The relay\<close>

definition RELAY_BATCH_SIZE :: nat where "RELAY_BATCH_SIZE = 100"
definition RELAY_MAX_ATTEMPTS :: int where "RELAY_MAX_ATTEMPTS = 10"

datatype RelayOutcome = relay_published | relay_failed | relay_empty

definition eligible :: "string list \<Rightarrow> Outbox \<Rightarrow> bool" where
  "eligible failed x \<longleftrightarrow> x_publishedAt x = None \<and> x_attempts x < RELAY_MAX_ATTEMPTS \<and> x_id x \<notin> set failed"

text \<open>\<open>ORDER BY created_at, id \<dots> LIMIT 1\<close>; \<open>locked\<close> are the rows other relays hold.\<close>

definition next_row :: "string list \<Rightarrow> string list \<Rightarrow> Outbox list \<Rightarrow> Outbox option" where
  "next_row failed locked rows =
     (case sort_key x_createdAt (sort_key x_id (filter (\<lambda>x. eligible failed x \<and> x_id x \<notin> set locked) rows)) of
        [] \<Rightarrow> None | x # _ \<Rightarrow> Some x)"

definition set_outbox :: "string \<Rightarrow> (Outbox \<Rightarrow> Outbox) \<Rightarrow> db \<Rightarrow> db" where
  "set_outbox k f d = d\<lparr>outbox := update_where (\<lambda>x. x_id x = k) f (outbox d)\<rparr>"

definition count_attempt :: "Outbox \<Rightarrow> Outbox" where
  "count_attempt x = x\<lparr>x_attempts := x_attempts x + 1\<rparr>"

definition mark_published :: "int \<Rightarrow> Outbox \<Rightarrow> Outbox" where
  "mark_published now x = x\<lparr>x_publishedAt := Some now, x_attempts := x_attempts x + 1\<rparr>"

record 'b relay_env =
  re_send :: "'b send"
  re_toISO :: "int \<Rightarrow> string"
  re_now :: int
  re_locked :: "string list"
  re_afterPublish :: "Outbox \<Rightarrow> js_error option"

text \<open>
  One transaction of the batch. The broker is not part of the transaction: what was sent stays
  sent when the transaction rolls back.
\<close>

definition relay_one ::
  "'b relay_env \<Rightarrow> string list \<Rightarrow> (db \<times> 'b publisher, RelayOutcome \<times> string list) action" where
  "relay_one env failed s =
     (case next_row failed (re_locked env) (outbox (fst s)) of
        None \<Rightarrow> (Inr (relay_empty, failed), s)
      | Some row \<Rightarrow>
          (case publish_event (re_send env) (re_toISO env) (x_payload row) (x_id row) (snd s) of
             (Inl (UnroutableEventError m), p) \<Rightarrow>
               (Inr (relay_failed, failed @ [x_id row]), (set_outbox (x_id row) count_attempt (fst s), p))
           | (Inl e, p) \<Rightarrow> (Inl e, (fst s, p))
           | (Inr _, p) \<Rightarrow>
               (case re_afterPublish env row of
                  Some e \<Rightarrow> (Inl e, (fst s, p))
                | None \<Rightarrow> (Inr (relay_published, failed),
                            (set_outbox (x_id row) (mark_published (re_now env)) (fst s), p)))))"

fun relay_loop ::
  "'b relay_env \<Rightarrow> nat \<Rightarrow> string list \<Rightarrow> nat \<Rightarrow> (db \<times> 'b publisher, nat) action" where
  "relay_loop env 0 failed published = return published"
| "relay_loop env (Suc n) failed published =
     andThen (relay_one env failed) (\<lambda>(outcome, failed').
       if outcome = relay_empty then return published
       else relay_loop env n failed' (if outcome = relay_published then published + 1 else published))"

definition relayBatch :: "'b relay_env \<Rightarrow> nat \<Rightarrow> (db \<times> 'b publisher, nat) action" where
  "relayBatch env limit = relay_loop env limit [] 0"

section \<open>Deleting in batches\<close>

text \<open>
  \<open>DELETE \<dots> WHERE id IN (SELECT id \<dots> WHERE P LIMIT n)\<close>: the first \<open>n\<close> matching rows go; the
  number of deleted rows is the \<open>affected\<close> of the result.
\<close>

fun delete_some :: "('r \<Rightarrow> bool) \<Rightarrow> nat \<Rightarrow> 'r list \<Rightarrow> nat \<times> 'r list" where
  "delete_some P n [] = (0, [])"
| "delete_some P n (r # rows) =
     (if P r \<and> 0 < n then (case delete_some P (n - 1) rows of (k, rs) \<Rightarrow> (Suc k, rs))
      else (case delete_some P n rows of (k, rs) \<Rightarrow> (k, r # rs)))"

text \<open>The loop both cleanups run: delete a batch until one comes back short.\<close>

definition delete_all ::
  "nat \<Rightarrow> ('r \<Rightarrow> bool) \<Rightarrow> nat \<Rightarrow> 'r list \<Rightarrow> (nat \<times> 'r list) option" where
  "delete_all fuel P batchSize rows =
     map_option (\<lambda>(ks, rs). (sum_list ks, rs))
       (repeat_until fuel (delete_some P batchSize) (\<lambda>affected. affected < batchSize) rows)"

definition OUTBOX_RETENTION_DAYS :: int where "OUTBOX_RETENTION_DAYS = 7"
definition OUTBOX_CLEANUP_BATCH :: nat where "OUTBOX_CLEANUP_BATCH = 1000"

definition day_us :: int where "day_us = 86400000000"

definition outbox_expired :: "int \<Rightarrow> int \<Rightarrow> Outbox \<Rightarrow> bool" where
  "outbox_expired now retentionDays x \<longleftrightarrow>
     (case x_publishedAt x of None \<Rightarrow> False | Some t \<Rightarrow> t < now - retentionDays * day_us)"

definition cleanupOutbox :: "nat \<Rightarrow> int \<Rightarrow> int \<Rightarrow> nat \<Rightarrow> db \<Rightarrow> (nat \<times> db) option" where
  "cleanupOutbox fuel now retentionDays batchSize d =
     map_option (\<lambda>(n, rows). (n, d\<lparr>outbox := rows\<rparr>))
       (delete_all fuel (outbox_expired now retentionDays) batchSize (outbox d))"

end
