(* ===== verification/Consumer.thy ===== *)
theory Consumer
  imports Messaging Checkout
begin

text \<open>
  The receipts consumer of \<open>src/messaging/order-placed.consumer.ts\<close>: checking a message, applying
  it once, and answering the broker.
\<close>

section \<open>Messages\<close>

definition RECEIPTS_CONSUMER :: string where "RECEIPTS_CONSUMER = ''receipts''"

text \<open>Of the event the code reads only its id, the order id and the total.\<close>

record IncomingEvent =
  ie_messageId :: string
  ie_eventId :: string
  ie_orderId :: string
  ie_total :: int

datatype ApplyResult = applied | duplicate | already_applied

definition is_hex :: "char \<Rightarrow> bool" where
  "is_hex c \<longleftrightarrow> is_digit c \<or> 97 \<le> (of_char (lower_char c) :: nat) \<and> (of_char (lower_char c) :: nat) \<le> 102"

text \<open>\<open>UUID_PATTERN\<close>: groups of 8, 4, 4, 4 and 12 hexadecimal digits.\<close>

definition uuid_ok :: "string \<Rightarrow> bool" where
  "uuid_ok s \<longleftrightarrow> length s = 36 \<and>
     list_all (\<lambda>(i, c). if i \<in> {8, 13, 18, 23} then c = CHR ''-'' else is_hex c) (enumerate 0 s)"

definition poison :: "string \<Rightarrow> 'a result" where
  "poison m = Inl (PoisonMessageError m)"

definition parseMessage :: "amqp_message \<Rightarrow> IncomingEvent result" where
  "parseMessage message =
     (case am_messageId message of
        None \<Rightarrow> poison ''message has no valid messageId''
      | Some messageId \<Rightarrow>
          if \<not> uuid_ok messageId then poison ''message has no valid messageId''
          else (case am_body message of
            None \<Rightarrow> poison ''body is not valid JSON''
          | Some event \<Rightarrow>
              let data = json_get ''data'' (Some event) in
              (case (json_get ''type'' (Some event), json_get ''eventId'' (Some event),
                     json_get ''orderId'' data, json_get ''total'' data) of
                 (Some (JStr type), Some (JStr eventId), Some (JStr orderId), Some (JNum (JsInt amount))) \<Rightarrow>
                   if type \<noteq> ''order.placed'' \<or> \<not> isId orderId \<or> amount < 0
                   then poison ''body does not match the order.placed contract''
                   else Inr \<lparr>ie_messageId = messageId, ie_eventId = eventId, ie_orderId = orderId,
                             ie_total = amount\<rparr>
               | _ \<Rightarrow> poison ''body does not match the order.placed contract'')))"

section \<open>Applying an event\<close>

text \<open>
  \<open>INSERT INTO processed_messages \<dots> ON CONFLICT DO NOTHING RETURNING\<close>. The column has type
  \<open>uuid\<close>, which compares without regard to case.
\<close>

definition mark_message :: "int \<Rightarrow> string \<Rightarrow> db \<Rightarrow> bool \<times> db" where
  "mark_message now messageId d =
     (let k = toLowerCase messageId in
      if list_ex (\<lambda>m. m_messageId m = k \<and> m_consumer m = RECEIPTS_CONSUMER) (processedMessages d)
      then (False, d)
      else (True, d\<lparr>processedMessages := processedMessages d @
             [\<lparr>m_messageId = k, m_consumer = RECEIPTS_CONSUMER, m_processedAt = now\<rparr>]\<rparr>))"

text \<open>
  \<open>INSERT INTO receipts \<dots> ON CONFLICT (order_id) DO NOTHING RETURNING id\<close>: the conflict on the
  order is silent, one on the event id is not, and the foreign key is checked last. The identity
  value is drawn either way.
\<close>

definition issue_receipt :: "int \<Rightarrow> string \<Rightarrow> string \<Rightarrow> int \<Rightarrow> (db, bool) action" where
  "issue_receipt now eventId orderId amount =
     andThen (lift (bigint_param orderId)) (\<lambda>oid.
     andThen (lift (int4_param amount)) (\<lambda>t.
     (\<lambda>d. let d1 = d\<lparr>seqs := (seqs d)\<lparr>sq_receipt := Suc (sq_receipt (seqs d))\<rparr>\<rparr> in
          if t < 0 then (Inl (violation ''23514'' ''receipts_total_check''), d1)
          else if list_ex (\<lambda>r. r_orderId r = oid) (receipts d) then (Inr False, d1)
          else if list_ex (\<lambda>r. r_eventId r = eventId) (receipts d)
            then (Inl (violation ''23505'' ''UQ_24f0e73ac9fd9166da129f18f78''), d1)
          else if \<not> list_ex (\<lambda>r. o_id r = oid) (orders d)
            then (Inl (violation ''23503'' ''FK_9545ae8fc5f7714cd8a807dd937''), d1)
          else (Inr True, d1\<lparr>receipts := receipts d @
                 [\<lparr>r_id = sq_receipt (seqs d), r_eventId = eventId, r_orderId = oid, r_total = t,
                   r_issuedAt = now\<rparr>]\<rparr>))))"

definition applyOrderPlaced :: "int \<Rightarrow> IncomingEvent \<Rightarrow> (db, ApplyResult) action" where
  "applyOrderPlaced now incoming = transaction (\<lambda>d.
     case mark_message now (ie_messageId incoming) d of
       (False, d1) \<Rightarrow> (Inr duplicate, d1)
     | (True, d1) \<Rightarrow>
         andThen (issue_receipt now (ie_eventId incoming) (ie_orderId incoming) (ie_total incoming))
           (\<lambda>issued. return (if issued then applied else already_applied)) d1)"

section \<open>Handling a delivery\<close>

record ConsumerStats =
  cs_delivered :: nat
  cs_effect :: nat
  cs_skipped :: nat
  cs_alreadyApplied :: nat
  cs_rejected :: nat
  cs_requeued :: nat
  cs_acked :: nat

datatype answer = Ack | Reject bool

text \<open>
  \<open>onEffect\<close> is called inside the \<open>try\<close>: what it throws requeues the message although the
  transaction is committed. The answer is what the channel is told.
\<close>

definition handle ::
  "int \<Rightarrow> (IncomingEvent \<Rightarrow> js_error option) \<Rightarrow> amqp_message \<Rightarrow> db \<times> ConsumerStats
    \<Rightarrow> answer \<times> db \<times> ConsumerStats" where
  "handle now onEffect message s =
     (let st = (snd s)\<lparr>cs_delivered := cs_delivered (snd s) + 1\<rparr> in
      case parseMessage message of
        Inl e \<Rightarrow> (Reject False, fst s, st\<lparr>cs_rejected := cs_rejected st + 1\<rparr>)
      | Inr incoming \<Rightarrow>
          (case applyOrderPlaced now incoming (fst s) of
             (Inl e, d) \<Rightarrow> (Reject True, d, st\<lparr>cs_requeued := cs_requeued st + 1\<rparr>)
           | (Inr applied, d) \<Rightarrow>
               let st1 = st\<lparr>cs_effect := cs_effect st + 1\<rparr> in
               (case onEffect incoming of
                  Some e \<Rightarrow> (Reject True, d, st1\<lparr>cs_requeued := cs_requeued st1 + 1\<rparr>)
                | None \<Rightarrow> (Ack, d, st1\<lparr>cs_acked := cs_acked st1 + 1\<rparr>))
           | (Inr duplicate, d) \<Rightarrow>
               (Ack, d, st\<lparr>cs_skipped := cs_skipped st + 1, cs_acked := cs_acked st + 1\<rparr>)
           | (Inr already_applied, d) \<Rightarrow>
               (Ack, d, st\<lparr>cs_alreadyApplied := cs_alreadyApplied st + 1, cs_acked := cs_acked st + 1\<rparr>)))"

definition zero_stats :: ConsumerStats where
  "zero_stats = \<lparr>cs_delivered = 0, cs_effect = 0, cs_skipped = 0, cs_alreadyApplied = 0,
     cs_rejected = 0, cs_requeued = 0, cs_acked = 0\<rparr>"

end
