(* ===== verification/Messaging_Theorems.thy ===== *)
theory Messaging_Theorems
  imports Messaging Checkout_Theorems
begin

text \<open>
  The relay never marks a row published that the broker did not take, publishes in order, gives up
  on a row after ten attempts without blocking the others; the cleanups end and delete exactly the
  expired rows.
\<close>

section \<open>Rows of the outbox\<close>

lemma next_row_Some:
  assumes "next_row failed locked rows = Some x"
  shows "x \<in> set rows" and "eligible failed x" and "x_id x \<notin> set locked"
proof -
  let ?P = "\<lambda>x. eligible failed x \<and> x_id x \<notin> set locked"
  obtain xs where xs: "sort_key x_createdAt (sort_key x_id (filter ?P rows)) = x # xs"
    using assms by (auto simp: next_row_def split: list.splits)
  have "set (sort_key x_createdAt (sort_key x_id (filter ?P rows))) = set (filter ?P rows)"
    by (simp only: set_sort)
  then have "x \<in> set (filter ?P rows)" unfolding xs by auto
  then show "x \<in> set rows" "eligible failed x" "x_id x \<notin> set locked" by auto
qed

text \<open>Updating one row by its id acts on exactly one position of the table.\<close>

lemma update_row_list_all2:
  assumes dist: "distinct (map key rows)" and r: "r \<in> set rows"
    and others: "\<And>x y. R x y \<Longrightarrow> y \<in> set rows \<Longrightarrow> key y \<noteq> key r \<Longrightarrow> R' x y"
    and hit: "\<And>x. R x r \<Longrightarrow> R' x (f r)"
  shows "list_all2 R xs rows \<Longrightarrow> list_all2 R' xs (update_where (\<lambda>x. key x = key r) f rows)"
proof -
  have "R' x (if key y = key r then f y else y)" if "R x y" "y \<in> set rows" for x y
  proof (cases "key y = key r")
    case True
    then have "y = r" by (rule distinct_key_eq [OF dist that(2) r])
    with that hit show ?thesis by simp
  qed (use that others in simp)
  then show "list_all2 R xs rows \<Longrightarrow> list_all2 R' xs (update_where (\<lambda>x. key x = key r) f rows)"
    unfolding update_where_def list_all2_map2 by (auto simp: list_all2_conv_all_nth)
qed

text \<open>What a sender promises: a message confirmed and not returned was taken by a queue.\<close>

definition records :: "'b send \<Rightarrow> ('b \<Rightarrow> amqp_message list) \<Rightarrow> bool" where
  "records send taken \<longleftrightarrow> (\<forall>m b err rets b'. send m b = ((err, rets), b') \<longrightarrow>
     set (taken b) \<subseteq> set (taken b') \<and>
     (err = None \<and> the (am_messageId m) \<notin> set rets \<longrightarrow> m \<in> set (taken b')))"

lemma foldr_insert_set [simp]: "set (foldr List.insert xs ys) = set xs \<union> set ys"
  by (induction xs) auto

lemma publish_event_records:
  assumes "records send taken" and "publish_event send toISO ev mid p = (r, p')"
  shows "set (taken (pub_broker p)) \<subseteq> set (taken (pub_broker p'))"
    and "r = Inr () \<Longrightarrow> order_message toISO ev mid \<in> set (taken (pub_broker p'))"
proof -
  obtain err rets b where s: "send (order_message toISO ev mid) (pub_broker p) = ((err, rets), b)"
    by (metis prod.collapse)
  have "the (am_messageId (order_message toISO ev mid)) = mid" by (simp add: order_message_def)
  with assms(1) s have "set (taken (pub_broker p)) \<subseteq> set (taken b)"
    and "err = None \<Longrightarrow> mid \<notin> set rets \<Longrightarrow> order_message toISO ev mid \<in> set (taken b)"
    unfolding records_def by metis+
  with assms(2) s show "set (taken (pub_broker p)) \<subseteq> set (taken (pub_broker p'))"
    and "r = Inr () \<Longrightarrow> order_message toISO ev mid \<in> set (taken (pub_broker p'))"
    by (auto simp: publish_event_def Let_def split: if_splits option.splits)
qed

section \<open>One batch, row by row\<close>

definition open_row :: "Outbox \<Rightarrow> bool" where
  "open_row x \<longleftrightarrow> x_publishedAt x = None \<and> x_attempts x < RELAY_MAX_ATTEMPTS"

definition row_so_far ::
  "'b relay_env \<Rightarrow> amqp_message list \<Rightarrow> string list \<Rightarrow> Outbox \<Rightarrow> Outbox \<Rightarrow> bool" where
  "row_so_far env msgs failed x x' \<longleftrightarrow>
     (x' = x \<and> x_id x \<notin> set failed) \<or>
     (open_row x \<and> x' = count_attempt x \<and> x_id x \<in> set failed) \<or>
     (open_row x \<and> x' = mark_published (re_now env) x \<and>
        order_message (re_toISO env) (x_payload x) (x_id x) \<in> set msgs)"

lemma row_so_far_mono:
  "row_so_far env msgs failed x x' \<Longrightarrow> set msgs \<subseteq> set msgs' \<Longrightarrow> row_so_far env msgs' failed x x'"
  by (auto simp: row_so_far_def)

lemma mark_rows [simp]: "x_id (count_attempt x) = x_id x" "x_id (mark_published now x) = x_id x"
  "x_payload (count_attempt x) = x_payload x" "x_payload (mark_published now x) = x_payload x"
  by (simp_all add: count_attempt_def mark_published_def)

lemma row_eligible:
  assumes "row_so_far env msgs failed x x'" and "eligible failed x'"
  shows "x' = x" and "open_row x" and "x_id x \<notin> set failed"
proof -
  have "x' \<noteq> mark_published (re_now env) x" using assms(2) by (auto simp: eligible_def mark_published_def)
  moreover have "x_id x' \<notin> set failed" using assms(2) by (simp add: eligible_def)
  ultimately have "x' = x \<and> x_id x \<notin> set failed" using assms(1) by (auto simp: row_so_far_def)
  then show "x' = x" "open_row x" "x_id x \<notin> set failed"
    using assms(2) by (auto simp: eligible_def open_row_def)
qed

definition batch_inv ::
  "('b \<Rightarrow> amqp_message list) \<Rightarrow> 'b relay_env \<Rightarrow> db \<Rightarrow> string list \<Rightarrow> db \<times> 'b publisher \<Rightarrow> bool" where
  "batch_inv taken env d0 failed s \<longleftrightarrow> fst s = d0\<lparr>outbox := outbox (fst s)\<rparr> \<and>
     list_all2 (row_so_far env (taken (pub_broker (snd s))) failed) (outbox d0) (outbox (fst s))"

lemma batch_ids: "batch_inv taken env d0 failed s \<Longrightarrow> map x_id (outbox (fst s)) = map x_id (outbox d0)"
proof -
  have "x_id x' = x_id x" if "row_so_far env msgs failed x x'" for msgs x x'
    using that by (auto simp: row_so_far_def)
  moreover assume "batch_inv taken env d0 failed s"
  ultimately show ?thesis
    by (auto simp: batch_inv_def list_all2_conv_all_nth intro!: nth_equalityI)
qed

lemma batch_mono:
  assumes "batch_inv taken env d0 failed (d, p)" and "set (taken (pub_broker p)) \<subseteq> set (taken (pub_broker p'))"
  shows "batch_inv taken env d0 failed (d, p')"
  using assms row_so_far_mono by (auto simp: batch_inv_def elim!: list_all2_mono)

lemma batch_set:
  assumes inv: "batch_inv taken env d0 failed (d, p)" and dist: "distinct (map x_id (outbox d0))"
    and row: "row \<in> set (outbox d)"
    and others: "\<And>x y. row_so_far env (taken (pub_broker p)) failed x y \<Longrightarrow> x_id y \<noteq> x_id row \<Longrightarrow>
       row_so_far env (taken (pub_broker p)) failed' x y"
    and hit: "\<And>x. row_so_far env (taken (pub_broker p)) failed x row \<Longrightarrow>
       row_so_far env (taken (pub_broker p)) failed' x (f row)"
  shows "batch_inv taken env d0 failed' (set_outbox (x_id row) f d, p)"
proof -
  have "distinct (map x_id (outbox d))" using batch_ids [OF inv] dist by simp
  from update_row_list_all2 [OF this row, of "row_so_far env (taken (pub_broker p)) failed"
      "row_so_far env (taken (pub_broker p)) failed'" f "outbox d0"] others hit inv
  show ?thesis by (auto simp: batch_inv_def set_outbox_def) (metis db.surjective db.update_convs(6))
qed

lemma relay_one_inv:
  assumes rec: "records (re_send env) taken" and dist: "distinct (map x_id (outbox d0))"
    and inv: "batch_inv taken env d0 failed s" and run: "relay_one env failed s = (r, s')"
  shows "\<exists>failed'. batch_inv taken env d0 failed' s' \<and> (\<forall>out fs. r = Inr (out, fs) \<longrightarrow> failed' = fs)"
proof -
  obtain d p where s: "s = (d, p)" by fastforce
  show ?thesis
  proof (cases "next_row failed (re_locked env) (outbox d)")
    case None
    with run inv s show ?thesis by (auto simp: relay_one_def)
  next
    case (Some row)
    note nr = next_row_Some [OF Some]
    obtain q p1 where pub: "publish_event (re_send env) (re_toISO env) (x_payload row) (x_id row) p = (q, p1)"
      by fastforce
    note pr = publish_event_records [OF rec pub]
    have inv1: "batch_inv taken env d0 failed (d, p1)" using batch_mono inv s pr(1) by blast
    have failed: "batch_inv taken env d0 (failed @ [x_id row]) (set_outbox (x_id row) count_attempt d, p1)"
    proof (rule batch_set [OF inv1 dist nr(1)])
      fix x assume "row_so_far env (taken (pub_broker p1)) failed x row"
      from row_eligible [OF this nr(2)]
      show "row_so_far env (taken (pub_broker p1)) (failed @ [x_id row]) x (count_attempt row)"
        by (simp add: row_so_far_def)
    qed (auto simp: row_so_far_def)
    have published: "batch_inv taken env d0 failed (set_outbox (x_id row) (mark_published (re_now env)) d, p1)"
      if "q = Inr ()"
    proof (rule batch_set [OF inv1 dist nr(1)])
      fix x assume "row_so_far env (taken (pub_broker p1)) failed x row"
      from row_eligible [OF this nr(2)] pr(2) [OF that]
      show "row_so_far env (taken (pub_broker p1)) failed x (mark_published (re_now env) row)"
        by (simp add: row_so_far_def)
    qed
    show ?thesis
    proof (cases q)
      case (Inl e)
      show ?thesis
      proof (cases "\<exists>m. e = UnroutableEventError m")
        case True
        with run s Some pub Inl failed show ?thesis by (auto simp: relay_one_def)
      next
        case False
        then have "r = Inl e" "s' = (d, p1)"
          using run s Some pub Inl by (cases e; simp add: relay_one_def)+
        with inv1 show ?thesis by auto
      qed
    next
      case (Inr u)
      with run s Some pub inv1 published show ?thesis
        by (cases "re_afterPublish env row") (auto simp: relay_one_def)
    qed
  qed
qed

lemma relay_loop_inv:
  assumes rec: "records (re_send env) taken" and dist: "distinct (map x_id (outbox d0))"
  shows "batch_inv taken env d0 failed s \<Longrightarrow> relay_loop env n failed k s = (r, s') \<Longrightarrow>
    \<exists>failed'. batch_inv taken env d0 failed' s'"
proof (induction n arbitrary: failed k s)
  case (Suc n)
  obtain q s1 where one: "relay_one env failed s = (q, s1)" by (cases "relay_one env failed s")
  from relay_one_inv [OF rec dist Suc.prems(1) one]
  obtain f1 where f1: "batch_inv taken env d0 f1 s1" "\<And>out fs. q = Inr (out, fs) \<Longrightarrow> f1 = fs" by blast
  show ?case
  proof (cases q)
    case (Inl e)
    with Suc.prems(2) one f1 show ?thesis by (auto simp: andThen_def)
  next
    case (Inr o1)
    obtain out fs where o1: "o1 = (out, fs)" by fastforce
    with Suc.prems(2) one Inr have "out = relay_empty \<and> s' = s1 \<or>
        (\<exists>k'. relay_loop env n fs k' s1 = (r, s'))"
      by (auto simp: andThen_def split: if_splits)
    with f1 Suc.IH Inr o1 show ?thesis by blast
  qed
qed auto

section \<open>Publishing in order\<close>

definition waiting :: "db \<Rightarrow> Outbox list" where
  "waiting d = sort_key x_createdAt (sort_key x_id (filter (eligible []) (outbox d)))"

lemma next_row_waiting: "next_row [] [] (outbox d) = (case waiting d of [] \<Rightarrow> None | x # _ \<Rightarrow> Some x)"
  by (simp add: next_row_def waiting_def)

lemma set_waiting: "set (waiting d) = {x \<in> set (outbox d). eligible [] x}"
  by (simp only: waiting_def set_sort set_filter)

lemma waiting_distinct: "distinct (map x_id (outbox d)) \<Longrightarrow> distinct (map x_id (waiting d))"
  by (simp add: waiting_def distinct_map set_waiting inj_on_def)

lemma filter_update_closed:
  assumes "\<And>x. \<not> P (f x)"
  shows "filter P (update_where (\<lambda>x. key x = k) f rows) = filter (\<lambda>x. P x \<and> key x \<noteq> k) rows"
  by (induction rows) (auto simp: assms)

lemma waiting_published:
  assumes dist: "distinct (map x_id (outbox d))" and w: "waiting d = x # xs"
  shows "waiting (set_outbox (x_id x) (mark_published now) d) = xs"
proof -
  have "\<not> eligible [] (mark_published now y)" for y by (simp add: eligible_def mark_published_def)
  then have "filter (eligible []) (outbox (set_outbox (x_id x) (mark_published now) d)) =
      filter (\<lambda>y. x_id y \<noteq> x_id x) (filter (eligible []) (outbox d))"
    by (simp add: set_outbox_def filter_update_closed conj_commute)
  then have "waiting (set_outbox (x_id x) (mark_published now) d) = filter (\<lambda>y. x_id y \<noteq> x_id x) (waiting d)"
    by (simp only: waiting_def filter_sort)
  also have "\<dots> = xs"
    using waiting_distinct [OF dist] unfolding w by (auto simp: filter_id_conv image_iff)
  finally show ?thesis .
qed

text \<open>A broker that takes every message, and keeps them in a log.\<close>

definition reliable :: "'b send \<Rightarrow> ('b \<Rightarrow> amqp_message list) \<Rightarrow> bool" where
  "reliable send taken \<longleftrightarrow>
     (\<forall>m b. \<exists>b'. send m b = ((None, []), b') \<and> taken b' = taken b @ [m])"

definition quiet_relay :: "'b relay_env \<Rightarrow> bool" where
  "quiet_relay env \<longleftrightarrow> re_locked env = [] \<and> re_afterPublish env = (\<lambda>_. None)"

lemma relay_loop_reliable:
  assumes rel: "reliable (re_send env) taken" and quiet: "quiet_relay env"
  shows "distinct (map x_id (outbox d)) \<Longrightarrow> pub_open p \<Longrightarrow> pub_returned p = [] \<Longrightarrow>
    \<exists>d' p'. relay_loop env n [] k (d, p) = (Inr (k + min n (length (waiting d))), (d', p')) \<and>
      taken (pub_broker p') = taken (pub_broker p) @
        map (\<lambda>x. order_message (re_toISO env) (x_payload x) (x_id x)) (take n (waiting d)) \<and>
      waiting d' = drop n (waiting d) \<and>
      map x_id (outbox d') = map x_id (outbox d) \<and> pub_open p' \<and> pub_returned p' = []"
proof (induction n arbitrary: d p k)
  case (Suc n)
  show ?case
  proof (cases "waiting d")
    case Nil
    then have "relay_one env [] (d, p) = (Inr (relay_empty, []), (d, p))"
      using quiet next_row_waiting [of d] by (simp add: relay_one_def quiet_relay_def)
    with Nil Suc.prems(2,3) show ?thesis by (simp add: andThen_def return_def)
  next
    case (Cons x xs)
    obtain b where b: "re_send env (order_message (re_toISO env) (x_payload x) (x_id x)) (pub_broker p) = ((None, []), b)"
      "taken b = taken (pub_broker p) @ [order_message (re_toISO env) (x_payload x) (x_id x)]"
      using rel unfolding reliable_def by blast
    let ?d = "set_outbox (x_id x) (mark_published (re_now env)) d" and ?p = "p\<lparr>pub_broker := b\<rparr>"
    have "publish_event (re_send env) (re_toISO env) (x_payload x) (x_id x) p = (Inr (), ?p)"
      using b(1) Suc.prems(2,3) by (simp add: publish_event_def Let_def)
    then have one: "relay_one env [] (d, p) = (Inr (relay_published, []), (?d, ?p))"
      using quiet Cons next_row_waiting [of d] by (simp add: relay_one_def quiet_relay_def)
    have ids: "map x_id (outbox ?d) = map x_id (outbox d)" by (simp add: set_outbox_def map_update_where)
    then have "distinct (map x_id (outbox ?d))" using Suc.prems(1) by simp
    moreover have "pub_open ?p" "pub_returned ?p = []" using Suc.prems(2,3) by simp_all
    ultimately obtain d' p' where "relay_loop env n [] (k + 1) (?d, ?p) =
          (Inr (k + 1 + min n (length (waiting ?d))), (d', p'))"
        "taken (pub_broker p') = taken (pub_broker ?p) @
           map (\<lambda>x. order_message (re_toISO env) (x_payload x) (x_id x)) (take n (waiting ?d))"
        "waiting d' = drop n (waiting ?d)" "map x_id (outbox d') = map x_id (outbox ?d)" "pub_open p'" "pub_returned p' = []"
      using Suc.IH [of ?d ?p "k + 1"] by blast
    then show ?thesis
      using one Cons b(2) ids by (simp add: andThen_def waiting_published [OF Suc.prems(1) Cons])
  qed
qed (simp add: return_def)

section \<open>Batch deletion\<close>

lemma delete_some_spec:
  assumes "delete_some P n rows = (k, rows')"
  shows "filter (\<lambda>r. \<not> P r) rows' = filter (\<lambda>r. \<not> P r) rows"
    and "length (filter P rows) = length (filter P rows') + k"
    and "k = n \<or> filter P rows' = []"
proof -
  have "filter (\<lambda>r. \<not> P r) rows' = filter (\<lambda>r. \<not> P r) rows \<and>
      length (filter P rows) = length (filter P rows') + k \<and> k \<le> n \<and> (k = n \<or> filter P rows' = [])"
    using assms
  proof (induction P n rows arbitrary: k rows' rule: delete_some.induct)
    case (2 P n r rows)
    show ?case
    proof (cases "P r \<and> 0 < n")
      case True
      obtain k1 rs where d: "delete_some P (n - 1) rows = (k1, rs)" by fastforce
      with "2.prems" True have "k = Suc k1" "rows' = rs" by auto
      with "2.IH"(1) [OF True d] True show ?thesis by auto
    next
      case False
      obtain k1 rs where d: "delete_some P n rows = (k1, rs)" by fastforce
      with "2.prems" False have "k = k1" "rows' = r # rs" by auto
      with "2.IH"(2) [OF False d] False show ?thesis by auto
    qed
  qed simp
  then show "filter (\<lambda>r. \<not> P r) rows' = filter (\<lambda>r. \<not> P r) rows"
    and "length (filter P rows) = length (filter P rows') + k"
    and "k = n \<or> filter P rows' = []" by blast+
qed

interpretation deletion: progressing "\<lambda>_. 0 < batchSize" "delete_some P batchSize"
  "\<lambda>affected. affected < batchSize" "\<lambda>rows. length (filter P rows)" for P batchSize
proof
  fix rows rows' :: "'a list" and k
  assume "0 < batchSize" and d: "delete_some P batchSize rows = (k, rows')" and "\<not> k < batchSize"
  with delete_some_spec(2) [OF d] show "length (filter P rows') < length (filter P rows)" by simp
qed

lemma delete_all_result:
  assumes "0 < batchSize" and "delete_all fuel P batchSize rows = Some (n, t)"
  shows "n = length (filter P rows)" and "t = filter (\<lambda>r. \<not> P r) rows"
proof -
  obtain ks where run: "repeat_until fuel (delete_some P batchSize) (\<lambda>affected. affected < batchSize) rows = Some (ks, t)"
    and n: "n = sum_list ks"
    using assms(2) by (auto simp: delete_all_def)
  have keep: "filter (\<lambda>r. \<not> P r) rows = filter (\<lambda>r. \<not> P r) t"
    by (rule deletion.result_rel [where R = "\<lambda>a b. filter (\<lambda>r. \<not> P r) a = filter (\<lambda>r. \<not> P r) b", OF _ _ assms(1) run])
      (auto simp: transp_def dest: delete_some_spec(1))
  obtain s1 k where last: "delete_some P batchSize s1 = (k, t)" "k < batchSize"
    using deletion.result_last [OF assms(1) run] by blast
  have none: "filter P t = []"
    using delete_some_spec(3) [OF last(1)] last(2) by simp
  then show "t = filter (\<lambda>r. \<not> P r) rows"
    unfolding keep by (simp add: filter_empty_conv filter_id_conv)
  have "length (filter P rows) = length (filter P t) + sum_list (map id ks)"
    by (rule deletion.result_sum [OF _ assms(1) run]) (simp add: delete_some_spec(2))
  with none n show "n = length (filter P rows)" by simp
qed

lemma delete_all_spec:
  assumes "0 < batchSize" and "length (filter P rows) < fuel"
  shows "delete_all fuel P batchSize rows = Some (length (filter P rows), filter (\<lambda>r. \<not> P r) rows)"
proof -
  obtain ks t where "repeat_until fuel (delete_some P batchSize) (\<lambda>affected. affected < batchSize) rows = Some (ks, t)"
    using deletion.enough_fuel [OF assms] by blast
  then have "delete_all fuel P batchSize rows = Some (sum_list ks, t)" by (simp add: delete_all_def)
  with delete_all_result [OF assms(1) this] show ?thesis by simp
qed

section \<open>Properties\<close>

text \<open>
  C13: whatever the broker does and however the batch ends (also when it throws half-way), every
  outbox row is unchanged, or was open and has one failed attempt more, or was open and is marked
  published and its message is in the hands of the broker. No other table changes, so no event is
  lost and a row is tried at most ten times.
\<close>

theorem relay_no_loss:
  assumes "records (re_send env) taken" and "distinct (map x_id (outbox d))"
    and "relayBatch env limit (d, p) = (r, (d', p'))"
  shows "d' = d\<lparr>outbox := outbox d'\<rparr> \<and>
    list_all2 (\<lambda>x x'. x' = x \<or>
      x_publishedAt x = None \<and> x_attempts x < 10 \<and>
        (x' = x\<lparr>x_attempts := x_attempts x + 1\<rparr> \<or>
         x' = x\<lparr>x_publishedAt := Some (re_now env), x_attempts := x_attempts x + 1\<rparr> \<and>
         order_message (re_toISO env) (x_payload x) (x_id x) \<in> set (taken (pub_broker p'))))
      (outbox d) (outbox d')"
proof -
  have "batch_inv taken env d [] (d, p)" by (simp add: batch_inv_def list_all2_same row_so_far_def)
  with relay_loop_inv [OF assms(1,2)] assms(3) obtain failed where
    "batch_inv taken env d failed (d', p')" unfolding relayBatch_def by blast
  then have "d' = d\<lparr>outbox := outbox d'\<rparr>"
    and "list_all2 (row_so_far env (taken (pub_broker p')) failed) (outbox d) (outbox d')"
    by (simp_all add: batch_inv_def)
  then show ?thesis
    by (auto simp: row_so_far_def open_row_def RELAY_MAX_ATTEMPTS_def count_attempt_def mark_published_def
        elim!: list_all2_mono)
qed

text \<open>A broker whose state is the list of the messages it took.\<close>

definition log_send :: "amqp_message list send" where
  "log_send m b = ((None, []), b @ [m])"

definition lost_send :: "amqp_message list send" where
  "lost_send m b = ((None, [the (am_messageId m)]), b)"

definition relay_env_of :: "'b send \<Rightarrow> 'b relay_env" where
  "relay_env_of send = \<lparr>re_send = send, re_toISO = (\<lambda>_. ''T''), re_now = 42, re_locked = [], re_afterPublish = (\<lambda>_. None)\<rparr>"

definition sold_db :: db where
  "sold_db = run_checkouts [(shop_env, None, shop_cart)] shop_db"

definition open_publisher :: "amqp_message list publisher" where
  "open_publisher = \<lparr>pub_open = True, pub_returned = [], pub_broker = []\<rparr>"

theorem relay_no_loss_witness:
  "\<exists>d' p'. relayBatch (relay_env_of lost_send) 5 (sold_db, open_publisher) = (Inr 0, (d', p')) \<and>
     map x_attempts (outbox d') = [1] \<and> map x_publishedAt (outbox d') = [None] \<and>
     d' = sold_db\<lparr>outbox := outbox d'\<rparr>"
proof -
  obtain r d' p' where run: "relayBatch (relay_env_of lost_send) 5 (sold_db, open_publisher) = (r, (d', p'))"
    by (metis prod.collapse)
  have "records (re_send (relay_env_of lost_send)) (\<lambda>b. b)"
    by (auto simp: records_def relay_env_of_def lost_send_def)
  moreover have "distinct (map x_id (outbox sold_db))" by code_simp
  ultimately have "d' = sold_db\<lparr>outbox := outbox d'\<rparr>" using relay_no_loss [OF _ _ run] by blast
  moreover have "(case relayBatch (relay_env_of lost_send) 5 (sold_db, open_publisher) of
      (r, (d', p')) \<Rightarrow> r = Inr 0 \<and> map x_attempts (outbox d') = [1] \<and> map x_publishedAt (outbox d') = [None])"
    by code_simp
  ultimately show ?thesis using run by auto
qed

text \<open>
  With a broker that takes every message, a batch sends exactly the oldest \<open>limit\<close> open rows,
  in the order of (created_at, id), counts them, and leaves the rest waiting in order.
\<close>

lemma relay_in_order:
  assumes "reliable (re_send env) taken" and "quiet_relay env" and "distinct (map x_id (outbox d))"
    and "pub_open p" and "pub_returned p = []"
  shows "\<exists>d' p'. relayBatch env limit (d, p) = (Inr (min limit (length (waiting d))), (d', p')) \<and>
    taken (pub_broker p') = taken (pub_broker p) @
      map (\<lambda>x. order_message (re_toISO env) (x_payload x) (x_id x)) (take limit (waiting d)) \<and>
    waiting d' = drop limit (waiting d)"
  using relay_loop_reliable [OF assms, of limit 0] unfolding relayBatch_def by auto

text \<open>
  With a positive batch size the cleanup ends, deletes exactly the rows published longer ago
  than the retention (never an unpublished one), keeps the others in order, and returns how many
  it deleted.
\<close>

lemma cleanupOutbox_correct:
  assumes "0 < batchSize" and "length (filter (outbox_expired now days) (outbox d)) < fuel"
  shows "cleanupOutbox fuel now days batchSize d =
    Some (length (filter (outbox_expired now days) (outbox d)),
      d\<lparr>outbox := filter (\<lambda>x. \<not> (\<exists>t. x_publishedAt x = Some t \<and> t < now - days * 86400000000)) (outbox d)\<rparr>)"
proof -
  have "(\<lambda>x. \<not> outbox_expired now days x) = (\<lambda>x. \<not> (\<exists>t. x_publishedAt x = Some t \<and> t < now - days * 86400000000))"
    by (auto simp: outbox_expired_def day_us_def split: option.splits)
  then show ?thesis using delete_all_spec [OF assms] by (simp add: cleanupOutbox_def)
qed

end
