(* ===== verification/Pipeline.thy ===== *)
theory Pipeline
  imports Consumer Messaging_Theorems
begin

text \<open>
  Checkout, relay, broker queue, consumer and cleanup as one system of interleaved steps, with
  crashes between the sending and the marking of a row and between the effect and the
  acknowledgement of a message.
\<close>

section \<open>Steps\<close>

record system =
  sy_db :: db
  sy_queue :: "amqp_message list"
  sy_dead :: "amqp_message list"

text \<open>
  \<open>sy_dead\<close> is a history, not the content of \<open>shop.dlq\<close>: it lists every message the broker has
  taken from the queue to dead-letter it. The queue declares the default strategy, at most once, so
  \<open>shop.dlq\<close> holds some of these messages and possibly not all; nothing in the steps reads it.
\<close>

text \<open>
  A broker whose state is the queue: it may fail or return a message, may keep a message it failed
  to confirm, but keeps every message it confirms and does not return.
\<close>

definition queueing :: "amqp_message list send \<Rightarrow> bool" where
  "queueing send \<longleftrightarrow> (\<forall>m q err rets q'. send m q = ((err, rets), q') \<longrightarrow>
     q' = q @ [m] \<or> q' = q \<and> (err \<noteq> None \<or> the (am_messageId m) \<in> set rets))"

text \<open>\<open>gen_random_uuid()\<close> repeats no identifier in use.\<close>

definition fresh_uuid :: "string \<Rightarrow> system \<Rightarrow> bool" where
  "fresh_uuid u s \<longleftrightarrow>
     toLowerCase u \<notin> toLowerCase ` x_id ` set (outbox (sy_db s)) \<and>
     toLowerCase u \<notin> (\<lambda>m. toLowerCase (the (am_messageId m))) ` set (sy_queue s) \<and>
     toLowerCase u \<notin> m_messageId ` set (processedMessages (sy_db s))"

text \<open>
  What the broker does with the answer to a delivery: a requeued message stays in the queue, and a
  rejected one leaves it to be dead-lettered, which the history records.
\<close>

fun settle :: "answer \<Rightarrow> amqp_message \<Rightarrow> system \<Rightarrow> system" where
  "settle Ack m s = s\<lparr>sy_queue := remove1 m (sy_queue s)\<rparr>"
| "settle (Reject False) m s = s\<lparr>sy_queue := remove1 m (sy_queue s), sy_dead := sy_dead s @ [m]\<rparr>"
| "settle (Reject True) m s = s"

inductive sys_step :: "(int \<Rightarrow> string) \<Rightarrow> system \<Rightarrow> system \<Rightarrow> bool" for toISO :: "int \<Rightarrow> string" where
  sys_sale: "checkout env hook input (sy_db s) = (r, d') \<Longrightarrow> fresh_uuid (tx_uuid env) s \<Longrightarrow>
    sys_step toISO s (s\<lparr>sy_db := d'\<rparr>)"
| sys_relay: "re_toISO env = toISO \<Longrightarrow> queueing (re_send env) \<Longrightarrow> pub_broker p = sy_queue s \<Longrightarrow>
    relay_one env failed (sy_db s, p) = (r, (d', p')) \<Longrightarrow>
    sys_step toISO s (s\<lparr>sy_db := d', sy_queue := pub_broker p'\<rparr>)"
| sys_deliver: "m \<in> set (sy_queue s) \<Longrightarrow> handle now eff m (sy_db s, st) = (ans, d', st') \<Longrightarrow>
    sys_step toISO s (settle ans m (s\<lparr>sy_db := d'\<rparr>))"
| sys_crash: "m \<in> set (sy_queue s) \<Longrightarrow> handle now eff m (sy_db s, st) = (ans, d', st') \<Longrightarrow>
    sys_step toISO s (s\<lparr>sy_db := d'\<rparr>)"
| sys_dead: "m \<in> set (sy_queue s) \<Longrightarrow>
    sys_step toISO s (s\<lparr>sy_queue := remove1 m (sy_queue s), sy_dead := sy_dead s @ [m]\<rparr>)"
| sys_cleanup: "0 < batchSize \<Longrightarrow> cleanupOutbox fuel now days batchSize (sy_db s) = Some (n, d') \<Longrightarrow>
    sys_step toISO s (s\<lparr>sy_db := d'\<rparr>)"

section \<open>Invariant\<close>

text \<open>An event speaks of an order.\<close>

definition payload_about :: "OrderPlacedEvent \<Rightarrow> Order \<Rightarrow> bool" where
  "payload_about ev r \<longleftrightarrow> ev_eventId ev = orderPlacedEventId (dec (o_id r)) \<and>
     ed_orderId (ev_data ev) = dec (o_id r) \<and> ed_total (ev_data ev) = o_total r"

definition row_about :: "Order list \<Rightarrow> Outbox \<Rightarrow> bool" where
  "row_about rs x \<longleftrightarrow> (\<exists>r \<in> set rs. x_aggregateId x = dec (o_id r) \<and> payload_about (x_payload x) r)"

definition message_about :: "(int \<Rightarrow> string) \<Rightarrow> Order list \<Rightarrow> amqp_message \<Rightarrow> bool" where
  "message_about toISO rs m \<longleftrightarrow> (\<exists>r \<in> set rs. \<exists>ev mid. m = order_message toISO ev mid \<and> payload_about ev r)"

definition receipt_about :: "Order list \<Rightarrow> Receipt \<Rightarrow> bool" where
  "receipt_about rs q \<longleftrightarrow> (\<exists>r \<in> set rs. o_id r = r_orderId q \<and> o_total r = r_total q \<and>
     r_eventId q = orderPlacedEventId (dec (o_id r)))"

text \<open>The (message id, order id) pairs that rows and messages carry.\<close>

definition msg_order :: "amqp_message \<Rightarrow> string" where
  "msg_order m = (case json_get ''orderId'' (json_get ''data'' (am_body m)) of Some (JStr a) \<Rightarrow> a | _ \<Rightarrow> [])"

definition row_ref :: "Outbox \<Rightarrow> string \<times> string" where
  "row_ref x = (toLowerCase (x_id x), x_aggregateId x)"

definition msg_ref :: "amqp_message \<Rightarrow> string \<times> string" where
  "msg_ref m = (toLowerCase (the (am_messageId m)), msg_order m)"

definition refs :: "Outbox list \<Rightarrow> amqp_message list \<Rightarrow> (string \<times> string) set" where
  "refs xs q = row_ref ` set xs \<union> msg_ref ` set q"

definition receipted :: "db \<Rightarrow> string \<Rightarrow> bool" where
  "receipted d a \<longleftrightarrow> (\<exists>q \<in> set (receipts d). dec (r_orderId q) = a)"

definition processed :: "db \<Rightarrow> string \<Rightarrow> bool" where
  "processed d k \<longleftrightarrow> (\<exists>m \<in> set (processedMessages d). m_messageId m = k \<and> m_consumer m = RECEIPTS_CONSUMER)"

definition refs_ok :: "db \<Rightarrow> (string \<times> string) set \<Rightarrow> bool" where
  "refs_ok d R \<longleftrightarrow> (\<forall>k a b. (k, a) \<in> R \<longrightarrow> (k, b) \<in> R \<longrightarrow> a = b) \<and>
     (\<forall>k a. (k, a) \<in> R \<longrightarrow> processed d k \<longrightarrow> receipted d a)"

text \<open>No order is forgotten: an open row, a message somewhere, or a receipt.\<close>

definition accounted :: "db \<Rightarrow> amqp_message list \<Rightarrow> Order \<Rightarrow> bool" where
  "accounted d msgs r \<longleftrightarrow>
     (\<exists>x \<in> set (outbox d). x_publishedAt x = None \<and> x_aggregateId x = dec (o_id r)) \<or>
     (\<exists>m \<in> set msgs. msg_order m = dec (o_id r)) \<or> receipted d (dec (o_id r))"

definition sys_ok :: "(int \<Rightarrow> string) \<Rightarrow> system \<Rightarrow> bool" where
  "sys_ok toISO s \<longleftrightarrow> db_ok (sy_db s) \<and>
     (\<forall>x \<in> set (outbox (sy_db s)). row_about (orders (sy_db s)) x) \<and>
     (\<forall>m \<in> set (sy_queue s). message_about toISO (orders (sy_db s)) m) \<and>
     (\<forall>q \<in> set (receipts (sy_db s)). receipt_about (orders (sy_db s)) q) \<and>
     refs_ok (sy_db s) (refs (outbox (sy_db s)) (sy_queue s)) \<and>
     (\<forall>r \<in> set (orders (sy_db s)). accounted (sy_db s) (sy_queue s @ sy_dead s) r)"

section \<open>Messages of the pipeline\<close>

lemma msg_order_order_message [simp]: "msg_order (order_message toISO ev mid) = ed_orderId (ev_data ev)"
  by (simp add: msg_order_def json_get_def order_message_def event_json_def)

lemma msg_ref_order_message: "msg_ref (order_message toISO ev mid) = (toLowerCase mid, ed_orderId (ev_data ev))"
  by (simp add: msg_ref_def) (simp add: order_message_def)

lemma parse_order_message:
  assumes "parseMessage (order_message toISO ev mid) = Inr inc"
  shows "inc = \<lparr>ie_messageId = mid, ie_eventId = ev_eventId ev, ie_orderId = ed_orderId (ev_data ev),
    ie_total = ed_total (ev_data ev)\<rparr>"
  using assms
  by (auto simp: parseMessage_def order_message_def event_json_def json_get_def Let_def poison_def
      split: if_splits)

section \<open>Sales\<close>

lemma refs_row_mem: "x \<in> set xs \<Longrightarrow> row_ref x \<in> refs xs q"
  by (simp add: refs_def)

lemma sys_ok_sale:
  assumes ok: "sys_ok toISO s" and run: "checkout env hook input (sy_db s) = (r, d')"
    and fresh: "fresh_uuid (tx_uuid env) s"
  shows "sys_ok toISO (s\<lparr>sy_db := d'\<rparr>)"
proof -
  let ?d = "sy_db s"
  have dok: "db_ok ?d" using ok by (simp add: sys_ok_def)
  from dok run show ?thesis
  proof (cases rule: checkout_step)
    case refusal
    have "db_ok d'" by (rule seqs_only_ok [OF dok refusal])
    moreover have "outbox d' = outbox ?d" "orders d' = orders ?d" "receipts d' = receipts ?d"
      "processedMessages d' = processedMessages ?d"
      by (subst refusal(1), simp)+
    ultimately show ?thesis
      using ok by (simp add: sys_ok_def refs_ok_def processed_def receipted_def accounted_def)
  next
    case sale
    let ?row = "new_outbox env input ?d" and ?new = "new_order env input ?d"
    have ref: "row_ref ?row = (toLowerCase (tx_uuid env), dec (sq_order (seqs ?d)))"
      by (simp add: row_ref_def new_outbox_def)
    have about: "row_about [?new] ?row"
      using new_event_matches [OF dok, of env input]
      by (simp add: row_about_def payload_about_def event_matches_def new_outbox_def new_order_def)
    have refs': "refs (outbox ?d @ [?row]) (sy_queue s) = insert (row_ref ?row) (refs (outbox ?d) (sy_queue s))"
      by (simp add: refs_def)
    have nokey: "(toLowerCase (tx_uuid env), a) \<notin> refs (outbox ?d) (sy_queue s)" for a
      using fresh by (auto simp: fresh_uuid_def refs_def row_ref_def msg_ref_def)
    have noproc: "\<not> processed ?d (toLowerCase (tx_uuid env))"
      using fresh unfolding fresh_uuid_def processed_def by (metis imageI)
    have "refs_ok ?d (refs (outbox ?d @ [?row]) (sy_queue s))"
      using ok nokey noproc unfolding refs' ref sys_ok_def refs_ok_def by blast
    moreover have "accounted d' msgs ?new" for msgs
      by (auto simp: accounted_def sale(2) new_outbox_def new_order_def)
    moreover have "accounted d' msgs r" if "accounted ?d msgs r" for msgs r
      using that by (auto simp: accounted_def sale(2) receipted_def)
    moreover have "db_ok d'" using checkout_effect_ok [OF dok sale(1)] sale(2) by simp
    ultimately show ?thesis
      using ok about
      by (auto simp: sys_ok_def sale(2) refs_ok_def processed_def receipted_def row_about_def
          message_about_def receipt_about_def)
  qed
qed

section \<open>The relay\<close>

lemma relay_one_cases:
  assumes q: "queueing (re_send env)" and run: "relay_one env failed (d, p) = (r, (d', p'))"
  obtains (idle) "d' = d" and "pub_broker p' = pub_broker p"
  | (tried) row where "row \<in> set (outbox d)"
      and "d' = d \<or> d' = set_outbox (x_id row) count_attempt d"
      and "pub_broker p' = pub_broker p \<or>
           pub_broker p' = pub_broker p @ [order_message (re_toISO env) (x_payload row) (x_id row)]"
  | (marked) row where "row \<in> set (outbox d)"
      and "d' = set_outbox (x_id row) (mark_published (re_now env)) d"
      and "pub_broker p' = pub_broker p @ [order_message (re_toISO env) (x_payload row) (x_id row)]"
proof (cases "next_row failed (re_locked env) (outbox d)")
  case None
  with run show thesis by (intro idle) (auto simp: relay_one_def)
next
  case (Some row)
  note row = next_row_Some(1) [OF Some]
  let ?m = "order_message (re_toISO env) (x_payload row) (x_id row)"
  obtain res p1 where pub: "publish_event (re_send env) (re_toISO env) (x_payload row) (x_id row) p = (res, p1)"
    by fastforce
  obtain err rets b where s: "re_send env ?m (pub_broker p) = ((err, rets), b)" by (metis prod.collapse)
  have mid: "the (am_messageId ?m) = x_id row" by (simp add: order_message_def)
  have broker: "pub_broker p1 = pub_broker p \<or> pub_broker p1 = pub_broker p @ [?m]"
    using pub s q unfolding queueing_def
    by (fastforce simp: publish_event_def Let_def split: if_splits option.splits)
  have confirmed: "pub_broker p1 = pub_broker p @ [?m]" if "res = Inr ()"
    using pub s q mid that unfolding queueing_def
    by (fastforce simp: publish_event_def Let_def split: if_splits option.splits)
  have tr: "d' = d \<or> d' = set_outbox (x_id row) count_attempt d \<Longrightarrow> p' = p1 \<Longrightarrow> thesis"
    using broker row by (intro tried [of row]) auto
  show thesis
  proof (cases res)
    case (Inl e)
    have "p' = p1 \<and> (d' = d \<or> d' = set_outbox (x_id row) count_attempt d)"
      using run Some pub Inl by (cases e; simp add: relay_one_def)
    then show thesis using tr by blast
  next
    case (Inr u)
    show thesis
    proof (cases "re_afterPublish env row")
      case None
      with run Some pub Inr confirmed row show thesis
        by (intro marked [of row]) (auto simp: relay_one_def)
    next
      case hook: (Some e)
      with run Some pub Inr show thesis by (intro tr) (auto simp: relay_one_def)
    qed
  qed
qed

lemma row_about_ref: "row_about rs x \<Longrightarrow> msg_ref (order_message toISO (x_payload x) (x_id x)) = row_ref x"
  by (auto simp: row_about_def payload_about_def msg_ref_order_message row_ref_def)

lemma sys_ok_enqueue:
  assumes ok: "sys_ok toISO s" and row: "row \<in> set (outbox (sy_db s))"
  shows "sys_ok toISO (s\<lparr>sy_queue := sy_queue s @ [order_message toISO (x_payload row) (x_id row)]\<rparr>)"
proof -
  let ?m = "order_message toISO (x_payload row) (x_id row)"
  have about: "row_about (orders (sy_db s)) row" using ok row by (simp add: sys_ok_def)
  then have "message_about toISO (orders (sy_db s)) ?m"
    by (auto simp: row_about_def message_about_def)
  moreover have "refs (outbox (sy_db s)) (sy_queue s @ [?m]) = refs (outbox (sy_db s)) (sy_queue s)"
    using row_about_ref [OF about, of toISO] row by (auto simp: refs_def)
  moreover have "accounted (sy_db s) ((sy_queue s @ [?m]) @ sy_dead s) r"
    if "accounted (sy_db s) (sy_queue s @ sy_dead s) r" for r
    using that by (auto simp: accounted_def)
  ultimately show ?thesis using ok by (auto simp: sys_ok_def)
qed

lemma db_ok_set_outbox:
  assumes "db_ok d" and "\<And>x. x_id (f x) = x_id x" and "\<And>x. outbox_ok x \<Longrightarrow> outbox_ok (f x)"
  shows "db_ok (set_outbox k f d)"
  using assms by (auto simp: db_ok_defs set_outbox_def map_update_where list_all_iff set_update_where)

lemma sys_ok_set_outbox:
  assumes ok: "sys_ok toISO s" and row: "row \<in> set (outbox (sy_db s))"
    and same: "\<And>x. x_id (f x) = x_id x" "\<And>x. x_aggregateId (f x) = x_aggregateId x"
      "\<And>x. x_payload (f x) = x_payload x"
    and attempts: "\<And>x. outbox_ok x \<Longrightarrow> outbox_ok (f x)"
    and pub: "(\<forall>x. x_publishedAt (f x) = x_publishedAt x) \<or>
      order_message toISO (x_payload row) (x_id row) \<in> set (sy_queue s)"
  shows "sys_ok toISO (s\<lparr>sy_db := set_outbox (x_id row) f (sy_db s)\<rparr>)"
proof -
  let ?d = "sy_db s" and ?d' = "set_outbox (x_id row) f (sy_db s)"
  have dok: "db_ok ?d" using ok by (simp add: sys_ok_def)
  have dist: "distinct (map x_id (outbox ?d))" using dok by (simp add: db_ok_def keys_ok_def)
  have rest: "orders ?d' = orders ?d" "receipts ?d' = receipts ?d" "processedMessages ?d' = processedMessages ?d"
    by (simp_all add: set_outbox_def)
  have rows: "outbox ?d' = map (\<lambda>x. if x_id x = x_id row then f x else x) (outbox ?d)"
    by (simp add: set_outbox_def update_where_def)
  have rr: "row_ref (if x_id x = x_id row then f x else x) = row_ref x" for x
    by (simp add: row_ref_def same)
  have "row_ref ` set (outbox ?d') = row_ref ` set (outbox ?d)"
    unfolding rows set_map image_image rr ..
  then have "refs (outbox ?d') (sy_queue s) = refs (outbox ?d) (sy_queue s)" by (simp add: refs_def)
  moreover have "\<forall>x \<in> set (outbox ?d'). row_about (orders ?d) x"
    using ok by (auto simp: rows sys_ok_def row_about_def same)
  moreover have "accounted ?d' (sy_queue s @ sy_dead s) r"
    if r: "r \<in> set (orders ?d)" "accounted ?d (sy_queue s @ sy_dead s) r" for r
  proof -
    from r(2) consider x where "x \<in> set (outbox ?d)" "x_publishedAt x = None" "x_aggregateId x = dec (o_id r)"
      | "(\<exists>m \<in> set (sy_queue s @ sy_dead s). msg_order m = dec (o_id r)) \<or> receipted ?d (dec (o_id r))"
      by (auto simp: accounted_def)
    then show ?thesis
    proof cases
      case (1 x)
      let ?x = "if x_id x = x_id row then f x else x"
      have "?x \<in> set (outbox ?d')" unfolding rows set_map using 1(1) by (rule imageI)
      show ?thesis
      proof (cases "x_id x = x_id row \<and> \<not> (\<forall>x. x_publishedAt (f x) = x_publishedAt x)")
        case False
        then have "x_publishedAt ?x = None" "x_aggregateId ?x = dec (o_id r)"
          using 1 same by auto
        with \<open>?x \<in> set (outbox ?d')\<close> show ?thesis unfolding accounted_def by blast
      next
        case True
        then have "x = row" using distinct_key_eq [OF dist 1(1) row] by simp
        have "row_about (orders ?d) row" using ok row by (simp add: sys_ok_def)
        then have "ed_orderId (ev_data (x_payload row)) = x_aggregateId row"
          by (auto simp: row_about_def payload_about_def)
        then have "msg_order (order_message toISO (x_payload row) (x_id row)) = dec (o_id r)"
          using 1(3) \<open>x = row\<close> by simp
        moreover have "order_message toISO (x_payload row) (x_id row) \<in> set (sy_queue s @ sy_dead s)"
          using pub True by simp
        ultimately have "\<exists>m \<in> set (sy_queue s @ sy_dead s). msg_order m = dec (o_id r)" by (rule bexI)
        then show ?thesis unfolding accounted_def by blast
      qed
    next
      case 2
      then show ?thesis by (simp add: accounted_def receipted_def rest)
    qed
  qed
  moreover have "db_ok ?d'" by (rule db_ok_set_outbox [OF dok same(1) attempts])
  ultimately show ?thesis
    using ok by (simp add: sys_ok_def rest refs_ok_def processed_def receipted_def)
qed

lemma sys_update_swap: "s\<lparr>sy_queue := q, sy_db := d\<rparr> = s\<lparr>sy_db := d, sy_queue := q\<rparr>"
  by (cases s) simp

lemma sys_ok_relay:
  assumes ok: "sys_ok toISO s" and iso: "re_toISO env = toISO" and q: "queueing (re_send env)"
    and broker: "pub_broker p = sy_queue s" and run: "relay_one env failed (sy_db s, p) = (r, (d', p'))"
  shows "sys_ok toISO (s\<lparr>sy_db := d', sy_queue := pub_broker p'\<rparr>)"
  using q run
proof (cases rule: relay_one_cases)
  case idle
  with ok broker show ?thesis by simp
next
  case (tried row)
  have 1: "sys_ok toISO (s\<lparr>sy_queue := pub_broker p'\<rparr>)"
    using tried(3) sys_ok_enqueue [OF ok tried(1)] ok broker iso by (elim disjE) simp_all
  have "sys_ok toISO ((s\<lparr>sy_queue := pub_broker p'\<rparr>)\<lparr>sy_db :=
      set_outbox (x_id row) count_attempt (sy_db (s\<lparr>sy_queue := pub_broker p'\<rparr>))\<rparr>)"
    by (rule sys_ok_set_outbox [OF 1]) (use tried(1) in \<open>simp_all add: count_attempt_def outbox_ok_def\<close>)
  with tried(2) 1 show ?thesis by (elim disjE) (simp_all add: sys_update_swap)
next
  case (marked row)
  have 1: "sys_ok toISO (s\<lparr>sy_queue := pub_broker p'\<rparr>)"
    using marked(3) sys_ok_enqueue [OF ok marked(1)] broker iso by simp
  have "sys_ok toISO ((s\<lparr>sy_queue := pub_broker p'\<rparr>)\<lparr>sy_db :=
      set_outbox (x_id row) (mark_published (re_now env)) (sy_db (s\<lparr>sy_queue := pub_broker p'\<rparr>))\<rparr>)"
    by (rule sys_ok_set_outbox [OF 1])
      (use marked(1,3) iso in \<open>simp_all add: mark_published_def outbox_ok_def\<close>)
  with marked(2) show ?thesis by (simp add: sys_update_swap)
qed

section \<open>The consumer\<close>

lemma issue_receipt_cases:
  assumes "issue_receipt now ev oid t d = (res, d')"
  obtains (failed) e where "res = Inl e" and "d' = d\<lparr>seqs := seqs d'\<rparr>" and "seqs_le d d'"
  | (exists) "res = Inr False" and "num_of oid \<in> r_orderId ` set (receipts d)"
      and "d' = d\<lparr>seqs := (seqs d)\<lparr>sq_receipt := Suc (sq_receipt (seqs d))\<rparr>\<rparr>"
  | (issued) "res = Inr True" and "num_of oid \<notin> r_orderId ` set (receipts d)"
      and "ev \<notin> r_eventId ` set (receipts d)" and "num_of oid \<in> o_id ` set (orders d)"
      and "0 \<le> t" and "t \<le> int4_max"
      and "d' = d\<lparr>receipts := receipts d @ [\<lparr>r_id = sq_receipt (seqs d), r_eventId = ev,
             r_orderId = num_of oid, r_total = t, r_issuedAt = now\<rparr>],
             seqs := (seqs d)\<lparr>sq_receipt := Suc (sq_receipt (seqs d))\<rparr>\<rparr>"
proof (cases "isId oid \<and> num_of oid \<le> int8_max \<and> - int4_max - 1 \<le> t \<and> t \<le> int4_max")
  case False
  then have "\<exists>e. res = Inl e \<and> d' = d"
    using assms by (auto simp: issue_receipt_def andThen_def lift_def bigint_param_def int4_param_def split: if_splits)
  then show thesis by (auto intro!: failed simp: seqs_le_def)
next
  case True
  then have "lift (bigint_param oid) d = (Inr (num_of oid), d)" "lift (int4_param t) d = (Inr t, d)"
    by (simp_all add: bigint_param_def int4_param_def)
  with assms True show thesis
    by (auto simp: issue_receipt_def andThen_def Let_def seqs_le_def split: if_splits
        intro: failed exists issued)
qed

lemma apply_cases:
  assumes ok: "db_ok d" and run: "applyOrderPlaced now inc d = (res, d')"
  obtains (failed) e where "res = Inl e" and "d' = d\<lparr>seqs := seqs d'\<rparr>" and "seqs_le d d'"
  | (repeated) "res = Inr duplicate" and "d' = d" and "processed d (toLowerCase (ie_messageId inc))"
  | (effect) "res = Inr applied \<or> res = Inr already_applied"
      and "\<not> processed d (toLowerCase (ie_messageId inc))" and "db_ok d'"
      and "orders d' = orders d" and "outbox d' = outbox d"
      and "\<And>k. processed d' k \<longleftrightarrow> processed d k \<or> k = toLowerCase (ie_messageId inc)"
      and "set (receipts d) \<subseteq> set (receipts d')" and "num_of (ie_orderId inc) \<in> r_orderId ` set (receipts d')"
      and "\<And>q. q \<in> set (receipts d') \<Longrightarrow> q \<in> set (receipts d) \<or>
             r_eventId q = ie_eventId inc \<and> r_orderId q = num_of (ie_orderId inc) \<and> r_total q = ie_total inc"
proof (cases "processed d (toLowerCase (ie_messageId inc))")
  case True
  then have "list_ex (\<lambda>m. m_messageId m = toLowerCase (ie_messageId inc) \<and> m_consumer m = RECEIPTS_CONSUMER) (processedMessages d)"
    by (auto simp: processed_def list_ex_iff)
  with run have "res = Inr duplicate" "d' = d"
    by (simp_all add: applyOrderPlaced_def transaction_def mark_message_def Let_def)
  with True show thesis by (intro repeated)
next
  case False
  let ?pm = "\<lparr>m_messageId = toLowerCase (ie_messageId inc), m_consumer = RECEIPTS_CONSUMER, m_processedAt = now\<rparr>"
  let ?d1 = "d\<lparr>processedMessages := processedMessages d @ [?pm]\<rparr>"
  from False have fresh: "(m_messageId ?pm, m_consumer ?pm) \<notin> (\<lambda>m. (m_messageId m, m_consumer m)) ` set (processedMessages d)"
    by (auto simp: processed_def)
  have "\<not> list_ex (\<lambda>m. m_messageId m = toLowerCase (ie_messageId inc) \<and> m_consumer m = RECEIPTS_CONSUMER) (processedMessages d)"
    using False by (auto simp: processed_def list_ex_iff)
  then have mark: "mark_message now (ie_messageId inc) d = (True, ?d1)" by (simp add: mark_message_def Let_def)
  obtain r1 d2 where iss: "issue_receipt now (ie_eventId inc) (ie_orderId inc) (ie_total inc) ?d1 = (r1, d2)"
    by fastforce
  have apply_run: "applyOrderPlaced now inc d = (case r1 of Inl e \<Rightarrow> (Inl e, d\<lparr>seqs := seqs d2\<rparr>)
      | Inr b \<Rightarrow> (Inr (if b then applied else already_applied), d2))"
    by (simp add: applyOrderPlaced_def transaction_def mark iss andThen_def return_def split: sum.split)
  have keys: "db_ok ?d1"
    using ok fresh by (simp add: db_ok_defs)
  have proc: "processed (?d1\<lparr>seqs := sq\<rparr>) k \<longleftrightarrow> processed d k \<or> k = toLowerCase (ie_messageId inc)"
    "processed (?d1\<lparr>receipts := rs, seqs := sq\<rparr>) k \<longleftrightarrow> processed d k \<or> k = toLowerCase (ie_messageId inc)" for k sq rs
    by (auto simp: processed_def)
  from iss show thesis
  proof (cases rule: issue_receipt_cases)
    case (failed e)
    then have "seqs_le d (d\<lparr>seqs := seqs d2\<rparr>)" by (simp add: seqs_le_def)
    with failed(1) apply_run run show thesis by (intro that(1) [of e]) auto
  next
    case exists
    have "db_ok d2"
      using keys unfolding exists(3) by (auto simp: db_ok_defs intro: below_mono)
    with exists apply_run run proc False show thesis by (intro that(3)) auto
  next
    case issued
    have "db_ok d2"
      using keys issued(2,3,4,5,6) unfolding issued(7)
      by (auto simp: db_ok_defs receipt_ok_def)
    with issued apply_run run proc False show thesis by (intro that(3)) auto
  qed
qed

lemma sys_ok_effect:
  assumes ok: "sys_ok toISO s" and m: "m \<in> set (sy_queue s)" "m = order_message toISO ev mid"
    and r: "r \<in> set (orders (sy_db s))" "payload_about ev r"
    and dok: "db_ok d'" and same: "orders d' = orders (sy_db s)" "outbox d' = outbox (sy_db s)"
    and proc: "\<And>k. processed d' k \<longleftrightarrow> processed (sy_db s) k \<or> k = toLowerCase mid"
    and rec: "set (receipts (sy_db s)) \<subseteq> set (receipts d')" "o_id r \<in> r_orderId ` set (receipts d')"
    and new: "\<And>q. q \<in> set (receipts d') \<Longrightarrow> q \<in> set (receipts (sy_db s)) \<or>
        r_eventId q = ev_eventId ev \<and> r_orderId q = o_id r \<and> r_total q = o_total r"
  shows "sys_ok toISO (s\<lparr>sy_db := d'\<rparr>)"
proof -
  let ?d = "sy_db s"
  have recd: "receipted d' a" if "receipted ?d a" for a
    using that rec(1) by (auto simp: receipted_def)
  have own: "receipted d' (dec (o_id r))" using rec(2) by (auto simp: receipted_def)
  have ref: "msg_ref m = (toLowerCase mid, dec (o_id r))"
    using r(2) by (simp add: m(2) msg_ref_order_message payload_about_def)
  have mref: "(toLowerCase mid, dec (o_id r)) \<in> refs (outbox ?d) (sy_queue s)"
    unfolding ref [symmetric] refs_def using m(1) by blast
  have "refs_ok d' (refs (outbox ?d) (sy_queue s))"
    unfolding refs_ok_def
  proof (intro conjI allI impI)
    fix k a b assume "(k, a) \<in> refs (outbox ?d) (sy_queue s)" "(k, b) \<in> refs (outbox ?d) (sy_queue s)"
    then show "a = b" using ok unfolding sys_ok_def refs_ok_def by blast
  next
    fix k a assume ka: "(k, a) \<in> refs (outbox ?d) (sy_queue s)" and p: "processed d' k"
    show "receipted d' a"
    proof (cases "k = toLowerCase mid")
      case True
      then have "a = dec (o_id r)" using ok ka mref unfolding sys_ok_def refs_ok_def by blast
      with own show ?thesis by simp
    next
      case False
      then have "processed ?d k" using p proc by blast
      then have "receipted ?d a" using ok ka unfolding sys_ok_def refs_ok_def by blast
      then show ?thesis by (rule recd)
    qed
  qed
  moreover have "receipt_about (orders ?d) q" if "q \<in> set (receipts d')" for q
    using new [OF that] ok r by (auto simp: sys_ok_def receipt_about_def payload_about_def)
  moreover have "accounted d' ms x" if "accounted ?d ms x" for ms x
    using that recd by (auto simp: accounted_def same)
  ultimately show ?thesis using ok dok by (simp add: sys_ok_def same)
qed

lemma set_remove1_insert: "set xs \<subseteq> insert m (set (remove1 m xs))"
  by (induction xs) auto

lemma refs_ok_mono:
  assumes "R' \<subseteq> R" and "refs_ok d R"
  shows "refs_ok d R'"
proof -
  have "a = b" if "(k, a) \<in> R'" "(k, b) \<in> R'" for k a b
    using assms that subsetD [OF assms(1)] unfolding refs_ok_def by metis
  moreover have "receipted d a" if "(k, a) \<in> R'" "processed d k" for k a
    using assms(2) subsetD [OF assms(1) that(1)] that(2) unfolding refs_ok_def by metis
  ultimately show ?thesis unfolding refs_ok_def by metis
qed

lemma refs_ok_remove1:
  assumes "sys_ok toISO s"
  shows "refs_ok (sy_db s) (refs (outbox (sy_db s)) (remove1 m (sy_queue s)))"
proof -
  have "refs (outbox (sy_db s)) (remove1 m (sy_queue s)) \<subseteq> refs (outbox (sy_db s)) (sy_queue s)"
    unfolding refs_def by (intro Un_mono subset_refl image_mono set_remove1_subset)
  moreover have "refs_ok (sy_db s) (refs (outbox (sy_db s)) (sy_queue s))"
    using assms by (simp add: sys_ok_def)
  ultimately show ?thesis by (rule refs_ok_mono)
qed

lemma accounted_cases:
  assumes "accounted d ms r"
  obtains (row) "\<And>ms. accounted d ms r" | (message) m where "m \<in> set ms" and "msg_order m = dec (o_id r)"
  using assms by (auto simp: accounted_def)

lemma accounted_mono: "set ms \<subseteq> set ms' \<Longrightarrow> accounted d ms r \<Longrightarrow> accounted d ms' r"
  unfolding accounted_def by (elim disjE bexE) (auto intro: bexI)

lemma sys_ok_dead:
  assumes ok: "sys_ok toISO s" and m: "m \<in> set (sy_queue s)"
  shows "sys_ok toISO (s\<lparr>sy_queue := remove1 m (sy_queue s), sy_dead := sy_dead s @ [m]\<rparr>)"
proof -
  have sub: "set (remove1 m (sy_queue s)) \<subseteq> set (sy_queue s)" by (rule set_remove1_subset)
  have "set (sy_queue s @ sy_dead s) \<subseteq> set (remove1 m (sy_queue s) @ sy_dead s @ [m])"
    using set_remove1_insert [of "sy_queue s" m] by auto
  then have "accounted (sy_db s) (remove1 m (sy_queue s) @ sy_dead s @ [m]) r"
    if "accounted (sy_db s) (sy_queue s @ sy_dead s) r" for r
    using that by (rule accounted_mono)
  with ok sub refs_ok_remove1 [OF ok] show ?thesis by (auto simp: sys_ok_def)
qed

lemma sys_ok_ack:
  assumes ok: "sys_ok toISO s" and rec: "receipted (sy_db s) (msg_order m)"
  shows "sys_ok toISO (s\<lparr>sy_queue := remove1 m (sy_queue s)\<rparr>)"
proof -
  have sub: "set (remove1 m (sy_queue s)) \<subseteq> set (sy_queue s)" by (rule set_remove1_subset)
  have "accounted (sy_db s) (remove1 m (sy_queue s) @ sy_dead s) r"
    if "accounted (sy_db s) (sy_queue s @ sy_dead s) r" for r
    using that
  proof (cases rule: accounted_cases)
    case (message x)
    show ?thesis
    proof (cases "x = m")
      case True
      with rec message(2) show ?thesis by (simp add: accounted_def)
    next
      case False
      with message(1) set_remove1_insert [of "sy_queue s" m]
      have "x \<in> set (remove1 m (sy_queue s) @ sy_dead s)" by auto
      with message(2) show ?thesis unfolding accounted_def by blast
    qed
  qed
  with ok sub refs_ok_remove1 [OF ok] show ?thesis by (auto simp: sys_ok_def)
qed

lemma handle_cases:
  assumes "handle now eff m (d, st) = (ans, d', st')"
  obtains (poison) "d' = d" and "ans = Reject False"
  | (parsed) inc res where "parseMessage m = Inr inc" and "applyOrderPlaced now inc d = (res, d')"
      and "ans = Ack \<Longrightarrow> \<exists>x. res = Inr x"
proof (cases "parseMessage m")
  case (Inl e)
  with assms show thesis by (intro poison) (auto simp: handle_def Let_def)
next
  case (Inr inc)
  obtain res d1 where run: "applyOrderPlaced now inc d = (res, d1)" by fastforce
  have "d' = d1 \<and> (ans = Ack \<longrightarrow> (\<exists>x. res = Inr x))"
    using assms Inr run
    by (auto simp: handle_def Let_def split: sum.splits ApplyResult.splits option.splits)
  with Inr run show thesis by (intro parsed [of inc res]) auto
qed

lemma sys_ok_handle:
  assumes ok: "sys_ok toISO s" and m: "m \<in> set (sy_queue s)"
    and run: "handle now eff m (sy_db s, st) = (ans, d', st')"
  shows "sys_ok toISO (s\<lparr>sy_db := d'\<rparr>)" and "ans = Ack \<Longrightarrow> receipted d' (msg_order m)"
proof -
  have dok: "db_ok (sy_db s)" using ok by (simp add: sys_ok_def)
  from ok m have "message_about toISO (orders (sy_db s)) m" by (simp add: sys_ok_def)
  then obtain r ev mid where r: "r \<in> set (orders (sy_db s))" "payload_about ev r"
    and mm: "m = order_message toISO ev mid" unfolding message_about_def by blast
  have mo: "msg_order m = dec (o_id r)" using r(2) by (simp add: mm payload_about_def)
  have "sys_ok toISO (s\<lparr>sy_db := d'\<rparr>) \<and> (ans = Ack \<longrightarrow> receipted d' (msg_order m))"
    using run
  proof (cases rule: handle_cases)
    case poison
    with ok show ?thesis by simp
  next
    case (parsed inc res)
    have inc: "ie_messageId inc = mid" "ie_eventId inc = ev_eventId ev"
      "ie_orderId inc = dec (o_id r)" "ie_total inc = o_total r"
      using parse_order_message [OF parsed(1) [unfolded mm]] r(2) by (simp_all add: payload_about_def)
    from dok parsed(2) show ?thesis
    proof (cases rule: apply_cases)
      case (failed e)
      have "outbox d' = outbox (sy_db s)" "orders d' = orders (sy_db s)" "receipts d' = receipts (sy_db s)"
        "processedMessages d' = processedMessages (sy_db s)"
        by (subst failed(2), simp)+
      moreover have "db_ok d'" by (rule seqs_only_ok [OF dok failed(2,3)])
      ultimately have "sys_ok toISO (s\<lparr>sy_db := d'\<rparr>)"
        using ok by (simp add: sys_ok_def refs_ok_def processed_def receipted_def accounted_def)
      with failed(1) parsed(3) show ?thesis by auto
    next
      case repeated
      have "msg_ref m \<in> refs (outbox (sy_db s)) (sy_queue s)" unfolding refs_def using m by blast
      then have "(toLowerCase mid, dec (o_id r)) \<in> refs (outbox (sy_db s)) (sy_queue s)"
        using r(2) by (simp add: mm msg_ref_order_message payload_about_def)
      moreover have "refs_ok (sy_db s) (refs (outbox (sy_db s)) (sy_queue s))" using ok by (simp add: sys_ok_def)
      ultimately have "receipted (sy_db s) (dec (o_id r))"
        using repeated(3) inc(1) unfolding refs_ok_def by metis
      with ok repeated(2) mo show ?thesis by simp
    next
      case effect
      have "sys_ok toISO (s\<lparr>sy_db := d'\<rparr>)"
      proof (rule sys_ok_effect [OF ok m mm r effect(3-5)])
        show "processed d' k \<longleftrightarrow> processed (sy_db s) k \<or> k = toLowerCase mid" for k
          using effect(6) inc(1) by simp
        show "set (receipts (sy_db s)) \<subseteq> set (receipts d')" by (rule effect(7))
        show "o_id r \<in> r_orderId ` set (receipts d')" using effect(8) inc(3) by simp
        show "q \<in> set (receipts (sy_db s)) \<or> r_eventId q = ev_eventId ev \<and> r_orderId q = o_id r \<and> r_total q = o_total r"
          if "q \<in> set (receipts d')" for q
          using effect(9) [OF that] inc by simp
      qed
      moreover have "receipted d' (msg_order m)"
        using effect(8) inc(3) mo by (auto simp: receipted_def)
      ultimately show ?thesis by blast
    qed
  qed
  then show "sys_ok toISO (s\<lparr>sy_db := d'\<rparr>)" and "ans = Ack \<Longrightarrow> receipted d' (msg_order m)" by simp_all
qed

lemma sys_ok_deliver:
  assumes ok: "sys_ok toISO s" and m: "m \<in> set (sy_queue s)"
    and run: "handle now eff m (sy_db s, st) = (ans, d', st')"
  shows "sys_ok toISO (settle ans m (s\<lparr>sy_db := d'\<rparr>))"
proof -
  note h = sys_ok_handle [OF ok m run]
  show ?thesis
  proof (cases ans)
    case Ack
    with h(2) sys_ok_ack [OF h(1), of m] show ?thesis by simp
  next
    case (Reject b)
    with h(1) m sys_ok_dead [OF h(1), of m] show ?thesis by (cases b) simp_all
  qed
qed

section \<open>Cleanup\<close>

lemma sys_ok_cleanup:
  assumes ok: "sys_ok toISO s" and "0 < batchSize"
    and run: "cleanupOutbox fuel now days batchSize (sy_db s) = Some (n, d')"
  shows "sys_ok toISO (s\<lparr>sy_db := d'\<rparr>)"
proof -
  obtain rows where del: "delete_all fuel (outbox_expired now days) batchSize (outbox (sy_db s)) = Some (n, rows)"
    and d': "d' = (sy_db s)\<lparr>outbox := rows\<rparr>"
    using run by (auto simp: cleanupOutbox_def)
  have rows: "rows = filter (\<lambda>x. \<not> outbox_expired now days x) (outbox (sy_db s))"
    by (rule delete_all_result(2) [OF assms(2) del])
  have "db_ok d'"
    using ok by (auto simp: sys_ok_def d' rows db_ok_defs distinct_map_filter list_all_iff)
  moreover have "refs_ok (sy_db s) (refs rows (sy_queue s))"
  proof (rule refs_ok_mono)
    show "refs rows (sy_queue s) \<subseteq> refs (outbox (sy_db s)) (sy_queue s)"
      unfolding refs_def rows by (intro Un_mono image_mono subset_refl filter_is_subset)
    show "refs_ok (sy_db s) (refs (outbox (sy_db s)) (sy_queue s))" using ok by (simp add: sys_ok_def)
  qed
  moreover have "accounted d' ms r" if "accounted (sy_db s) ms r" for ms r
    using that by (auto simp: accounted_def d' rows outbox_expired_def receipted_def)
  ultimately show ?thesis
    using ok by (auto simp: sys_ok_def d' rows refs_ok_def processed_def receipted_def)
qed

lemma sys_step_ok: "sys_step toISO s s' \<Longrightarrow> sys_ok toISO s \<Longrightarrow> sys_ok toISO s'"
proof (induction rule: sys_step.induct)
  case (sys_sale env hook input s r d')
  then show ?case by (blast intro: sys_ok_sale)
next
  case (sys_relay env p s failed r d' p')
  then show ?case by (blast intro: sys_ok_relay)
next
  case (sys_deliver m s now eff st ans d' st')
  then show ?case by (blast intro: sys_ok_deliver)
next
  case (sys_crash m s now eff st ans d' st')
  then show ?case by (blast intro: sys_ok_handle(1))
next
  case (sys_dead m s)
  then show ?case by (blast intro: sys_ok_dead)
next
  case (sys_cleanup batchSize fuel now days s n d')
  then show ?case by (blast intro: sys_ok_cleanup)
qed

lemma sys_reachable_ok: "(sys_step toISO)\<^sup>*\<^sup>* s s' \<Longrightarrow> sys_ok toISO s \<Longrightarrow> sys_ok toISO s'"
  by (induction rule: rtranclp_induct) (auto intro: sys_step_ok)

text \<open>A shop that has not sold anything yet.\<close>

definition new_shop :: "db \<Rightarrow> system" where
  "new_shop d = \<lparr>sy_db = d, sy_queue = [], sy_dead = []\<rparr>"

lemma new_shop_ok:
  assumes "db_ok d" and "orders d = []" and "outbox d = []" and "receipts d = []"
  shows "sys_ok toISO (new_shop d)"
  using assms by (simp add: sys_ok_def new_shop_def refs_ok_def refs_def)

end
