(* ===== verification/Pipeline_Theorems.thy ===== *)
theory Pipeline_Theorems
  imports Pipeline
begin

text \<open>The guarantees of the event pipeline, at every moment and when it has come to rest.\<close>

section \<open>A concrete run\<close>

definition pipe_tx :: tx_env where
  "pipe_tx = \<lparr>tx_now = 5000, tx_uuid = ''00000000-0000-4000-8000-00000000000a''\<rparr>"

definition pipe_db1 :: db where
  "pipe_db1 = snd (checkout pipe_tx None shop_cart shop_db)"

definition pipe_relay :: "db \<times> amqp_message list publisher" where
  "pipe_relay = snd (relay_one (relay_env_of log_send) [] (pipe_db1, open_publisher))"

definition pipe_message :: amqp_message where
  "pipe_message = hd (pub_broker (snd pipe_relay))"

definition pipe_db3 :: db where
  "pipe_db3 = fst (snd (handle 7000 (\<lambda>_. None) pipe_message (fst pipe_relay, zero_stats)))"

definition pipe_end :: system where
  "pipe_end = \<lparr>sy_db = pipe_db3, sy_queue = [], sy_dead = []\<rparr>"

lemma log_send_queueing: "queueing log_send"
  by (simp add: queueing_def log_send_def)

lemma pipe_run: "(sys_step (\<lambda>_. ''T''))\<^sup>*\<^sup>* (new_shop shop_db) pipe_end"
proof -
  let ?s1 = "(new_shop shop_db)\<lparr>sy_db := pipe_db1\<rparr>"
  let ?q = "pub_broker (snd pipe_relay)"
  let ?s2 = "?s1\<lparr>sy_db := fst pipe_relay, sy_queue := ?q\<rparr>"
  have "fresh_uuid (tx_uuid pipe_tx) (new_shop shop_db)"
    by (simp add: fresh_uuid_def new_shop_def shop_db_def empty_db_def)
  moreover have "checkout pipe_tx None shop_cart (sy_db (new_shop shop_db)) =
      (fst (checkout pipe_tx None shop_cart shop_db), pipe_db1)"
    by (simp add: new_shop_def pipe_db1_def)
  ultimately have 1: "sys_step (\<lambda>_. ''T'') (new_shop shop_db) ?s1" by (intro sys_sale)
  have "relay_one (relay_env_of log_send) [] (sy_db ?s1, open_publisher) =
      (fst (relay_one (relay_env_of log_send) [] (pipe_db1, open_publisher)), (fst pipe_relay, snd pipe_relay))"
    by (simp add: pipe_relay_def)
  then have 2: "sys_step (\<lambda>_. ''T'') ?s1 ?s2"
    by (intro sys_relay [where env = "relay_env_of log_send" and p = open_publisher])
      (simp_all add: relay_env_of_def log_send_queueing open_publisher_def new_shop_def)
  have "length ?q = 1" by code_simp
  then have q: "?q = [pipe_message]" by (auto simp: length_Suc_conv pipe_message_def)
  have "fst (handle 7000 (\<lambda>_. None) pipe_message (fst pipe_relay, zero_stats)) = Ack" by code_simp
  then have "handle 7000 (\<lambda>_. None) pipe_message (sy_db ?s2, zero_stats) =
      (Ack, pipe_db3, snd (snd (handle 7000 (\<lambda>_. None) pipe_message (fst pipe_relay, zero_stats))))"
    by (simp add: pipe_db3_def prod_eq_iff)
  then have "sys_step (\<lambda>_. ''T'') ?s2 (settle Ack pipe_message (?s2\<lparr>sy_db := pipe_db3\<rparr>))"
    by (intro sys_deliver) (simp_all add: q)
  moreover have "settle Ack pipe_message (?s2\<lparr>sy_db := pipe_db3\<rparr>) = pipe_end"
    by (simp add: q pipe_end_def new_shop_def)
  ultimately have 3: "sys_step (\<lambda>_. ''T'') ?s2 pipe_end" by simp
  from 1 2 3 show ?thesis by (meson converse_rtranclp_into_rtranclp rtranclp.rtrancl_refl)
qed

lemma shop_db_new: "orders shop_db = []" "outbox shop_db = []" "receipts shop_db = []"
  by (simp_all add: shop_db_def empty_db_def)

section \<open>Properties\<close>

text \<open>
  C14: when the pipeline of a shop that started without orders has come to rest (every outbox row
  published, the queue empty, no message ever dead-lettered), there is exactly one receipt per order
  with the order's total, however the steps of checkouts, relays, deliveries, redeliveries, crashes
  and cleanups interleaved.
\<close>

theorem receipts_exactly_once:
  assumes "db_ok d" and "orders d = []" and "outbox d = []" and "receipts d = []"
    and "(sys_step toISO)\<^sup>*\<^sup>* (new_shop d) s"
    and "sy_queue s = []" and "sy_dead s = []"
    and "\<forall>x \<in> set (outbox (sy_db s)). x_publishedAt x \<noteq> None"
  shows "mset (map (\<lambda>q. (r_orderId q, r_total q)) (receipts (sy_db s))) =
    mset (map (\<lambda>r. (o_id r, o_total r)) (orders (sy_db s)))"
proof -
  have ok: "sys_ok toISO s" by (rule sys_reachable_ok [OF assms(5) new_shop_ok [OF assms(1-4)]])
  then have dok: "db_ok (sy_db s)" by (simp add: sys_ok_def)
  note dist = db_okD(3) [OF dok]
  have "distinct (map r_orderId (receipts (sy_db s)))" using dok by (simp add: db_ok_def keys_ok_def)
  then have 1: "distinct (map (\<lambda>q. (r_orderId q, r_total q)) (receipts (sy_db s)))"
    by (auto simp: distinct_map inj_on_def)
  from dist have 2: "distinct (map (\<lambda>r. (o_id r, o_total r)) (orders (sy_db s)))"
    by (auto simp: distinct_map inj_on_def)
  have about: "\<exists>r \<in> set (orders (sy_db s)). o_id r = r_orderId q \<and> o_total r = r_total q"
    if "q \<in> set (receipts (sy_db s))" for q
    using ok that by (auto simp: sys_ok_def receipt_about_def)
  have "\<exists>q \<in> set (receipts (sy_db s)). r_orderId q = o_id r \<and> r_total q = o_total r"
    if r: "r \<in> set (orders (sy_db s))" for r
  proof -
    have "accounted (sy_db s) (sy_queue s @ sy_dead s) r" using ok r by (simp add: sys_ok_def)
    with assms(6-8) obtain q where q: "q \<in> set (receipts (sy_db s))" "r_orderId q = o_id r"
      by (auto simp: accounted_def receipted_def)
    from about [OF q(1)] obtain r' where "r' \<in> set (orders (sy_db s))" "o_id r' = o_id r" "o_total r' = r_total q"
      using q(2) by auto
    moreover from this have "r' = r" using distinct_key_eq [OF dist _ r] by blast
    ultimately show ?thesis using q by auto
  qed
  with about have "set (map (\<lambda>q. (r_orderId q, r_total q)) (receipts (sy_db s))) =
      set (map (\<lambda>r. (o_id r, o_total r)) (orders (sy_db s)))" by force
  with 1 2 show ?thesis by (simp only: set_eq_iff_mset_eq_distinct)
qed

theorem receipts_exactly_once_witness:
  "mset (map (\<lambda>q. (r_orderId q, r_total q)) (receipts pipe_db3)) = mset (map (\<lambda>r. (o_id r, o_total r)) (orders pipe_db3)) \<and>
   map r_total (receipts pipe_db3) = [130]"
proof
  have "\<forall>x \<in> set (outbox (sy_db pipe_end)). x_publishedAt x \<noteq> None" by code_simp
  from receipts_exactly_once [OF shop_db_ok shop_db_new pipe_run _ _ this]
  show "mset (map (\<lambda>q. (r_orderId q, r_total q)) (receipts pipe_db3)) =
      mset (map (\<lambda>r. (o_id r, o_total r)) (orders pipe_db3))"
    by (simp add: pipe_end_def)
  show "map r_total (receipts pipe_db3) = [130]" by code_simp
qed

text \<open>
  C15: at every moment of every run of a shop that started without orders the schema constraints
  hold, no order has two receipts, every receipt carries the total of its order, and every order is
  accounted for: its row is still to be published, or its message is queued or was dead-lettered, or
  its receipt exists.
\<close>

theorem pipeline_invariant:
  assumes "db_ok d" and "orders d = []" and "outbox d = []" and "receipts d = []"
    and "(sys_step toISO)\<^sup>*\<^sup>* (new_shop d) s"
  shows "db_ok (sy_db s) \<and> distinct (map r_orderId (receipts (sy_db s))) \<and>
    (\<forall>q \<in> set (receipts (sy_db s)). \<exists>r \<in> set (orders (sy_db s)). o_id r = r_orderId q \<and> o_total r = r_total q) \<and>
    (\<forall>r \<in> set (orders (sy_db s)).
       (\<exists>x \<in> set (outbox (sy_db s)). x_publishedAt x = None \<and> x_aggregateId x = dec (o_id r)) \<or>
       (\<exists>m \<in> set (sy_queue s @ sy_dead s). msg_order m = dec (o_id r)) \<or>
       (\<exists>q \<in> set (receipts (sy_db s)). r_orderId q = o_id r))"
proof -
  have ok: "sys_ok toISO s" by (rule sys_reachable_ok [OF assms(5) new_shop_ok [OF assms(1-4)]])
  have "receipted (sy_db s) (dec k) \<longleftrightarrow> (\<exists>q \<in> set (receipts (sy_db s)). r_orderId q = k)" for k
    by (simp add: receipted_def)
  with ok show ?thesis
    by (auto simp: sys_ok_def db_ok_def keys_ok_def receipt_about_def accounted_def)
qed

theorem pipeline_invariant_witness:
  "db_ok pipe_db3 \<and> list_all (\<lambda>r. list_ex (\<lambda>q. r_orderId q = o_id r) (receipts pipe_db3)) (orders pipe_db3)"
proof -
  have "\<forall>x \<in> set (outbox pipe_db3). x_publishedAt x \<noteq> None" by code_simp
  with pipeline_invariant [OF shop_db_ok shop_db_new pipe_run]
  have "db_ok pipe_db3" "\<forall>r \<in> set (orders pipe_db3). \<exists>q \<in> set (receipts pipe_db3). r_orderId q = o_id r"
    by (auto simp: pipe_end_def)
  then show ?thesis unfolding list_all_iff list_ex_iff by (rule conjI)
qed

text \<open>
  Applying an event a second time, whenever and however often it is delivered again, changes
  nothing and reports a duplicate.
\<close>

lemma redelivery_has_no_effect:
  assumes "db_ok d" and "applyOrderPlaced now inc d = (Inr res, d')"
  shows "applyOrderPlaced now2 inc d' = (Inr duplicate, d')"
proof -
  have "processed d' (toLowerCase (ie_messageId inc))"
    using assms by (cases rule: apply_cases) auto
  then have "list_ex (\<lambda>m. m_messageId m = toLowerCase (ie_messageId inc) \<and> m_consumer m = RECEIPTS_CONSUMER) (processedMessages d')"
    by (auto simp: processed_def list_ex_iff)
  then show ?thesis by (simp add: applyOrderPlaced_def transaction_def mark_message_def Let_def)
qed

text \<open>
  A message the publisher sends for a well-formed event is one the consumer accepts, with the
  same event id, order id and total.
\<close>

lemma message_roundtrip:
  assumes "uuid_ok mid" and "ev_type ev = ORDER_PLACED_TYPE" and "isId (ed_orderId (ev_data ev))"
    and "0 \<le> ed_total (ev_data ev)"
  shows "parseMessage (order_message toISO ev mid) =
    Inr \<lparr>ie_messageId = mid, ie_eventId = ev_eventId ev, ie_orderId = ed_orderId (ev_data ev),
         ie_total = ed_total (ev_data ev)\<rparr>"
  using assms
  by (simp add: parseMessage_def order_message_def event_json_def json_get_def Let_def ORDER_PLACED_TYPE_def)

end
