(* ===== verification/Retry.thy ===== *)
theory Retry
  imports Checkout_Theorems
begin

text \<open>
  Retrying a whole transaction: \<open>src/services/with-retry.ts\<close>. The operation may behave differently
  on every attempt, since it runs on a state; the random part of the delay is an argument.
\<close>

section \<open>The loop\<close>

record RetryInfo =
  ri_attempt :: nat
  ri_code :: string
  ri_delayMs :: nat

record RetryOptions =
  ro_maxAttempts :: nat
  ro_baseDelayMs :: nat

definition DEFAULT_RETRY :: RetryOptions where
  "DEFAULT_RETRY = \<lparr>ro_maxAttempts = 5, ro_baseDelayMs = 20\<rparr>"

definition RETRYABLE_CODES :: "string list" where
  "RETRYABLE_CODES = [''40001'', ''40P01'']"

text \<open>
  \<open>error.code ?? error.driverError?.code\<close>: among the errors of the program only a failed query
  carries a code; \<open>foreign_code\<close> reads it off an error of a library.
\<close>

fun getErrorCode :: "(string \<Rightarrow> string option) \<Rightarrow> js_error \<Rightarrow> string option" where
  "getErrorCode foreign_code (QueryFailedError d) = Some (de_code d)"
| "getErrorCode foreign_code (Foreign m) = foreign_code m"
| "getErrorCode foreign_code e = None"

text \<open>\<open>if (!code || !RETRYABLE_CODES.has(code) || attempt >= maxAttempts) throw error\<close>\<close>

definition gives_up :: "(string \<Rightarrow> string option) \<Rightarrow> RetryOptions \<Rightarrow> nat \<Rightarrow> js_error \<Rightarrow> bool" where
  "gives_up foreign_code opts attempt e \<longleftrightarrow>
     (case getErrorCode foreign_code e of
        None \<Rightarrow> True | Some code \<Rightarrow> code \<notin> set RETRYABLE_CODES) \<or> ro_maxAttempts opts \<le> attempt"

definition delay_ms :: "RetryOptions \<Rightarrow> (nat \<Rightarrow> nat) \<Rightarrow> nat \<Rightarrow> nat" where
  "delay_ms opts jitter attempt = ro_baseDelayMs opts * 2 ^ (attempt - 1) + jitter attempt"

text \<open>The loop, with the values passed to \<open>onRetry\<close> as a trace.\<close>

function retry_from ::
  "(string \<Rightarrow> string option) \<Rightarrow> RetryOptions \<Rightarrow> (nat \<Rightarrow> nat) \<Rightarrow> ('s, 'a) action \<Rightarrow> nat \<Rightarrow> 's
    \<Rightarrow> 'a result \<times> RetryInfo list \<times> 's" where
  "retry_from fc opts jitter operation attempt s =
     (case operation s of
        (Inr x, s') \<Rightarrow> (Inr x, [], s')
      | (Inl e, s') \<Rightarrow>
          if gives_up fc opts attempt e then (Inl e, [], s')
          else (case retry_from fc opts jitter operation (Suc attempt) s' of
            (r, infos, t) \<Rightarrow>
              (r, \<lparr>ri_attempt = attempt, ri_code = the (getErrorCode fc e),
                   ri_delayMs = delay_ms opts jitter attempt\<rparr> # infos, t)))"
  by pat_completeness auto

termination
  by (relation "measure (\<lambda>(fc, opts, jitter, operation, attempt, s). ro_maxAttempts opts - attempt)")
    (auto simp: gives_up_def)

declare retry_from.simps [simp del]

definition withRetry ::
  "(string \<Rightarrow> string option) \<Rightarrow> RetryOptions \<Rightarrow> (nat \<Rightarrow> nat) \<Rightarrow> ('s, 'a) action \<Rightarrow> 's
    \<Rightarrow> 'a result \<times> RetryInfo list \<times> 's" where
  "withRetry fc opts jitter operation s = retry_from fc opts jitter operation 1 s"

section \<open>Facts\<close>

text \<open>
  The runs before the last one all failed with a retryable code; \<open>failed_runs\<close> lists them.
\<close>

inductive failed_runs :: "(string \<Rightarrow> string option) \<Rightarrow> ('s, 'a) action \<Rightarrow> 's \<Rightarrow> string list \<Rightarrow> 's \<Rightarrow> bool"
  for fc :: "string \<Rightarrow> string option" and operation :: "('s, 'a) action" where
  none: "failed_runs fc operation s [] s"
| more: "operation s = (Inl e, s1) \<Longrightarrow> getErrorCode fc e = Some c \<Longrightarrow> c \<in> set RETRYABLE_CODES \<Longrightarrow>
    failed_runs fc operation s1 cs t \<Longrightarrow> failed_runs fc operation s (c # cs) t"

lemma retry_from_spec:
  "retry_from fc opts jitter operation attempt s = (r, infos, t) \<Longrightarrow>
     (\<exists>s1. failed_runs fc operation s (map ri_code infos) s1 \<and> operation s1 = (r, t)) \<and>
     map ri_attempt infos = [attempt ..< attempt + length infos] \<and>
     (infos = [] \<or> attempt + length infos \<le> ro_maxAttempts opts) \<and>
     (\<forall>i \<in> set infos. ri_delayMs i = delay_ms opts jitter (ri_attempt i)) \<and>
     (\<forall>e. r = Inl e \<longrightarrow> gives_up fc opts (attempt + length infos) e)"
proof (induction fc opts jitter operation attempt s arbitrary: r infos t rule: retry_from.induct)
  case (1 fc opts jitter operation attempt s)
  obtain q s' where op: "operation s = (q, s')" by fastforce
  show ?case
  proof (cases q)
    case (Inr x)
    with "1.prems" op have "r = Inr x" "infos = []" "t = s'"
      by (simp_all add: retry_from.simps [of fc opts jitter operation attempt s])
    with op Inr show ?thesis by (auto intro: none)
  next
    case (Inl e)
    show ?thesis
    proof (cases "gives_up fc opts attempt e")
      case True
      with "1.prems" op Inl have "r = Inl e" "infos = []" "t = s'"
        by (simp_all add: retry_from.simps [of fc opts jitter operation attempt s])
      with op Inl True show ?thesis by (auto intro: none)
    next
      case False
      obtain r1 infos1 t1 where rec: "retry_from fc opts jitter operation (Suc attempt) s' = (r1, infos1, t1)"
        by (metis prod_cases3)
      with "1.prems" op Inl False have res: "r = r1" "t = t1"
        "infos = \<lparr>ri_attempt = attempt, ri_code = the (getErrorCode fc e),
           ri_delayMs = delay_ms opts jitter attempt\<rparr> # infos1"
        by (simp_all add: retry_from.simps [of fc opts jitter operation attempt s])
      note ih = "1.IH" [OF op [symmetric] Inl False rec]
      obtain c where c: "getErrorCode fc e = Some c" "c \<in> set RETRYABLE_CODES" "attempt < ro_maxAttempts opts"
        using False by (auto simp: gives_up_def split: option.splits)
      obtain s1 where "failed_runs fc operation s' (map ri_code infos1) s1" "operation s1 = (r1, t1)"
        using ih by blast
      then have "failed_runs fc operation s (map ri_code infos) s1"
        using op Inl c res(3) by (auto intro: more)
      with ih res c \<open>operation s1 = (r1, t1)\<close> show ?thesis
        by (auto simp: upt_conv_Cons simp del: upt_Suc)
    qed
  qed
qed

lemma failed_runs_rel:
  assumes "reflp R" and "transp R" and "\<And>s e s'. operation s = (Inl e, s') \<Longrightarrow> R s s'"
  shows "failed_runs fc operation s cs t \<Longrightarrow> R s t"
  by (induction rule: failed_runs.induct) (use assms in \<open>blast dest: reflpD transpD\<close>)+

section \<open>Properties\<close>

text \<open>
  C16: the operation runs at most \<open>maxAttempts\<close> times (once at least); every run but the last
  failed with a serialization failure or a deadlock, the last run's result is the result, an error
  comes back only when it is not retryable or the attempts are used up, and the delays double.
\<close>

theorem withRetry_correct:
  assumes "withRetry fc opts jitter operation s = (r, infos, t)"
  shows "(\<exists>s1. failed_runs fc operation s (map ri_code infos) s1 \<and> operation s1 = (r, t)) \<and>
    map ri_attempt infos = [1 ..< 1 + length infos] \<and>
    length infos + 1 \<le> max 1 (ro_maxAttempts opts) \<and>
    (\<forall>i \<in> set infos. ri_delayMs i = ro_baseDelayMs opts * 2 ^ (ri_attempt i - 1) + jitter (ri_attempt i)) \<and>
    (\<forall>e. r = Inl e \<longrightarrow> gives_up fc opts (length infos + 1) e)"
  using retry_from_spec [OF assms [unfolded withRetry_def]]
  by (auto simp: delay_ms_def simp del: upt_Suc)

text \<open>An operation that deadlocks while its counter is positive.\<close>

definition deadlocks :: "(nat, nat) action" where
  "deadlocks n = (if 0 < n then (Inl (QueryFailedError \<lparr>de_code = ''40P01'', de_constraint = None\<rparr>), n - 1)
     else (Inr 7, 0))"

theorem withRetry_correct_witness:
  "fst (withRetry (\<lambda>_. None) DEFAULT_RETRY (\<lambda>_. 0) deadlocks 2) = Inr 7 \<and>
   (\<exists>r infos t. withRetry (\<lambda>_. None) DEFAULT_RETRY (\<lambda>_. 0) deadlocks 2 = (r, infos, t) \<and>
      length infos + 1 \<le> 5 \<and> map ri_delayMs infos = [20, 40])"
proof
  show "fst (withRetry (\<lambda>_. None) DEFAULT_RETRY (\<lambda>_. 0) deadlocks 2) = Inr 7" by code_simp
  obtain r infos t where run: "withRetry (\<lambda>_. None) DEFAULT_RETRY (\<lambda>_. 0) deadlocks 2 = (r, infos, t)"
    by (metis prod_cases3)
  have "map ri_delayMs (fst (snd (withRetry (\<lambda>_. None) DEFAULT_RETRY (\<lambda>_. 0) deadlocks 2))) = [20, 40]"
    by code_simp
  with run have "map ri_delayMs infos = [20, 40]" by simp
  moreover have "length infos + 1 \<le> 5"
    using withRetry_correct [OF run] by (simp add: DEFAULT_RETRY_def)
  ultimately show "\<exists>r infos t. withRetry (\<lambda>_. None) DEFAULT_RETRY (\<lambda>_. 0) deadlocks 2 = (r, infos, t) \<and>
      length infos + 1 \<le> 5 \<and> map ri_delayMs infos = [20, 40]"
    using run by (intro exI conjI)
qed

text \<open>
  Retrying a checkout cannot apply it twice: whatever deadlocks and serialization failures the
  attempts run into, the final state is the start state, with tables unchanged, followed by the
  one last attempt.
\<close>

lemma checkout_retry_single_effect:
  assumes "withRetry fc opts jitter (checkout env hook input) d = (r, infos, d')"
  shows "\<exists>d1. d1 = d\<lparr>seqs := seqs d1\<rparr> \<and> checkout env hook input d1 = (r, d')"
proof -
  obtain d1 where runs: "failed_runs fc (checkout env hook input) d (map ri_code infos) d1"
    and last: "checkout env hook input d1 = (r, d')"
    using retry_from_spec [OF assms [unfolded withRetry_def]] by blast
  have "d1 = d\<lparr>seqs := seqs d1\<rparr>"
  proof (rule failed_runs_rel [where R = "\<lambda>a b. b = a\<lparr>seqs := seqs b\<rparr>", OF _ _ _ runs])
    show "reflp (\<lambda>a b. b = a\<lparr>seqs := seqs b\<rparr>)" by (simp add: reflp_def)
    show "transp (\<lambda>a b. b = a\<lparr>seqs := seqs b\<rparr>)"
      by (rule transpI) (metis db.surjective db.update_convs(10))
    show "s' = s\<lparr>seqs := seqs s'\<rparr>" if "checkout env hook input s = (Inl e, s')" for s e s'
      by (rule checkout_rollback(1) [OF that])
  qed
  with last show ?thesis by blast
qed

end
