(* ===== verification/RateLimiter.thy ===== *)
theory RateLimiter
  imports Prelude "HOL-Library.Product_Lexorder"
begin

text \<open>
  The sliding-window rate limiter of \<open>src/services/rate-limiter.service.ts\<close> (the Lua script and
  \<open>hit\<close>) and the guard of \<open>src/http/rate-limit.guard.ts\<close>. Instants are milliseconds.
\<close>

section \<open>The script\<close>

definition RATE_LIMIT :: nat where "RATE_LIMIT = 10"
definition RATE_LIMIT_WINDOW_MS :: int where "RATE_LIMIT_WINDOW_MS = 10000"

definition rateLimitKey :: "string \<Rightarrow> string" where
  "rateLimitKey client = ''rate-limit:'' @ client"

text \<open>
  A sorted set, in the order of (score, member), with the instant its key expires at. A key that
  is past its expiry reads as the empty set.
\<close>

record zset =
  zs_members :: "(int \<times> string) list"
  zs_expires :: "int option"

definition members_at :: "int \<Rightarrow> zset \<Rightarrow> (int \<times> string) list" where
  "members_at now z = (case zs_expires z of
     Some e \<Rightarrow> if e \<le> now then [] else zs_members z | None \<Rightarrow> zs_members z)"

definition zadd :: "int \<Rightarrow> string \<Rightarrow> (int \<times> string) list \<Rightarrow> (int \<times> string) list" where
  "zadd score member z = insort (score, member) (filter (\<lambda>e. snd e \<noteq> member) z)"

text \<open>\<open>ZREMRANGEBYSCORE key -inf (now - window)\<close> keeps the scores above the bound.\<close>

definition sliding_window :: "int \<Rightarrow> nat \<Rightarrow> string \<Rightarrow> int \<Rightarrow> zset \<Rightarrow> (int \<times> int) \<times> zset" where
  "sliding_window window limit member now z =
     (let recent = filter (\<lambda>e. now - window < fst e) (members_at now z) in
      if length recent < limit
      then ((1, 0), \<lparr>zs_members = zadd now member recent, zs_expires = Some (now + window)\<rparr>)
      else (case recent of
          [] \<Rightarrow> ((0, 0), z\<lparr>zs_members := recent\<rparr>)
        | oldest # _ \<Rightarrow> ((0, fst oldest + window - now), z\<lparr>zs_members := recent\<rparr>)))"

section \<open>A hit\<close>

record RateLimitResult =
  rl_allowed :: bool
  rl_retryAfterSeconds :: int

type_synonym limiter = "string \<Rightarrow> zset"

definition no_hits :: limiter where
  "no_hits k = \<lparr>zs_members = [], zs_expires = None\<rparr>"

definition ceil_seconds :: "int \<Rightarrow> int" where
  "ceil_seconds ms = - ((- ms) div 1000)"

text \<open>
  \<open>up\<close> says whether the command reaches the state store, and \<open>heard\<close> whether its reply comes
  back. A hit without a reply is refused, also when the script ran and has counted it.
\<close>

definition hit :: "bool \<Rightarrow> bool \<Rightarrow> int \<Rightarrow> string \<Rightarrow> string \<Rightarrow> limiter \<Rightarrow> RateLimitResult \<times> limiter" where
  "hit up heard now uuid client s =
     (let lost = \<lparr>rl_allowed = False, rl_retryAfterSeconds = 1\<rparr> in
      if \<not> up then (lost, s)
      else (case sliding_window RATE_LIMIT_WINDOW_MS RATE_LIMIT uuid now (s (rateLimitKey client)) of
        ((allowed, retryAfterMs), z) \<Rightarrow>
          (if heard
           then \<lparr>rl_allowed = (allowed = 1), rl_retryAfterSeconds = max 1 (ceil_seconds retryAfterMs)\<rparr>
           else lost,
           s(rateLimitKey client := z))))"

text \<open>
  The guard: the request goes on, or gets 429 with the \<open>Retry-After\<close> header.
\<close>

definition rate_limit_guard ::
  "bool \<Rightarrow> bool \<Rightarrow> int \<Rightarrow> string \<Rightarrow> string option \<Rightarrow> limiter \<Rightarrow> (bool result \<times> int option) \<times> limiter" where
  "rate_limit_guard up heard now uuid ip s =
     (case hit up heard now uuid (case ip of None \<Rightarrow> ''unknown'' | Some a \<Rightarrow> a) s of
        (r, s') \<Rightarrow>
          if rl_allowed r then ((Inr True, None), s')
          else ((Inl (HttpException 429 ''Rate limit exceeded, retry later''),
                 Some (rl_retryAfterSeconds r)), s'))"

section \<open>Runs\<close>

text \<open>The hits of one client, with the instants and the uuids drawn for them.\<close>

fun run_hits :: "string \<Rightarrow> (int \<times> string) list \<Rightarrow> limiter \<Rightarrow> bool list \<times> limiter" where
  "run_hits client [] s = ([], s)"
| "run_hits client ((now, uuid) # hs) s =
     (case hit True True now uuid client s of (r, s1) \<Rightarrow>
      case run_hits client hs s1 of (rs, t) \<Rightarrow> (rl_allowed r # rs, t))"

text \<open>The reference: a hit is allowed when fewer than 10 hits were allowed in the last window.\<close>

fun reference_hits :: "int list \<Rightarrow> int list \<Rightarrow> bool list" where
  "reference_hits past [] = []"
| "reference_hits past (now # ts) =
     (let ok = length (filter (\<lambda>t. now - RATE_LIMIT_WINDOW_MS < t) past) < RATE_LIMIT
      in ok # reference_hits (if ok then past @ [now] else past) ts)"

text \<open>The set mirrors the allowed instants of the last window.\<close>

definition mirrors :: "int \<Rightarrow> int list \<Rightarrow> string set \<Rightarrow> zset \<Rightarrow> bool" where
  "mirrors now past used z \<longleftrightarrow>
     mset (map fst (filter (\<lambda>e. now - RATE_LIMIT_WINDOW_MS < fst e) (zs_members z))) =
       mset (filter (\<lambda>t. now - RATE_LIMIT_WINDOW_MS < t) past) \<and>
     snd ` set (zs_members z) \<subseteq> used \<and> (\<forall>m \<in> set (zs_members z). fst m \<le> now) \<and> sorted (zs_members z) \<and>
     (\<forall>e. zs_expires z = Some e \<longrightarrow> (\<forall>m \<in> set (zs_members z). fst m + RATE_LIMIT_WINDOW_MS \<le> e))"

lemma filter_later: "now \<le> now' \<Longrightarrow> filter (\<lambda>t. now' - w < f t) (filter (\<lambda>t. now - w < f t) xs) =
   filter (\<lambda>t. now' - w < (f t :: int)) xs"
  by (induction xs) auto

lemma mirrors_later:
  assumes "mirrors now past used z" and "now \<le> now'"
  shows "mirrors now' past used z"
proof -
  let ?w = RATE_LIMIT_WINDOW_MS
  have "map fst (filter (\<lambda>e. now' - ?w < fst e) (zs_members z)) =
      filter (\<lambda>t. now' - ?w < t) (map fst (filter (\<lambda>e. now - ?w < fst e) (zs_members z)))"
    using filter_later [OF assms(2), of ?w fst "zs_members z"] by (simp add: filter_map comp_def)
  then have "mset (map fst (filter (\<lambda>e. now' - ?w < fst e) (zs_members z))) =
      filter_mset (\<lambda>t. now' - ?w < t) (mset (map fst (filter (\<lambda>e. now - ?w < fst e) (zs_members z))))"
    by (simp only: mset_filter)
  also have "\<dots> = filter_mset (\<lambda>t. now' - ?w < t) (mset (filter (\<lambda>t. now - ?w < t) past))"
    using assms(1) by (simp only: mirrors_def)
  also have "\<dots> = mset (filter (\<lambda>t. now' - ?w < t) past)"
    using filter_later [OF assms(2), of ?w "\<lambda>t. t" past] by (metis mset_filter)
  finally show ?thesis using assms by (auto simp: mirrors_def)
qed

text \<open>Expiry of the key drops nothing that is still in the window.\<close>

lemma mirrors_recent:
  assumes "mirrors now past used z"
  shows "filter (\<lambda>e. now - RATE_LIMIT_WINDOW_MS < fst e) (members_at now z) =
    filter (\<lambda>e. now - RATE_LIMIT_WINDOW_MS < fst e) (zs_members z)"
proof (cases "\<exists>e. zs_expires z = Some e \<and> e \<le> now")
  case True
  then obtain e where e: "zs_expires z = Some e" "e \<le> now" by blast
  then have "fst m + RATE_LIMIT_WINDOW_MS \<le> now" if "m \<in> set (zs_members z)" for m
    using assms that unfolding mirrors_def by fastforce
  then have "filter (\<lambda>e. now - RATE_LIMIT_WINDOW_MS < fst e) (zs_members z) = []"
    by (fastforce simp: filter_empty_conv)
  with e show ?thesis by (simp add: members_at_def)
next
  case False
  then have "members_at now z = zs_members z"
    by (auto simp: members_at_def split: option.split)
  then show ?thesis by simp
qed

lemma sliding_window_step:
  assumes m: "mirrors now past used z" and fresh: "uuid \<notin> used"
  shows "(fst (fst (sliding_window RATE_LIMIT_WINDOW_MS RATE_LIMIT uuid now z)) = 1) =
      (length (filter (\<lambda>t. now - RATE_LIMIT_WINDOW_MS < t) past) < RATE_LIMIT)" (is "_ = ?ok")
    and "mirrors now (if length (filter (\<lambda>t. now - RATE_LIMIT_WINDOW_MS < t) past) < RATE_LIMIT
           then past @ [now] else past) (insert uuid used)
           (snd (sliding_window RATE_LIMIT_WINDOW_MS RATE_LIMIT uuid now z))"
proof -
  let ?w = RATE_LIMIT_WINDOW_MS
  let ?recent = "filter (\<lambda>e. now - ?w < fst e) (zs_members z)"
  have rec: "filter (\<lambda>e. now - ?w < fst e) (members_at now z) = ?recent" by (rule mirrors_recent [OF m])
  have ms: "mset (map fst ?recent) = mset (filter (\<lambda>t. now - ?w < t) past)" using m by (simp add: mirrors_def)
  then have len: "length ?recent = length (filter (\<lambda>t. now - ?w < t) past)"
    by (metis length_map size_mset)
  have w: "0 < ?w" by (simp add: RATE_LIMIT_WINDOW_MS_def)
  show "(fst (fst (sliding_window ?w RATE_LIMIT uuid now z)) = 1) = ?ok"
    unfolding sliding_window_def Let_def rec len by (auto split: list.split)
  show "mirrors now (if ?ok then past @ [now] else past) (insert uuid used)
      (snd (sliding_window ?w RATE_LIMIT uuid now z))"
  proof (cases ?ok)
    case False
    then have "zs_members (snd (sliding_window ?w RATE_LIMIT uuid now z)) = ?recent"
      "zs_expires (snd (sliding_window ?w RATE_LIMIT uuid now z)) = zs_expires z"
      unfolding sliding_window_def Let_def rec len by (auto split: list.split)
    with m False show ?thesis
      by (auto simp: mirrors_def filter_later sorted_wrt_filter intro: sorted_filter [where f = "\<lambda>x. x", simplified])
  next
    case True
    have nodup: "filter (\<lambda>e. snd e \<noteq> uuid) ?recent = ?recent"
      by (rule iffD2 [OF filter_id_conv]) (use m fresh in \<open>auto simp: mirrors_def\<close>)
    have z': "snd (sliding_window ?w RATE_LIMIT uuid now z) =
        \<lparr>zs_members = insort (now, uuid) ?recent, zs_expires = Some (now + ?w)\<rparr>"
      using True unfolding sliding_window_def Let_def rec len zadd_def nodup by simp
    have sorted: "sorted ?recent"
      using m by (auto simp: mirrors_def intro: sorted_filter [where f = "\<lambda>x. x", simplified])
    have "filter (\<lambda>e. now - ?w < fst e) (insort (now, uuid) ?recent) = insort (now, uuid) ?recent"
      using w by (auto simp: filter_id_conv set_insort_key)
    moreover have "mset (map fst (insort (now, uuid) ?recent)) = add_mset now (mset (map fst ?recent))"
      by simp
    ultimately show ?thesis using True z' m ms w sorted
      by (auto simp: mirrors_def set_insort_key sorted_insort)
  qed
qed


lemma fst_hit:
  "rl_allowed (fst (hit True True now uuid client s)) =
     (fst (fst (sliding_window RATE_LIMIT_WINDOW_MS RATE_LIMIT uuid now (s (rateLimitKey client)))) = 1)"
  "snd (hit True True now uuid client s) (rateLimitKey client) =
     snd (sliding_window RATE_LIMIT_WINDOW_MS RATE_LIMIT uuid now (s (rateLimitKey client)))"
  by (simp_all add: hit_def split: prod.split)

lemma run_hits_reference:
  "mirrors now past used (s (rateLimitKey client)) \<Longrightarrow> sorted (now # map fst hs) \<Longrightarrow>
   distinct (map snd hs) \<Longrightarrow> set (map snd hs) \<inter> used = {} \<Longrightarrow>
   fst (run_hits client hs s) = reference_hits past (map fst hs)"
proof (induction hs arbitrary: now past used s)
  case (Cons h hs)
  obtain t u where h: "h = (t, u)" by fastforce
  let ?ok = "length (filter (\<lambda>x. t - RATE_LIMIT_WINDOW_MS < x) past) < RATE_LIMIT"
  obtain r s1 where r: "hit True True t u client s = (r, s1)" by fastforce
  have m: "mirrors t past used (s (rateLimitKey client))"
    using Cons.prems(1,2) by (auto simp: h intro: mirrors_later)
  have fresh: "u \<notin> used" using Cons.prems(4) by (auto simp: h)
  note step = sliding_window_step [OF m fresh]
  have ok: "rl_allowed r = ?ok" using step(1) fst_hit(1) [of t u client s] r by simp
  have "mirrors t (if ?ok then past @ [t] else past) (insert u used) (s1 (rateLimitKey client))"
    using step(2) fst_hit(2) [of t u client s] r by simp
  moreover have "sorted (t # map fst hs)" using Cons.prems(2) by (auto simp: h)
  moreover have "distinct (map snd hs)" "set (map snd hs) \<inter> insert u used = {}"
    using Cons.prems(3,4) by (auto simp: h)
  ultimately have "fst (run_hits client hs s1) = reference_hits (if ?ok then past @ [t] else past) (map fst hs)"
    by (rule Cons.IH)
  then show ?case
    by (cases "run_hits client hs s1") (simp add: h r ok Let_def)
qed simp

lemma no_hits_mirrors: "mirrors now [] {} (no_hits k)"
  by (simp add: mirrors_def no_hits_def)

text \<open>The instants of the allowed hits, and the bound on them.\<close>

fun allowed_at :: "int list \<Rightarrow> bool list \<Rightarrow> int list" where
  "allowed_at (t # ts) (b # bs) = (if b then t # allowed_at ts bs else allowed_at ts bs)"
| "allowed_at ts bs = []"

definition in_window :: "int \<Rightarrow> int \<Rightarrow> bool" where
  "in_window T t \<longleftrightarrow> T - RATE_LIMIT_WINDOW_MS < t \<and> t \<le> T"

lemma allowed_at_subset: "set (allowed_at ts bs) \<subseteq> set ts"
  by (induction ts bs rule: allowed_at.induct) auto

lemma reference_bound:
  "sorted ts \<Longrightarrow> \<forall>p \<in> set past. \<forall>t \<in> set ts. p \<le> t \<Longrightarrow> length (filter (in_window T) past) \<le> RATE_LIMIT \<Longrightarrow>
   length (filter (in_window T) (past @ allowed_at ts (reference_hits past ts))) \<le> RATE_LIMIT"
proof (induction ts arbitrary: past)
  case (Cons t ts)
  let ?ok = "length (filter (\<lambda>x. t - RATE_LIMIT_WINDOW_MS < x) past) < RATE_LIMIT"
  have rest: "sorted ts" using Cons.prems(1) by simp
  show ?case
  proof (cases ?ok)
    case False
    have "\<forall>p \<in> set past. \<forall>x \<in> set ts. p \<le> x" using Cons.prems(2) by simp
    from Cons.IH [OF rest this Cons.prems(3)] False show ?thesis by (simp add: Let_def)
  next
    case True
    have le: "\<forall>p \<in> set (past @ [t]). \<forall>x \<in> set ts. p \<le> x" using Cons.prems(1,2) by auto
    have "length (filter (in_window T) (past @ [t])) \<le> RATE_LIMIT"
    proof (cases "in_window T t")
      case True
      have "in_window T x \<Longrightarrow> t - RATE_LIMIT_WINDOW_MS < x" for x using True by (auto simp: in_window_def)
      then have "filter (in_window T) past = filter (in_window T) (filter (\<lambda>x. t - RATE_LIMIT_WINDOW_MS < x) past)"
        by (auto intro!: filter_cong)
      then have "length (filter (in_window T) past) \<le> length (filter (\<lambda>x. t - RATE_LIMIT_WINDOW_MS < x) past)"
        by (metis length_filter_le)
      with \<open>?ok\<close> show ?thesis by simp
    next
      case False
      with Cons.prems(3) show ?thesis by simp
    qed
    from Cons.IH [OF rest le this] True show ?thesis by (simp add: Let_def)
  qed
qed simp

section \<open>Properties\<close>

text \<open>
  C17: on every run the script decides as the reference does: a hit is allowed exactly when fewer
  than 10 hits of the client were allowed in the 10 seconds before it; dropping old scores and
  expiring the key never change an answer.
\<close>

theorem sliding_window_exact:
  assumes "sorted (map fst hs)" and "distinct (map snd hs)"
  shows "fst (run_hits client hs no_hits) = reference_hits [] (map fst hs)"
proof (cases hs)
  case (Cons h t)
  have "sorted (fst h # map fst hs)" using assms(1) by (simp add: Cons)
  from run_hits_reference [OF no_hits_mirrors this assms(2)] show ?thesis by simp
qed simp

theorem sliding_window_exact_witness:
  "fst (run_hits ''c'' [(1, ''a''), (2, ''b'')] no_hits) = reference_hits [] [1, 2]"
  using sliding_window_exact [of "[(1, ''a''), (2, ''b'')]" "''c''"] by simp

text \<open>
  C18: however a client spaces its requests, no window of 10 seconds contains more than 10 allowed
  ones.
\<close>

theorem rate_limit_bound:
  assumes "sorted (map fst hs)" and "distinct (map snd hs)"
  shows "length (filter (in_window T) (allowed_at (map fst hs) (fst (run_hits client hs no_hits)))) \<le> 10"
  using reference_bound [OF assms(1), of "[]" T] run_hits_reference [of "fst (hd hs)" "[]" "{}" no_hits client hs]
    assms no_hits_mirrors
  by (cases hs) (simp_all add: RATE_LIMIT_def)

definition burst :: "(int \<times> string) list" where
  "burst = map (\<lambda>i. (int i, replicate i CHR ''x'')) [0 ..< 12]"

theorem rate_limit_bound_witness:
  "length (filter (in_window 9000) (allowed_at (map fst burst) (fst (run_hits ''c'' burst no_hits)))) = 10 \<and>
   length (filter (in_window 9000) (allowed_at (map fst burst) (fst (run_hits ''c'' burst no_hits)))) \<le> 10"
proof
  show "length (filter (in_window 9000) (allowed_at (map fst burst) (fst (run_hits ''c'' burst no_hits)))) = 10"
    by code_simp
  have "sorted (map fst burst)" "distinct (map snd burst)" by code_simp+
  then show "length (filter (in_window 9000) (allowed_at (map fst burst) (fst (run_hits ''c'' burst no_hits)))) \<le> 10"
    by (rule rate_limit_bound)
qed

end
