(* ===== verification/Auth.thy ===== *)
theory Auth
  imports Messaging Checkout
begin

text \<open>
  Passwords, logins, refresh token rotation and logout: \<open>src/auth/password.ts\<close>,
  \<open>src/auth/auth.service.ts\<close>, the refresh half of \<open>src/auth/token.service.ts\<close> and the cleanup of
  \<open>src/auth/auth-maintenance.ts\<close>. Key derivation, base64, the HMAC, the signing of access tokens
  and the denylist are parameters.
\<close>

section \<open>Passwords\<close>

fun split_on :: "char \<Rightarrow> string \<Rightarrow> string list" where
  "split_on c [] = [[]]"
| "split_on c (x # xs) = (if x = c then [] # split_on c xs
     else (case split_on c xs of [] \<Rightarrow> [[x]] | y # ys \<Rightarrow> (x # y) # ys))"

record scrypt_ops =
  sc_derive :: "string \<Rightarrow> string \<Rightarrow> string"
  sc_encode :: "string \<Rightarrow> string"
  sc_decode :: "string \<Rightarrow> string"

definition hashPassword :: "scrypt_ops \<Rightarrow> string \<Rightarrow> string \<Rightarrow> string" where
  "hashPassword ops salt password =
     ''scrypt'' @ '':'' @ sc_encode ops salt @ '':'' @ sc_encode ops (sc_derive ops password salt)"

text \<open>
  The destructuring takes the first three parts and leaves missing ones undefined, which is falsy
  like the empty string.
\<close>

definition verifyPassword :: "scrypt_ops \<Rightarrow> string \<Rightarrow> string \<Rightarrow> bool" where
  "verifyPassword ops password stored =
     (case split_on (CHR '':'') stored of
        scheme # salt # key # _ \<Rightarrow>
          if scheme \<noteq> ''scrypt'' \<or> salt = [] \<or> key = [] then False
          else (let expected = sc_decode ops key; actual = sc_derive ops password (sc_decode ops salt)
                in length actual = length expected \<and> actual = expected)
      | _ \<Rightarrow> False)"

section \<open>Tokens\<close>

definition ACCESS_TOKEN_TTL_SECONDS :: int where "ACCESS_TOKEN_TTL_SECONDS = 600"
definition REFRESH_TOKEN_TTL_SECONDS :: int where "REFRESH_TOKEN_TTL_SECONDS = 604800"

record TokenPair =
  tp_accessToken :: string
  tp_expiresIn :: int
  tp_refreshToken :: string

record AuthenticatedUser =
  au_id :: string
  au_role :: UserRole
  au_sessionId :: string
  au_tokenId :: string
  au_expiresAt :: int

datatype RotationOutcome =
    rotated nat UserRole string string
  | reused nat string
  | rotation_invalid

text \<open>
  What one call draws: the database's \<open>now()\<close> (microseconds), \<open>Date.now()\<close> (milliseconds), the
  row id, a family id, the 32 random bytes as text and a token id.
\<close>

record auth_env =
  ae_now :: int
  ae_clock :: int
  ae_rowId :: string
  ae_family :: string
  ae_secret :: string
  ae_jti :: string

text \<open>The HMAC under the pepper, the signature of an access token, and the denylist's write.\<close>

record 'r auth_ops =
  ao_hmac :: "string \<Rightarrow> string"
  ao_sign :: "UserRole \<Rightarrow> string \<Rightarrow> string \<Rightarrow> string \<Rightarrow> string result"
  ao_revokeSession :: "string \<Rightarrow> 'r \<Rightarrow> unit result \<times> 'r"
  ao_logout :: "string \<Rightarrow> int \<Rightarrow> string \<Rightarrow> 'r \<Rightarrow> unit result \<times> 'r"

definition hashRefresh :: "'r auth_ops \<Rightarrow> string \<Rightarrow> string" where
  "hashRefresh ops refreshToken = ao_hmac ops refreshToken"

definition issueRefresh :: "'r auth_ops \<Rightarrow> string \<Rightarrow> string \<times> string" where
  "issueRefresh ops secret = (secret, hashRefresh ops secret)"

definition signAccess :: "'r auth_ops \<Rightarrow> string \<Rightarrow> nat \<Rightarrow> UserRole \<Rightarrow> string \<Rightarrow> (string \<times> int) result" where
  "signAccess ops jti userId role sessionId =
     (case ao_sign ops role sessionId (dec userId) jti of
        Inl e \<Rightarrow> Inl e | Inr token \<Rightarrow> Inr (token, ACCESS_TOKEN_TTL_SECONDS))"

definition pair_tokens :: "'r auth_ops \<Rightarrow> string \<Rightarrow> nat \<Rightarrow> UserRole \<Rightarrow> string \<Rightarrow> string \<Rightarrow> TokenPair result" where
  "pair_tokens ops jti userId role familyId refreshToken =
     (case signAccess ops jti userId role familyId of
        Inl e \<Rightarrow> Inl e
      | Inr (access, expires) \<Rightarrow>
          Inr \<lparr>tp_accessToken = access, tp_expiresIn = expires, tp_refreshToken = refreshToken\<rparr>)"

definition refreshExpiresAt :: "int \<Rightarrow> int" where
  "refreshExpiresAt clock = (clock + REFRESH_TOKEN_TTL_SECONDS * 1000) * 1000"

definition insert_refresh :: "auth_env \<Rightarrow> nat \<Rightarrow> string \<Rightarrow> string \<Rightarrow> (db, unit) action" where
  "insert_refresh env userId familyId tokenHash d =
     (if list_ex (\<lambda>t. t_id t = ae_rowId env) (refreshTokens d)
        then (Inl (violation ''23505'' ''PK_7d8bee0204106019488c4c50ffa''), d)
      else if list_ex (\<lambda>t. t_tokenHash t = tokenHash) (refreshTokens d)
        then (Inl (violation ''23505'' ''refresh_tokens_token_hash_key''), d)
      else if \<not> list_ex (\<lambda>u. u_id u = userId) (users d)
        then (Inl (violation ''23503'' ''FK_3ddc983c5f7bcf132fd8732c3f4''), d)
      else (Inr (), d\<lparr>refreshTokens := refreshTokens d @
        [\<lparr>t_id = ae_rowId env, t_userId = userId, t_familyId = familyId, t_tokenHash = tokenHash,
          t_expiresAt = refreshExpiresAt (ae_clock env), t_usedAt = None, t_revokedAt = None,
          t_createdAt = ae_now env\<rparr>]\<rparr>))"

section \<open>Login\<close>

text \<open>A missing user or hash is compared with the dummy hash, and fails whatever the result.\<close>

definition login ::
  "'r auth_ops \<Rightarrow> scrypt_ops \<Rightarrow> string \<Rightarrow> auth_env \<Rightarrow> string \<Rightarrow> string \<Rightarrow> (db, TokenPair) action" where
  "login ops sc dummyHash env email password d =
     (let user = select_one (\<lambda>u. u_email u = toLowerCase email) (users d);
          stored = (case user of None \<Rightarrow> dummyHash
                    | Some u \<Rightarrow> (case u_passwordHash u of None \<Rightarrow> dummyHash | Some h \<Rightarrow> h));
          valid = verifyPassword sc password stored
      in case user of
           None \<Rightarrow> (Inl InvalidCredentialsError, d)
         | Some u \<Rightarrow>
             if u_passwordHash u = None \<or> u_passwordHash u = Some [] \<or> \<not> valid
             then (Inl InvalidCredentialsError, d)
             else (case issueRefresh ops (ae_secret env) of (refreshToken, tokenHash) \<Rightarrow>
               (case insert_refresh env (u_id u) (ae_family env) tokenHash d of
                  (Inl e, d') \<Rightarrow> (Inl e, d')
                | (Inr _, d') \<Rightarrow>
                    (pair_tokens ops (ae_jti env) (u_id u) (u_role u) (ae_family env) refreshToken, d'))))"

section \<open>Rotation\<close>

definition family_revoked :: "string \<Rightarrow> RefreshToken list \<Rightarrow> bool" where
  "family_revoked f ts \<longleftrightarrow> list_ex (\<lambda>s. t_familyId s = f \<and> t_revokedAt s \<noteq> None) ts"

definition usable :: "int \<Rightarrow> string \<Rightarrow> RefreshToken list \<Rightarrow> RefreshToken \<Rightarrow> bool" where
  "usable now tokenHash ts t \<longleftrightarrow> t_tokenHash t = tokenHash \<and> t_usedAt t = None \<and> t_revokedAt t = None \<and>
     now < t_expiresAt t \<and> \<not> family_revoked (t_familyId t) ts"

definition revoke_family :: "int \<Rightarrow> string \<Rightarrow> db \<Rightarrow> db" where
  "revoke_family now familyId d = d\<lparr>refreshTokens :=
     update_where (\<lambda>t. t_familyId t = familyId \<and> t_revokedAt t = None)
       (\<lambda>t. t\<lparr>t_revokedAt := Some now\<rparr>) (refreshTokens d)\<rparr>"

definition rotate :: "'r auth_ops \<Rightarrow> auth_env \<Rightarrow> string \<Rightarrow> (db, RotationOutcome) action" where
  "rotate ops env tokenHash d =
     (let P = usable (ae_now env) tokenHash (refreshTokens d);
          d1 = d\<lparr>refreshTokens := update_where P (\<lambda>t. t\<lparr>t_usedAt := Some (ae_now env)\<rparr>) (refreshTokens d)\<rparr>
      in case select_one P (refreshTokens d) of
           Some row \<Rightarrow>
             (case select_one (\<lambda>u. u_id u = t_userId row) (users d1) of
                None \<Rightarrow> (Inl (Foreign ''EntityNotFoundError''), d1)
              | Some owner \<Rightarrow>
                  (case issueRefresh ops (ae_secret env) of (refreshToken, nextHash) \<Rightarrow>
                    andThen (insert_refresh env (u_id owner) (t_familyId row) nextHash)
                      (\<lambda>_. return (rotated (u_id owner) (u_role owner) (t_familyId row) refreshToken)) d1))
         | None \<Rightarrow>
             (case select_one (\<lambda>t. t_tokenHash t = tokenHash) (refreshTokens d1) of
                None \<Rightarrow> (Inr rotation_invalid, d1)
              | Some known \<Rightarrow>
                  if t_usedAt known = None \<or> t_revokedAt known \<noteq> None then (Inr rotation_invalid, d1)
                  else (Inr (reused (t_userId known) (t_familyId known)),
                        revoke_family (ae_now env) (t_familyId known) d1)))"

text \<open>A failing denylist write is logged; the database already holds the revocation.\<close>

definition refresh :: "'r auth_ops \<Rightarrow> auth_env \<Rightarrow> string \<Rightarrow> (db \<times> 'r, TokenPair) action" where
  "refresh ops env presented s =
     (case transaction (rotate ops env (hashRefresh ops presented)) (fst s) of
        (Inl e, d) \<Rightarrow> (Inl e, (d, snd s))
      | (Inr outcome, d) \<Rightarrow>
          (case outcome of
             rotated userId role familyId refreshToken \<Rightarrow>
               (pair_tokens ops (ae_jti env) userId role familyId refreshToken, (d, snd s))
           | reused userId familyId \<Rightarrow>
               (Inl InvalidRefreshTokenError, (d, snd (ao_revokeSession ops familyId (snd s))))
           | rotation_invalid \<Rightarrow> (Inl InvalidRefreshTokenError, (d, snd s))))"

definition logout :: "'r auth_ops \<Rightarrow> auth_env \<Rightarrow> AuthenticatedUser \<Rightarrow> (db \<times> 'r, unit) action" where
  "logout ops env user s =
     (case ao_logout ops (au_tokenId user) (au_expiresAt user) (au_sessionId user) (snd s) of
        (r, r') \<Rightarrow> (r, (revoke_family (ae_now env) (au_sessionId user) (fst s), r')))"

section \<open>Cleanup\<close>

definition REFRESH_TOKENS_CLEANUP_BATCH :: nat where "REFRESH_TOKENS_CLEANUP_BATCH = 1000"

definition family_expired :: "int \<Rightarrow> RefreshToken list \<Rightarrow> RefreshToken \<Rightarrow> bool" where
  "family_expired now ts t \<longleftrightarrow> t_expiresAt t < now \<and>
     \<not> list_ex (\<lambda>l. t_familyId l = t_familyId t \<and> now \<le> t_expiresAt l) ts"

definition delete_expired :: "int \<Rightarrow> nat \<Rightarrow> RefreshToken list \<Rightarrow> nat \<times> RefreshToken list" where
  "delete_expired now batchSize ts = delete_some (family_expired now ts) batchSize ts"

definition cleanupExpiredRefreshTokens :: "nat \<Rightarrow> int \<Rightarrow> nat \<Rightarrow> db \<Rightarrow> (nat \<times> db) option" where
  "cleanupExpiredRefreshTokens fuel now batchSize d =
     map_option (\<lambda>(ks, ts). (sum_list ks, d\<lparr>refreshTokens := ts\<rparr>))
       (repeat_until fuel (delete_expired now batchSize) (\<lambda>affected. affected < batchSize) (refreshTokens d))"

end
