(* ===== verification/Denylist.thy ===== *)
theory Denylist
  imports Auth
begin

text \<open>
  The denylist of access tokens (\<open>src/auth/access-denylist.ts\<close>), the query and the sync task that
  restore it from Postgres (\<open>src/auth/auth-maintenance.ts\<close>). Redis is a parameter: the commands
  change a store the code cannot see into, and their replies are inputs.
\<close>

section \<open>Redis\<close>

text \<open>
  \<open>SET key '1' EX ttl [NX]\<close> at a time in microseconds, \<open>EXISTS\<close>, and the expiry time of a key
  (what \<open>PEXPIRETIME\<close> would report).
\<close>

record 'r redis_ops =
  rd_set :: "bool \<Rightarrow> string \<Rightarrow> int \<Rightarrow> int \<Rightarrow> 'r \<Rightarrow> 'r"
  rd_exists :: "string list \<Rightarrow> int \<Rightarrow> 'r \<Rightarrow> nat"
  rd_expiry :: "string \<Rightarrow> 'r \<Rightarrow> int option"

type_synonym set_command = "bool \<times> string \<times> int"

definition run_sets :: "'r redis_ops \<Rightarrow> int \<Rightarrow> set_command list \<Rightarrow> 'r \<Rightarrow> 'r" where
  "run_sets ops now cmds r = foldl (\<lambda>r (nx, k, ttl). rd_set ops nx k ttl now r) r cmds"

section \<open>The class\<close>

record RevokedSession =
  rs_sessionId :: string
  rs_ttlSeconds :: int

record AccessDenylist =
  dl_synced :: bool
  dl_generation :: nat

definition new_denylist :: AccessDenylist where
  "new_denylist = \<lparr>dl_synced = False, dl_generation = 0\<rparr>"

definition deniedTokenKey :: "string \<Rightarrow> string" where
  "deniedTokenKey tokenId = ''auth:denied-jti:'' @ tokenId"

definition revokedSessionKey :: "string \<Rightarrow> string" where
  "revokedSessionKey sessionId = ''auth:revoked-sid:'' @ sessionId"

definition throwOnFailure :: "js_error option list option \<Rightarrow> unit result" where
  "throwOnFailure results = (case results of
     None \<Rightarrow> Inl (PlainError ''denylist transaction was discarded'')
   | Some rs \<Rightarrow> (case find (\<lambda>r. r \<noteq> None) rs of
       Some (Some e) \<Rightarrow> Inl e | _ \<Rightarrow> Inr ()))"

definition syncPoint :: "AccessDenylist \<Rightarrow> nat" where
  "syncPoint d = dl_generation d"

definition markOutOfSync :: "AccessDenylist \<Rightarrow> AccessDenylist" where
  "markOutOfSync d = d\<lparr>dl_synced := False, dl_generation := dl_generation d + 1\<rparr>"

definition denylist_write :: "unit result \<Rightarrow> (AccessDenylist, unit) action" where
  "denylist_write operation d = (case operation of
     Inr _ \<Rightarrow> (Inr (), d) | Inl e \<Rightarrow> (Inl e, markOutOfSync d))"

text \<open>The commands of a logout, and what its \<open>exec\<close> answers.\<close>

definition logout_commands :: "int \<Rightarrow> string \<Rightarrow> int \<Rightarrow> string \<Rightarrow> set_command list" where
  "logout_commands clock tokenId expiresAt sessionId =
     (let ttlSeconds = expiresAt - clock div 1000
      in (False, revokedSessionKey sessionId, ACCESS_TOKEN_TTL_SECONDS) #
         (if 0 < ttlSeconds then [(False, deniedTokenKey tokenId, ttlSeconds)] else []))"

type_synonym exec_reply = "js_error option list option result"

definition checked :: "exec_reply \<Rightarrow> unit result" where
  "checked reply = (case reply of Inl e \<Rightarrow> Inl e | Inr results \<Rightarrow> throwOnFailure results)"

definition denylist_logout :: "exec_reply \<Rightarrow> (AccessDenylist, unit) action" where
  "denylist_logout reply = denylist_write (checked reply)"

definition revoke_commands :: "string \<Rightarrow> set_command list" where
  "revoke_commands sessionId = [(False, revokedSessionKey sessionId, ACCESS_TOKEN_TTL_SECONDS)]"

definition denylist_revokeSession :: "unit result \<Rightarrow> (AccessDenylist, unit) action" where
  "denylist_revokeSession reply = denylist_write reply"

definition restore_commands :: "RevokedSession list \<Rightarrow> set_command list" where
  "restore_commands sessions =
     map (\<lambda>s. (True, revokedSessionKey (rs_sessionId s), rs_ttlSeconds s)) sessions"

definition restoreRevokedSessions ::
  "RevokedSession list \<Rightarrow> nat \<Rightarrow> exec_reply \<Rightarrow> (AccessDenylist, unit) action" where
  "restoreRevokedSessions sessions since reply =
     andThen (if sessions \<noteq> [] then denylist_write (checked reply) else return ())
       (\<lambda>_ d. (Inr (), if dl_generation d = since then d\<lparr>dl_synced := True\<rparr> else d))"

text \<open>The reply to \<open>EXISTS\<close> is the number of the keys that exist, or an error.\<close>

definition isDenied :: "nat result \<Rightarrow> AccessDenylist \<Rightarrow> bool result" where
  "isDenied reply d = (if \<not> dl_synced d then Inl DenylistOutOfSyncError
     else (case reply of Inl e \<Rightarrow> Inl e | Inr n \<Rightarrow> Inr (0 < n)))"

section \<open>The sync with Postgres\<close>

definition ttl_us :: int where "ttl_us = ACCESS_TOKEN_TTL_SECONDS * 1000000"

definition recently_revoked :: "int \<Rightarrow> RefreshToken \<Rightarrow> bool" where
  "recently_revoked now t \<longleftrightarrow> (case t_revokedAt t of None \<Rightarrow> False | Some r \<Rightarrow> now - ttl_us < r)"

definition last_revoked :: "string \<Rightarrow> RefreshToken list \<Rightarrow> int" where
  "last_revoked f ts = Max (set (map (\<lambda>t. the (t_revokedAt t)) (filter (\<lambda>t. t_familyId t = f) ts)))"

definition ceil_sql :: "int \<Rightarrow> int" where
  "ceil_sql us = - ((- us) div 1000000)"

definition findRecentlyRevokedSessions :: "int \<Rightarrow> db \<Rightarrow> RevokedSession list" where
  "findRecentlyRevokedSessions now d =
     (let rows = filter (recently_revoked now) (refreshTokens d)
      in map (\<lambda>f. \<lparr>rs_sessionId = f, rs_ttlSeconds = ceil_sql (last_revoked f rows + ttl_us - now)\<rparr>)
           (remdups (map t_familyId rows)))"

text \<open>
  \<open>syncRevokedSessions\<close>, when nothing else happens in between; the replies of the database and of
  Redis are inputs. The interleaved version is the step relation of \<open>Denylist_Theorems\<close>.
\<close>

definition syncRevokedSessions :: "RevokedSession list result \<Rightarrow> exec_reply \<Rightarrow> (AccessDenylist, unit) action" where
  "syncRevokedSessions sessions reply d =
     (let since = syncPoint d in
      case sessions of Inl e \<Rightarrow> (Inl e, d) | Inr rows \<Rightarrow> restoreRevokedSessions rows since reply d)"

end
