(* ===== verification/Access.thy ===== *)
theory Access
  imports Denylist
begin

text \<open>
  Access tokens on the way in: the verification keys (\<open>src/auth/verification-keys.ts\<close>), the verifying
  half of \<open>src/auth/token.service.ts\<close>, \<open>src/auth/access-authenticator.ts\<close> and the two guards
  (\<open>src/auth/auth.guard.ts\<close>, \<open>src/auth/roles.guard.ts\<close>). Decoding and verifying a JWT are parameters.
\<close>

section \<open>Verification keys\<close>

text \<open>A JavaScript \<open>Map\<close> in insertion order; \<open>set\<close> on a key that exists replaces its value.\<close>

definition map_get :: "string \<Rightarrow> (string \<times> 'v) list \<Rightarrow> 'v option" where
  "map_get k m = map_option snd (find (\<lambda>e. fst e = k) m)"

definition map_set :: "string \<Rightarrow> 'v \<Rightarrow> (string \<times> 'v) list \<Rightarrow> (string \<times> 'v) list" where
  "map_set k v m = (if list_ex (\<lambda>e. fst e = k) m then map (\<lambda>e. if fst e = k then (k, v) else e) m else m @ [(k, v)])"

record key_config =
  kc_kid :: string
  kc_publicKey :: string
  kc_previousKid :: "string option"
  kc_previousPublicKey :: "string option"

definition truthy :: "string option \<Rightarrow> bool" where
  "truthy s \<longleftrightarrow> (case s of None \<Rightarrow> False | Some t \<Rightarrow> t \<noteq> [])"

definition verificationKeysFromConfig :: "(string \<Rightarrow> string) \<Rightarrow> key_config \<Rightarrow> (string \<times> string) list" where
  "verificationKeysFromConfig pemFromBase64 c =
     (let keys = [(kc_kid c, pemFromBase64 (kc_publicKey c))]
      in if truthy (kc_previousKid c) \<and> truthy (kc_previousPublicKey c)
         then map_set (the (kc_previousKid c)) (pemFromBase64 (the (kc_previousPublicKey c))) keys else keys)"

section \<open>Verifying an access token\<close>

record AccessClaims =
  ac_sub :: string
  ac_role :: UserRole
  ac_sid :: string
  ac_jti :: string
  ac_iat :: int
  ac_exp :: int

text \<open>
  \<open>jwt.decode\<close> with its \<open>kid\<close>: not a token, a \<open>kid\<close> that is no string, or a string. \<open>jwt.verifyAsync\<close>
  takes the token, the key and the clock in milliseconds.
\<close>

datatype kid_header = KidMissing | KidOther string | KidString string

record jwt_ops =
  jo_kid :: "string \<Rightarrow> kid_header"
  jo_verify :: "string \<Rightarrow> string \<Rightarrow> int \<Rightarrow> AccessClaims result"

definition verifyAccess ::
  "jwt_ops \<Rightarrow> (string \<times> string) list \<Rightarrow> int \<Rightarrow> string \<Rightarrow> AccessClaims result" where
  "verifyAccess jwt keys clock token =
     (let publicKey = (case jo_kid jwt token of KidString k \<Rightarrow> map_get k keys | _ \<Rightarrow> None)
      in if \<not> truthy publicKey
         then Inl (PlainError (''Access token is signed with an unknown key '' @ [CHR 0x27] @
           (case jo_kid jwt token of KidString k \<Rightarrow> k | KidOther t \<Rightarrow> t | KidMissing \<Rightarrow> ''undefined'') @ [CHR 0x27]))
         else jo_verify jwt token (the publicKey) clock)"

section \<open>The authenticator\<close>

definition verify_token :: "AccessClaims result \<Rightarrow> AccessClaims result" where
  "verify_token r = (case r of Inl e \<Rightarrow> Inl (AccessTokenRejectedError ''Access token is invalid or expired'') | Inr c \<Rightarrow> Inr c)"

definition checked_denial :: "bool result \<Rightarrow> bool result" where
  "checked_denial r = (case r of Inl e \<Rightarrow> Inl RevocationCheckUnavailableError | Inr b \<Rightarrow> Inr b)"

text \<open>The denylist's answer is a function of the token id and the session id.\<close>

definition authenticate ::
  "AccessClaims result \<Rightarrow> (string \<Rightarrow> string \<Rightarrow> bool result) \<Rightarrow> AuthenticatedUser result" where
  "authenticate verified denied =
     (case verify_token verified of
        Inl e \<Rightarrow> Inl e
      | Inr claims \<Rightarrow>
          (case checked_denial (denied (ac_jti claims) (ac_sid claims)) of
             Inl e \<Rightarrow> Inl e
           | Inr True \<Rightarrow> Inl (AccessTokenRejectedError ''Access token has been revoked'')
           | Inr False \<Rightarrow> Inr \<lparr>au_id = ac_sub claims, au_role = ac_role claims, au_sessionId = ac_sid claims,
               au_tokenId = ac_jti claims, au_expiresAt = ac_exp claims\<rparr>))"

definition isStillValid :: "int \<Rightarrow> (string \<Rightarrow> string \<Rightarrow> bool result) \<Rightarrow> AuthenticatedUser \<Rightarrow> bool" where
  "isStillValid clock denied user =
     (if au_expiresAt user \<le> clock div 1000 then False
      else (case denied (au_tokenId user) (au_sessionId user) of Inl e \<Rightarrow> False | Inr b \<Rightarrow> \<not> b))"

section \<open>Guards\<close>

text \<open>
  \<open>/^Bearer ([A-Za-z0-9_-]+\.[A-Za-z0-9_-]+\.[A-Za-z0-9_-]*)$/\<close> on the header, missing read as empty.
\<close>

definition url_char :: "char \<Rightarrow> bool" where
  "url_char c \<longleftrightarrow> (let n = (of_char c :: nat) in 65 \<le> n \<and> n \<le> 90 \<or> 97 \<le> n \<and> n \<le> 122 \<or> 48 \<le> n \<and> n \<le> 57 \<or>
     n = 95 \<or> n = 45)"

definition bearer :: "string option \<Rightarrow> string option" where
  "bearer header = (case header of None \<Rightarrow> None | Some h \<Rightarrow>
     if take 7 h = ''Bearer '' then
       (case split_on (CHR ''.'') (drop 7 h) of
          [a, b, c] \<Rightarrow> if a \<noteq> [] \<and> b \<noteq> [] \<and> list_all url_char a \<and> list_all url_char b \<and> list_all url_char c
            then Some (drop 7 h) else None
        | _ \<Rightarrow> None)
     else None)"

definition BEARER_REQUIRED :: string where
  "BEARER_REQUIRED = ''Authorization header with a Bearer access token is required''"

text \<open>The messages of the error classes, as \<open>error.message\<close> reads them.\<close>

definition REVOCATION_UNAVAILABLE :: string where
  "REVOCATION_UNAVAILABLE = ''Token revocation status cannot be checked, retry later''"

definition auth_guard :: "string option \<Rightarrow> (string \<Rightarrow> AuthenticatedUser result) \<Rightarrow> AuthenticatedUser result" where
  "auth_guard header auth =
     (case bearer header of
        None \<Rightarrow> Inl (HttpException 401 BEARER_REQUIRED)
      | Some token \<Rightarrow>
          (case auth token of
             Inr user \<Rightarrow> Inr user
           | Inl (AccessTokenRejectedError msg) \<Rightarrow> Inl (HttpException 401 msg)
           | Inl RevocationCheckUnavailableError \<Rightarrow> Inl (HttpException 503 REVOCATION_UNAVAILABLE)
           | Inl e \<Rightarrow> Inl e))"

text \<open>The roles a handler asks for are its metadata; without metadata, or with none, all pass.\<close>

definition roles_guard :: "UserRole list option \<Rightarrow> AuthenticatedUser option \<Rightarrow> bool result" where
  "roles_guard allowed user =
     (case allowed of None \<Rightarrow> Inr True | Some [] \<Rightarrow> Inr True
      | Some roles \<Rightarrow>
          (case user of
             None \<Rightarrow> Inl (HttpException 401 BEARER_REQUIRED)
           | Some u \<Rightarrow>
               if au_role u \<notin> set roles
               then Inl (HttpException 403 (''Role '' @ [CHR 0x27] @ role_text (au_role u) @ [CHR 0x27] @
                 '' is not allowed to perform this action''))
               else Inr True))"

end
