(* ===== verification/Auth_Theorems.thy ===== *)
theory Auth_Theorems
  imports Auth Messaging_Theorems
begin

text \<open>
  Sessions over time: logins, rotations, logouts and the cleanup as steps of a labelled transition
  relation. A refresh token rotates once, a family has one live token, a family that was logged
  out or in which a token was presented twice never gets another token.
\<close>

section \<open>Rotation, case by case\<close>

text \<open>What \<open>insert_refresh\<close> leaves.\<close>

definition new_token :: "auth_env \<Rightarrow> nat \<Rightarrow> string \<Rightarrow> string \<Rightarrow> RefreshToken" where
  "new_token env userId familyId tokenHash = \<lparr>t_id = ae_rowId env, t_userId = userId, t_familyId = familyId,
     t_tokenHash = tokenHash, t_expiresAt = refreshExpiresAt (ae_clock env), t_usedAt = None,
     t_revokedAt = None, t_createdAt = ae_now env\<rparr>"

lemma new_token_simps [simp]:
  "t_tokenHash (new_token env u f h) = h" "t_familyId (new_token env u f h) = f"
  "t_usedAt (new_token env u f h) = None" "t_revokedAt (new_token env u f h) = None"
  "t_expiresAt (new_token env u f h) = refreshExpiresAt (ae_clock env)" "t_userId (new_token env u f h) = u"
  "t_id (new_token env u f h) = ae_rowId env"
  by (simp_all add: new_token_def)

lemma insert_refresh_cases:
  assumes "insert_refresh env u f h d = (r, d')"
  shows "(\<exists>e. r = Inl e) \<and> d' = d \<or>
    r = Inr () \<and> h \<notin> t_tokenHash ` set (refreshTokens d) \<and>
      d' = d\<lparr>refreshTokens := refreshTokens d @ [new_token env u f h]\<rparr>"
  using assms by (auto simp: insert_refresh_def new_token_def split: if_splits)

lemma insert_refresh_ok:
  assumes "ae_rowId env \<notin> t_id ` set (refreshTokens d)" and "h \<notin> t_tokenHash ` set (refreshTokens d)"
    and "u \<in> u_id ` set (users d)"
  shows "insert_refresh env u f h d = (Inr (), d\<lparr>refreshTokens := refreshTokens d @ [new_token env u f h]\<rparr>)"
  using assms by (simp add: insert_refresh_def new_token_def)

text \<open>The token table after the first statement of a rotation, and after a revocation.\<close>

definition mark_used :: "int \<Rightarrow> string \<Rightarrow> RefreshToken list \<Rightarrow> RefreshToken list" where
  "mark_used now h ts = update_where (usable now h ts) (\<lambda>t. t\<lparr>t_usedAt := Some now\<rparr>) ts"

definition revoke_rows :: "int \<Rightarrow> string \<Rightarrow> RefreshToken list \<Rightarrow> RefreshToken list" where
  "revoke_rows now f ts = update_where (\<lambda>t. t_familyId t = f \<and> t_revokedAt t = None)
     (\<lambda>t. t\<lparr>t_revokedAt := Some now\<rparr>) ts"

lemma revoke_family_rows [simp]: "refreshTokens (revoke_family now f d) = revoke_rows now f (refreshTokens d)"
  by (simp add: revoke_family_def revoke_rows_def)

lemma mark_used_hashes [simp]:
  "map t_tokenHash (mark_used now h ts) = map t_tokenHash ts"
  "t_tokenHash ` set (mark_used now h ts) = t_tokenHash ` set ts"
proof -
  show 1: "map t_tokenHash (mark_used now h ts) = map t_tokenHash ts"
    unfolding mark_used_def by (rule map_update_where) simp
  show "t_tokenHash ` set (mark_used now h ts) = t_tokenHash ` set ts"
    using arg_cong [OF 1, of set] by simp
qed

lemma revoke_rows_hashes [simp]:
  "map t_tokenHash (revoke_rows now f ts) = map t_tokenHash ts"
  "t_tokenHash ` set (revoke_rows now f ts) = t_tokenHash ` set ts"
proof -
  show 1: "map t_tokenHash (revoke_rows now f ts) = map t_tokenHash ts"
    unfolding revoke_rows_def by (rule map_update_where) simp
  show "t_tokenHash ` set (revoke_rows now f ts) = t_tokenHash ` set ts"
    using arg_cong [OF 1, of set] by simp
qed

lemma users_revoke_family [simp]: "users (revoke_family now f d) = users d"
  by (simp add: revoke_family_def)

text \<open>The branch a rotation takes, and the table it leaves.\<close>

lemma rotate_cases:
  assumes "rotate ops env h d = (r, d')"
  obtains
    (rotated) row owner where "row \<in> set (refreshTokens d)" "usable (ae_now env) h (refreshTokens d) row"
      "owner \<in> set (users d)" "u_id owner = t_userId row"
      "r = Inr (rotated (u_id owner) (u_role owner) (t_familyId row) (ae_secret env))"
      "hashRefresh ops (ae_secret env) \<notin> t_tokenHash ` set (refreshTokens d)"
      "d' = d\<lparr>refreshTokens := mark_used (ae_now env) h (refreshTokens d) @
         [new_token env (u_id owner) (t_familyId row) (hashRefresh ops (ae_secret env))]\<rparr>"
  | (failed) row e where "row \<in> set (refreshTokens d)" "usable (ae_now env) h (refreshTokens d) row"
      "r = Inl e" "d' = d\<lparr>refreshTokens := mark_used (ae_now env) h (refreshTokens d)\<rparr>"
  | (refused) "\<forall>t \<in> set (refreshTokens d). \<not> usable (ae_now env) h (refreshTokens d) t"
      "r = Inr rotation_invalid" "d' = d"
      "\<forall>t. select_one (\<lambda>t. t_tokenHash t = h) (refreshTokens d) = Some t \<longrightarrow> t_usedAt t = None \<or> t_revokedAt t \<noteq> None"
  | (reuse) known where "\<forall>t \<in> set (refreshTokens d). \<not> usable (ae_now env) h (refreshTokens d) t"
      "known \<in> set (refreshTokens d)" "t_tokenHash known = h" "t_usedAt known \<noteq> None" "t_revokedAt known = None"
      "r = Inr (reused (t_userId known) (t_familyId known))"
      "d' = revoke_family (ae_now env) (t_familyId known) d"
proof -
  let ?ts = "refreshTokens d" and ?P = "usable (ae_now env) h (refreshTokens d)"
  let ?d1 = "d\<lparr>refreshTokens := mark_used (ae_now env) h ?ts\<rparr>"
  show thesis
  proof (cases "select_one ?P ?ts")
    case None
    then have none: "\<forall>t \<in> set ?ts. \<not> ?P t" by (simp add: select_one_None)
    then have d1: "d\<lparr>refreshTokens := update_where ?P (\<lambda>t. t\<lparr>t_usedAt := Some (ae_now env)\<rparr>) ?ts\<rparr> = d"
      by (simp add: update_where_none)
    show thesis
    proof (cases "select_one (\<lambda>t. t_tokenHash t = h) ?ts")
      case None': None
      show thesis
        by (rule refused [OF none]) (use assms None None' d1 in \<open>auto simp: rotate_def Let_def\<close>)
    next
      case (Some known)
      then have k: "known \<in> set ?ts" "t_tokenHash known = h" by (auto dest: select_one_Some)
      show thesis
      proof (cases "t_usedAt known = None \<or> t_revokedAt known \<noteq> None")
        case True
        show thesis
          by (rule refused [OF none]) (use assms None Some d1 True in \<open>auto simp: rotate_def Let_def\<close>)
      next
        case False
        show thesis
          by (rule reuse [OF none k]) (use assms None Some d1 False in \<open>auto simp: rotate_def Let_def\<close>)
      qed
    qed
  next
    case (Some row)
    then have row: "row \<in> set ?ts" "?P row" by (auto dest: select_one_Some)
    show thesis
    proof (cases "select_one (\<lambda>u. u_id u = t_userId row) (users d)")
      case None
      show thesis
        by (rule failed [OF row]) (use assms Some None in \<open>auto simp: rotate_def Let_def mark_used_def\<close>)
    next
      case (Some owner)
      then have o: "owner \<in> set (users d)" "u_id owner = t_userId row" by (auto dest: select_one_Some)
      have r: "andThen (insert_refresh env (u_id owner) (t_familyId row) (hashRefresh ops (ae_secret env)))
          (\<lambda>_. return (rotated (u_id owner) (u_role owner) (t_familyId row) (ae_secret env))) ?d1 = (r, d')"
        using assms \<open>select_one ?P ?ts = Some row\<close> Some
        by (simp add: rotate_def Let_def mark_used_def issueRefresh_def)
      obtain q d2 where ins: "insert_refresh env (u_id owner) (t_familyId row) (hashRefresh ops (ae_secret env)) ?d1 = (q, d2)"
        by fastforce
      from insert_refresh_cases [OF ins] show thesis
      proof
        assume "(\<exists>e. q = Inl e) \<and> d2 = ?d1"
        then obtain e where "q = Inl e" "d2 = ?d1" by blast
        with ins r show thesis by (intro failed [OF row]) (auto simp: andThen_def)
      next
        assume q: "q = Inr () \<and> hashRefresh ops (ae_secret env) \<notin> t_tokenHash ` set (refreshTokens ?d1) \<and>
          d2 = ?d1\<lparr>refreshTokens := refreshTokens ?d1 @ [new_token env (u_id owner) (t_familyId row) (hashRefresh ops (ae_secret env))]\<rparr>"
        have "t_tokenHash ` set (refreshTokens ?d1) = t_tokenHash ` set ?ts" by simp
        with q ins r show thesis by (intro rotated [OF row o]) (auto simp: andThen_def)
      qed
    qed
  qed
qed

section \<open>Cleanup\<close>

lemma filter_filter_sub:
  assumes "\<And>r. P r \<Longrightarrow> Q r"
  shows "filter P (filter Q xs) = filter P xs"
  by (induction xs) (use assms in auto)

lemma family_expired_alt:
  "family_expired now ts t \<longleftrightarrow> t_expiresAt t < now \<and>
     (\<forall>l \<in> set (filter (\<lambda>t. now \<le> t_expiresAt t) ts). t_familyId l \<noteq> t_familyId t)"
  by (auto simp: family_expired_def list_ex_iff)

lemma family_expired_live:
  assumes "filter (\<lambda>t. now \<le> t_expiresAt t) ts' = filter (\<lambda>t. now \<le> t_expiresAt t) ts"
  shows "family_expired now ts' = family_expired now ts"
  by (rule ext) (simp add: family_expired_alt assms del: set_filter)

lemma cleanup_is_delete_all:
  "cleanupExpiredRefreshTokens fuel now batchSize d =
     map_option (\<lambda>(n, ts). (n, d\<lparr>refreshTokens := ts\<rparr>))
       (delete_all fuel (family_expired now (refreshTokens d)) batchSize (refreshTokens d))"
proof -
  let ?live = "filter (\<lambda>t. now \<le> t_expiresAt t)"
  let ?I = "\<lambda>ts. ?live ts = ?live (refreshTokens d)"
  have "repeat_until fuel (delete_expired now batchSize) (\<lambda>affected. affected < batchSize) (refreshTokens d) =
    repeat_until fuel (delete_some (family_expired now (refreshTokens d)) batchSize) (\<lambda>affected. affected < batchSize) (refreshTokens d)"
  proof (rule repeat_until_cong [where I = ?I])
    fix ts assume "?I ts"
    then have "family_expired now ts = family_expired now (refreshTokens d)" by (rule family_expired_live)
    then show "delete_expired now batchSize ts = delete_some (family_expired now (refreshTokens d)) batchSize ts"
      by (simp only: delete_expired_def)
  next
    fix ts k ts' assume I: "?I ts" and d: "delete_expired now batchSize ts = (k, ts')"
    from d have keep: "filter (\<lambda>t. \<not> family_expired now ts t) ts' = filter (\<lambda>t. \<not> family_expired now ts t) ts"
      unfolding delete_expired_def by (rule delete_some_spec(1))
    have "?live ts' = ?live (filter (\<lambda>t. \<not> family_expired now ts t) ts')"
      by (rule filter_filter_sub [symmetric]) (auto simp: family_expired_def)
    also have "\<dots> = ?live ts"
      unfolding keep by (rule filter_filter_sub) (auto simp: family_expired_def)
    finally show "?I ts'" using I by simp
  qed simp
  then show ?thesis
    by (simp add: cleanupExpiredRefreshTokens_def delete_all_def option.map_comp comp_def split_def)
qed

lemma cleanup_result:
  assumes "0 < batchSize" and "cleanupExpiredRefreshTokens fuel now batchSize d = Some (n, d')"
  shows "d' = d\<lparr>refreshTokens := filter (\<lambda>t. \<not> family_expired now (refreshTokens d) t) (refreshTokens d)\<rparr>"
proof -
  from assms(2) obtain ts where
    "delete_all fuel (family_expired now (refreshTokens d)) batchSize (refreshTokens d) = Some (n, ts)"
    and "d' = d\<lparr>refreshTokens := ts\<rparr>"
    by (auto simp: cleanup_is_delete_all)
  moreover from this(1) have "ts = filter (\<lambda>t. \<not> family_expired now (refreshTokens d) t) (refreshTokens d)"
    by (rule delete_all_result(2) [OF assms(1)])
  ultimately show ?thesis by simp
qed

section \<open>Sessions as a transition system\<close>

datatype auth_call =
    Login string string
  | Refresh string
  | Logout AuthenticatedUser
  | Cleanup nat

text \<open>
  The database, the denylist's store, the latest database time, and the families and token hashes
  drawn so far (drawn values are random and fresh).
\<close>

record 'r auth_state =
  as_db :: db
  as_redis :: 'r
  as_now :: int
  as_families :: "string set"
  as_hashes :: "string set"

definition draw_ok :: "'r auth_ops \<Rightarrow> auth_env \<Rightarrow> 'r auth_state \<Rightarrow> bool" where
  "draw_ok ops env s \<longleftrightarrow> as_now s \<le> ae_now env \<and> ae_family env \<notin> as_families s \<and>
     hashRefresh ops (ae_secret env) \<notin> as_hashes s"

definition after :: "'r auth_ops \<Rightarrow> auth_env \<Rightarrow> db \<times> 'r \<Rightarrow> 'r auth_state \<Rightarrow> 'r auth_state" where
  "after ops env dr s = \<lparr>as_db = fst dr, as_redis = snd dr, as_now = ae_now env,
     as_families = insert (ae_family env) (as_families s),
     as_hashes = insert (hashRefresh ops (ae_secret env)) (as_hashes s)\<rparr>"

inductive auth_step ::
  "'r auth_ops \<Rightarrow> scrypt_ops \<Rightarrow> string \<Rightarrow> auth_call \<times> TokenPair result option \<Rightarrow> 'r auth_state \<Rightarrow> 'r auth_state \<Rightarrow> bool"
  for ops sc dummy where
  login_step: "draw_ok ops env s \<Longrightarrow> login ops sc dummy env email password (as_db s) = (res, d') \<Longrightarrow>
     auth_step ops sc dummy (Login email password, Some res) s (after ops env (d', as_redis s) s)"
| refresh_step: "draw_ok ops env s \<Longrightarrow> refresh ops env presented (as_db s, as_redis s) = (res, dr) \<Longrightarrow>
     auth_step ops sc dummy (Refresh presented, Some res) s (after ops env dr s)"
| logout_step: "draw_ok ops env s \<Longrightarrow> logout ops env user (as_db s, as_redis s) = (res, dr) \<Longrightarrow>
     auth_step ops sc dummy (Logout user, None) s (after ops env dr s)"
| cleanup_step: "draw_ok ops env s \<Longrightarrow> 0 < batchSize \<Longrightarrow>
     cleanupExpiredRefreshTokens fuel (ae_now env) batchSize (as_db s) = Some (n, d') \<Longrightarrow>
     auth_step ops sc dummy (Cleanup batchSize, None) s (after ops env (d', as_redis s) s)"

inductive auth_run ::
  "'r auth_ops \<Rightarrow> scrypt_ops \<Rightarrow> string \<Rightarrow> (auth_call \<times> TokenPair result option) list \<Rightarrow> 'r auth_state \<Rightarrow> 'r auth_state \<Rightarrow> bool"
  for ops sc dummy where
  auth_stop: "auth_run ops sc dummy [] s s"
| auth_go: "auth_step ops sc dummy l s s1 \<Longrightarrow> auth_run ops sc dummy ls s1 s2 \<Longrightarrow> auth_run ops sc dummy (l # ls) s s2"

text \<open>
  What a step does to the token table: nothing, a new family, a rotation, the revocation of a
  family, or the removal of expired families.
\<close>

datatype table_change = Same | Start RefreshToken | Rotate string RefreshToken | Revoke string | Purge

fun apply_change :: "int \<Rightarrow> table_change \<Rightarrow> RefreshToken list \<Rightarrow> RefreshToken list" where
  "apply_change now Same ts = ts"
| "apply_change now (Start t) ts = ts @ [t]"
| "apply_change now (Rotate h t) ts = mark_used now h ts @ [t]"
| "apply_change now (Revoke f) ts = revoke_rows now f ts"
| "apply_change now Purge ts = filter (\<lambda>t. \<not> family_expired now ts t) ts"

text \<open>The conditions under which a change happens.\<close>

fun change_ok :: "int \<Rightarrow> string \<Rightarrow> string \<Rightarrow> table_change \<Rightarrow> RefreshToken list \<Rightarrow> bool" where
  "change_ok now f0 h0 (Start t) ts \<longleftrightarrow> t_familyId t = f0 \<and> t_tokenHash t = h0 \<and> t_usedAt t = None \<and>
     t_revokedAt t = None \<and> h0 \<notin> t_tokenHash ` set ts"
| "change_ok now f0 h0 (Rotate h t) ts \<longleftrightarrow> (\<exists>row \<in> set ts. usable now h ts row \<and> t_familyId t = t_familyId row) \<and>
     t_tokenHash t = h0 \<and> t_usedAt t = None \<and> t_revokedAt t = None \<and> h0 \<notin> t_tokenHash ` set ts"
| "change_ok now f0 h0 _ ts \<longleftrightarrow> True"

lemma step_change:
  assumes "auth_step ops sc dummy l s s'"
  obtains f0 h0 c where "as_now s \<le> as_now s'" "f0 \<notin> as_families s" "h0 \<notin> as_hashes s"
    "as_families s' = insert f0 (as_families s)" "as_hashes s' = insert h0 (as_hashes s)"
    "change_ok (as_now s') f0 h0 c (refreshTokens (as_db s))"
    "refreshTokens (as_db s') = apply_change (as_now s') c (refreshTokens (as_db s))"
proof -
  let ?ts = "refreshTokens (as_db s)"
  note result = that
  have step: thesis if draw: "draw_ok ops env s" and s': "s' = after ops env dr s"
    and c: "change_ok (ae_now env) (ae_family env) (hashRefresh ops (ae_secret env)) c ?ts"
    "refreshTokens (fst dr) = apply_change (ae_now env) c ?ts" for env dr c
    by (rule result [of "ae_family env" "hashRefresh ops (ae_secret env)" c])
      (use draw s' c in \<open>auto simp: draw_ok_def after_def\<close>)
  from assms show thesis
  proof (cases rule: auth_step.cases)
    case (login_step env email password res d')
    show thesis
    proof (cases "d' = as_db s")
      case True
      show thesis by (rule step [OF login_step(3,2), where c = Same]) (simp_all add: True)
    next
      case False
      from login_step(4) False obtain u where
        ins: "insert_refresh env u (ae_family env) (hashRefresh ops (ae_secret env)) (as_db s) = (Inr (), d')"
        by (auto simp: login_def Let_def issueRefresh_def split: option.splits if_splits prod.splits sum.splits
            dest: insert_refresh_cases)
      show thesis
        by (rule step [OF login_step(3,2), where c = "Start (new_token env u (ae_family env) (hashRefresh ops (ae_secret env)))"])
          (use insert_refresh_cases [OF ins] in auto)
    qed
  next
    case (refresh_step env presented res dr)
    obtain q d where tr: "transaction (rotate ops env (hashRefresh ops presented)) (as_db s) = (q, d)" by fastforce
    with refresh_step(4) have d: "fst dr = d"
      by (auto simp: refresh_def split: sum.splits RotationOutcome.splits)
    show thesis
    proof (cases q)
      case (Inl e)
      with tr have "refreshTokens d = ?ts" by (auto simp: transaction_Inl)
      then show thesis by (intro step [OF refresh_step(3,2), where c = Same]) (simp_all add: d)
    next
      case (Inr out)
      with tr have "rotate ops env (hashRefresh ops presented) (as_db s) = (Inr out, d)" by (simp add: transaction_Inr)
      then show thesis
      proof (cases rule: rotate_cases)
        case (rotated row owner)
        show thesis
          by (rule step [OF refresh_step(3,2), where c = "Rotate (hashRefresh ops presented)
                (new_token env (u_id owner) (t_familyId row) (hashRefresh ops (ae_secret env)))"])
            (use rotated in \<open>auto simp: d\<close>)
      next
        case refused
        then show thesis by (intro step [OF refresh_step(3,2), where c = Same]) (simp_all add: d)
      next
        case (reuse known)
        then show thesis by (intro step [OF refresh_step(3,2), where c = "Revoke (t_familyId known)"]) (simp_all add: d)
      qed simp
    qed
  next
    case (logout_step env user res dr)
    then have "fst dr = revoke_family (ae_now env) (au_sessionId user) (as_db s)"
      by (auto simp: logout_def split: prod.splits)
    then show thesis by (intro step [OF logout_step(3,2), where c = "Revoke (au_sessionId user)"]) simp_all
  next
    case (cleanup_step env batchSize fuel n d')
    from cleanup_result [OF cleanup_step(4,5)] show thesis
      by (intro step [OF cleanup_step(3,2), where c = Purge]) simp_all
  qed
qed

section \<open>Invariants of the token table\<close>

text \<open>A family has at most one token that has not been used.\<close>

definition one_unused :: "RefreshToken list \<Rightarrow> bool" where
  "one_unused ts \<longleftrightarrow> (\<forall>t \<in> set ts. \<forall>t' \<in> set ts.
     t_familyId t = t_familyId t' \<longrightarrow> t_usedAt t = None \<longrightarrow> t_usedAt t' = None \<longrightarrow> t = t')"

definition auth_inv :: "'r auth_state \<Rightarrow> bool" where
  "auth_inv s \<longleftrightarrow> (let ts = refreshTokens (as_db s) in
     distinct (map t_tokenHash ts) \<and> t_tokenHash ` set ts \<subseteq> as_hashes s \<and>
     t_familyId ` set ts \<subseteq> as_families s \<and> one_unused ts)"

text \<open>No token of the family can rotate any more.\<close>

definition blocked :: "int \<Rightarrow> string \<Rightarrow> RefreshToken list \<Rightarrow> bool" where
  "blocked now f ts \<longleftrightarrow> family_revoked f ts \<or> (\<forall>t \<in> set ts. t_familyId t = f \<longrightarrow> t_expiresAt t \<le> now)"

text \<open>A token hash that was drawn and is not an unused row of the table.\<close>

definition token_spent :: "string \<Rightarrow> 'r auth_state \<Rightarrow> bool" where
  "token_spent h s \<longleftrightarrow> h \<in> as_hashes s \<and>
     (\<forall>t \<in> set (refreshTokens (as_db s)). t_tokenHash t = h \<longrightarrow> t_usedAt t \<noteq> None)"

lemma in_mark_used:
  assumes "x \<in> set (mark_used now h ts)"
  obtains t where "t \<in> set ts" "x = t" "\<not> usable now h ts t"
  | t where "t \<in> set ts" "usable now h ts t" "x = t\<lparr>t_usedAt := Some now\<rparr>"
  using assms by (auto simp: mark_used_def set_update_where split: if_splits)

lemma mark_used_attrs:
  "map t_familyId (mark_used now h ts) = map t_familyId ts"
  "map (\<lambda>t. (t_familyId t, t_revokedAt t, t_expiresAt t)) (mark_used now h ts) =
     map (\<lambda>t. (t_familyId t, t_revokedAt t, t_expiresAt t)) ts"
  unfolding mark_used_def by (rule map_update_where, simp)+

lemma revoke_rows_family: "map t_familyId (revoke_rows now f ts) = map t_familyId ts"
  unfolding revoke_rows_def by (rule map_update_where) simp

lemma same_family_ids [simp]:
  "t_familyId ` set (mark_used now h ts) = t_familyId ` set ts"
  "t_familyId ` set (revoke_rows now f ts) = t_familyId ` set ts"
  using arg_cong [OF mark_used_attrs(1), of set] arg_cong [OF revoke_rows_family, of set] by simp_all

lemma family_revoked_map:
  "family_revoked f ts \<longleftrightarrow> (\<exists>x \<in> set (map (\<lambda>t. (t_familyId t, t_revokedAt t, t_expiresAt t)) ts).
     fst x = f \<and> fst (snd x) \<noteq> None)"
  by (auto simp: family_revoked_def list_ex_iff)

lemma blocked_map:
  "blocked now f ts \<longleftrightarrow> family_revoked f ts \<or>
     (\<forall>x \<in> set (map (\<lambda>t. (t_familyId t, t_revokedAt t, t_expiresAt t)) ts). fst x = f \<longrightarrow> snd (snd x) \<le> now)"
  by (auto simp: blocked_def)

lemma mark_used_blocked: "blocked now' f (mark_used now h ts) = blocked now' f ts"
  by (simp only: blocked_map family_revoked_map mark_used_attrs(2))

lemma one_unused_change:
  assumes "one_unused ts" and "change_ok now f0 h0 c ts" and "t_familyId ` set ts \<subseteq> F" and "f0 \<notin> F"
  shows "one_unused (apply_change now c ts)"
proof (cases c)
  case (Start t)
  with assms have "\<forall>x \<in> set ts. t_familyId x \<noteq> t_familyId t" by auto
  with Start assms(1) show ?thesis by (fastforce simp: one_unused_def)
next
  case (Rotate h t)
  with assms(2) obtain row where row: "row \<in> set ts" "usable now h ts row" "t_familyId t = t_familyId row" by auto
  have old: "x = row" if "x \<in> set ts" "t_familyId x = t_familyId row" "t_usedAt x = None" for x
    using assms(1) that row by (auto simp: one_unused_def usable_def)
  have unused: "t_familyId x \<noteq> t_familyId row \<and> x \<in> set ts" if "x \<in> set (mark_used now h ts)" "t_usedAt x = None" for x
    using that(1)
  proof (cases rule: in_mark_used)
    case (1 y)
    with row that old show ?thesis by auto
  next
    case (2 y)
    with that show ?thesis by simp
  qed
  show ?thesis
    unfolding one_unused_def Rotate
  proof (intro ballI impI)
    fix a b assume ab: "a \<in> set (apply_change now (Rotate h t) ts)" "b \<in> set (apply_change now (Rotate h t) ts)"
      "t_familyId a = t_familyId b" "t_usedAt a = None" "t_usedAt b = None"
    show "a = b"
    proof (cases "a = t \<or> b = t")
      case True
      with ab row(3) show ?thesis by (auto dest: unused)
    next
      case False
      with ab have "a \<in> set (mark_used now h ts)" "b \<in> set (mark_used now h ts)" by auto
      with ab unused have "a \<in> set ts" "b \<in> set ts" by blast+
      with ab assms(1) show ?thesis unfolding one_unused_def by blast
    qed
  qed
next
  case (Revoke f)
  have "a = b" if ab: "a \<in> set (revoke_rows now f ts)" "b \<in> set (revoke_rows now f ts)"
    "t_familyId a = t_familyId b" "t_usedAt a = None" "t_usedAt b = None" for a b
  proof -
    let ?g = "\<lambda>t. if t_familyId t = f \<and> t_revokedAt t = None then t\<lparr>t_revokedAt := Some now\<rparr> else t"
    obtain x where x: "x \<in> set ts" "a = ?g x"
      using ab(1) unfolding revoke_rows_def set_update_where by blast
    obtain y where y: "y \<in> set ts" "b = ?g y"
      using ab(2) unfolding revoke_rows_def set_update_where by blast
    have "t_familyId x = t_familyId y" "t_usedAt x = None" "t_usedAt y = None"
      using ab x y by (auto split: if_splits)
    with assms(1) x y have "x = y" unfolding one_unused_def by blast
    with x y show "a = b" by simp
  qed
  with Revoke show ?thesis by (auto simp: one_unused_def)
next
  case Purge
  with assms(1) show ?thesis by (auto simp: one_unused_def)
qed (use assms in simp)

lemma step_inv:
  assumes "auth_step ops sc dummy l s s'" and "auth_inv s"
  shows "auth_inv s'"
  using assms(1)
proof (cases rule: step_change)
  case (1 f0 h0 c)
  let ?ts = "refreshTokens (as_db s)"
  from assms(2) have inv: "distinct (map t_tokenHash ?ts)" "t_tokenHash ` set ?ts \<subseteq> as_hashes s"
    "t_familyId ` set ?ts \<subseteq> as_families s" "one_unused ?ts" by (simp_all add: auth_inv_def Let_def)
  have one: "one_unused (refreshTokens (as_db s'))"
    unfolding 1(7) by (rule one_unused_change [OF inv(4) 1(6) inv(3) 1(2)])
  have "distinct (map t_tokenHash (refreshTokens (as_db s')))"
    unfolding 1(7) using inv(1) 1(6) by (cases c) (auto simp: distinct_map_filter)
  moreover have "t_tokenHash ` set (refreshTokens (as_db s')) \<subseteq> as_hashes s'"
    unfolding 1(5,7) using inv(2) 1(6) by (cases c) auto
  moreover have "t_familyId ` set (refreshTokens (as_db s')) \<subseteq> as_families s'"
    unfolding 1(4,7) using inv(3) 1(6) by (cases c) auto
  ultimately show ?thesis using one by (simp add: auth_inv_def Let_def)
qed

section \<open>What stays true along a run\<close>

lemma blocked_change:
  assumes "blocked t0 f ts" and "t0 \<le> now" and "change_ok now f0 h0 c ts" and "f \<in> F" and "f0 \<notin> F"
  shows "blocked now f (apply_change now c ts)"
proof -
  have now: "blocked now f ts" using assms(1,2) by (auto simp: blocked_def)
  show ?thesis
  proof (cases c)
    case (Start t)
    with assms have "t_familyId t \<noteq> f" by auto
    with Start now show ?thesis by (auto simp: blocked_def family_revoked_def)
  next
    case (Rotate h t)
    with assms(3) obtain row where "row \<in> set ts" "usable now h ts row" "t_familyId t = t_familyId row" by auto
    with now have "t_familyId t \<noteq> f" by (auto simp: blocked_def usable_def)
    with mark_used_blocked [of now f now h ts] now Rotate show ?thesis
      by (auto simp: blocked_def family_revoked_def)
  next
    case (Revoke g)
    have "map (\<lambda>t. (t_familyId t, t_expiresAt t)) (revoke_rows now g ts) = map (\<lambda>t. (t_familyId t, t_expiresAt t)) ts"
      unfolding revoke_rows_def by (rule map_update_where) simp
    note maps = this
    have pairs: "(\<forall>t \<in> set xs. t_familyId t = f \<longrightarrow> t_expiresAt t \<le> now) \<longleftrightarrow>
        (\<forall>x \<in> set (map (\<lambda>t. (t_familyId t, t_expiresAt t)) xs). fst x = f \<longrightarrow> snd x \<le> now)" for xs by simp
    have exp: "(\<forall>t \<in> set (revoke_rows now g ts). t_familyId t = f \<longrightarrow> t_expiresAt t \<le> now) \<longleftrightarrow>
        (\<forall>t \<in> set ts. t_familyId t = f \<longrightarrow> t_expiresAt t \<le> now)"
      by (simp only: pairs [of "revoke_rows now g ts"] pairs [of ts] maps)
    have "family_revoked f (revoke_rows now g ts)" if "family_revoked f ts"
      using that by (auto simp: family_revoked_def list_ex_iff revoke_rows_def set_update_where)
    with exp now Revoke show ?thesis by (auto simp: blocked_def)
  next
    case Purge
    show ?thesis
    proof (cases "\<exists>t \<in> set ts. t_familyId t = f \<and> now \<le> t_expiresAt t")
      case True
      then have "\<not> family_expired now ts t" if "t \<in> set ts" "t_familyId t = f" for t
        using that by (auto simp: family_expired_def list_ex_iff)
      with Purge now show ?thesis by (auto simp: blocked_def family_revoked_def list_ex_iff)
    next
      case False
      then have "\<forall>t \<in> set ts. t_familyId t = f \<longrightarrow> t_expiresAt t \<le> now"
        by (auto simp: not_le dest: less_imp_le)
      with Purge show ?thesis by (auto simp: blocked_def)
    qed
  qed (use now in simp)
qed

lemma spent_step:
  assumes "auth_step ops sc dummy l s s'" and "token_spent h s"
  shows "token_spent h s'"
  using assms(1)
proof (cases rule: step_change)
  case (1 f0 h0 c)
  let ?ts = "refreshTokens (as_db s)"
  have h: "h \<in> as_hashes s" and used: "\<And>t. t \<in> set ?ts \<Longrightarrow> t_tokenHash t = h \<Longrightarrow> t_usedAt t \<noteq> None"
    using assms(2) by (auto simp: token_spent_def)
  have "t_usedAt x \<noteq> None" if "x \<in> set (apply_change (as_now s') c ?ts)" "t_tokenHash x = h" for x
  proof (cases "x \<in> set ?ts")
    case True
    with used that show ?thesis by blast
  next
    case False
    show ?thesis
    proof (cases c)
      case (Start t)
      with that False 1(3,6) h show ?thesis by auto
    next
      case (Rotate k t)
      with that 1(3,6) h have "x \<in> set (mark_used (as_now s') k ?ts)" by auto
      then show ?thesis
      proof (cases rule: in_mark_used)
        case (1 t)
        with False show ?thesis by simp
      qed simp
    next
      case (Revoke f)
      with that have "x \<in> set (revoke_rows (as_now s') f ?ts)" by simp
      then obtain t where "t \<in> set ?ts" "x = (if t_familyId t = f \<and> t_revokedAt t = None then t\<lparr>t_revokedAt := Some (as_now s')\<rparr> else t)"
        unfolding revoke_rows_def set_update_where by blast
      with used that(2) show ?thesis by (auto split: if_splits)
    qed (use that False in simp_all)
  qed
  with 1(5,7) h show ?thesis by (simp add: token_spent_def)
qed

lemma run_inv: "auth_run ops sc dummy tr s s' \<Longrightarrow> auth_inv s \<Longrightarrow> auth_inv s'"
  by (induction rule: auth_run.induct) (auto intro: step_inv)

lemma run_spent: "auth_run ops sc dummy tr s s' \<Longrightarrow> token_spent h s \<Longrightarrow> token_spent h s'"
  by (induction rule: auth_run.induct) (auto intro: spent_step)

lemma run_blocked:
  "auth_run ops sc dummy tr s s' \<Longrightarrow> f \<in> as_families s \<Longrightarrow> blocked (as_now s) f (refreshTokens (as_db s)) \<Longrightarrow>
     as_now s \<le> as_now s' \<and> f \<in> as_families s' \<and> blocked (as_now s') f (refreshTokens (as_db s'))"
proof (induction rule: auth_run.induct)
  case (auth_go l s s1 ls s2)
  from auth_go.hyps(1) have "as_now s \<le> as_now s1 \<and> f \<in> as_families s1 \<and> blocked (as_now s1) f (refreshTokens (as_db s1))"
  proof (cases rule: step_change)
    case (1 f0 h0 c)
    with blocked_change [OF auth_go.prems(2) 1(1,6) auth_go.prems(1) 1(2)] auth_go.prems(1) show ?thesis by simp
  qed
  with auth_go.IH show ?case by auto
qed simp

text \<open>A label in a run stands for a step between two states of the run.\<close>

lemma run_split:
  "auth_run ops sc dummy tr s s' \<Longrightarrow> l \<in> set tr \<Longrightarrow>
     \<exists>s1 s2 tr1. auth_run ops sc dummy tr1 s s1 \<and> auth_step ops sc dummy l s1 s2"
proof (induction rule: auth_run.induct)
  case (auth_go l' s s1 ls s2)
  show ?case
  proof (cases "l = l'")
    case True
    with auth_go.hyps(1) show ?thesis by (blast intro: auth_run.intros)
  next
    case False
    with auth_go obtain u v tr1 where "auth_run ops sc dummy tr1 s1 u" "auth_step ops sc dummy l u v" by auto
    with auth_go.hyps(1) show ?thesis by (blast intro: auth_run.intros)
  qed
qed simp

text \<open>A successful rotation spends the presented token; before it, the token was a usable row.\<close>

lemma refresh_success:
  assumes "refresh ops env presented (d, r) = (Inr pair, (d', r'))"
  obtains row owner where "row \<in> set (refreshTokens d)"
    "usable (ae_now env) (hashRefresh ops presented) (refreshTokens d) row"
    "owner \<in> set (users d)" "u_id owner = t_userId row" "r' = r"
    "hashRefresh ops (ae_secret env) \<notin> t_tokenHash ` set (refreshTokens d)"
    "d' = d\<lparr>refreshTokens := mark_used (ae_now env) (hashRefresh ops presented) (refreshTokens d) @
         [new_token env (u_id owner) (t_familyId row) (hashRefresh ops (ae_secret env))]\<rparr>"
    "pair_tokens ops (ae_jti env) (u_id owner) (u_role owner) (t_familyId row) (ae_secret env) = Inr pair"
proof -
  obtain q d1 where tr: "transaction (rotate ops env (hashRefresh ops presented)) d = (q, d1)" by fastforce
  with assms obtain out where q: "q = Inr out" by (cases q) (auto simp: refresh_def)
  with tr have run: "rotate ops env (hashRefresh ops presented) d = (Inr out, d1)" by (simp add: transaction_Inr)
  from assms tr q obtain u ro f x where out: "out = rotated u ro f x"
    and res: "pair_tokens ops (ae_jti env) u ro f x = Inr pair" "d' = d1" "r' = r"
    by (auto simp: refresh_def split: RotationOutcome.splits)
  from run show thesis
  proof (cases rule: rotate_cases)
    case (rotated row owner)
    then show thesis by (intro that [of row owner]) (use out res in auto)
  qed (use out in auto)
qed

section \<open>Login and passwords\<close>

lemma split_on_none: "c \<notin> set xs \<Longrightarrow> split_on c xs = [xs]"
  by (induction xs) auto

lemma split_on_part: "c \<notin> set xs \<Longrightarrow> split_on c (xs @ c # ys) = xs # split_on c ys"
  by (induction xs) auto

text \<open>What the code relies on of \<open>Buffer\<close>'s base64: it decodes, and prints no colon.\<close>

definition scrypt_lawful :: "scrypt_ops \<Rightarrow> bool" where
  "scrypt_lawful sc \<longleftrightarrow> (\<forall>b. sc_decode sc (sc_encode sc b) = b) \<and> (\<forall>b. CHR '':'' \<notin> set (sc_encode sc b)) \<and>
     (\<forall>b. sc_encode sc b = [] \<longrightarrow> b = [])"

lemma verify_hashed:
  assumes "scrypt_lawful sc" and "salt \<noteq> []" and "sc_derive sc password salt \<noteq> []"
  shows "verifyPassword sc presented (hashPassword sc salt password) \<longleftrightarrow>
    sc_derive sc presented salt = sc_derive sc password salt"
proof -
  let ?k = "sc_derive sc password salt"
  have split: "split_on CHR '':'' (hashPassword sc salt password) = [''scrypt'', sc_encode sc salt, sc_encode sc ?k]"
  proof -
    have h: "hashPassword sc salt password = ''scrypt'' @ CHR '':'' # (sc_encode sc salt @ CHR '':'' # sc_encode sc ?k)"
      by (simp add: hashPassword_def)
    have "split_on CHR '':'' (sc_encode sc salt @ CHR '':'' # sc_encode sc ?k) = [sc_encode sc salt, sc_encode sc ?k]"
      using assms(1) by (simp add: split_on_part split_on_none scrypt_lawful_def)
    then show ?thesis unfolding h by (subst split_on_part) simp_all
  qed
  have "sc_encode sc salt \<noteq> []" "sc_encode sc ?k \<noteq> []" using assms by (auto simp: scrypt_lawful_def)
  then show ?thesis using assms(1) by (auto simp: verifyPassword_def split scrypt_lawful_def Let_def)
qed

text \<open>The user a login is for, if the credentials are right.\<close>

definition credentials :: "scrypt_ops \<Rightarrow> string \<Rightarrow> string \<Rightarrow> db \<Rightarrow> User option" where
  "credentials sc email password d =
     (case select_one (\<lambda>u. u_email u = toLowerCase email) (users d) of
        None \<Rightarrow> None
      | Some u \<Rightarrow> (case u_passwordHash u of None \<Rightarrow> None
          | Some h \<Rightarrow> if h \<noteq> [] \<and> verifyPassword sc password h then Some u else None))"

lemma login_credentials:
  "login ops sc dummy env email password d = (case credentials sc email password d of
     None \<Rightarrow> (Inl InvalidCredentialsError, d)
   | Some u \<Rightarrow> (case insert_refresh env (u_id u) (ae_family env) (hashRefresh ops (ae_secret env)) d of
        (Inl e, d') \<Rightarrow> (Inl e, d')
      | (Inr _, d') \<Rightarrow> (pair_tokens ops (ae_jti env) (u_id u) (u_role u) (ae_family env) (ae_secret env), d')))"
  by (auto simp: login_def credentials_def issueRefresh_def Let_def split: option.splits)

lemma credentials_user: "credentials sc email password d = Some u \<Longrightarrow> u \<in> set (users d)"
  by (auto simp: credentials_def dest: select_one_Some split: option.splits if_splits)

text \<open>The first refresh after a login.\<close>

lemma update_where_snoc: "update_where P f (xs @ [x]) = update_where P f xs @ [if P x then f x else x]"
  by (simp add: update_where_def)

lemma select_one_snoc: "\<forall>t \<in> set ts. \<not> P t \<Longrightarrow> P n \<Longrightarrow> select_one P (ts @ [n]) = Some n"
  by (induction ts) (auto simp: select_one_def)

lemma rotate_fresh_family:
  assumes tok: "refreshTokens d = ts @ [new_token env0 (u_id u) f h]"
    and u: "u \<in> set (users d)" "distinct (map u_id (users d))"
    and f: "f \<notin> t_familyId ` set ts" and h: "h \<notin> t_tokenHash ` set ts"
    and live: "ae_now env < refreshExpiresAt (ae_clock env0)"
    and fresh: "ae_rowId env \<notin> t_id ` set (refreshTokens d)"
      "hashRefresh ops (ae_secret env) \<notin> t_tokenHash ` set (refreshTokens d)"
  shows "fst (rotate ops env h d) = Inr (rotated (u_id u) (u_role u) f (ae_secret env))"
proof -
  let ?n = "new_token env0 (u_id u) f h"
  let ?P = "usable (ae_now env) h (refreshTokens d)"
  have old: "\<not> ?P t" if "t \<in> set ts" for t using that h by (auto simp: usable_def)
  have new: "?P ?n" using f live tok by (auto simp: usable_def family_revoked_def list_ex_iff)
  have "select_one ?P (ts @ [?n]) = Some ?n" using old new by (intro select_one_snoc) auto
  then have sel: "select_one ?P (refreshTokens d) = Some ?n" by (simp only: tok)
  have upd: "update_where ?P g (refreshTokens d) = ts @ [g ?n]" for g
    using old new by (simp add: tok update_where_snoc update_where_none)
  have owner: "select_one (\<lambda>v. u_id v = u_id u) (users d) = Some u"
    by (rule select_one_unique [OF u(2,1)]) auto
  have ins: "insert_refresh env (u_id u) f (hashRefresh ops (ae_secret env))
      (d\<lparr>refreshTokens := ts @ [?n\<lparr>t_usedAt := Some (ae_now env)\<rparr>]\<rparr>) =
      (Inr (), d\<lparr>refreshTokens := (ts @ [?n\<lparr>t_usedAt := Some (ae_now env)\<rparr>]) @
          [new_token env (u_id u) f (hashRefresh ops (ae_secret env))]\<rparr>)"
    by (subst insert_refresh_ok) (use fresh u(1) tok in auto)
  show ?thesis
    by (simp add: rotate_def Let_def sel upd owner issueRefresh_def andThen_def ins return_def)
qed

section \<open>A concrete setting\<close>

text \<open>An escaping code without colons for base64, and a derivation that keeps both inputs.\<close>

fun esc :: "string \<Rightarrow> string" where
  "esc [] = []"
| "esc (c # cs) = (if c = CHR '':'' then ''xc'' @ esc cs else if c = CHR ''x'' then ''xx'' @ esc cs else c # esc cs)"

fun unesc :: "string \<Rightarrow> string" where
  "unesc (a # b # cs) = (if a = CHR ''x'' then (if b = CHR ''c'' then CHR '':'' else b) # unesc cs else a # unesc (b # cs))"
| "unesc [c] = [c]"
| "unesc [] = []"

lemma unesc_plain: "c \<noteq> CHR ''x'' \<Longrightarrow> unesc (c # cs) = c # unesc cs"
  by (cases cs) auto

lemma unesc_esc: "unesc (esc cs) = cs"
  by (induction cs) (auto simp: unesc_plain)

definition demo_scrypt :: scrypt_ops where
  "demo_scrypt = \<lparr>sc_derive = \<lambda>p s. s @ p, sc_encode = esc, sc_decode = unesc\<rparr>"

lemma demo_scrypt_lawful: "scrypt_lawful demo_scrypt"
proof -
  have "CHR '':'' \<notin> set (esc b)" for b by (induction b) auto
  moreover have "esc b = [] \<longrightarrow> b = []" for b by (cases b) auto
  ultimately show ?thesis by (simp add: scrypt_lawful_def demo_scrypt_def unesc_esc)
qed

definition demo_auth :: "unit auth_ops" where
  "demo_auth = \<lparr>ao_hmac = (\<lambda>t. ''mac-'' @ t), ao_sign = (\<lambda>r sid sub jti. Inr (sub @ sid @ jti)),
     ao_revokeSession = (\<lambda>sid r. (Inr (), r)), ao_logout = (\<lambda>jti e sid r. (Inr (), r))\<rparr>"

definition demo_user :: User where
  "demo_user = \<lparr>u_id = 1, u_email = ''a@b'', u_phone = ''+380501000001'', u_name = ''A'', u_balance = 0,
     u_passwordHash = Some (hashPassword demo_scrypt ''salt'' ''pw''), u_role = buyer, u_createdAt = 0\<rparr>"

definition demo_token :: RefreshToken where
  "demo_token = \<lparr>t_id = ''r1'', t_userId = 1, t_familyId = ''fam'', t_tokenHash = ''mac-one'',
     t_expiresAt = 1000, t_usedAt = None, t_revokedAt = None, t_createdAt = 0\<rparr>"

definition demo_db :: "RefreshToken list \<Rightarrow> db" where
  "demo_db ts = empty_db\<lparr>users := [demo_user], refreshTokens := ts\<rparr>"

definition demo_env :: "int \<Rightarrow> string \<Rightarrow> string \<Rightarrow> auth_env" where
  "demo_env now row secret = \<lparr>ae_now = now, ae_clock = 0, ae_rowId = row, ae_family = row @ ''f'',
     ae_secret = secret, ae_jti = ''j''\<rparr>"

definition demo_state :: "RefreshToken list \<Rightarrow> unit auth_state" where
  "demo_state ts = \<lparr>as_db = demo_db ts, as_redis = (), as_now = 1, as_families = {''fam''}, as_hashes = {''mac-one''}\<rparr>"

lemmas demo_defs = demo_auth_def demo_token_def demo_db_def demo_env_def demo_state_def empty_db_def

section \<open>Properties\<close>

text \<open>
  A refresh token works at most once. After a refresh succeeded with it, no later refresh that
  presents it succeeds, whatever logins, rotations, logouts and cleanups happen in between, as long
  as the drawn secrets are fresh.
\<close>

lemma refresh_token_single_use:
  assumes "auth_inv s" and "draw_ok ops env s"
    and "refresh ops env presented (as_db s, as_redis s) = (Inr pair, dr)"
    and "auth_run ops sc dummy tr (after ops env dr s) s'"
  shows "(Refresh presented, Some (Inr pair')) \<notin> set tr"
proof
  assume "(Refresh presented, Some (Inr pair')) \<in> set tr"
  then obtain s1 s2 tr1 where run: "auth_run ops sc dummy tr1 (after ops env dr s) s1"
    and step: "auth_step ops sc dummy (Refresh presented, Some (Inr pair')) s1 s2"
    using run_split [OF assms(4)] by blast
  let ?h = "hashRefresh ops presented"
  obtain d' r' where dr: "dr = (d', r')" by fastforce
  from assms(3) [unfolded dr] have "token_spent ?h (after ops env dr s)"
  proof (cases rule: refresh_success)
    case (1 row owner)
    have mem: "?h \<in> as_hashes s" using assms(1) 1(1,2) by (auto simp: auth_inv_def Let_def usable_def)
    have uniq: "t = row" if "t \<in> set (refreshTokens (as_db s))" "t_tokenHash t = ?h" for t
      using assms(1) that 1(1,2) by (auto simp: auth_inv_def Let_def usable_def intro: distinct_key_eq)
    have "t_usedAt t \<noteq> None" if t: "t \<in> set (refreshTokens d')" "t_tokenHash t = ?h" for t
    proof -
      have "hashRefresh ops (ae_secret env) \<noteq> ?h" using mem assms(2) by (auto simp: draw_ok_def)
      with t 1(7) have "t \<in> set (mark_used (ae_now env) ?h (refreshTokens (as_db s)))" by auto
      then show ?thesis
      proof (cases rule: in_mark_used)
        case (1 x)
        with uniq t(2) have "x = row" by blast
        with 1(3) \<open>usable (ae_now env) ?h (refreshTokens (as_db s)) row\<close> show ?thesis by blast
      qed simp
    qed
    with mem show ?thesis by (simp add: token_spent_def after_def dr)
  qed
  from run_spent [OF run this] have sp: "token_spent ?h s1" .
  from step show False
  proof (cases rule: auth_step.cases)
    case (refresh_step env' dr')
    obtain d2 r2 where dr': "dr' = (d2, r2)" by fastforce
    from refresh_step have "refresh ops env' presented (as_db s1, as_redis s1) = (Inr pair', (d2, r2))" by (simp add: dr')
    then show False
    proof (cases rule: refresh_success)
      case (1 row owner)
      with sp show False by (auto simp: token_spent_def usable_def)
    qed
  qed
qed

text \<open>The session a refresh would continue, if any.\<close>

definition continues :: "'r auth_ops \<Rightarrow> auth_env \<Rightarrow> string \<Rightarrow> db \<Rightarrow> string option" where
  "continues ops env presented d = (case fst (rotate ops env (hashRefresh ops presented) d) of
     Inr (rotated u r f x) \<Rightarrow> Some f | _ \<Rightarrow> None)"

lemma blocked_continues:
  assumes "blocked t0 f (refreshTokens d)" and "t0 \<le> ae_now env"
  shows "continues ops env presented d \<noteq> Some f"
proof -
  obtain q d' where run: "rotate ops env (hashRefresh ops presented) d = (q, d')" by fastforce
  then show ?thesis
  proof (cases rule: rotate_cases)
    case (rotated row owner)
    with assms have "t_familyId row \<noteq> f" by (auto simp: blocked_def usable_def)
    with rotated run show ?thesis by (simp add: continues_def)
  qed (simp_all add: continues_def run)
qed

lemma revoked_blocked: "blocked now f (revoke_rows now f ts)"
proof (cases "\<exists>t \<in> set ts. t_familyId t = f")
  case True
  then obtain t where "t \<in> set ts" "t_familyId t = f" by blast
  let ?g = "\<lambda>t. if t_familyId t = f \<and> t_revokedAt t = None then t\<lparr>t_revokedAt := Some now\<rparr> else t"
  have "?g t \<in> set (revoke_rows now f ts)" unfolding revoke_rows_def set_update_where using \<open>t \<in> set ts\<close> by blast
  moreover have "t_familyId (?g t) = f" "t_revokedAt (?g t) \<noteq> None" using \<open>t_familyId t = f\<close> by auto
  ultimately have "family_revoked f (revoke_rows now f ts)" unfolding family_revoked_def list_ex_iff by blast
  then show ?thesis by (simp add: blocked_def)
next
  case False
  then have "revoke_rows now f ts = ts" by (auto simp: revoke_rows_def intro: update_where_none)
  with False show ?thesis by (auto simp: blocked_def)
qed

lemma blocked_for_ever:
  assumes "blocked (as_now s) f (refreshTokens (as_db s))" and "f \<in> as_families s"
    and "auth_run ops sc dummy tr s s'" and "as_now s' \<le> ae_now env"
  shows "continues ops env presented (as_db s') \<noteq> Some f"
  by (rule blocked_continues [of "as_now s'"]) (use run_blocked [OF assms(3,2,1)] assms(4) in auto)

text \<open>
  Presenting a refresh token a second time ends its session. The call is refused, whoever makes
  it, and from then on no refresh with any token continues the session, in any run that follows.
\<close>

lemma reuse_ends_session:
  assumes "auth_inv s" and "draw_ok ops env s"
    and "t \<in> set (refreshTokens (as_db s))" and "t_tokenHash t = hashRefresh ops presented"
    and "t_usedAt t \<noteq> None" and "t_revokedAt t = None"
    and "refresh ops env presented (as_db s, as_redis s) = (res, dr)"
    and "auth_run ops sc dummy tr (after ops env dr s) s'" and "as_now s' \<le> ae_now env'"
  shows "res = Inl InvalidRefreshTokenError \<and> continues ops env' presented' (as_db s') \<noteq> Some (t_familyId t)"
proof -
  let ?h = "hashRefresh ops presented" and ?ts = "refreshTokens (as_db s)"
  have dist: "distinct (map t_tokenHash ?ts)" and fam: "t_familyId t \<in> as_families s"
    using assms(1,3) by (auto simp: auth_inv_def Let_def)
  have uniq: "x = t" if "x \<in> set ?ts" "t_tokenHash x = ?h" for x
    using distinct_key_eq [OF dist that(1) assms(3)] that(2) assms(4) by simp
  have none: "\<forall>x \<in> set ?ts. \<not> usable (ae_now env) ?h ?ts x"
    using uniq assms(5) by (auto simp: usable_def)
  have sel: "select_one (\<lambda>x. t_tokenHash x = ?h) ?ts = Some t"
    by (rule select_one_unique [OF dist assms(3)]) (use assms(4) in auto)
  obtain q d' where run: "rotate ops env ?h (as_db s) = (q, d')" by fastforce
  then have q: "q = Inr (reused (t_userId t) (t_familyId t)) \<and> d' = revoke_family (ae_now env) (t_familyId t) (as_db s)"
  proof (cases rule: rotate_cases)
    case refused
    with sel assms(5,6) show ?thesis by auto
  next
    case (reuse known)
    with uniq have "known = t" by blast
    with reuse show ?thesis by simp
  qed (use none in auto)
  then have "transaction (rotate ops env ?h) (as_db s) = (q, d')" using run by (simp add: transaction_def)
  with q assms(7) have res: "res = Inl InvalidRefreshTokenError" "fst dr = revoke_family (ae_now env) (t_familyId t) (as_db s)"
    by (auto simp: refresh_def)
  have "blocked (as_now (after ops env dr s)) (t_familyId t) (refreshTokens (as_db (after ops env dr s)))"
    by (simp add: after_def res(2) revoked_blocked)
  from blocked_for_ever [OF this _ assms(8,9)] fam res(1) show ?thesis by (simp add: after_def)
qed

text \<open>
  Logging out ends the session, even when the denylist cannot be written (the call then fails):
  no refresh continues it in any run that follows, and no other session's token row changes.
\<close>

lemma logout_ends_session:
  assumes "au_sessionId user \<in> as_families s"
    and "logout ops env user (as_db s, as_redis s) = (res, dr)"
    and "auth_run ops sc dummy tr (after ops env dr s) s'" and "as_now s' \<le> ae_now env'"
  shows "continues ops env' presented (as_db s') \<noteq> Some (au_sessionId user) \<and>
    filter (\<lambda>t. t_familyId t \<noteq> au_sessionId user) (refreshTokens (fst dr)) =
    filter (\<lambda>t. t_familyId t \<noteq> au_sessionId user) (refreshTokens (as_db s))"
proof
  have d: "fst dr = revoke_family (ae_now env) (au_sessionId user) (as_db s)"
    using assms(2) by (auto simp: logout_def split: prod.splits)
  have "blocked (as_now (after ops env dr s)) (au_sessionId user) (refreshTokens (as_db (after ops env dr s)))"
    by (simp add: after_def d revoked_blocked)
  from blocked_for_ever [OF this _ assms(3,4)] assms(1)
  show "continues ops env' presented (as_db s') \<noteq> Some (au_sessionId user)" by (simp add: after_def)
  have "filter (\<lambda>t. t_familyId t \<noteq> f) (revoke_rows now f ts) = filter (\<lambda>t. t_familyId t \<noteq> f) ts" for now f ts
    by (induction ts) (auto simp: revoke_rows_def)
  then show "filter (\<lambda>t. t_familyId t \<noteq> au_sessionId user) (refreshTokens (fst dr)) =
    filter (\<lambda>t. t_familyId t \<noteq> au_sessionId user) (refreshTokens (as_db s))" by (simp add: d)
qed

text \<open>
  From a state in which it holds, along every run a session has at most one unused refresh token,
  so at most one token that can rotate; token hashes stay unique.
\<close>

lemma session_has_one_live_token:
  assumes "auth_inv s" and "auth_run ops sc dummy tr s s'"
    and "t \<in> set (refreshTokens (as_db s'))" and "t' \<in> set (refreshTokens (as_db s'))"
    and "t_familyId t = t_familyId t'" and "usable now h (refreshTokens (as_db s')) t"
    and "usable now h' (refreshTokens (as_db s')) t'"
  shows "t = t' \<and> h = h'"
proof -
  from run_inv [OF assms(2,1)] have "one_unused (refreshTokens (as_db s'))" by (simp add: auth_inv_def Let_def)
  with assms(3-7) have "t = t'" by (auto simp: one_unused_def usable_def)
  with assms(6,7) show ?thesis by (auto simp: usable_def)
qed

text \<open>
  The cleanup of refresh tokens ends (one batch more than the expired rows suffices), reports the
  number of rows it deletes, deletes exactly the rows of families none of whose tokens is still in
  time, and so keeps every token that could rotate and every row of its family.
\<close>

lemma cleanup_refresh_tokens_correct:
  assumes "0 < batchSize" and "length (filter (family_expired now (refreshTokens d)) (refreshTokens d)) < fuel"
  shows "cleanupExpiredRefreshTokens fuel now batchSize d =
      Some (length (filter (family_expired now (refreshTokens d)) (refreshTokens d)),
        d\<lparr>refreshTokens := filter (\<lambda>t. now \<le> t_expiresAt t \<or>
          (\<exists>l \<in> set (refreshTokens d). t_familyId l = t_familyId t \<and> now \<le> t_expiresAt l)) (refreshTokens d)\<rparr>)"
proof -
  have "(\<lambda>t. \<not> family_expired now (refreshTokens d) t) = (\<lambda>t. now \<le> t_expiresAt t \<or>
      (\<exists>l \<in> set (refreshTokens d). t_familyId l = t_familyId t \<and> now \<le> t_expiresAt l))"
    by (auto simp: family_expired_def list_ex_iff)
  with delete_all_spec [OF assms] show ?thesis by (simp add: cleanup_is_delete_all)
qed

text \<open>
  C21: a user who registered with a password logs in with it (the case of the email does not matter)
  and with any other password exactly when it derives the same key; the login changes nothing when it
  is refused; and the refresh token it hands out can then be rotated for the same user, role and
  session until it expires.
\<close>

theorem login_with_password:
  assumes "scrypt_lawful sc" and "salt \<noteq> []" and "sc_derive sc password salt \<noteq> []"
    and "db_ok d" and "u \<in> set (users d)" and "u_email u = toLowerCase email"
    and "u_passwordHash u = Some (hashPassword sc salt password)"
    and "ae_rowId env \<notin> t_id ` set (refreshTokens d)"
    and "hashRefresh ops (ae_secret env) \<notin> t_tokenHash ` set (refreshTokens d)"
    and "ae_family env \<notin> t_familyId ` set (refreshTokens d)"
    and "login ops sc dummy env email presented d = (res, d')"
    and "ae_now env' < (ae_clock env + 604800 * 1000) * 1000" and "ae_rowId env' \<notin> t_id ` set (refreshTokens d')"
    and "hashRefresh ops (ae_secret env') \<notin> t_tokenHash ` set (refreshTokens d')"
  shows "if sc_derive sc presented salt = sc_derive sc password salt
    then res = pair_tokens ops (ae_jti env) (u_id u) (u_role u) (ae_family env) (ae_secret env) \<and>
      fst (rotate ops env' (hashRefresh ops (ae_secret env)) d') =
        Inr (rotated (u_id u) (u_role u) (ae_family env) (ae_secret env'))
    else res = Inl InvalidCredentialsError \<and> d' = d"
proof -
  have keys: "distinct (map u_email (users d))" "distinct (map u_id (users d))"
    using assms(4) by (auto simp: db_ok_def keys_ok_def)
  have sel: "select_one (\<lambda>v. u_email v = toLowerCase email) (users d) = Some u"
    by (rule select_one_unique [OF keys(1) assms(5)]) (use assms(6) in auto)
  have ne: "hashPassword sc salt password \<noteq> []" by (simp add: hashPassword_def)
  have cred: "credentials sc email presented d =
      (if sc_derive sc presented salt = sc_derive sc password salt then Some u else None)"
    by (simp add: credentials_def sel assms(7) ne verify_hashed [OF assms(1-3)])
  let ?d1 = "d\<lparr>refreshTokens := refreshTokens d @
      [new_token env (u_id u) (ae_family env) (hashRefresh ops (ae_secret env))]\<rparr>"
  show ?thesis
  proof (cases "sc_derive sc presented salt = sc_derive sc password salt")
    case True
    have ins: "insert_refresh env (u_id u) (ae_family env) (hashRefresh ops (ae_secret env)) d = (Inr (), ?d1)"
      by (rule insert_refresh_ok) (use assms(5,8,9) in auto)
    with assms(11) cred True have res: "res = pair_tokens ops (ae_jti env) (u_id u) (u_role u) (ae_family env) (ae_secret env)"
      and d': "d' = ?d1" by (simp_all add: login_credentials)
    have "fst (rotate ops env' (hashRefresh ops (ae_secret env)) d') =
        Inr (rotated (u_id u) (u_role u) (ae_family env) (ae_secret env'))"
    proof (rule rotate_fresh_family)
      show "refreshTokens d' = refreshTokens d @ [new_token env (u_id u) (ae_family env) (hashRefresh ops (ae_secret env))]"
        by (simp add: d')
      show "ae_now env' < refreshExpiresAt (ae_clock env)"
        using assms(12) by (simp add: refreshExpiresAt_def REFRESH_TOKEN_TTL_SECONDS_def)
    qed (use assms keys in \<open>simp_all add: d'\<close>)
    with res True show ?thesis by simp
  next
    case False
    with assms(11) cred show ?thesis by (simp add: login_credentials)
  qed
qed

definition demo_login :: TokenPair where
  "demo_login = \<lparr>tp_accessToken = ''1r1fj'', tp_expiresIn = 600, tp_refreshToken = ''one''\<rparr>"

theorem login_with_password_witness:
  "login demo_auth demo_scrypt ''x'' (demo_env 2 ''r1'' ''one'') ''A@b'' ''pw'' (demo_db []) =
     (Inr demo_login, demo_db [demo_token\<lparr>t_familyId := ''r1f'', t_expiresAt := 604800000000, t_createdAt := 2\<rparr>])
   \<and> fst (rotate demo_auth (demo_env 3 ''r2'' ''two'') ''mac-one''
       (demo_db [demo_token\<lparr>t_familyId := ''r1f'', t_expiresAt := 604800000000, t_createdAt := 2\<rparr>])) =
     Inr (rotated 1 buyer ''r1f'' ''two'')"
proof -
  have run: "login demo_auth demo_scrypt ''x'' (demo_env 2 ''r1'' ''one'') ''A@b'' ''pw'' (demo_db []) =
     (Inr demo_login, demo_db [demo_token\<lparr>t_familyId := ''r1f'', t_expiresAt := 604800000000, t_createdAt := 2\<rparr>])"
    by code_simp
  have ok: "db_ok (demo_db [])"
  proof -
    have "user_ok demo_user" by code_simp
    then show ?thesis
      by (simp add: db_ok_defs demo_db_def empty_db_def idempotency_unique_def below_def)
  qed
  have "toLowerCase ''A@b'' = ''a@b''" by code_simp
  then have mail: "u_email demo_user = toLowerCase ''A@b''" by (simp add: demo_user_def)
  have hash: "u_passwordHash demo_user = Some (hashPassword demo_scrypt ''salt'' ''pw'')" by (simp add: demo_user_def)
  have "if sc_derive demo_scrypt ''pw'' ''salt'' = sc_derive demo_scrypt ''pw'' ''salt''
    then Inr demo_login = pair_tokens demo_auth (ae_jti (demo_env 2 ''r1'' ''one'')) (u_id demo_user) (u_role demo_user)
        (ae_family (demo_env 2 ''r1'' ''one'')) (ae_secret (demo_env 2 ''r1'' ''one'')) \<and>
      fst (rotate demo_auth (demo_env 3 ''r2'' ''two'') (hashRefresh demo_auth (ae_secret (demo_env 2 ''r1'' ''one'')))
        (demo_db [demo_token\<lparr>t_familyId := ''r1f'', t_expiresAt := 604800000000, t_createdAt := 2\<rparr>])) =
        Inr (rotated (u_id demo_user) (u_role demo_user) (ae_family (demo_env 2 ''r1'' ''one''))
          (ae_secret (demo_env 3 ''r2'' ''two'')))
    else Inr demo_login = Inl InvalidCredentialsError \<and>
      demo_db [demo_token\<lparr>t_familyId := ''r1f'', t_expiresAt := 604800000000, t_createdAt := 2\<rparr>] = demo_db []"
    by (rule login_with_password [OF demo_scrypt_lawful _ _ ok _ mail hash _ _ _ run])
      (simp_all add: demo_defs demo_scrypt_def hashRefresh_def)
  then show ?thesis
    using run by (simp add: demo_env_def hashRefresh_def demo_auth_def demo_user_def)
qed

end
