(* ===== verification/Denylist_Theorems.thy ===== *)
theory Denylist_Theorems
  imports Denylist Auth_Theorems
begin

text \<open>
  The denylist protocol with everything interleaved: revocations that commit in Postgres before they
  reach Redis, writes that fail, a Redis that loses its keys and drops the connection, restarts, and
  sync tasks whose query, write and final check happen at different moments. In every reachable
  state a denylist that calls itself in sync denies every session that was revoked within the
  lifetime of an access token.
\<close>

section \<open>Keys and commands\<close>

lemma revoked_key_inj [simp]: "revokedSessionKey a = revokedSessionKey b \<longleftrightarrow> a = b"
  by (simp add: revokedSessionKey_def)

lemma denied_not_revoked [simp]: "revokedSessionKey a \<noteq> deniedTokenKey b" "deniedTokenKey b \<noteq> revokedSessionKey a"
  by (simp_all add: revokedSessionKey_def deniedTokenKey_def)

definition live_key :: "'r redis_ops \<Rightarrow> string \<Rightarrow> int \<Rightarrow> 'r \<Rightarrow> bool" where
  "live_key ops k now r \<longleftrightarrow> (case rd_expiry ops k r of None \<Rightarrow> False | Some e \<Rightarrow> now < e)"

text \<open>What the code relies on of \<open>SET\<close> with \<open>EX\<close> and \<open>NX\<close>, and of \<open>EXISTS\<close>.\<close>

definition redis_lawful :: "'r redis_ops \<Rightarrow> bool" where
  "redis_lawful ops \<longleftrightarrow>
     (\<forall>nx k ttl now r k'. rd_expiry ops k' (rd_set ops nx k ttl now r) =
        (if k' = k \<and> \<not> (nx \<and> live_key ops k now r) then Some (now + ttl * 1000000) else rd_expiry ops k' r)) \<and>
     (\<forall>ks now r. 0 < rd_exists ops ks now r \<longleftrightarrow> (\<exists>k \<in> set ks. live_key ops k now r))"

lemma run_sets_Nil [simp]: "run_sets ops now [] r = r"
  by (simp add: run_sets_def)

lemma run_sets_Cons [simp]: "run_sets ops now ((nx, k, ttl) # cs) r = run_sets ops now cs (rd_set ops nx k ttl now r)"
  by (simp add: run_sets_def)

lemma set_expiry:
  assumes "redis_lawful ops"
  shows "rd_expiry ops k' (rd_set ops nx k ttl now r) =
     (if k' = k \<and> \<not> (nx \<and> live_key ops k now r) then Some (now + ttl * 1000000) else rd_expiry ops k' r)"
  using assms unfolding redis_lawful_def by blast

text \<open>An expiry after some commands was there before, or comes from one of them.\<close>

lemma run_sets_origin:
  assumes "redis_lawful ops" and "rd_expiry ops k (run_sets ops now cs r) = Some e"
  shows "rd_expiry ops k r = Some e \<or> (\<exists>nx ttl. (nx, k, ttl) \<in> set cs \<and> e = now + ttl * 1000000)"
  using assms(2)
proof (induction cs arbitrary: r)
  case (Cons c cs)
  obtain nx k' ttl where c: "c = (nx, k', ttl)" by (cases c)
  from Cons.prems have "rd_expiry ops k (run_sets ops now cs (rd_set ops nx k' ttl now r)) = Some e" by (simp add: c)
  from Cons.IH [OF this] show ?case
    by (auto simp: c set_expiry [OF assms(1)] split: if_splits)
qed simp

text \<open>A key that is written, or was live, is live afterwards.\<close>

lemma run_sets_live:
  assumes "redis_lawful ops" and "\<forall>(nx, k', ttl) \<in> set cs. 0 < ttl"
    and "live_key ops k now r \<or> (\<exists>nx ttl. (nx, k, ttl) \<in> set cs)"
  shows "live_key ops k now (run_sets ops now cs r)"
  using assms(2,3)
proof (induction cs arbitrary: r)
  case (Cons c cs)
  obtain nx k' ttl where c: "c = (nx, k', ttl)" by (cases c)
  have pos: "0 < ttl" using Cons.prems(1) by (simp add: c)
  have "live_key ops k now (rd_set ops nx k' ttl now r) \<or> (\<exists>nx ttl. (nx, k, ttl) \<in> set cs)"
    using Cons.prems(2) pos by (auto simp: c live_key_def set_expiry [OF assms(1)] split: option.splits if_splits)
  with Cons.IH [of "rd_set ops nx k' ttl now r"] Cons.prems(1) show ?case by (simp add: c)
qed simp

section \<open>The system\<close>

datatype connection = Up | Broken | Closed

datatype sync =
    SStarted nat
  | SGot nat "RevokedSession list"
  | SWrote nat "RevokedSession list"

fun since_of :: "sync \<Rightarrow> nat" where
  "since_of (SStarted n) = n" | "since_of (SGot n rows) = n" | "since_of (SWrote n rows) = n"

text \<open>
  One process: its denylist object, its connection, the revocations it has committed but not yet
  written (with the commands it sends), and the sync tasks under way. The families drawn so far
  are a ghost.
\<close>

record 'r deny_sys =
  ds_db :: db
  ds_deny :: AccessDenylist
  ds_redis :: 'r
  ds_conn :: connection
  ds_now :: int
  ds_pending :: "(string \<times> set_command list) list"
  ds_syncs :: "sync list"
  ds_families :: "string set"

inductive deny_step :: "'r redis_ops \<Rightarrow> 'r deny_sys \<Rightarrow> 'r deny_sys \<Rightarrow> bool" for ops where
  tick: "ds_now s \<le> t \<Longrightarrow> deny_step ops s (s\<lparr>ds_now := t\<rparr>)"
| tokens: "f0 \<notin> ds_families s \<Longrightarrow> change_ok (ds_now s) f0 h0 c (refreshTokens (ds_db s)) \<Longrightarrow>
     (\<forall>g. c \<noteq> Revoke g) \<Longrightarrow>
     deny_step ops s (s\<lparr>ds_db := (ds_db s)\<lparr>refreshTokens := apply_change (ds_now s) c (refreshTokens (ds_db s))\<rparr>,
        ds_families := insert f0 (ds_families s)\<rparr>)"
| revoke: "f \<in> ds_families s \<Longrightarrow>
     cmds = revoke_commands f \<or> (\<exists>clock tokenId expiresAt. cmds = logout_commands clock tokenId expiresAt f) \<Longrightarrow>
     deny_step ops s (s\<lparr>ds_db := revoke_family (ds_now s) f (ds_db s), ds_pending := (f, cmds) # ds_pending s\<rparr>)"
| write_ok: "(f, cmds) \<in> set (ds_pending s) \<Longrightarrow> ds_conn s = Up \<Longrightarrow>
     denylist_revokeSession (Inr ()) (ds_deny s) = (res, d') \<Longrightarrow>
     deny_step ops s (s\<lparr>ds_redis := run_sets ops (ds_now s) cmds (ds_redis s), ds_deny := d',
        ds_pending := remove1 (f, cmds) (ds_pending s)\<rparr>)"
| write_fail: "(f, cmds) \<in> set (ds_pending s) \<Longrightarrow> denylist_revokeSession (Inl e) (ds_deny s) = (res, d') \<Longrightarrow>
     r' = ds_redis s \<or> ds_conn s = Up \<and> r' = run_sets ops (ds_now s) cmds (ds_redis s) \<Longrightarrow>
     deny_step ops s (s\<lparr>ds_redis := r', ds_deny := d', ds_pending := remove1 (f, cmds) (ds_pending s)\<rparr>)"
| sync_start: "deny_step ops s (s\<lparr>ds_syncs := SStarted (syncPoint (ds_deny s)) # ds_syncs s\<rparr>)"
| sync_read: "SStarted n \<in> set (ds_syncs s) \<Longrightarrow>
     deny_step ops s (s\<lparr>ds_syncs := SGot n (findRecentlyRevokedSessions (ds_now s) (ds_db s)) # remove1 (SStarted n) (ds_syncs s)\<rparr>)"
| sync_write: "SGot n rows \<in> set (ds_syncs s) \<Longrightarrow> ds_conn s = Up \<or> rows = [] \<Longrightarrow>
     deny_step ops s (s\<lparr>ds_redis := run_sets ops (ds_now s) (restore_commands rows) (ds_redis s),
        ds_syncs := SWrote n rows # remove1 (SGot n rows) (ds_syncs s)\<rparr>)"
| sync_done: "SWrote n rows \<in> set (ds_syncs s) \<Longrightarrow> checked reply = Inr () \<Longrightarrow>
     restoreRevokedSessions rows n reply (ds_deny s) = (res, d') \<Longrightarrow>
     deny_step ops s (s\<lparr>ds_deny := d', ds_syncs := remove1 (SWrote n rows) (ds_syncs s)\<rparr>)"
| sync_write_fail: "SGot n rows \<in> set (ds_syncs s) \<Longrightarrow> rows \<noteq> [] \<Longrightarrow> checked reply = Inl e \<Longrightarrow>
     restoreRevokedSessions rows n reply (ds_deny s) = (res, d') \<Longrightarrow>
     r' = ds_redis s \<or> ds_conn s = Up \<and> r' = run_sets ops (ds_now s) (take k (restore_commands rows)) (ds_redis s) \<Longrightarrow>
     deny_step ops s (s\<lparr>ds_redis := r', ds_deny := d', ds_syncs := remove1 (SGot n rows) (ds_syncs s)\<rparr>)"
| sync_read_fail: "SStarted n \<in> set (ds_syncs s) \<Longrightarrow>
     deny_step ops s (s\<lparr>ds_syncs := remove1 (SStarted n) (ds_syncs s)\<rparr>)"
| lose: "(\<forall>k. rd_expiry ops k r' = None \<or> rd_expiry ops k r' = rd_expiry ops k (ds_redis s)) \<Longrightarrow>
     deny_step ops s (s\<lparr>ds_redis := r', ds_conn := (if ds_conn s = Up then Broken else ds_conn s)\<rparr>)"
| close: "deny_step ops s (s\<lparr>ds_conn := Closed, ds_deny := markOutOfSync (ds_deny s)\<rparr>)"
| reconnect: "ds_conn s = Closed \<Longrightarrow> deny_step ops s (s\<lparr>ds_conn := Up\<rparr>)"
| restart: "deny_step ops s (s\<lparr>ds_deny := new_denylist, ds_conn := Closed, ds_pending := [], ds_syncs := []\<rparr>)"

inductive deny_reach :: "'r redis_ops \<Rightarrow> 'r deny_sys \<Rightarrow> 'r deny_sys \<Rightarrow> bool" for ops where
  deny_refl: "deny_reach ops s s"
| deny_more: "deny_reach ops s t \<Longrightarrow> deny_step ops t u \<Longrightarrow> deny_reach ops s u"

section \<open>The invariant\<close>

text \<open>A session that Postgres holds as revoked within the last lifetime of an access token.\<close>

definition recent :: "'r deny_sys \<Rightarrow> string \<Rightarrow> bool" where
  "recent s f \<longleftrightarrow> (\<exists>t \<in> set (refreshTokens (ds_db s)). t_familyId t = f \<and> recently_revoked (ds_now s) t)"

text \<open>Every token of the family is revoked, and not longer ago than \<open>e\<close> minus a token's lifetime.\<close>

definition revoked_by :: "int \<Rightarrow> string \<Rightarrow> RefreshToken list \<Rightarrow> bool" where
  "revoked_by e f ts \<longleftrightarrow> (\<forall>t \<in> set ts. t_familyId t = f \<longrightarrow> (\<exists>r. t_revokedAt t = Some r \<and> r + ttl_us \<le> e))"

definition shielded :: "'r redis_ops \<Rightarrow> 'r deny_sys \<Rightarrow> string \<Rightarrow> bool" where
  "shielded ops s f \<longleftrightarrow> f \<in> fst ` set (ds_pending s) \<or>
     ds_conn s = Up \<and> rd_expiry ops (revokedSessionKey f) (ds_redis s) \<noteq> None"

definition sync_ok :: "'r redis_ops \<Rightarrow> 'r deny_sys \<Rightarrow> sync \<Rightarrow> bool" where
  "sync_ok ops s y \<longleftrightarrow> (case y of
     SStarted n \<Rightarrow> True
   | SGot n rows \<Rightarrow> (\<forall>x \<in> set rows. rs_sessionId x \<in> ds_families s \<and> 0 < rs_ttlSeconds x \<and>
         revoked_by (ds_now s + rs_ttlSeconds x * 1000000) (rs_sessionId x) (refreshTokens (ds_db s))) \<and>
       (n = dl_generation (ds_deny s) \<longrightarrow> ds_conn s \<noteq> Broken \<longrightarrow>
         (\<forall>f. recent s f \<longrightarrow> f \<in> rs_sessionId ` set rows \<or> shielded ops s f))
   | SWrote n rows \<Rightarrow> n = dl_generation (ds_deny s) \<longrightarrow> ds_conn s \<noteq> Broken \<longrightarrow> (\<forall>f. recent s f \<longrightarrow> shielded ops s f))"

definition keys_ok_inv :: "'r redis_ops \<Rightarrow> 'r deny_sys \<Rightarrow> bool" where
  "keys_ok_inv ops s \<longleftrightarrow> (\<forall>f e. rd_expiry ops (revokedSessionKey f) (ds_redis s) = Some e \<longrightarrow>
     f \<in> ds_families s \<and> revoked_by e f (refreshTokens (ds_db s)))"

definition table_inv :: "'r deny_sys \<Rightarrow> bool" where
  "table_inv s \<longleftrightarrow> t_familyId ` set (refreshTokens (ds_db s)) \<subseteq> ds_families s \<and>
     (\<forall>t \<in> set (refreshTokens (ds_db s)). \<forall>r. t_revokedAt t = Some r \<longrightarrow> r \<le> ds_now s) \<and>
     (\<forall>t \<in> set (refreshTokens (ds_db s)). t_revokedAt t \<noteq> None \<longrightarrow>
        (\<exists>e. revoked_by e (t_familyId t) (refreshTokens (ds_db s))))"

definition pending_inv :: "'r deny_sys \<Rightarrow> bool" where
  "pending_inv s \<longleftrightarrow> (\<forall>(f, cmds) \<in> set (ds_pending s). f \<in> ds_families s \<and>
     (\<exists>e. revoked_by e f (refreshTokens (ds_db s))) \<and>
     (cmds = revoke_commands f \<or> (\<exists>clock tokenId expiresAt. cmds = logout_commands clock tokenId expiresAt f)))"

definition syncs_inv :: "'r redis_ops \<Rightarrow> 'r deny_sys \<Rightarrow> bool" where
  "syncs_inv ops s \<longleftrightarrow> (\<forall>y \<in> set (ds_syncs s). since_of y \<le> dl_generation (ds_deny s) \<and> sync_ok ops s y)"

definition synced_inv :: "'r redis_ops \<Rightarrow> 'r deny_sys \<Rightarrow> bool" where
  "synced_inv ops s \<longleftrightarrow>
     (dl_synced (ds_deny s) \<longrightarrow> ds_conn s \<noteq> Broken \<longrightarrow> (\<forall>f. recent s f \<longrightarrow> shielded ops s f))"

definition deny_ok :: "'r redis_ops \<Rightarrow> 'r deny_sys \<Rightarrow> bool" where
  "deny_ok ops s \<longleftrightarrow> keys_ok_inv ops s \<and> table_inv s \<and> pending_inv s \<and> syncs_inv ops s \<and> synced_inv ops s"

section \<open>Preservation\<close>

lemma revoked_by_mono: "revoked_by e f ts \<Longrightarrow> e \<le> e' \<Longrightarrow> revoked_by e' f ts"
  by (fastforce simp: revoked_by_def)

lemma revoked_by_revoke: "revoked_by e f ts \<Longrightarrow> revoked_by e f (revoke_rows now g ts)"
  by (auto simp: revoked_by_def revoke_rows_def set_update_where)

lemma revoked_by_now: "\<forall>t \<in> set ts. \<forall>r. t_revokedAt t = Some r \<longrightarrow> r \<le> now \<Longrightarrow>
   revoked_by (now + ttl_us) f (revoke_rows now f ts)"
  unfolding revoked_by_def
proof (intro ballI impI)
  fix x assume old: "\<forall>t \<in> set ts. \<forall>r. t_revokedAt t = Some r \<longrightarrow> r \<le> now"
    and x: "x \<in> set (revoke_rows now f ts)" and f: "t_familyId x = f"
  from x obtain t where t: "t \<in> set ts"
    "x = (if t_familyId t = f \<and> t_revokedAt t = None then t\<lparr>t_revokedAt := Some now\<rparr> else t)"
    unfolding revoke_rows_def set_update_where by blast
  show "\<exists>r. t_revokedAt x = Some r \<and> r + ttl_us \<le> now + ttl_us"
  proof (cases "t_revokedAt t")
    case None
    with t(2) f show ?thesis by (auto split: if_splits)
  next
    case (Some r)
    with t old f show ?thesis by auto
  qed
qed

text \<open>The two ways the part about the denylist object and the sync tasks survives a step.\<close>

definition keeps :: "'r redis_ops \<Rightarrow> 'r deny_sys \<Rightarrow> 'r deny_sys \<Rightarrow> bool" where
  "keeps ops s s' \<longleftrightarrow> ds_families s \<subseteq> ds_families s' \<and> dl_generation (ds_deny s') = dl_generation (ds_deny s) \<and>
     (\<forall>f \<in> ds_families s. \<forall>x. revoked_by (ds_now s + x) f (refreshTokens (ds_db s)) \<longrightarrow>
        revoked_by (ds_now s' + x) f (refreshTokens (ds_db s'))) \<and>
     (ds_conn s' \<noteq> Broken \<longrightarrow> ds_conn s \<noteq> Broken \<and>
        (\<forall>f. recent s' f \<longrightarrow> shielded ops s' f \<or> recent s f \<and> \<not> shielded ops s f))"

lemma keeps_shield:
  assumes "keeps ops s s'" and "ds_conn s' \<noteq> Broken" and "recent s' f" and "ds_conn s \<noteq> Broken \<Longrightarrow> recent s f \<Longrightarrow> P \<or> shielded ops s f"
  shows "P \<or> shielded ops s' f"
proof -
  from assms(1,2) have "ds_conn s \<noteq> Broken" and
    "recent s' f \<longrightarrow> shielded ops s' f \<or> recent s f \<and> \<not> shielded ops s f" by (simp_all add: keeps_def)
  with assms(3,4) show ?thesis by auto
qed

lemma keeps_rows:
  assumes "keeps ops s s'" and "f \<in> ds_families s" and "revoked_by (ds_now s + x) f (refreshTokens (ds_db s))"
  shows "f \<in> ds_families s' \<and> revoked_by (ds_now s' + x) f (refreshTokens (ds_db s'))"
proof -
  from assms(1) have "ds_families s \<subseteq> ds_families s'" and
    "\<forall>f \<in> ds_families s. \<forall>x. revoked_by (ds_now s + x) f (refreshTokens (ds_db s)) \<longrightarrow>
        revoked_by (ds_now s' + x) f (refreshTokens (ds_db s'))" by (simp_all add: keeps_def)
  with assms(2,3) show ?thesis by auto
qed

lemma keeps_generation: "keeps ops s s' \<Longrightarrow> dl_generation (ds_deny s') = dl_generation (ds_deny s)"
  by (simp add: keeps_def)

lemma keeps_conn: "keeps ops s s' \<Longrightarrow> ds_conn s' \<noteq> Broken \<Longrightarrow> ds_conn s \<noteq> Broken"
  by (simp add: keeps_def)

lemma keeps_sync:
  assumes k: "keeps ops s s'" and "sync_ok ops s y"
  shows "sync_ok ops s' y"
proof (cases y)
  case (SGot n rows)
  show ?thesis
    unfolding SGot sync_ok_def sync.case
  proof (intro conjI ballI impI allI)
    fix x assume "x \<in> set rows"
    with assms(2) SGot have "rs_sessionId x \<in> ds_families s" "0 < rs_ttlSeconds x"
      "revoked_by (ds_now s + rs_ttlSeconds x * 1000000) (rs_sessionId x) (refreshTokens (ds_db s))"
      by (auto simp: sync_ok_def)
    with keeps_rows [OF k] show "rs_sessionId x \<in> ds_families s'" "0 < rs_ttlSeconds x"
      "revoked_by (ds_now s' + rs_ttlSeconds x * 1000000) (rs_sessionId x) (refreshTokens (ds_db s'))" by blast+
  next
    fix f assume "n = dl_generation (ds_deny s')" and c: "ds_conn s' \<noteq> Broken" and "recent s' f"
    with assms(2) SGot keeps_generation [OF k] keeps_conn [OF k c]
    show "f \<in> rs_sessionId ` set rows \<or> shielded ops s' f"
      by (intro keeps_shield [OF k c]) (auto simp: sync_ok_def)
  qed
next
  case (SWrote n rows)
  show ?thesis
    unfolding SWrote sync_ok_def sync.case
  proof (intro allI impI)
    fix f assume "n = dl_generation (ds_deny s')" and c: "ds_conn s' \<noteq> Broken" and "recent s' f"
    with assms(2) SWrote keeps_generation [OF k] keeps_conn [OF k c]
    have "False \<or> shielded ops s' f" by (intro keeps_shield [OF k c]) (auto simp: sync_ok_def)
    then show "shielded ops s' f" by simp
  qed
qed (simp add: sync_ok_def)

lemma keeps_synced:
  assumes k: "keeps ops s s'" and "synced_inv ops s" and "dl_synced (ds_deny s') = dl_synced (ds_deny s)"
  shows "synced_inv ops s'"
  unfolding synced_inv_def
proof (intro impI allI)
  fix f assume "dl_synced (ds_deny s')" and c: "ds_conn s' \<noteq> Broken" and "recent s' f"
  with assms(2,3) keeps_conn [OF k c]
  have "False \<or> shielded ops s' f" by (intro keeps_shield [OF k c]) (auto simp: synced_inv_def)
  then show "shielded ops s' f" by simp
qed

lemma keeps_syncs:
  assumes "keeps ops s s'" and "syncs_inv ops s" and "set (ds_syncs s') \<subseteq> set (ds_syncs s)"
  shows "syncs_inv ops s'"
  unfolding syncs_inv_def
proof
  fix y assume "y \<in> set (ds_syncs s')"
  with assms(2,3) have "since_of y \<le> dl_generation (ds_deny s)" "sync_ok ops s y" by (auto simp: syncs_inv_def)
  with keeps_sync [OF assms(1)] keeps_generation [OF assms(1)]
  show "since_of y \<le> dl_generation (ds_deny s') \<and> sync_ok ops s' y" by simp
qed

definition bumps :: "'r deny_sys \<Rightarrow> 'r deny_sys \<Rightarrow> bool" where
  "bumps s s' \<longleftrightarrow> ds_deny s' = markOutOfSync (ds_deny s) \<and> ds_families s' = ds_families s \<and>
     ds_now s' = ds_now s \<and> ds_db s' = ds_db s \<and> set (ds_syncs s') \<subseteq> set (ds_syncs s)"

lemma bumps_sync:
  assumes "bumps s s'" and "sync_ok ops s y" and "since_of y \<le> dl_generation (ds_deny s)"
  shows "sync_ok ops s' y"
  using assms by (cases y) (auto simp: bumps_def sync_ok_def markOutOfSync_def)

lemma bumps_inv:
  assumes b: "bumps s s'" and "syncs_inv ops s"
  shows "syncs_inv ops s'" and "synced_inv ops s'"
proof -
  show "synced_inv ops s'" using b by (simp add: bumps_def synced_inv_def markOutOfSync_def)
  show "syncs_inv ops s'"
    unfolding syncs_inv_def
  proof
    fix y assume "y \<in> set (ds_syncs s')"
    with assms have "since_of y \<le> dl_generation (ds_deny s)" "sync_ok ops s y"
      by (auto simp: syncs_inv_def bumps_def)
    with bumps_sync [OF b] b show "since_of y \<le> dl_generation (ds_deny s') \<and> sync_ok ops s' y"
      by (simp add: bumps_def markOutOfSync_def)
  qed
qed

lemma tokens_origin:
  assumes "change_ok now f0 h0 c ts" and "\<forall>g. c \<noteq> Revoke g" and "x \<in> set (apply_change now c ts)"
    and "t_revokedAt x = Some r"
  shows "\<exists>t \<in> set ts. t_familyId t = t_familyId x \<and> t_revokedAt t = Some r"
proof (cases c)
  case (Start t)
  with assms show ?thesis by auto
next
  case (Rotate h t)
  with assms have "x \<in> set (mark_used now h ts)" by auto
  then show ?thesis
  proof (cases rule: in_mark_used)
    case (2 t)
    with assms(4) show ?thesis by (intro bexI [of _ t]) auto
  qed (use assms(4) in auto)
qed (use assms in auto)

lemma tokens_revoked_by:
  assumes "change_ok now f0 h0 c ts" and "\<forall>g. c \<noteq> Revoke g" and "f \<in> F" and "f0 \<notin> F" and "revoked_by e f ts"
  shows "revoked_by e f (apply_change now c ts)"
proof (cases c)
  case (Start t)
  with assms show ?thesis by (auto simp: revoked_by_def)
next
  case (Rotate h t)
  with assms(1) obtain row where row: "row \<in> set ts" "usable now h ts row" "t_familyId t = t_familyId row" by auto
  with assms(5) have nf: "t_familyId t \<noteq> f" by (auto simp: revoked_by_def usable_def)
  have "\<exists>r. t_revokedAt x = Some r \<and> r + ttl_us \<le> e" if "x \<in> set (mark_used now h ts)" "t_familyId x = f" for x
    using that(1)
  proof (cases rule: in_mark_used)
    case (2 t)
    with that(2) have "t_familyId t = f" by simp
    with 2(1) assms(5) have "\<exists>r. t_revokedAt t = Some r \<and> r + ttl_us \<le> e" by (auto simp: revoked_by_def)
    with 2(3) show ?thesis by simp
  qed (use that assms(5) in \<open>auto simp: revoked_by_def\<close>)
  with Rotate nf show ?thesis by (auto simp: revoked_by_def)
next
  case (Revoke g)
  with assms(2) show ?thesis by simp
qed (use assms(5) in \<open>auto simp: revoked_by_def\<close>)

lemma tokens_families:
  assumes "change_ok now f0 h0 c ts" and "\<forall>g. c \<noteq> Revoke g"
  shows "t_familyId ` set (apply_change now c ts) \<subseteq> insert f0 (t_familyId ` set ts)"
  using assms by (cases c) auto

lemma revoke_origin:
  assumes "x \<in> set (revoke_rows now g ts)" and "t_revokedAt x = Some r"
  shows "r = now \<and> t_familyId x = g \<or> (\<exists>t \<in> set ts. t_familyId t = t_familyId x \<and> t_revokedAt t = Some r)"
proof -
  from assms(1) obtain t where t: "t \<in> set ts"
    "x = (if t_familyId t = g \<and> t_revokedAt t = None then t\<lparr>t_revokedAt := Some now\<rparr> else t)"
    unfolding revoke_rows_def set_update_where by blast
  with assms(2) show ?thesis by (auto split: if_splits)
qed

subsection \<open>Steps that change the tables or the time\<close>

lemma deny_tokens:
  assumes ok: "deny_ok ops s" and f0: "f0 \<notin> ds_families s"
    and c: "change_ok (ds_now s) f0 h0 c (refreshTokens (ds_db s))" "\<forall>g. c \<noteq> Revoke g"
  shows "deny_ok ops (s\<lparr>ds_db := (ds_db s)\<lparr>refreshTokens := apply_change (ds_now s) c (refreshTokens (ds_db s))\<rparr>,
     ds_families := insert f0 (ds_families s)\<rparr>)" (is "deny_ok ops ?s")
proof -
  let ?ts = "refreshTokens (ds_db s)" and ?ts' = "apply_change (ds_now s) c (refreshTokens (ds_db s))"
  note rb = tokens_revoked_by [OF c _ f0]
  from ok have k: "keys_ok_inv ops s" and t: "table_inv s" and p: "pending_inv s" and y: "syncs_inv ops s"
    and z: "synced_inv ops s" by (simp_all add: deny_ok_def)
  have rec: "recent s f" if "recent ?s f" for f
  proof -
    from that obtain x r where "x \<in> set ?ts'" "t_familyId x = f" "t_revokedAt x = Some r" "ds_now s - ttl_us < r"
      by (auto simp: recent_def recently_revoked_def split: option.splits)
    with tokens_origin [OF c] show ?thesis by (force simp: recent_def recently_revoked_def)
  qed
  have keep: "keeps ops s ?s"
    using rec by (auto simp: keeps_def shielded_def intro: rb)
  have "keys_ok_inv ops ?s" using k by (auto simp: keys_ok_inv_def intro: rb)
  moreover have "table_inv ?s"
    unfolding table_inv_def
  proof (intro conjI ballI allI impI)
    show "t_familyId ` set (refreshTokens (ds_db ?s)) \<subseteq> ds_families ?s"
      using tokens_families [OF c] t by (auto simp: table_inv_def)
  next
    fix x r assume "x \<in> set (refreshTokens (ds_db ?s))" "t_revokedAt x = Some r"
    with tokens_origin [OF c, of x r] t show "r \<le> ds_now ?s" by (auto simp: table_inv_def)
  next
    fix x assume x: "x \<in> set (refreshTokens (ds_db ?s))" "t_revokedAt x \<noteq> None"
    then obtain r where "t_revokedAt x = Some r" by blast
    with x(1) tokens_origin [OF c, of x r] obtain u where u: "u \<in> set ?ts" "t_familyId u = t_familyId x" "t_revokedAt u = Some r"
      by auto
    with t obtain e where "revoked_by e (t_familyId x) ?ts" by (fastforce simp: table_inv_def)
    moreover have "t_familyId x \<in> ds_families s" using u t by (force simp: table_inv_def)
    ultimately show "\<exists>e. revoked_by e (t_familyId x) (refreshTokens (ds_db ?s))" by (auto intro: rb)
  qed
  moreover have "pending_inv ?s" using p by (fastforce simp: pending_inv_def intro: rb)
  ultimately show ?thesis
    using keeps_syncs [OF keep y] keeps_synced [OF keep z] by (simp add: deny_ok_def)
qed

lemma deny_revoke:
  assumes ok: "deny_ok ops s" and f: "f \<in> ds_families s"
    and cmds: "cmds = revoke_commands f \<or> (\<exists>clock tokenId expiresAt. cmds = logout_commands clock tokenId expiresAt f)"
  shows "deny_ok ops (s\<lparr>ds_db := revoke_family (ds_now s) f (ds_db s), ds_pending := (f, cmds) # ds_pending s\<rparr>)"
    (is "deny_ok ops ?s")
proof -
  let ?ts = "refreshTokens (ds_db s)" and ?ts' = "revoke_rows (ds_now s) f (refreshTokens (ds_db s))"
  from ok have k: "keys_ok_inv ops s" and t: "table_inv s" and p: "pending_inv s" and y: "syncs_inv ops s"
    and z: "synced_inv ops s" by (simp_all add: deny_ok_def)
  have past: "\<forall>t \<in> set ?ts. \<forall>r. t_revokedAt t = Some r \<longrightarrow> r \<le> ds_now s" using t by (simp add: table_inv_def)
  have rec: "recent s g" if "recent ?s g" "g \<noteq> f" for g
  proof -
    from that obtain x r where "x \<in> set ?ts'" "t_familyId x = g" "t_revokedAt x = Some r" "ds_now s - ttl_us < r"
      by (auto simp: recent_def recently_revoked_def split: option.splits)
    with revoke_origin [of x "ds_now s" f ?ts r] that(2) show ?thesis by (force simp: recent_def recently_revoked_def)
  qed
  have keep: "keeps ops s ?s"
    using rec by (auto simp: keeps_def shielded_def intro: revoked_by_revoke)
  have "keys_ok_inv ops ?s" using k by (auto simp: keys_ok_inv_def intro: revoked_by_revoke)
  moreover have "table_inv ?s"
    unfolding table_inv_def
  proof (intro conjI ballI allI impI)
    show "t_familyId ` set (refreshTokens (ds_db ?s)) \<subseteq> ds_families ?s"
      using t by (simp add: table_inv_def)
  next
    fix x r assume "x \<in> set (refreshTokens (ds_db ?s))" "t_revokedAt x = Some r"
    with revoke_origin [of x "ds_now s" f ?ts r] past show "r \<le> ds_now ?s" by auto
  next
    fix x assume x: "x \<in> set (refreshTokens (ds_db ?s))" "t_revokedAt x \<noteq> None"
    show "\<exists>e. revoked_by e (t_familyId x) (refreshTokens (ds_db ?s))"
    proof (cases "t_familyId x = f")
      case True
      with revoked_by_now [OF past] show ?thesis by auto
    next
      case False
      with x revoke_origin [of x "ds_now s" f ?ts] obtain u where
        "u \<in> set ?ts" "t_familyId u = t_familyId x" "t_revokedAt u \<noteq> None" by auto
      with t obtain e where "revoked_by e (t_familyId x) ?ts" by (fastforce simp: table_inv_def)
      then show ?thesis by (auto intro: revoked_by_revoke)
    qed
  qed
  moreover have "pending_inv ?s"
    using p f cmds revoked_by_now [OF past, of f] by (fastforce simp: pending_inv_def intro: revoked_by_revoke)
  ultimately show ?thesis
    using keeps_syncs [OF keep y] keeps_synced [OF keep z] by (simp add: deny_ok_def)
qed

lemma deny_tick:
  assumes ok: "deny_ok ops s" and "ds_now s \<le> t"
  shows "deny_ok ops (s\<lparr>ds_now := t\<rparr>)" (is "deny_ok ops ?s")
proof -
  from ok have k: "keys_ok_inv ops s" and tb: "table_inv s" and p: "pending_inv s" and y: "syncs_inv ops s"
    and z: "synced_inv ops s" by (simp_all add: deny_ok_def)
  have rec: "recent s f" if "recent ?s f" for f
    using that assms(2) by (fastforce simp: recent_def recently_revoked_def split: option.splits)
  have keep: "keeps ops s ?s"
    using rec assms(2) by (auto simp: keeps_def shielded_def intro: revoked_by_mono)
  have "keys_ok_inv ops ?s" "pending_inv ?s" using k p by (simp_all add: keys_ok_inv_def pending_inv_def)
  moreover have "table_inv ?s" using tb assms(2) by (fastforce simp: table_inv_def)
  ultimately show ?thesis
    using keeps_syncs [OF keep y] keeps_synced [OF keep z] by (simp add: deny_ok_def)
qed

subsection \<open>Writes\<close>

lemma command_targets:
  assumes "cmds = revoke_commands f \<or> (\<exists>clock tokenId expiresAt. cmds = logout_commands clock tokenId expiresAt f)"
  shows "\<forall>(nx, k, ttl) \<in> set cmds. 0 < ttl" and "\<exists>nx ttl. (nx, revokedSessionKey f, ttl) \<in> set cmds"
    and "(nx, revokedSessionKey g, ttl) \<in> set cmds \<Longrightarrow> g = f \<and> ttl * 1000000 = ttl_us"
  using assms
  by (auto simp: revoke_commands_def logout_commands_def ACCESS_TOKEN_TTL_SECONDS_def ttl_us_def Let_def split: if_splits)

lemma revoked_all_by:
  assumes "table_inv s" and "revoked_by e f (refreshTokens (ds_db s))"
  shows "revoked_by (ds_now s + ttl_us) f (refreshTokens (ds_db s))"
  unfolding revoked_by_def
proof (intro ballI impI)
  fix t assume "t \<in> set (refreshTokens (ds_db s))" "t_familyId t = f"
  moreover from this assms(2) obtain r where "t_revokedAt t = Some r" by (auto simp: revoked_by_def)
  ultimately show "\<exists>r. t_revokedAt t = Some r \<and> r + ttl_us \<le> ds_now s + ttl_us"
    using assms(1) by (auto simp: table_inv_def)
qed

lemma write_keys:
  assumes law: "redis_lawful ops" and ok: "deny_ok ops s" and p: "(f, cmds) \<in> set (ds_pending s)"
    and e: "rd_expiry ops (revokedSessionKey g) (run_sets ops (ds_now s) cmds (ds_redis s)) = Some e"
  shows "g \<in> ds_families s \<and> revoked_by e g (refreshTokens (ds_db s))"
proof -
  from ok have k: "keys_ok_inv ops s" and t: "table_inv s" and pe: "pending_inv s" by (simp_all add: deny_ok_def)
  from pe p obtain e0 where f: "f \<in> ds_families s" "revoked_by e0 f (refreshTokens (ds_db s))"
    and c: "cmds = revoke_commands f \<or> (\<exists>clock tokenId expiresAt. cmds = logout_commands clock tokenId expiresAt f)"
    unfolding pending_inv_def by fast
  from run_sets_origin [OF law e] show ?thesis
  proof
    assume "rd_expiry ops (revokedSessionKey g) (ds_redis s) = Some e"
    with k show ?thesis by (simp add: keys_ok_inv_def)
  next
    assume "\<exists>nx ttl. (nx, revokedSessionKey g, ttl) \<in> set cmds \<and> e = ds_now s + ttl * 1000000"
    then obtain nx ttl where m: "(nx, revokedSessionKey g, ttl) \<in> set cmds" "e = ds_now s + ttl * 1000000" by blast
    from command_targets(3) [OF c m(1)] m(2) have "g = f" "e = ds_now s + ttl_us" by simp_all
    with f(1) revoked_all_by [OF t f(2)] show ?thesis by simp
  qed
qed

lemma live_key_some: "live_key ops k now r \<Longrightarrow> rd_expiry ops k r \<noteq> None"
  by (auto simp: live_key_def split: option.splits)

text \<open>Commands never remove a key.\<close>

lemma run_sets_keep:
  assumes "redis_lawful ops" and "rd_expiry ops k r \<noteq> None"
  shows "rd_expiry ops k (run_sets ops now cs r) \<noteq> None"
  using assms(2)
proof (induction cs arbitrary: r)
  case (Cons c cs)
  obtain nx k' ttl where c: "c = (nx, k', ttl)" by (cases c)
  have "rd_expiry ops k (rd_set ops nx k' ttl now r) \<noteq> None"
    using Cons.prems by (simp add: set_expiry [OF assms(1)])
  from Cons.IH [OF this] show ?case by (simp add: c)
qed simp

lemma deny_write_ok:
  assumes law: "redis_lawful ops" and ok: "deny_ok ops s" and p: "(f, cmds) \<in> set (ds_pending s)"
    and up: "ds_conn s = Up"
  shows "deny_ok ops (s\<lparr>ds_redis := run_sets ops (ds_now s) cmds (ds_redis s),
      ds_pending := remove1 (f, cmds) (ds_pending s)\<rparr>)" (is "deny_ok ops ?s")
proof -
  from ok have t: "table_inv s" and pe: "pending_inv s" and y: "syncs_inv ops s"
    and z: "synced_inv ops s" by (simp_all add: deny_ok_def)
  from pe p have c: "cmds = revoke_commands f \<or> (\<exists>clock tokenId expiresAt. cmds = logout_commands clock tokenId expiresAt f)"
    unfolding pending_inv_def by fast
  have "live_key ops (revokedSessionKey f) (ds_now s) (run_sets ops (ds_now s) cmds (ds_redis s))"
    by (rule run_sets_live [OF law command_targets(1) [OF c]]) (use command_targets(2) [OF c] in blast)
  then have new: "rd_expiry ops (revokedSessionKey f) (run_sets ops (ds_now s) cmds (ds_redis s)) \<noteq> None"
    by (rule live_key_some)
  have shield: "shielded ops ?s g" if sh: "shielded ops s g" for g
  proof (cases "g = f")
    case True
    with new up show ?thesis by (simp add: shielded_def)
  next
    case False
    from sh show ?thesis
      unfolding shielded_def
    proof
      assume "g \<in> fst ` set (ds_pending s)"
      then obtain x where "(g, x) \<in> set (ds_pending s)" by auto
      with False have "(g, x) \<in> set (remove1 (f, cmds) (ds_pending s))" by (simp add: in_set_remove1)
      then show "g \<in> fst ` set (ds_pending ?s) \<or> ds_conn ?s = Up \<and> rd_expiry ops (revokedSessionKey g) (ds_redis ?s) \<noteq> None"
        by force
    next
      assume "ds_conn s = Up \<and> rd_expiry ops (revokedSessionKey g) (ds_redis s) \<noteq> None"
      with run_sets_keep [OF law] show "g \<in> fst ` set (ds_pending ?s) \<or> ds_conn ?s = Up \<and> rd_expiry ops (revokedSessionKey g) (ds_redis ?s) \<noteq> None"
        by simp
    qed
  qed
  have keep: "keeps ops s ?s"
    using shield up by (auto simp: keeps_def recent_def)
  have "keys_ok_inv ops ?s" using write_keys [OF law ok p] by (simp add: keys_ok_inv_def)
  moreover have "table_inv ?s" using t by (simp add: table_inv_def)
  moreover have "pending_inv ?s" using pe set_remove1_subset [of "(f, cmds)" "ds_pending s"] unfolding pending_inv_def by auto
  ultimately show ?thesis
    using keeps_syncs [OF keep y] keeps_synced [OF keep z] by (simp add: deny_ok_def)
qed

text \<open>A failed write or a closed connection: out of sync, and every sync under way is stale.\<close>

lemma deny_bump:
  assumes ok: "deny_ok ops s" and b: "bumps s s'" and pe: "set (ds_pending s') \<subseteq> set (ds_pending s)"
    and k: "\<And>g e. rd_expiry ops (revokedSessionKey g) (ds_redis s') = Some e \<Longrightarrow>
      g \<in> ds_families s \<and> revoked_by e g (refreshTokens (ds_db s))"
  shows "deny_ok ops s'"
proof -
  from ok have t: "table_inv s" and p: "pending_inv s" and y: "syncs_inv ops s" by (simp_all add: deny_ok_def)
  have "keys_ok_inv ops s'" using k b by (simp add: keys_ok_inv_def bumps_def)
  moreover have "table_inv s'" using t b by (simp add: table_inv_def bumps_def)
  moreover have "pending_inv s'" using p b pe by (auto simp: pending_inv_def bumps_def)
  ultimately show ?thesis using bumps_inv [OF b y] by (simp add: deny_ok_def)
qed

lemma deny_keys: "deny_ok ops s \<Longrightarrow> rd_expiry ops (revokedSessionKey g) (ds_redis s) = Some e \<Longrightarrow>
   g \<in> ds_families s \<and> revoked_by e g (refreshTokens (ds_db s))"
  by (simp add: deny_ok_def keys_ok_inv_def)

subsection \<open>Sync tasks\<close>

lemma found_sessions:
  assumes t: "table_inv s" and x: "x \<in> set (findRecentlyRevokedSessions (ds_now s) (ds_db s))"
  shows "rs_sessionId x \<in> ds_families s" and "0 < rs_ttlSeconds x"
    and "revoked_by (ds_now s + rs_ttlSeconds x * 1000000) (rs_sessionId x) (refreshTokens (ds_db s))"
proof -
  let ?ts = "refreshTokens (ds_db s)"
  let ?rows = "filter (recently_revoked (ds_now s)) ?ts"
  let ?f = "rs_sessionId x"
  let ?last = "last_revoked ?f ?rows"
  have f: "?f \<in> t_familyId ` set ?rows" and ttl: "rs_ttlSeconds x = ceil_sql (?last + ttl_us - ds_now s)"
    using x by (auto simp: findRecentlyRevokedSessions_def Let_def)
  let ?R = "set (map (\<lambda>t. the (t_revokedAt t)) (filter (\<lambda>t. t_familyId t = ?f) ?rows))"
  have fin: "finite ?R" by simp
  have ne: "?R \<noteq> {}" using f by auto
  have last: "?last \<in> ?R" unfolding last_revoked_def by (rule Max_in [OF fin ne])
  then obtain u where u: "u \<in> set ?ts" "t_familyId u = ?f" "t_revokedAt u = Some ?last" "ds_now s - ttl_us < ?last"
    by (auto simp: recently_revoked_def split: option.splits)
  have ceil: "y \<le> ceil_sql y * 1000000" for y unfolding ceil_sql_def by simp
  have pos: "0 < ceil_sql y" if "0 < y" for y using that ceil [of y] by simp
  show "?f \<in> ds_families s" using u t by (force simp: table_inv_def)
  show "0 < rs_ttlSeconds x" unfolding ttl by (rule pos) (use u(4) in simp)
  from u t obtain e where e: "revoked_by e ?f ?ts" by (fastforce simp: table_inv_def)
  show "revoked_by (ds_now s + rs_ttlSeconds x * 1000000) ?f ?ts"
    unfolding revoked_by_def
  proof (intro ballI impI)
    fix v assume v: "v \<in> set ?ts" "t_familyId v = ?f"
    with e obtain r where r: "t_revokedAt v = Some r" by (auto simp: revoked_by_def)
    have "r \<le> ?last"
    proof (cases "ds_now s - ttl_us < r")
      case True
      with v r have "r \<in> ?R" by (force simp: recently_revoked_def)
      then show ?thesis unfolding last_revoked_def by (rule Max_ge [OF fin])
    next
      case False
      with u(4) show ?thesis by simp
    qed
    with r ceil [of "?last + ttl_us - ds_now s"]
    show "\<exists>r. t_revokedAt v = Some r \<and> r + ttl_us \<le> ds_now s + rs_ttlSeconds x * 1000000"
      by (simp add: ttl)
  qed
qed

lemma found_complete:
  assumes "recent s f"
  shows "f \<in> rs_sessionId ` set (findRecentlyRevokedSessions (ds_now s) (ds_db s))"
  using assms by (force simp: recent_def findRecentlyRevokedSessions_def Let_def image_image)

lemma syncs_inv_cong:
  assumes "ds_families s' = ds_families s" and "ds_db s' = ds_db s" and "ds_now s' = ds_now s"
    and "ds_conn s' = ds_conn s" and "ds_pending s' = ds_pending s" and "ds_redis s' = ds_redis s"
    and "dl_generation (ds_deny s') = dl_generation (ds_deny s)"
    and "set (ds_syncs s') \<subseteq> set (ds_syncs s)" and "syncs_inv ops s"
  shows "syncs_inv ops s'"
proof (rule keeps_syncs [OF _ assms(9,8)])
  show "keeps ops s s'" using assms by (auto simp: keeps_def recent_def shielded_def)
qed

text \<open>Replacing one sync task by another that is right.\<close>

lemma deny_sync_task:
  assumes ok: "deny_ok ops s" and s': "s' = s\<lparr>ds_syncs := y # ys\<rparr>" and ys: "set ys \<subseteq> set (ds_syncs s)"
    and y: "since_of y \<le> dl_generation (ds_deny s)" "sync_ok ops s y"
  shows "deny_ok ops s'"
proof -
  have same: "sync_ok ops s' z = sync_ok ops s z" for z
    by (simp add: s' sync_ok_def recent_def shielded_def split: sync.splits)
  have "syncs_inv ops s'" using ok y ys by (auto simp: syncs_inv_def same [unfolded s'] deny_ok_def s')
  with ok show ?thesis
    by (simp add: s' deny_ok_def keys_ok_inv_def table_inv_def pending_inv_def synced_inv_def recent_def shielded_def)
qed

lemma deny_sync_write:
  assumes law: "redis_lawful ops" and ok: "deny_ok ops s" and y: "SGot n rows \<in> set (ds_syncs s)"
    and up: "ds_conn s = Up \<or> rows = []"
  shows "deny_ok ops (s\<lparr>ds_redis := run_sets ops (ds_now s) (restore_commands rows) (ds_redis s),
      ds_syncs := SWrote n rows # remove1 (SGot n rows) (ds_syncs s)\<rparr>)" (is "deny_ok ops ?s")
proof -
  let ?r = "run_sets ops (ds_now s) (restore_commands rows) (ds_redis s)"
  let ?s0 = "s\<lparr>ds_redis := ?r\<rparr>"
  from ok have t: "table_inv s" and pe: "pending_inv s" and ys: "syncs_inv ops s" and z: "synced_inv ops s"
    by (simp_all add: deny_ok_def)
  from ys y have got: "sync_ok ops s (SGot n rows)" "n \<le> dl_generation (ds_deny s)"
    by (force simp: syncs_inv_def)+
  have row: "rs_sessionId x \<in> ds_families s" "0 < rs_ttlSeconds x"
    "revoked_by (ds_now s + rs_ttlSeconds x * 1000000) (rs_sessionId x) (refreshTokens (ds_db s))" if "x \<in> set rows" for x
    using got(1) that by (simp_all add: sync_ok_def)
  have pos: "\<forall>(nx, k, ttl) \<in> set (restore_commands rows). 0 < ttl"
    using row(2) by (auto simp: restore_commands_def)
  have keys: "g \<in> ds_families s \<and> revoked_by e g (refreshTokens (ds_db s))"
    if "rd_expiry ops (revokedSessionKey g) ?r = Some e" for g e
    using run_sets_origin [OF law that]
  proof
    assume "rd_expiry ops (revokedSessionKey g) (ds_redis s) = Some e"
    with ok show ?thesis by (rule deny_keys)
  next
    assume "\<exists>nx ttl. (nx, revokedSessionKey g, ttl) \<in> set (restore_commands rows) \<and> e = ds_now s + ttl * 1000000"
    then obtain x where "x \<in> set rows" "g = rs_sessionId x" "e = ds_now s + rs_ttlSeconds x * 1000000"
      by (auto simp: restore_commands_def)
    with row show ?thesis by simp
  qed
  have shield: "shielded ops ?s0 g" if "shielded ops s g" for g
    using that run_sets_keep [OF law] by (auto simp: shielded_def)
  have keep: "keeps ops s ?s0" using shield by (auto simp: keeps_def recent_def)
  have ok0: "deny_ok ops ?s0"
    using keys t pe keeps_syncs [OF keep ys] keeps_synced [OF keep z]
    by (simp add: deny_ok_def keys_ok_inv_def table_inv_def pending_inv_def)
  have wrote: "sync_ok ops ?s0 (SWrote n rows)"
    unfolding sync_ok_def sync.case
  proof (intro impI allI)
    fix f assume n: "n = dl_generation (ds_deny ?s0)" and c: "ds_conn ?s0 \<noteq> Broken" and f: "recent ?s0 f"
    from n c f got(1) have "f \<in> rs_sessionId ` set rows \<or> shielded ops s f"
      by (simp add: sync_ok_def recent_def)
    then show "shielded ops ?s0 f"
    proof
      assume "f \<in> rs_sessionId ` set rows"
      then have "\<exists>nx ttl. (nx, revokedSessionKey f, ttl) \<in> set (restore_commands rows)" and "rows \<noteq> []"
        by (auto simp: restore_commands_def)
      with run_sets_live [OF law pos, of "revokedSessionKey f" "ds_now s" "ds_redis s"] up
      show ?thesis by (auto simp: shielded_def dest: live_key_some)
    qed (rule shield)
  qed
  show ?thesis
    by (rule deny_sync_task [OF ok0, of _ "SWrote n rows" "remove1 (SGot n rows) (ds_syncs s)"])
      (use got wrote set_remove1_subset [of "SGot n rows" "ds_syncs s"] in auto)
qed

lemma deny_sync_done:
  assumes ok: "deny_ok ops s" and y: "SWrote n rows \<in> set (ds_syncs s)" and "checked reply = Inr ()"
    and run: "restoreRevokedSessions rows n reply (ds_deny s) = (res, d')"
  shows "deny_ok ops (s\<lparr>ds_deny := d', ds_syncs := remove1 (SWrote n rows) (ds_syncs s)\<rparr>)" (is "deny_ok ops ?s")
proof -
  have d': "d' = (if dl_generation (ds_deny s) = n then (ds_deny s)\<lparr>dl_synced := True\<rparr> else ds_deny s)"
    using run assms(3) by (auto simp: restoreRevokedSessions_def andThen_def denylist_write_def return_def split: if_splits)
  from ok have ys: "syncs_inv ops s" and z: "synced_inv ops s" by (simp_all add: deny_ok_def)
  from ys y have wrote: "sync_ok ops s (SWrote n rows)" by (force simp: syncs_inv_def)
  have "syncs_inv ops ?s"
    by (rule syncs_inv_cong [OF _ _ _ _ _ _ _ _ ys]) (simp_all add: d' set_remove1_subset)
  moreover have "synced_inv ops ?s"
    using z wrote by (auto simp: synced_inv_def sync_ok_def recent_def shielded_def d' split: if_splits)
  ultimately show ?thesis
    using ok by (simp add: deny_ok_def keys_ok_inv_def table_inv_def pending_inv_def)
qed

lemma deny_drop_sync:
  assumes "deny_ok ops s" and "set ys \<subseteq> set (ds_syncs s)"
  shows "deny_ok ops (s\<lparr>ds_syncs := ys\<rparr>)"
proof -
  have "keeps ops s (s\<lparr>ds_syncs := ys\<rparr>)" by (auto simp: keeps_def recent_def shielded_def)
  from keeps_syncs [OF this] keeps_synced [OF this] assms show ?thesis
    by (simp add: deny_ok_def keys_ok_inv_def table_inv_def pending_inv_def)
qed

subsection \<open>The connection\<close>

lemma deny_lose:
  assumes ok: "deny_ok ops s"
    and less: "\<forall>k. rd_expiry ops k r' = None \<or> rd_expiry ops k r' = rd_expiry ops k (ds_redis s)"
  shows "deny_ok ops (s\<lparr>ds_redis := r', ds_conn := (if ds_conn s = Up then Broken else ds_conn s)\<rparr>)" (is "deny_ok ops ?s")
proof -
  from ok have t: "table_inv s" and pe: "pending_inv s" and ys: "syncs_inv ops s" and z: "synced_inv ops s"
    by (simp_all add: deny_ok_def)
  have keep: "keeps ops s ?s" by (auto simp: keeps_def recent_def shielded_def)
  have "keys_ok_inv ops ?s"
    unfolding keys_ok_inv_def
  proof (intro allI impI)
    fix f e assume "rd_expiry ops (revokedSessionKey f) (ds_redis ?s) = Some e"
    with less have "rd_expiry ops (revokedSessionKey f) (ds_redis s) = Some e"
      by (metis deny_sys.select_convs(3) deny_sys.surjective deny_sys.update_convs(3,4) option.distinct(1))
    from deny_keys [OF ok this] show "f \<in> ds_families ?s \<and> revoked_by e f (refreshTokens (ds_db ?s))" by simp
  qed
  with t pe keeps_syncs [OF keep ys] keeps_synced [OF keep z] show ?thesis
    by (simp add: deny_ok_def table_inv_def pending_inv_def)
qed

lemma deny_reconnect:
  assumes ok: "deny_ok ops s" and c: "ds_conn s = Closed"
  shows "deny_ok ops (s\<lparr>ds_conn := Up\<rparr>)" (is "deny_ok ops ?s")
proof -
  from ok have ys: "syncs_inv ops s" and z: "synced_inv ops s" by (simp_all add: deny_ok_def)
  have keep: "keeps ops s ?s" using c by (auto simp: keeps_def recent_def shielded_def)
  from keeps_syncs [OF keep ys] keeps_synced [OF keep z] ok show ?thesis
    by (simp add: deny_ok_def keys_ok_inv_def table_inv_def pending_inv_def)
qed

lemma deny_restart:
  assumes ok: "deny_ok ops s"
  shows "deny_ok ops (s\<lparr>ds_deny := new_denylist, ds_conn := Closed, ds_pending := [], ds_syncs := []\<rparr>)"
  using ok by (simp add: deny_ok_def keys_ok_inv_def table_inv_def pending_inv_def syncs_inv_def synced_inv_def new_denylist_def)

subsection \<open>Every step\<close>

lemma deny_step_ok:
  assumes law: "redis_lawful ops" and step: "deny_step ops s s'" and ok: "deny_ok ops s"
  shows "deny_ok ops s'"
  using step
proof (cases rule: deny_step.cases)
  case (tick t)
  with ok show ?thesis by (simp add: deny_tick)
next
  case (tokens f0 h0 c)
  with ok show ?thesis by (simp add: deny_tokens)
next
  case (revoke f cmds)
  with ok show ?thesis by (simp add: deny_revoke)
next
  case (write_ok f cmds res d')
  then have "d' = ds_deny s" by (simp add: denylist_revokeSession_def denylist_write_def)
  with write_ok deny_write_ok [OF law ok write_ok(2,3)] show ?thesis by simp
next
  case (write_fail f cmds e res d' r')
  then have d': "d' = markOutOfSync (ds_deny s)" by (simp add: denylist_revokeSession_def denylist_write_def)
  show ?thesis
  proof (rule deny_bump [OF ok])
    show "bumps s s'" by (simp add: bumps_def write_fail(1) d')
    show "set (ds_pending s') \<subseteq> set (ds_pending s)"
      using set_remove1_subset [of "(f, cmds)" "ds_pending s"] by (simp add: write_fail(1))
    show "g \<in> ds_families s \<and> revoked_by e g (refreshTokens (ds_db s))"
      if "rd_expiry ops (revokedSessionKey g) (ds_redis s') = Some e" for g e
      using that write_fail(4) write_keys [OF law ok write_fail(2)] deny_keys [OF ok] by (auto simp: write_fail(1))
  qed
next
  case sync_start
  show ?thesis
    unfolding sync_start by (rule deny_sync_task [OF ok refl]) (simp_all add: syncPoint_def sync_ok_def)
next
  case (sync_read n)
  have "n \<le> dl_generation (ds_deny s)" using ok sync_read(2) by (force simp: deny_ok_def syncs_inv_def)
  moreover have "sync_ok ops s (SGot n (findRecentlyRevokedSessions (ds_now s) (ds_db s)))"
    using ok found_sessions found_complete by (auto simp: sync_ok_def deny_ok_def)
  ultimately show ?thesis
    unfolding sync_read(1) by (intro deny_sync_task [OF ok refl set_remove1_subset]) simp_all
next
  case (sync_write n rows)
  with deny_sync_write [OF law ok] show ?thesis by simp
next
  case (sync_done n rows reply res d')
  with deny_sync_done [OF ok] show ?thesis by simp
next
  case (sync_write_fail n rows reply e res d' r' k)
  then have d': "d' = markOutOfSync (ds_deny s)"
    by (auto simp: restoreRevokedSessions_def andThen_def denylist_write_def)
  have sync: "sync_ok ops s (SGot n rows)" using ok sync_write_fail(2) by (force simp: deny_ok_def syncs_inv_def)
  show ?thesis
  proof (rule deny_bump [OF ok])
    show "bumps s s'"
      using set_remove1_subset [of "SGot n rows" "ds_syncs s"] by (simp add: bumps_def sync_write_fail(1) d')
    show "set (ds_pending s') \<subseteq> set (ds_pending s)" by (simp add: sync_write_fail(1))
    show "g \<in> ds_families s \<and> revoked_by e g (refreshTokens (ds_db s))"
      if g: "rd_expiry ops (revokedSessionKey g) (ds_redis s') = Some e" for g e
      using sync_write_fail(6)
    proof
      assume "r' = ds_redis s"
      with g have "rd_expiry ops (revokedSessionKey g) (ds_redis s) = Some e" by (simp add: sync_write_fail(1))
      then show ?thesis by (rule deny_keys [OF ok])
    next
      assume r': "ds_conn s = Up \<and> r' = run_sets ops (ds_now s) (take k (restore_commands rows)) (ds_redis s)"
      with g have "rd_expiry ops (revokedSessionKey g) (run_sets ops (ds_now s) (take k (restore_commands rows)) (ds_redis s)) = Some e"
        by (simp add: sync_write_fail(1))
      from run_sets_origin [OF law this] show ?thesis
      proof
        assume "\<exists>nx ttl. (nx, revokedSessionKey g, ttl) \<in> set (take k (restore_commands rows)) \<and> e = ds_now s + ttl * 1000000"
        then obtain x where "x \<in> set rows" "g = rs_sessionId x" "e = ds_now s + rs_ttlSeconds x * 1000000"
          by (auto simp: restore_commands_def dest!: in_set_takeD)
        with sync show ?thesis by (simp add: sync_ok_def)
      qed (rule deny_keys [OF ok])
    qed
  qed
next
  case (sync_read_fail n)
  with deny_drop_sync [OF ok set_remove1_subset] show ?thesis by simp
next
  case (lose r')
  with deny_lose [OF ok] show ?thesis by simp
next
  case close
  show ?thesis
    by (rule deny_bump [OF ok]) (use deny_keys [OF ok] in \<open>auto simp: close bumps_def\<close>)
next
  case reconnect
  with deny_reconnect [OF ok] show ?thesis by simp
next
  case restart
  with deny_restart [OF ok] show ?thesis by simp
qed

lemma deny_reach_ok: "deny_reach ops s s' \<Longrightarrow> redis_lawful ops \<Longrightarrow> deny_ok ops s \<Longrightarrow> deny_ok ops s'"
  by (induction rule: deny_reach.induct) (blast intro: deny_step_ok)+

end
