(* ===== verification/Access_Theorems.thy ===== *)
theory Access_Theorems
  imports Access Denylist_Theorems
begin

text \<open>
  What the guards guarantee: exactly which requests pass, that a revoked session is refused while its
  access tokens could still be valid, and that one undisturbed sync brings the denylist back.
\<close>

section \<open>What the denylist answers\<close>

definition redis_reply :: "'r redis_ops \<Rightarrow> 'r deny_sys \<Rightarrow> string list \<Rightarrow> nat result" where
  "redis_reply ops s ks = (if ds_conn s = Up then Inr (rd_exists ops ks (ds_now s) (ds_redis s))
     else Inl (Foreign ''MaxRetriesPerRequestError''))"

definition session_check :: "'r redis_ops \<Rightarrow> 'r deny_sys \<Rightarrow> string \<Rightarrow> string \<Rightarrow> bool result" where
  "session_check ops s tokenId sessionId =
     isDenied (redis_reply ops s [deniedTokenKey tokenId, revokedSessionKey sessionId]) (ds_deny s)"

lemma exists_pos: "redis_lawful ops \<Longrightarrow> 0 < rd_exists ops ks now r \<longleftrightarrow> (\<exists>k \<in> set ks. live_key ops k now r)"
  unfolding redis_lawful_def by blast

lemma recent_denied:
  assumes law: "redis_lawful ops" and ok: "deny_ok ops s" and "recent s f" and "f \<notin> fst ` set (ds_pending s)"
  shows "session_check ops s tokenId f \<noteq> Inr False"
proof (cases "dl_synced (ds_deny s) \<and> ds_conn s = Up")
  case True
  with ok assms(3) have "shielded ops s f" by (simp add: deny_ok_def synced_inv_def)
  with assms(4) obtain e where e: "rd_expiry ops (revokedSessionKey f) (ds_redis s) = Some e" by (auto simp: shielded_def)
  from deny_keys [OF ok e] have by_e: "revoked_by e f (refreshTokens (ds_db s))" ..
  from assms(3) obtain t r where "t \<in> set (refreshTokens (ds_db s))" "t_familyId t = f" "t_revokedAt t = Some r"
    "ds_now s - ttl_us < r" by (auto simp: recent_def recently_revoked_def split: option.splits)
  with by_e have "ds_now s < e" by (fastforce simp: revoked_by_def)
  with e have "live_key ops (revokedSessionKey f) (ds_now s) (ds_redis s)" by (simp add: live_key_def)
  with exists_pos [OF law] have "0 < rd_exists ops [deniedTokenKey tokenId, revokedSessionKey f] (ds_now s) (ds_redis s)" by auto
  with True show ?thesis by (simp add: session_check_def redis_reply_def isDenied_def)
next
  case False
  then show ?thesis by (auto simp: session_check_def redis_reply_def isDenied_def)
qed

section \<open>The Authorization header\<close>

lemma split_on_three:
  "split_on c s = [x, y, z] \<longleftrightarrow> s = x @ c # y @ c # z \<and> c \<notin> set x \<and> c \<notin> set y \<and> c \<notin> set z"
proof
  have join: "xs \<noteq> [] \<and> s = foldr (\<lambda>p acc. p @ c # acc) (butlast xs) (last xs) \<and> (\<forall>p \<in> set xs. c \<notin> set p)"
    if "split_on c s = xs" for s xs
    using that
  proof (induction s arbitrary: xs)
    case (Cons a s)
    from Cons.IH [OF refl] show ?case
      using Cons.prems by (cases "split_on c s") (auto split: if_splits)
  qed auto
  assume "split_on c s = [x, y, z]"
  from join [OF this] show "s = x @ c # y @ c # z \<and> c \<notin> set x \<and> c \<notin> set y \<and> c \<notin> set z" by simp
next
  assume "s = x @ c # y @ c # z \<and> c \<notin> set x \<and> c \<notin> set y \<and> c \<notin> set z"
  then show "split_on c s = [x, y, z]" by (simp add: split_on_part split_on_none)
qed

lemma url_char_no_dot: "list_all url_char a \<Longrightarrow> CHR ''.'' \<notin> set a"
  by (induction a) (auto simp: url_char_def Let_def)

lemma bearer_iff:
  "bearer (Some h) = Some t \<longleftrightarrow> h = ''Bearer '' @ t \<and>
     (\<exists>a b c. t = a @ ''.'' @ b @ ''.'' @ c \<and> a \<noteq> [] \<and> b \<noteq> [] \<and> list_all url_char (a @ b @ c))"
proof
  assume l: "bearer (Some h) = Some t"
  then have pre: "take 7 h = ''Bearer ''" and t: "drop 7 h = t"
    by (auto simp: bearer_def split: if_splits list.splits)
  from l pre obtain a b c where s: "split_on (CHR ''.'') t = [a, b, c]" and "a \<noteq> []" "b \<noteq> []" "list_all url_char (a @ b @ c)"
    by (auto simp: bearer_def t split: if_splits list.splits)
  moreover have "h = ''Bearer '' @ t" using append_take_drop_id [of 7 h] pre t by simp
  ultimately show "h = ''Bearer '' @ t \<and>
     (\<exists>a b c. t = a @ ''.'' @ b @ ''.'' @ c \<and> a \<noteq> [] \<and> b \<noteq> [] \<and> list_all url_char (a @ b @ c))"
    unfolding split_on_three by auto
next
  assume r: "h = ''Bearer '' @ t \<and>
     (\<exists>a b c. t = a @ ''.'' @ b @ ''.'' @ c \<and> a \<noteq> [] \<and> b \<noteq> [] \<and> list_all url_char (a @ b @ c))"
  then obtain a b c where t: "t = a @ CHR ''.'' # b @ CHR ''.'' # c" and ne: "a \<noteq> []" "b \<noteq> []"
    and u: "list_all url_char a" "list_all url_char b" "list_all url_char c" by auto
  have "split_on (CHR ''.'') t = [a, b, c]"
    unfolding split_on_three using t u url_char_no_dot by blast
  with r ne u show "bearer (Some h) = Some t" by (simp add: bearer_def)
qed

lemma bearer_None [simp]: "bearer None = None"
  by (simp add: bearer_def)

section \<open>An undisturbed sync\<close>

lemma run_sets_other:
  assumes "redis_lawful ops" and "\<forall>(nx, k', ttl) \<in> set cs. k' \<noteq> k"
  shows "rd_expiry ops k (run_sets ops now cs r) = rd_expiry ops k r"
  using assms(2)
proof (induction cs arbitrary: r)
  case (Cons c cs)
  obtain nx k' ttl where c: "c = (nx, k', ttl)" by (cases c)
  with Cons.prems have "k \<noteq> k'" by auto
  with Cons show ?case by (simp add: c set_expiry [OF assms(1)])
qed simp

lemma found_recent:
  assumes "x \<in> set (findRecentlyRevokedSessions (ds_now s) (ds_db s))"
  shows "recent s (rs_sessionId x)"
  using assms by (auto simp: findRecentlyRevokedSessions_def Let_def recent_def)

definition synced_state :: "'r redis_ops \<Rightarrow> 'r deny_sys \<Rightarrow> 'r deny_sys" where
  "synced_state ops s = s\<lparr>ds_redis := run_sets ops (ds_now s)
       (restore_commands (findRecentlyRevokedSessions (ds_now s) (ds_db s))) (ds_redis s),
     ds_deny := (ds_deny s)\<lparr>dl_synced := True\<rparr>\<rparr>"

lemma sync_cycle:
  assumes up: "ds_conn s = Up"
  shows "deny_reach ops s (synced_state ops s)"
proof -
  let ?n = "dl_generation (ds_deny s)" and ?rows = "findRecentlyRevokedSessions (ds_now s) (ds_db s)"
  let ?y = "ds_syncs s"
  let ?s1 = "s\<lparr>ds_syncs := SStarted ?n # ?y\<rparr>"
  let ?s2 = "s\<lparr>ds_syncs := SGot ?n ?rows # ?y\<rparr>"
  let ?r = "run_sets ops (ds_now s) (restore_commands ?rows) (ds_redis s)"
  let ?s3 = "s\<lparr>ds_redis := ?r, ds_syncs := SWrote ?n ?rows # ?y\<rparr>"
  have 1: "deny_step ops s ?s1" using sync_start [of ops s] by (simp add: syncPoint_def)
  have 2: "deny_step ops ?s1 ?s2" using sync_read [of ?n ?s1 ops] by simp
  have 3: "deny_step ops ?s2 ?s3" using sync_write [of ?n ?rows ?s2 ops] up by simp
  have 4: "deny_step ops ?s3 (synced_state ops s)"
    using sync_done [of ?n ?rows ?s3 "Inr (Some [])" "Inr ()" "(ds_deny s)\<lparr>dl_synced := True\<rparr>" ops]
    by (simp add: checked_def throwOnFailure_def restoreRevokedSessions_def andThen_def denylist_write_def return_def
        synced_state_def)
  show ?thesis by (rule deny_more [OF deny_more [OF deny_more [OF deny_more [OF deny_refl 1] 2] 3] 4])
qed

section \<open>Concrete instances\<close>

definition demo_redis :: "(string \<Rightarrow> int option) redis_ops" where
  "demo_redis = \<lparr>rd_set = (\<lambda>nx k ttl now r. if nx \<and> (case r k of None \<Rightarrow> False | Some e \<Rightarrow> now < e) then r
       else r(k \<mapsto> now + ttl * 1000000)),
     rd_exists = (\<lambda>ks now r. length (filter (\<lambda>k. case r k of None \<Rightarrow> False | Some e \<Rightarrow> now < e) ks)),
     rd_expiry = (\<lambda>k r. r k)\<rparr>"

lemma demo_redis_lawful: "redis_lawful demo_redis"
  by (auto simp: redis_lawful_def demo_redis_def live_key_def filter_empty_conv)

text \<open>A token that is its claims: the session and the second it was issued in, as text.\<close>

definition demo_claims :: AccessClaims where
  "demo_claims = \<lparr>ac_sub = ''1'', ac_role = buyer, ac_sid = ''fam'', ac_jti = ''j'', ac_iat = 0, ac_exp = 600\<rparr>"

definition demo_jwt :: jwt_ops where
  "demo_jwt = \<lparr>jo_kid = (\<lambda>t. KidString ''k1''), jo_verify = (\<lambda>t key clock.
     if key = ''pem'' \<and> clock div 1000 < 600 then Inr demo_claims else Inl (PlainError ''jwt expired''))\<rparr>"

definition demo_sys :: "(string \<Rightarrow> int option) deny_sys" where
  "demo_sys = \<lparr>ds_db = demo_db [demo_token], ds_deny = \<lparr>dl_synced = True, dl_generation = 0\<rparr>, ds_redis = Map.empty,
     ds_conn = Up, ds_now = 5000000, ds_pending = [], ds_syncs = [], ds_families = {''fam''}\<rparr>"

definition demo_denied :: "(string \<Rightarrow> int option) deny_sys" where
  "demo_denied = demo_sys\<lparr>ds_db := revoke_family 5000000 ''fam'' (demo_db [demo_token]),
     ds_redis := [revokedSessionKey ''fam'' \<mapsto> 605000000]\<rparr>"

lemma demo_sys_ok: "deny_ok demo_redis demo_sys"
  by (simp add: deny_ok_def keys_ok_inv_def table_inv_def pending_inv_def syncs_inv_def synced_inv_def recent_def
      recently_revoked_def demo_sys_def demo_redis_def demo_db_def demo_token_def)

lemma demo_denied_reach: "deny_reach demo_redis demo_sys demo_denied"
proof (rule deny_more [OF deny_more [OF deny_refl]])
  let ?s1 = "demo_sys\<lparr>ds_db := revoke_family (ds_now demo_sys) ''fam'' (ds_db demo_sys),
     ds_pending := (''fam'', revoke_commands ''fam'') # ds_pending demo_sys\<rparr>"
  show "deny_step demo_redis demo_sys ?s1"
    by (rule revoke) (simp_all add: demo_sys_def)
  have "deny_step demo_redis ?s1 (?s1\<lparr>ds_redis := run_sets demo_redis (ds_now ?s1) (revoke_commands ''fam'') (ds_redis ?s1),
     ds_deny := ds_deny ?s1, ds_pending := remove1 (''fam'', revoke_commands ''fam'') (ds_pending ?s1)\<rparr>)"
    by (rule write_ok [where res = "Inr ()"]) (simp_all add: demo_sys_def denylist_revokeSession_def denylist_write_def)
  then show "deny_step demo_redis ?s1 demo_denied"
    by (simp add: demo_denied_def demo_sys_def revoke_commands_def demo_redis_def ACCESS_TOKEN_TTL_SECONDS_def)
qed

section \<open>Properties\<close>

definition jwt_lawful :: "jwt_ops \<Rightarrow> bool" where
  "jwt_lawful jwt \<longleftrightarrow> (\<forall>token key clock c. jo_verify jwt token key clock = Inr c \<longrightarrow> clock div 1000 < ac_exp c)"

text \<open>
  C22: whatever revocations, failed writes, lost keys, dropped connections, restarts and interleaved sync
  tasks came before, an access token issued before its session was revoked does not pass the guard
  once the revocation's own write to the denylist is over, successful or not: the token has expired,
  or it is refused as revoked, or the check is refused as unavailable.
\<close>

theorem revoked_access_token_refused:
  assumes "redis_lawful ops" and "jwt_lawful jwt" and "deny_ok ops s0" and "deny_reach ops s0 s"
    and "t \<in> set (refreshTokens (ds_db s))" and "t_revokedAt t = Some r"
    and "t_familyId t \<notin> fst ` set (ds_pending s)"
    and "\<And>token key clock c. jo_verify jwt token key clock = Inr c \<Longrightarrow> ac_sid c = t_familyId t \<Longrightarrow>
      ac_exp c = ac_iat c + 600 \<and> ac_iat c * 1000000 \<le> r"
    and "auth_guard header (\<lambda>token. authenticate (verifyAccess jwt keys (ds_now s div 1000) token) (session_check ops s)) = Inr u"
  shows "au_sessionId u \<noteq> t_familyId t"
proof
  assume f: "au_sessionId u = t_familyId t"
  from assms(9) obtain token where "authenticate (verifyAccess jwt keys (ds_now s div 1000) token) (session_check ops s) = Inr u"
    by (auto simp: auth_guard_def split: option.splits sum.splits js_error.splits)
  then obtain c where v: "verifyAccess jwt keys (ds_now s div 1000) token = Inr c"
    and d: "session_check ops s (ac_jti c) (ac_sid c) = Inr False" and sid: "ac_sid c = au_sessionId u"
    by (auto simp: authenticate_def verify_token_def checked_denial_def split: sum.splits bool.splits)
  then obtain key where j: "jo_verify jwt token key (ds_now s div 1000) = Inr c"
    by (auto simp: verifyAccess_def Let_def split: if_splits)
  have "ds_now s div 1000 div 1000 < ac_exp c" using assms(2) j by (auto simp: jwt_lawful_def)
  then have "ds_now s < ac_exp c * 1000000" by linarith
  moreover have "ac_exp c * 1000000 \<le> r + ttl_us"
    using assms(8) [OF j] sid f by (simp add: ttl_us_def ACCESS_TOKEN_TTL_SECONDS_def)
  ultimately have "recent s (t_familyId t)"
    using assms(5,6) by (auto simp: recent_def recently_revoked_def intro!: bexI [of _ t])
  from recent_denied [OF assms(1) deny_reach_ok [OF assms(4,1,3)] this assms(7)] d sid f show False by simp
qed

theorem revoked_access_token_refused_witness:
  "auth_guard (Some ''Bearer a.b.c'') (\<lambda>token. authenticate
     (verifyAccess demo_jwt [(''k1'', ''pem'')] (ds_now demo_denied div 1000) token) (session_check demo_redis demo_denied)) \<noteq>
   Inr \<lparr>au_id = ''1'', au_role = buyer, au_sessionId = ''fam'', au_tokenId = ''j'', au_expiresAt = 600\<rparr>"
  (is "?g \<noteq> Inr ?u")
proof
  assume g: "?g = Inr ?u"
  let ?t = "demo_token\<lparr>t_revokedAt := Some 5000000\<rparr>"
  have "jwt_lawful demo_jwt" by (auto simp: jwt_lawful_def demo_jwt_def demo_claims_def split: if_splits)
  from demo_redis_lawful this demo_sys_ok demo_denied_reach have "au_sessionId ?u \<noteq> t_familyId ?t"
  proof (rule revoked_access_token_refused [OF _ _ _ _ _ _ _ _ g])
    show "?t \<in> set (refreshTokens (ds_db demo_denied))" "t_revokedAt ?t = Some 5000000"
      "t_familyId ?t \<notin> fst ` set (ds_pending demo_denied)"
      by (simp_all add: demo_denied_def demo_sys_def demo_db_def demo_token_def revoke_rows_def)
    show "ac_exp c = ac_iat c + 600 \<and> ac_iat c * 1000000 \<le> 5000000"
      if "jo_verify demo_jwt token key clock = Inr c" for token key clock c
      using that by (auto simp: demo_jwt_def demo_claims_def split: if_splits)
  qed
  then show False by (simp add: demo_token_def)
qed

text \<open>
  C23: from every reachable state with a working connection, one sync task that nothing disturbs brings
  the denylist back in sync, without touching Postgres: every session revoked within the last
  lifetime of an access token is denied, and a session that was not, and whose keys are not in Redis,
  is let through.
\<close>

theorem sync_restores_denylist:
  assumes "redis_lawful ops" and "deny_ok ops s0" and "deny_reach ops s0 s" and "ds_conn s = Up"
  shows "\<exists>s'. deny_reach ops s s' \<and> dl_synced (ds_deny s') \<and> ds_db s' = ds_db s \<and> ds_pending s' = ds_pending s \<and>
    (\<forall>tokenId f. recent s f \<longrightarrow> session_check ops s' tokenId f = Inr True) \<and>
    (\<forall>tokenId f. \<not> recent s f \<longrightarrow> \<not> live_key ops (revokedSessionKey f) (ds_now s) (ds_redis s) \<longrightarrow>
       \<not> live_key ops (deniedTokenKey tokenId) (ds_now s) (ds_redis s) \<longrightarrow> session_check ops s' tokenId f = Inr False)"
proof (intro exI conjI)
  let ?s = "synced_state ops s"
  let ?rows = "findRecentlyRevokedSessions (ds_now s) (ds_db s)"
  have ok: "table_inv s" using deny_reach_ok [OF assms(3,1,2)] by (simp add: deny_ok_def)
  have check: "session_check ops ?s tokenId f = Inr (live_key ops (deniedTokenKey tokenId) (ds_now s) (ds_redis ?s) \<or>
      live_key ops (revokedSessionKey f) (ds_now s) (ds_redis ?s))" for tokenId f
    using assms(4) exists_pos [OF assms(1)] by (simp add: session_check_def redis_reply_def isDenied_def synced_state_def)
  have pos: "\<forall>(nx, k, ttl) \<in> set (restore_commands ?rows). 0 < ttl"
    using found_sessions(2) [OF ok] by (auto simp: restore_commands_def)
  show "deny_reach ops s ?s" by (rule sync_cycle [OF assms(4)])
  show "dl_synced (ds_deny ?s)" "ds_db ?s = ds_db s" "ds_pending ?s = ds_pending s" by (simp_all add: synced_state_def)
  show "\<forall>tokenId f. recent s f \<longrightarrow> session_check ops ?s tokenId f = Inr True"
  proof (intro allI impI)
    fix tokenId f assume "recent s f"
    from found_complete [OF this] have "\<exists>nx ttl. (nx, revokedSessionKey f, ttl) \<in> set (restore_commands ?rows)"
      by (auto simp: restore_commands_def)
    with run_sets_live [OF assms(1) pos] have "live_key ops (revokedSessionKey f) (ds_now s) (ds_redis ?s)"
      by (simp add: synced_state_def)
    then show "session_check ops ?s tokenId f = Inr True" by (simp add: check)
  qed
  show "\<forall>tokenId f. \<not> recent s f \<longrightarrow> \<not> live_key ops (revokedSessionKey f) (ds_now s) (ds_redis s) \<longrightarrow>
       \<not> live_key ops (deniedTokenKey tokenId) (ds_now s) (ds_redis s) \<longrightarrow> session_check ops ?s tokenId f = Inr False"
  proof (intro allI impI)
    fix tokenId f assume nr: "\<not> recent s f" and old: "\<not> live_key ops (revokedSessionKey f) (ds_now s) (ds_redis s)"
      "\<not> live_key ops (deniedTokenKey tokenId) (ds_now s) (ds_redis s)"
    have "\<forall>x \<in> set ?rows. rs_sessionId x \<noteq> f" using found_recent nr by blast
    then have "\<forall>(nx, k', ttl) \<in> set (restore_commands ?rows). k' \<noteq> revokedSessionKey f"
      by (fastforce simp: restore_commands_def)
    from run_sets_other [OF assms(1) this]
    have "rd_expiry ops (revokedSessionKey f) (ds_redis ?s) = rd_expiry ops (revokedSessionKey f) (ds_redis s)"
      by (simp add: synced_state_def)
    moreover have "\<forall>(nx, k', ttl) \<in> set (restore_commands ?rows). k' \<noteq> deniedTokenKey tokenId"
      by (auto simp: restore_commands_def)
    from run_sets_other [OF assms(1) this]
    have "rd_expiry ops (deniedTokenKey tokenId) (ds_redis ?s) = rd_expiry ops (deniedTokenKey tokenId) (ds_redis s)"
      by (simp add: synced_state_def)
    ultimately show "session_check ops ?s tokenId f = Inr False" using old by (simp add: check live_key_def)
  qed
qed

theorem sync_restores_denylist_witness:
  "\<exists>s'. deny_reach demo_redis demo_denied s' \<and> dl_synced (ds_deny s') \<and> ds_db s' = ds_db demo_denied \<and>
     session_check demo_redis s' ''j'' ''fam'' = Inr True"
proof -
  have "recent demo_denied ''fam''"
    by (simp add: recent_def recently_revoked_def demo_denied_def demo_sys_def demo_db_def demo_token_def revoke_rows_def
        ttl_us_def ACCESS_TOKEN_TTL_SECONDS_def)
  moreover have "ds_conn demo_denied = Up" by (simp add: demo_denied_def demo_sys_def)
  ultimately show ?thesis
    using sync_restores_denylist [OF demo_redis_lawful demo_sys_ok demo_denied_reach] by blast
qed

text \<open>
  A request passes the guard exactly when its Authorization header is \<open>Bearer\<close> and three dot
  separated parts of URL-safe base64 (the first two not empty), the authenticator accepts that
  token, and its user is handed on; and the role check then passes exactly when the handler names no
  roles or the user has one of them.
\<close>

lemma guards_admit:
  "auth_guard header auth = Inr u \<and> roles_guard allowed (Some u) = Inr True \<longleftrightarrow>
     (\<exists>a b c. header = Some (''Bearer '' @ a @ ''.'' @ b @ ''.'' @ c) \<and> a \<noteq> [] \<and> b \<noteq> [] \<and>
        list_all url_char (a @ b @ c) \<and> auth (a @ ''.'' @ b @ ''.'' @ c) = Inr u) \<and>
     (allowed = None \<or> allowed = Some [] \<or> (\<exists>roles. allowed = Some roles \<and> au_role u \<in> set roles))"
proof -
  have "auth_guard header auth = Inr u \<longleftrightarrow> (\<exists>h t. header = Some h \<and> bearer (Some h) = Some t \<and> auth t = Inr u)"
    by (cases header) (auto simp: auth_guard_def split: option.splits sum.splits js_error.splits)
  also have "\<dots> \<longleftrightarrow> (\<exists>a b c. header = Some (''Bearer '' @ a @ ''.'' @ b @ ''.'' @ c) \<and> a \<noteq> [] \<and> b \<noteq> [] \<and>
        list_all url_char (a @ b @ c) \<and> auth (a @ ''.'' @ b @ ''.'' @ c) = Inr u)"
    unfolding bearer_iff by (fastforce simp only: append_assoc)
  finally have 1: "auth_guard header auth = Inr u \<longleftrightarrow> \<dots>" .
  have 2: "roles_guard allowed (Some u) = Inr True \<longleftrightarrow>
     (allowed = None \<or> allowed = Some [] \<or> (\<exists>roles. allowed = Some roles \<and> au_role u \<in> set roles))"
    by (cases allowed) (auto simp: roles_guard_def split: list.splits)
  show ?thesis unfolding 1 2 ..
qed

end
