(* ===== verification/Idempotency.thy ===== *)
theory Idempotency
  imports Orders
begin

text \<open>
  Idempotent requests kept in memory: \<open>src/services/idempotency.service.ts\<close>, with the canonical
  text of a JSON body and the records by key. The hash of the canonical text is a parameter.
\<close>

section \<open>Canonical JSON\<close>

text \<open>
  \<open>JSON.stringify\<close> of a string: quote and backslash are escaped, control characters get a short or
  a hexadecimal escape.
\<close>

definition hex_char :: "nat \<Rightarrow> char" where
  "hex_char n = (if n < 10 then char_of (48 + n) else char_of (87 + n))"

definition esc_char :: "char \<Rightarrow> string" where
  "esc_char c = (let n = (of_char c :: nat) in
     if n = 34 \<or> n = 92 then [CHR 0x5C, c]
     else if n = 8 then [CHR 0x5C, CHR ''b''] else if n = 9 then [CHR 0x5C, CHR ''t'']
     else if n = 10 then [CHR 0x5C, CHR ''n''] else if n = 12 then [CHR 0x5C, CHR ''f'']
     else if n = 13 then [CHR 0x5C, CHR ''r'']
     else if n < 32 then [CHR 0x5C, CHR ''u'', CHR ''0'', CHR ''0'', hex_char (n div 16), hex_char (n mod 16)]
     else [c])"

definition stringify_text :: "string \<Rightarrow> string" where
  "stringify_text s = CHR 0x22 # concat (map esc_char s) @ [CHR 0x22]"

text \<open>
  The properties of an object are visited in the order of their sorted keys; each key occurs once, so
  sorting the visited pairs by key is the same.
\<close>

fun canonicalize :: "json \<Rightarrow> string" where
  "canonicalize JNull = ''null''"
| "canonicalize (JBool b) = (if b then ''true'' else ''false'')"
| "canonicalize (JNum n) = js_text n"
| "canonicalize (JStr s) = stringify_text s"
| "canonicalize (JArr vs) = ''['' @ join_with '','' (map canonicalize vs) @ '']''"
| "canonicalize (JObj kvs) = ''{'' @ join_with '','' (map (\<lambda>(k, t). stringify_text k @ '':'' @ t)
     (sort_key fst (map (\<lambda>(k, v). (k, canonicalize v)) kvs))) @ ''}''"

definition createFingerprint :: "(string \<Rightarrow> string) \<Rightarrow> json \<Rightarrow> string" where
  "createFingerprint sha256 value = sha256 (canonicalize value)"

section \<open>Records\<close>

record 'a idempotency_record =
  ir_fingerprint :: string
  ir_response :: 'a
  ir_statusCode :: nat

text \<open>The module's \<open>Map\<close>.\<close>

type_synonym 'a idempotency_records = "string \<rightharpoonup> 'a idempotency_record"

definition getIdempotencyRecord :: "string \<Rightarrow> 'a idempotency_records \<Rightarrow> 'a idempotency_record option" where
  "getIdempotencyRecord key records = records key"

definition saveIdempotencyRecord ::
  "(string \<Rightarrow> string) \<Rightarrow> string \<Rightarrow> json \<Rightarrow> 'a \<Rightarrow> nat \<Rightarrow> 'a idempotency_records \<Rightarrow> 'a idempotency_records" where
  "saveIdempotencyRecord sha256 key requestBody response statusCode records =
     records(key \<mapsto> \<lparr>ir_fingerprint = createFingerprint sha256 requestBody, ir_response = response,
       ir_statusCode = statusCode\<rparr>)"

record 'a IdempotencyResult =
  id_response :: 'a
  id_statusCode :: nat
  id_replay :: bool

definition KEY_REUSED :: string where
  "KEY_REUSED = ''Idempotency-Key was already used with a different request body''"

text \<open>
  The state is the records and what \<open>createResource\<close> works on. While it runs other requests may
  save records: \<open>meanwhile\<close> is what they do to the map.
\<close>

definition handleIdempotency ::
  "(string \<Rightarrow> string) \<Rightarrow> ('a idempotency_records \<Rightarrow> 'a idempotency_records) \<Rightarrow> string \<Rightarrow> json \<Rightarrow> ('s, 'a) action \<Rightarrow>
     ('a idempotency_records \<times> 's, 'a IdempotencyResult) action" where
  "handleIdempotency sha256 meanwhile key requestBody createResource st =
     (case getIdempotencyRecord key (fst st) of
        Some existing \<Rightarrow>
          if ir_fingerprint existing \<noteq> createFingerprint sha256 requestBody
          then (Inl (HttpException 422 KEY_REUSED), st)
          else (Inr \<lparr>id_response = ir_response existing, id_statusCode = ir_statusCode existing, id_replay = True\<rparr>, st)
      | None \<Rightarrow>
          (case createResource (snd st) of
             (Inl e, s') \<Rightarrow> (Inl e, (meanwhile (fst st), s'))
           | (Inr resource, s') \<Rightarrow>
               (Inr \<lparr>id_response = resource, id_statusCode = 201, id_replay = False\<rparr>,
                (saveIdempotencyRecord sha256 key requestBody resource 201 (meanwhile (fst st)), s'))))"

end
