(* ===== verification/Idempotency_Theorems.thy ===== *)
theory Idempotency_Theorems
  imports Idempotency
begin

text \<open>
  The canonical text of a JSON body determines the body up to the order of object properties, and
  requests under one key create at most one resource as long as they do not overlap.
\<close>

section \<open>Self-delimiting texts\<close>

text \<open>What may follow a value in a canonical text.\<close>

definition stops :: "string \<Rightarrow> bool" where
  "stops r \<longleftrightarrow> r = [] \<or> hd r \<in> {CHR '','', CHR '']'', CHR ''}''}"

definition num_char :: "char \<Rightarrow> bool" where
  "num_char c \<longleftrightarrow> is_digit c \<or> c \<in> {CHR ''-'', CHR ''+'', CHR ''.'', CHR ''e''}"

text \<open>The text of a number that is no integer has a point or an exponent.\<close>

fun number_ok :: "js_number \<Rightarrow> bool" where
  "number_ok (JsInt i) = True"
| "number_ok (JsNonInt t) = (t \<noteq> [] \<and> list_all num_char t \<and> (CHR ''.'' \<in> set t \<or> CHR ''e'' \<in> set t))"

fun json_ok :: "json \<Rightarrow> bool" where
  "json_ok JNull = True"
| "json_ok (JBool b) = True"
| "json_ok (JNum n) = number_ok n"
| "json_ok (JStr s) = True"
| "json_ok (JArr vs) = list_all json_ok vs"
| "json_ok (JObj kvs) = (distinct (map fst kvs) \<and> list_all (\<lambda>(k, v). json_ok v) kvs)"

text \<open>The body with the properties of every object sorted by key.\<close>

fun sort_keys :: "json \<Rightarrow> json" where
  "sort_keys (JArr vs) = JArr (map sort_keys vs)"
| "sort_keys (JObj kvs) = JObj (sort_key fst (map (\<lambda>(k, v). (k, sort_keys v)) kvs))"
| "sort_keys v = v"

lemma hex_char_inj:
  assumes "m < 16" and "n < 16" and "hex_char m = hex_char n"
  shows "m = n"
proof -
  have code: "(of_char (hex_char k) :: nat) = (if k < 10 then 48 + k else 87 + k)" if "k < 16" for k
    using that by (simp add: hex_char_def)
  from assms(3) have "(of_char (hex_char m) :: nat) = of_char (hex_char n)" by simp
  then have eq: "(if m < 10 then 48 + m else 87 + m) = (if n < 10 then 48 + n else 87 + n)"
    unfolding code [OF assms(1)] code [OF assms(2)] .
  show ?thesis using eq by (cases "m < 10"; cases "n < 10") simp_all
qed

text \<open>What a short escape stands for.\<close>

definition short_of :: "char \<Rightarrow> char" where
  "short_of a = (if a = CHR ''b'' then char_of (8::nat) else if a = CHR ''t'' then char_of (9::nat)
     else if a = CHR ''n'' then char_of (10::nat) else if a = CHR ''f'' then char_of (12::nat)
     else if a = CHR ''r'' then char_of (13::nat) else a)"

lemma char_code: "(of_char c :: nat) = n \<Longrightarrow> c = char_of n"
proof -
  assume "(of_char c :: nat) = n"
  moreover have "char_of (of_char c :: nat) = c" by simp
  ultimately show ?thesis by simp
qed

lemma esc_char_cases:
  obtains (plain) "esc_char c = [c]" "c \<noteq> CHR 0x5C" "c \<noteq> CHR 0x22"
  | (short) a where "esc_char c = [CHR 0x5C, a]" "a \<noteq> CHR ''u''" "c = short_of a"
  | (hex) n where "n < 32" "c = char_of n"
      "esc_char c = [CHR 0x5C, CHR ''u'', CHR ''0'', CHR ''0'', hex_char (n div 16), hex_char (n mod 16)]"
proof -
  let ?n = "of_char c :: nat"
  have q: "c = CHR 0x22 \<or> c = CHR 0x5C" if "?n = 34 \<or> ?n = 92"
  proof -
    have "(char_of (34 :: nat) :: char) = CHR 0x22" "(char_of (92 :: nat) :: char) = CHR 0x5C" by code_simp+
    with that char_code [of c 34] char_code [of c 92] show ?thesis by (elim disjE) simp_all
  qed
  show thesis
  proof (cases "?n = 34 \<or> ?n = 92")
    case True
    with q show thesis by (intro short [of c]) (auto simp: esc_char_def short_of_def)
  next
    case False
    then have nq: "c \<noteq> CHR 0x22" "c \<noteq> CHR 0x5C" by auto
    consider "?n = 8" | "?n = 9" | "?n = 10" | "?n = 12" | "?n = 13"
      | "?n < 32" "?n \<notin> {8, 9, 10, 12, 13}" | "32 \<le> ?n" by fastforce
    then show thesis
    proof cases
      case 1 then show thesis by (intro short [of "CHR ''b''"]) (simp_all add: esc_char_def short_of_def char_code)
    next
      case 2 then show thesis by (intro short [of "CHR ''t''"]) (simp_all add: esc_char_def short_of_def char_code)
    next
      case 3 then show thesis by (intro short [of "CHR ''n''"]) (simp_all add: esc_char_def short_of_def char_code)
    next
      case 4 then show thesis by (intro short [of "CHR ''f''"]) (simp_all add: esc_char_def short_of_def char_code)
    next
      case 5 then show thesis by (intro short [of "CHR ''r''"]) (simp_all add: esc_char_def short_of_def char_code)
    next
      case 6 then show thesis by (intro hex [of ?n]) (use False in \<open>auto simp: esc_char_def Let_def\<close>)
    next
      case 7 then show thesis by (intro plain) (use False nq in \<open>auto simp: esc_char_def Let_def\<close>)
    qed
  qed
qed

lemma esc_char_prefix:
  assumes "esc_char c @ x = esc_char d @ y"
  shows "c = d \<and> x = y"
proof (cases c rule: esc_char_cases)
  case plain
  then show ?thesis by (cases d rule: esc_char_cases) (use assms in auto)
next
  case (short a)
  then show ?thesis by (cases d rule: esc_char_cases) (use assms in auto)
next
  case (hex n)
  show ?thesis
  proof (cases d rule: esc_char_cases)
    case (hex m)
    with \<open>n < 32\<close> \<open>c = char_of n\<close> assms \<open>esc_char c = _\<close>
    have h: "hex_char (n div 16) = hex_char (m div 16)" "hex_char (n mod 16) = hex_char (m mod 16)" "x = y" by auto
    have "n div 16 = m div 16" by (rule hex_char_inj [OF _ _ h(1)]) (use \<open>n < 32\<close> hex(1) in auto)
    moreover have "n mod 16 = m mod 16" by (rule hex_char_inj [OF _ _ h(2)]) auto
    ultimately have "n = m" by (metis div_mult_mod_eq)
    with hex \<open>c = char_of n\<close> h show ?thesis by simp
  qed (use assms hex in auto)
qed

lemma esc_char_head: "esc_char c = a # as \<Longrightarrow> a \<noteq> CHR 0x22"
  by (cases c rule: esc_char_cases) auto

lemma esc_char_nonempty: "esc_char c \<noteq> []"
  by (cases c rule: esc_char_cases) auto

lemma text_body_prefix:
  "concat (map esc_char s) @ CHR 0x22 # x = concat (map esc_char t) @ CHR 0x22 # y \<Longrightarrow> s = t \<and> x = y"
proof (induction s arbitrary: t)
  case Nil
  then show ?case
  proof (cases t)
    case (Cons d t')
    obtain a as where "esc_char d = a # as" using esc_char_nonempty by (cases "esc_char d") auto
    with Cons Nil esc_char_head [OF this] show ?thesis by auto
  qed simp
next
  case (Cons c s)
  show ?case
  proof (cases t)
    case Nil
    obtain a as where "esc_char c = a # as" using esc_char_nonempty by (cases "esc_char c") auto
    with Cons Nil esc_char_head [OF this] show ?thesis by auto
  next
    case (Cons d t')
    with Cons.prems have "esc_char c @ concat (map esc_char s) @ CHR 0x22 # x = esc_char d @ concat (map esc_char t') @ CHR 0x22 # y"
      by simp
    from esc_char_prefix [OF this] Cons.IH [of t'] Cons show ?thesis by simp
  qed
qed

lemma text_prefix: "stringify_text s @ x = stringify_text t @ y \<Longrightarrow> s = t \<and> x = y"
  using text_body_prefix [of s x t y] by (simp add: stringify_text_def)

section \<open>Numbers\<close>

lemma js_text_chars: "number_ok n \<Longrightarrow> js_text n \<noteq> [] \<and> list_all num_char (js_text n)"
proof (cases n)
  case (JsInt i)
  have "list_all num_char (dec k)" for k
    using dec_digits [of k] by (auto simp: list_all_iff num_char_def)
  with JsInt show ?thesis by (simp add: num_char_def)
qed auto

lemma js_text_inj:
  assumes "number_ok m" and "number_ok n" and "js_text m = js_text n"
  shows "m = n"
proof -
  have dig: "c \<in> set (dec k) \<Longrightarrow> is_digit c" for c k using dec_digits [of k] by (auto simp: list_all_iff)
  have minus: "CHR ''-'' \<notin> set (dec k)" "CHR ''.'' \<notin> set (dec k)" "CHR ''e'' \<notin> set (dec k)" for k
  proof -
    have "\<not> is_digit CHR ''-''" "\<not> is_digit CHR ''.''" "\<not> is_digit CHR ''e''" by (simp_all add: is_digit_def)
    with dig [of _ k] show "CHR ''-'' \<notin> set (dec k)" "CHR ''.'' \<notin> set (dec k)" "CHR ''e'' \<notin> set (dec k)" by blast+
  qed
  have neg: "dec a \<noteq> CHR ''-'' # x" for a x using minus(1) [of a] by auto
  have int: "CHR ''.'' \<notin> set (js_text (JsInt i))" "CHR ''e'' \<notin> set (js_text (JsInt i))" for i
    using minus by auto
  show ?thesis
  proof (cases m)
    case m: (JsInt i)
    show ?thesis
    proof (cases n)
      case (JsInt j)
      with m assms(3) neg neg [THEN not_sym] show ?thesis by (auto split: if_splits)
    next
      case (JsNonInt t)
      with m assms int [of i] show ?thesis by (auto simp del: js_text.simps(1))
    qed
  next
    case m: (JsNonInt t)
    show ?thesis
    proof (cases n)
      case (JsInt j)
      with m assms int [of j] show ?thesis by (auto simp del: js_text.simps(1))
    qed (use m assms in simp)
  qed
qed

lemma stops_num: "stops r \<Longrightarrow> takeWhile num_char r = []"
  by (cases r) (auto simp: stops_def num_char_def is_digit_def)

lemma number_prefix:
  assumes "number_ok m" and "number_ok n" and "stops r" and "stops s" and "js_text m @ r = js_text n @ s"
  shows "m = n \<and> r = s"
proof -
  have take: "takeWhile num_char (js_text k @ x) = js_text k" if "number_ok k" "stops x" for k x
    using js_text_chars [OF that(1)] stops_num [OF that(2)] by (simp add: list_all_iff takeWhile_append2)
  have "js_text m = js_text n" using take [OF assms(1,3)] take [OF assms(2,4)] assms(5) by simp
  with js_text_inj [OF assms(1,2)] assms(5) show ?thesis by simp
qed

section \<open>Lists\<close>

lemma join_tail: "join_with sep (x # xs) = x @ concat (map ((@) sep) xs)"
  by (induction xs arbitrary: x) simp_all

lemma tail_prefix:
  assumes elem: "\<And>x y r s. x \<in> set xs \<Longrightarrow> y \<in> set ys \<Longrightarrow> stops r \<Longrightarrow> stops s \<Longrightarrow> f x @ r = f y @ s \<Longrightarrow> g x = g y \<and> r = s"
    and c: "c = CHR '']'' \<or> c = CHR ''}''"
    and eq: "concat (map (\<lambda>x. CHR '','' # f x) xs) @ c # r = concat (map (\<lambda>x. CHR '','' # f x) ys) @ c # s"
  shows "map g xs = map g ys \<and> r = s"
  using elem eq
proof (induction xs arbitrary: ys)
  case Nil
  with c show ?case by (cases ys) auto
next
  case (Cons x xs)
  show ?case
  proof (cases ys)
    case Nil
    with Cons.prems(2) c show ?thesis by auto
  next
    case y: (Cons y ys')
    have stop: "stops (concat (map (\<lambda>x. CHR '','' # f x) zs) @ c # q)" for zs q
      using c by (cases zs) (auto simp: stops_def)
    from Cons.prems(2) y have eq: "f x @ (concat (map (\<lambda>x. CHR '','' # f x) xs) @ c # r) =
      f y @ (concat (map (\<lambda>x. CHR '','' # f x) ys') @ c # s)" by simp
    from Cons.prems(1) [OF _ _ stop stop eq] y have 1: "g x = g y"
      "concat (map (\<lambda>x. CHR '','' # f x) xs) @ c # r = concat (map (\<lambda>x. CHR '','' # f x) ys') @ c # s" by simp_all
    have "map g xs = map g ys' \<and> r = s"
      by (rule Cons.IH [OF _ 1(2)]) (use Cons.prems(1) y in auto)
    with 1 y show ?thesis by simp
  qed
qed

lemma join_prefix:
  assumes elem: "\<And>x y r s. x \<in> set xs \<Longrightarrow> y \<in> set ys \<Longrightarrow> stops r \<Longrightarrow> stops s \<Longrightarrow> f x @ r = f y @ s \<Longrightarrow> g x = g y \<and> r = s"
    and head: "\<And>x. x \<in> set xs \<union> set ys \<Longrightarrow> f x \<noteq> [] \<and> hd (f x) \<noteq> c"
    and c: "c = CHR '']'' \<or> c = CHR ''}''"
    and eq: "join_with '','' (map f xs) @ c # r = join_with '','' (map f ys) @ c # s"
  shows "map g xs = map g ys \<and> r = s"
proof (cases "xs = [] \<or> ys = []")
  case True
  have one: "join_with '','' (map f zs) @ c # q \<noteq> c # p" if "zs \<noteq> []" "\<And>x. x \<in> set zs \<Longrightarrow> f x \<noteq> [] \<and> hd (f x) \<noteq> c" for zs q p
  proof -
    from that obtain z zs' where z: "zs = z # zs'" by (cases zs) auto
    with that(2) [of z] obtain a as where "f z = a # as" "a \<noteq> c" by (cases "f z") auto
    with z show ?thesis by (simp add: join_tail)
  qed
  from True eq show ?thesis using one [of xs] one [of ys, THEN not_sym] head by (cases xs; cases ys) auto
next
  case False
  then obtain x xs' y ys' where xs: "xs = x # xs'" and ys: "ys = y # ys'" by (meson neq_Nil_conv)
  have "join_with '','' (map f (z # zs)) @ c # q = f z @ (concat (map (\<lambda>x. CHR '','' # f x) zs) @ c # q)" for z zs q
    by (simp add: join_tail comp_def)
  with eq xs ys have eq': "f x @ (concat (map (\<lambda>x. CHR '','' # f x) xs') @ c # r) =
    f y @ (concat (map (\<lambda>x. CHR '','' # f x) ys') @ c # s)" by simp
  have stop: "stops (concat (map (\<lambda>x. CHR '','' # f x) zs) @ c # q)" for zs q
    using c by (cases zs) (auto simp: stops_def)
  from elem [OF _ _ stop stop eq'] xs ys have 1: "g x = g y"
    "concat (map (\<lambda>x. CHR '','' # f x) xs') @ c # r = concat (map (\<lambda>x. CHR '','' # f x) ys') @ c # s" by simp_all
  have "map g xs' = map g ys' \<and> r = s"
    by (rule tail_prefix [OF _ c 1(2)]) (use elem xs ys in auto)
  with 1 xs ys show ?thesis by simp
qed

section \<open>Objects\<close>

lemma insort_map_snd: "insort_key fst (k, f v) (map (\<lambda>(k, v). (k, f v)) xs) = map (\<lambda>(k, v). (k, f v)) (insort_key fst (k, v) xs)"
  by (induction xs) auto

lemma sort_map_snd: "sort_key fst (map (\<lambda>(k, v). (k, f v)) kvs) = map (\<lambda>(k, v). (k, f v)) (sort_key fst kvs)"
  by (induction kvs) (auto simp: insort_map_snd)

definition entry_text :: "string \<times> json \<Rightarrow> string" where
  "entry_text e = stringify_text (fst e) @ '':'' @ canonicalize (snd e)"

lemma canonicalize_object:
  "canonicalize (JObj kvs) = ''{'' @ join_with '','' (map entry_text (sort_key fst kvs)) @ ''}''"
proof -
  have "(\<lambda>(k, t). stringify_text k @ '':'' @ t) \<circ> (\<lambda>(k, v). (k, canonicalize v)) = entry_text"
    by (auto simp: entry_text_def)
  then show ?thesis by (simp only: canonicalize.simps sort_map_snd map_map)
qed

lemma sort_keys_object: "sort_keys (JObj kvs) = JObj (map (\<lambda>e. (fst e, sort_keys (snd e))) (sort_key fst kvs))"
proof -
  have eq: "(\<lambda>(k, v). (k, sort_keys v)) = (\<lambda>e. (fst e, sort_keys (snd e)))" by auto
  have "sort_keys (JObj kvs) = JObj (map (\<lambda>(k, v). (k, sort_keys v)) (sort_key fst kvs))"
    by (simp only: sort_keys.simps sort_map_snd)
  then show ?thesis by (simp only: eq)
qed

lemma canonicalize_head:
  assumes "json_ok v"
  shows "canonicalize v \<noteq> [] \<and> hd (canonicalize v) \<notin> {CHR '']'', CHR ''}'', CHR '',''}"
proof (cases v)
  case (JNum n)
  with assms js_text_chars [of n] obtain c cs where "js_text n = c # cs" "num_char c" by (cases "js_text n") auto
  with JNum show ?thesis by (auto simp: num_char_def is_digit_def)
qed (auto simp: stringify_text_def)

lemma js_text_first: "number_ok n \<Longrightarrow> \<exists>c cs. js_text n = c # cs \<and> num_char c"
  using js_text_chars [of n] by (cases "js_text n") auto

lemma num_char_not [simp]: "\<not> num_char CHR ''n''" "\<not> num_char CHR ''t''" "\<not> num_char CHR ''f''"
  "\<not> num_char CHR 0x22" "\<not> num_char CHR ''[''" "\<not> num_char CHR ''{''"
  by (auto simp: num_char_def is_digit_def)

lemma canonical_prefix:
  "json_ok v \<Longrightarrow> json_ok w \<Longrightarrow> stops r \<Longrightarrow> stops s \<Longrightarrow> canonicalize v @ r = canonicalize w @ s \<Longrightarrow>
     sort_keys v = sort_keys w \<and> r = s"
proof (induction v arbitrary: w r s rule: canonicalize.induct)
  case 1
  then show ?case using js_text_first by (cases w) (fastforce simp: stringify_text_def split: if_splits)+
next
  case (2 b)
  then show ?case using js_text_first by (cases w) (fastforce simp: stringify_text_def split: if_splits)+
next
  case (3 n)
  from 3 obtain c cs where n: "js_text n = c # cs" "num_char c" using js_text_first [of n] by auto
  show ?case
  proof (cases w)
    case (JNum m)
    with 3 number_prefix [of n m r s] show ?thesis by simp
  qed (use 3 n in \<open>auto simp: stringify_text_def split: if_splits\<close>)
next
  case (4 t)
  show ?case
  proof (cases w)
    case (JStr u)
    with 4 text_prefix [of t r u s] show ?thesis by simp
  next
    case (JNum m)
    with 4 js_text_first [of m] show ?thesis by (auto simp: stringify_text_def)
  qed (use 4 in \<open>auto simp: stringify_text_def split: if_splits\<close>)
next
  case (5 vs)
  show ?case
  proof (cases w)
    case (JArr ws)
    have "map sort_keys vs = map sort_keys ws \<and> r = s"
    proof (rule join_prefix [where f = canonicalize and c = "CHR '']''"])
      show "sort_keys x = sort_keys y \<and> p = q" if "x \<in> set vs" "y \<in> set ws" "stops p" "stops q"
        "canonicalize x @ p = canonicalize y @ q" for x y p q
        by (rule "5.IH" [OF that(1) _ _ that(3,4,5)]) (use 5 that JArr in \<open>auto simp: list_all_iff\<close>)
      show "canonicalize x \<noteq> [] \<and> hd (canonicalize x) \<noteq> CHR '']''" if "x \<in> set vs \<union> set ws" for x
        using canonicalize_head [of x] that 5 JArr by (auto simp: list_all_iff)
    qed (use 5 JArr in simp_all)
    with JArr show ?thesis by simp
  next
    case (JNum m)
    with 5 js_text_first [of m] show ?thesis by auto
  qed (use 5 in \<open>auto simp: stringify_text_def split: if_splits\<close>)
next
  case (6 kvs)
  show ?case
  proof (cases w)
    case (JObj lws)
    have "map (\<lambda>e. (fst e, sort_keys (snd e))) (sort_key fst kvs) = map (\<lambda>e. (fst e, sort_keys (snd e))) (sort_key fst lws) \<and> r = s"
    proof (rule join_prefix [where f = entry_text and c = "CHR ''}''"])
      show "(fst x, sort_keys (snd x)) = (fst y, sort_keys (snd y)) \<and> p = q"
        if "x \<in> set (sort_key fst kvs)" "y \<in> set (sort_key fst lws)" "stops p" "stops q" "entry_text x @ p = entry_text y @ q" for x y p q
      proof -
        from that(5) have "fst x = fst y" "canonicalize (snd x) @ p = canonicalize (snd y) @ q"
          by (auto simp: entry_text_def dest: text_prefix)
        moreover have "sort_keys (snd x) = sort_keys (snd y) \<and> p = q"
          by (rule "6.IH" [of x "fst x" "snd x", OF _ _ _ _ that(3,4) calculation(2)])
            (use 6 that JObj in \<open>auto simp: list_all_iff\<close>)
        ultimately show ?thesis by simp
      qed
      show "entry_text x \<noteq> [] \<and> hd (entry_text x) \<noteq> CHR ''}''" if "x \<in> set (sort_key fst kvs) \<union> set (sort_key fst lws)" for x
        by (simp add: entry_text_def stringify_text_def)
    qed (use 6 JObj in \<open>simp_all add: canonicalize_object del: canonicalize.simps(6)\<close>)
    with JObj show ?thesis by (simp add: sort_keys_object del: sort_keys.simps(2))
  next
    case (JNum m)
    with 6 js_text_first [of m] show ?thesis by auto
  qed (use 6 in \<open>auto simp: stringify_text_def split: if_splits\<close>)
qed

section \<open>Sorting keys does not change the canonical text\<close>

lemma canonicalize_sort_keys: "json_ok v \<Longrightarrow> canonicalize (sort_keys v) = canonicalize v"
proof (induction v rule: canonicalize.induct)
  case (5 vs)
  then have "map (\<lambda>v. canonicalize (sort_keys v)) vs = map canonicalize vs" by (auto simp: list_all_iff)
  then have "map canonicalize (map sort_keys vs) = map canonicalize vs" by (simp only: map_map comp_def)
  then show ?case by (simp only: sort_keys.simps canonicalize.simps)
next
  case (6 kvs)
  let ?g = "\<lambda>e. (fst e, sort_keys (snd e))"
  have sorted: "sort_key fst (map ?g (sort_key fst kvs)) = map ?g (sort_key fst kvs)"
    by (rule sort_key_id_if_sorted) (simp add: comp_def)
  have "canonicalize (sort_keys (snd e)) = canonicalize (snd e)" if "e \<in> set kvs" for e
    using "6.IH" [of e "fst e" "snd e"] 6(2) that by (auto simp: list_all_iff)
  then have "map (\<lambda>e. entry_text (?g e)) (sort_key fst kvs) = map entry_text (sort_key fst kvs)"
    by (intro map_cong) (auto simp: entry_text_def)
  then have "map entry_text (map ?g (sort_key fst kvs)) = map entry_text (sort_key fst kvs)"
    by (simp only: map_map comp_def)
  then show ?case by (simp only: sort_keys_object canonicalize_object sorted)
qed simp_all

section \<open>Calls one after the other\<close>

record ('s, 'a) create_call =
  cc_key :: string
  cc_body :: json
  cc_create :: "('s, 'a) action"

definition serve_create :: "(string \<Rightarrow> string) \<Rightarrow> ('s, 'a) create_call \<Rightarrow> 'a idempotency_records \<times> 's \<Rightarrow>
    'a IdempotencyResult result \<times> 'a idempotency_records \<times> 's" where
  "serve_create sha256 c = handleIdempotency sha256 (\<lambda>m. m) (cc_key c) (cc_body c) (cc_create c)"

interpretation idempotency_store: append_only "\<lambda>_ :: 'a idempotency_records \<times> 's. True"
  "\<lambda>key st. getIdempotencyRecord key (fst st)" "\<lambda>c st. snd (serve_create sha256 c st)" for sha256
  by unfold_locales
    (auto simp: serve_create_def handleIdempotency_def getIdempotencyRecord_def saveIdempotencyRecord_def
      split: option.splits prod.splits sum.splits)

section \<open>Properties\<close>

text \<open>
  C24: two JSON bodies have the same fingerprint exactly when they are equal up to the order of the
  properties of their objects, unless the hash collides on their two canonical texts.
\<close>

theorem fingerprint_same_body:
  assumes "json_ok a" and "json_ok b"
    and "sha256 (canonicalize a) = sha256 (canonicalize b) \<Longrightarrow> canonicalize a = canonicalize b"
  shows "createFingerprint sha256 a = createFingerprint sha256 b \<longleftrightarrow> sort_keys a = sort_keys b"
proof
  assume "createFingerprint sha256 a = createFingerprint sha256 b"
  then have "canonicalize a = canonicalize b" using assms(3) by (simp add: createFingerprint_def)
  with canonical_prefix [OF assms(1,2), of "[]" "[]"] show "sort_keys a = sort_keys b" by (simp add: stops_def)
next
  assume "sort_keys a = sort_keys b"
  with canonicalize_sort_keys [OF assms(1)] canonicalize_sort_keys [OF assms(2)]
  show "createFingerprint sha256 a = createFingerprint sha256 b" by (simp add: createFingerprint_def)
qed

definition body_ab :: json where
  "body_ab = JObj [(''a'', JNum (JsInt 1)), (''b'', JArr [JStr ''x,y'', JNull])]"

definition body_ba :: json where
  "body_ba = JObj [(''b'', JArr [JStr ''x,y'', JNull]), (''a'', JNum (JsInt 1))]"

theorem fingerprint_same_body_witness:
  "createFingerprint rev body_ab = createFingerprint rev body_ba \<longleftrightarrow> sort_keys body_ab = sort_keys body_ba"
  by (rule fingerprint_same_body) (simp_all add: body_ab_def body_ba_def)

text \<open>
  C25: once a request has created a resource under a key, and as long as requests do not overlap, every
  later request under that key creates nothing and leaves the state alone: with the same body it
  gets the recorded response and status marked as a replay, with another body it gets a 422, whatever
  other requests were served in between.
\<close>

theorem create_once_per_key:
  assumes "serve_create sha256 c st = (Inr res, st1)" and "fold (\<lambda>c st. snd (serve_create sha256 c st)) between st1 = st2"
    and "id_replay res = False" and "cc_key c' = cc_key c"
    and "json_ok (cc_body c)" and "json_ok (cc_body c')"
    and "sha256 (canonicalize (cc_body c)) = sha256 (canonicalize (cc_body c')) \<Longrightarrow> canonicalize (cc_body c) = canonicalize (cc_body c')"
  shows "serve_create sha256 c' st2 =
    (if sort_keys (cc_body c') = sort_keys (cc_body c)
     then Inr \<lparr>id_response = id_response res, id_statusCode = 201, id_replay = True\<rparr>
     else Inl (HttpException 422 KEY_REUSED), st2)"
proof -
  let ?rec = "\<lparr>ir_fingerprint = createFingerprint sha256 (cc_body c), ir_response = id_response res, ir_statusCode = 201\<rparr>"
  have "getIdempotencyRecord (cc_key c) (fst st1) = Some ?rec"
    using assms(1,3)
    by (auto simp: serve_create_def handleIdempotency_def getIdempotencyRecord_def saveIdempotencyRecord_def
        split: option.splits prod.splits sum.splits if_splits)
  from idempotency_store.run_keeps [OF TrueI this, of sha256 "between"] assms(2)
  have "getIdempotencyRecord (cc_key c) (fst st2) = Some ?rec" by simp
  with fingerprint_same_body [OF assms(5,6,7)] assms(4) show ?thesis
    by (auto simp: serve_create_def handleIdempotency_def)
qed

definition demo_create :: "(nat, nat) create_call" where
  "demo_create = \<lparr>cc_key = ''k'', cc_body = body_ab, cc_create = (\<lambda>n. (Inr n, Suc n))\<rparr>"

definition demo_again :: "(nat, nat) create_call" where
  "demo_again = \<lparr>cc_key = ''k'', cc_body = body_ba, cc_create = (\<lambda>n. (Inr n, Suc n))\<rparr>"

theorem create_once_per_key_witness:
  "snd (serve_create rev demo_create (Map.empty, 7)) =
     ([''k'' \<mapsto> \<lparr>ir_fingerprint = createFingerprint rev body_ab, ir_response = 7, ir_statusCode = 201\<rparr>], 8)
   \<and> serve_create rev demo_again (snd (serve_create rev demo_create (Map.empty, 7))) =
     (Inr \<lparr>id_response = 7, id_statusCode = 201, id_replay = True\<rparr>, snd (serve_create rev demo_create (Map.empty, 7)))"
proof -
  let ?st = "[''k'' \<mapsto> \<lparr>ir_fingerprint = createFingerprint rev body_ab, ir_response = 7 :: nat, ir_statusCode = 201\<rparr>]"
  have run: "serve_create rev demo_create (Map.empty, 7) =
      (Inr \<lparr>id_response = 7, id_statusCode = 201, id_replay = False\<rparr>, (?st, 8))"
    by (simp add: serve_create_def handleIdempotency_def demo_create_def getIdempotencyRecord_def saveIdempotencyRecord_def)
  have same: "sort_keys (cc_body demo_again) = sort_keys (cc_body demo_create)"
    by (simp add: demo_create_def demo_again_def body_ab_def body_ba_def)
  have ok: "json_ok (cc_body demo_create)" "json_ok (cc_body demo_again)"
    by (simp_all add: demo_create_def demo_again_def body_ab_def body_ba_def)
  from create_once_per_key [OF run, of "[]" "(?st, 8)" demo_again] ok same run show ?thesis
    by (simp add: demo_create_def demo_again_def)
qed

text \<open>
  Requests that overlap are not covered: when a second request under the same key is served while the
  first one creates its resource, both create one and neither is a replay.
\<close>

lemma overlap_creates_twice:
  assumes "getIdempotencyRecord key m = None" and "create s = (Inr x, s1)" and "create s1 = (Inr y, s2)"
    and "handleIdempotency sha256 (\<lambda>m. m) key body create (m, s1) = (Inr second, (m2, s2))"
  shows "handleIdempotency sha256 (\<lambda>_. m2) key body (\<lambda>s. (fst (create s), s2)) (m, s) =
      (Inr \<lparr>id_response = x, id_statusCode = 201, id_replay = False\<rparr>,
        (saveIdempotencyRecord sha256 key body x 201 m2, s2)) \<and> id_replay second = False"
  using assms by (auto simp: handleIdempotency_def)

end
