(* ===== verification/Products.thy ===== *)
theory Products
  imports Orders
begin

text \<open>
  The products: \<open>src/repositories/products.repository.ts\<close> with its card and revenue queries, the
  report's formatting (\<open>src/report.ts\<close>) and the lock of \<open>src/redis/lock.ts\<close>. Redis is a parameter.
\<close>

section \<open>The repository\<close>

record CreateProductInput =
  pi_name :: string
  pi_description :: string
  pi_price :: int
  pi_stock :: int

definition create_product :: "int \<Rightarrow> CreateProductInput \<Rightarrow> (db, Product) action" where
  "create_product now input =
     andThen (lift (int4_param (pi_price input))) (\<lambda>price.
     andThen (lift (int4_param (pi_stock input))) (\<lambda>stock.
     (\<lambda>d. let row = \<lparr>p_id = sq_product (seqs d), p_name = pi_name input, p_description = pi_description input,
                p_price = price, p_stock = stock, p_createdAt = now\<rparr>;
              d1 = d\<lparr>seqs := (seqs d)\<lparr>sq_product := sq_product (seqs d) + 1\<rparr>\<rparr>
          in if price \<le> 0 then (Inl (violation ''23514'' ''products_price_check''), d1)
             else if stock < 0 then (Inl (violation ''23514'' ''products_stock_check''), d1)
             else if list_ex (\<lambda>p. p_name p = pi_name input) (products d)
               then (Inl (violation ''23505'' ''UQ_4c9fb58de893725258746385e16''), d1)
             else (Inr row, d1\<lparr>products := products d @ [row]\<rparr>))))"

definition find_product :: "string \<Rightarrow> (db, Product option) action" where
  "find_product productId = andThen (lift (bigint_param productId))
     (\<lambda>k d. (Inr (select_one (\<lambda>p. p_id p = k) (products d)), d))"

definition findAll :: "(db, Product list) action" where
  "findAll d = (Inr (sort_key p_id (products d)), d)"

text \<open>The rows an item joins: its order when that is paid.\<close>

definition paid_order :: "db \<Rightarrow> OrderItem \<Rightarrow> bool" where
  "paid_order d i \<longleftrightarrow> list_ex (\<lambda>r. o_id r = i_orderId i \<and> o_status r = paid) (orders d)"

definition units_sold :: "db \<Rightarrow> nat \<Rightarrow> int" where
  "units_sold d k = sum_list (map i_quantity (filter (\<lambda>i. i_productId i = k \<and> paid_order d i) (orderItems d)))"

record ProductCardRow =
  cr_id :: string
  cr_name :: string
  cr_price :: int
  cr_stock :: int
  cr_unitsSold :: int

text \<open>The cast to \<open>int\<close> fails when the sum does not fit.\<close>

definition findCard :: "string \<Rightarrow> (db, ProductCardRow option) action" where
  "findCard productId =
     andThen (lift (bigint_param productId)) (\<lambda>k.
     andThen (\<lambda>d. (Inr (select_one (\<lambda>p. p_id p = k) (products d)), d)) (\<lambda>found.
     case found of
       None \<Rightarrow> return None
     | Some p \<Rightarrow> (\<lambda>d. case int4_param (units_sold d k) of
          Inl e \<Rightarrow> (Inl e, d)
        | Inr n \<Rightarrow> (Inr (Some \<lparr>cr_id = dec (p_id p), cr_name = p_name p, cr_price = p_price p,
            cr_stock = p_stock p, cr_unitsSold = n\<rparr>), d))))"

record ProductRevenue =
  pr_productId :: string
  pr_productName :: string
  pr_unitsSold :: string
  pr_revenue :: string

definition product_revenue :: "db \<Rightarrow> nat \<Rightarrow> int" where
  "product_revenue d k = sum_list (map (\<lambda>i. i_quantity i * i_unitPrice i)
     (filter (\<lambda>i. i_productId i = k \<and> paid_order d i) (orderItems d)))"

definition int_text :: "int \<Rightarrow> string" where
  "int_text i = js_text (JsInt i)"

text \<open>
  Products with a paid item, by falling revenue; the order of equal revenues is not specified. The
  product of two \<open>integer\<close> columns fails when it does not fit, their sum is a \<open>bigint\<close>.
\<close>

definition revenueByProduct :: "(db, ProductRevenue list) action" where
  "revenueByProduct d =
     (let sold = filter (\<lambda>p. list_ex (\<lambda>i. i_productId i = p_id p \<and> paid_order d i) (orderItems d)) (products d)
      in (if list_ex (\<lambda>i. paid_order d i \<and> int4_max < i_quantity i * i_unitPrice i) (orderItems d) then Inl out_of_range
          else Inr (map (\<lambda>p. \<lparr>pr_productId = dec (p_id p), pr_productName = p_name p,
            pr_unitsSold = int_text (units_sold d (p_id p)), pr_revenue = int_text (product_revenue d (p_id p))\<rparr>)
          (sort_key (\<lambda>p. - product_revenue d (p_id p)) sold)), d))"

text \<open>\<open>formatUah\<close> on the decimal text of a revenue: \<open>/\<close> and \<open>%\<close> of a BigInt truncate towards zero.\<close>

definition formatUah :: "string \<Rightarrow> string" where
  "formatUah kopiykas =
     (let negative = (take 1 kopiykas = ''-''); value = num_of (if negative then drop 1 kopiykas else kopiykas);
          hryvnias = int_text (if negative then - int (value div 100) else int (value div 100));
          digits = int_text (if negative then - int (value mod 100) else int (value mod 100));
          rest = replicate (2 - length digits) (CHR ''0'') @ digits
      in hryvnias @ ''.'' @ rest)"

section \<open>The lock\<close>

text \<open>\<open>GET\<close>, \<open>DEL\<close> and \<open>SET key token PX ttl NX\<close> at a time in milliseconds.\<close>

record 'r lock_ops =
  lo_get :: "string \<Rightarrow> int \<Rightarrow> 'r \<Rightarrow> string option"
  lo_del :: "string \<Rightarrow> 'r \<Rightarrow> 'r"
  lo_set_nx :: "string \<Rightarrow> string \<Rightarrow> int \<Rightarrow> int \<Rightarrow> 'r \<Rightarrow> bool \<times> 'r"

definition acquireLock :: "'r lock_ops \<Rightarrow> string \<Rightarrow> int \<Rightarrow> string \<Rightarrow> int \<Rightarrow> 'r \<Rightarrow> string option \<times> 'r" where
  "acquireLock ops key ttlMs token now r =
     (case lo_set_nx ops key token ttlMs now r of (ok, r') \<Rightarrow> (if ok then Some token else None, r'))"

definition release_script :: "'r lock_ops \<Rightarrow> string \<Rightarrow> string \<Rightarrow> int \<Rightarrow> 'r \<Rightarrow> nat \<times> 'r" where
  "release_script ops key token now r =
     (if lo_get ops key now r = Some token then (1, lo_del ops key r) else (0, r))"

definition releaseLock :: "'r lock_ops \<Rightarrow> string \<Rightarrow> string \<Rightarrow> int \<Rightarrow> 'r \<Rightarrow> bool \<times> 'r" where
  "releaseLock ops key token now r =
     (case release_script ops key token now r of (deleted, r') \<Rightarrow> (deleted = 1, r'))"

end
