(* ===== verification/ProductCards.thy ===== *)
theory ProductCards
  imports Products Loops
begin

text \<open>
  The cached product cards: \<open>src/redis/cache.ts\<close>, \<open>src/services/product-card.service.ts\<close> and the
  worker's processor in \<open>src/queue/product-cards.queue.ts\<close>. The world around a call (the clock, Redis,
  the database other clients write to) is a parameter; the loop that waits for the lock runs on fuel.
\<close>

record ProductCard =
  cd_id :: string
  cd_name :: string
  cd_price_cents :: int
  cd_stock :: int
  cd_units_sold :: int

definition productCardKey :: "string \<Rightarrow> string" where
  "productCardKey cardId = ''product-card:'' @ cardId"

definition productCardLockKey :: "string \<Rightarrow> string" where
  "productCardLockKey cardId = ''lock:product-card:'' @ cardId"

definition LOCK_TTL_MS :: int where "LOCK_TTL_MS = 10000"
definition LOCK_WAIT_BUDGET_MS :: int where "LOCK_WAIT_BUDGET_MS = 5000"
definition LOCK_POLL_MS :: int where "LOCK_POLL_MS = 25"

text \<open>
  \<open>cw_get\<close>, \<open>cw_set\<close> and \<open>cw_del\<close> are commands of the cache, \<open>cw_lock\<close> and \<open>cw_unlock\<close> what
  \<open>acquireLock\<close> and \<open>releaseLock\<close> answer (or that they fail), \<open>cw_db\<close> the database as the next query
  sees it. Every call may find that time has passed and that others have acted. \<open>cw_text\<close> and
  \<open>cw_parse\<close> are \<open>JSON.stringify\<close> and \<open>JSON.parse\<close> on cards.
\<close>

record ('w, 't) card_world =
  cw_clock :: "'w \<Rightarrow> int"
  cw_sleep :: "int \<Rightarrow> 'w \<Rightarrow> 'w"
  cw_get :: "string \<Rightarrow> 'w \<Rightarrow> 't option result \<times> 'w"
  cw_set :: "string \<Rightarrow> 't \<Rightarrow> int \<Rightarrow> 'w \<Rightarrow> unit result \<times> 'w"
  cw_del :: "string \<Rightarrow> 'w \<Rightarrow> unit result \<times> 'w"
  cw_lock :: "string \<Rightarrow> int \<Rightarrow> 'w \<Rightarrow> string option result \<times> 'w"
  cw_unlock :: "string \<Rightarrow> string \<Rightarrow> 'w \<Rightarrow> bool result \<times> 'w"
  cw_db :: "'w \<Rightarrow> db result \<times> 'w"
  cw_random :: "'w \<Rightarrow> int"
  cw_text :: "ProductCard \<Rightarrow> 't"
  cw_parse :: "'t \<Rightarrow> ProductCard result"

text \<open>\<open>cw_random\<close> is \<open>Math.floor(Math.random() * 61)\<close>.\<close>

definition productCardTtl :: "('w, 't) card_world \<Rightarrow> 'w \<Rightarrow> int" where
  "productCardTtl ops w = 300 + cw_random ops w"

definition cacheGet :: "('w, 't) card_world \<Rightarrow> string \<Rightarrow> 'w \<Rightarrow> 't option \<times> 'w" where
  "cacheGet ops key w = (case cw_get ops key w of (Inl e, w') \<Rightarrow> (None, w') | (Inr v, w') \<Rightarrow> (v, w'))"

definition cacheSet :: "('w, 't) card_world \<Rightarrow> string \<Rightarrow> 't \<Rightarrow> int \<Rightarrow> 'w \<Rightarrow> 'w" where
  "cacheSet ops key value ttlSeconds w = snd (cw_set ops key value ttlSeconds w)"

definition readCard :: "('w, 't) card_world \<Rightarrow> string \<Rightarrow> ('w, ProductCard option) action" where
  "readCard ops cardId w = (case cacheGet ops (productCardKey cardId) w of
     (None, w') \<Rightarrow> (Inr None, w')
   | (Some cached, w') \<Rightarrow> (case cw_parse ops cached of Inl e \<Rightarrow> (Inl e, w') | Inr c \<Rightarrow> (Inr (Some c), w')))"

definition card_of :: "ProductCardRow \<Rightarrow> ProductCard" where
  "card_of row = \<lparr>cd_id = cr_id row, cd_name = cr_name row, cd_price_cents = cr_price row,
     cd_stock = cr_stock row, cd_units_sold = cr_unitsSold row\<rparr>"

definition fetch :: "('w, 't) card_world \<Rightarrow> string \<Rightarrow> ('w, ProductCard option) action" where
  "fetch ops cardId w = (case cw_db ops w of
     (Inl e, w') \<Rightarrow> (Inl e, w')
   | (Inr d, w') \<Rightarrow>
       (case fst (findCard cardId d) of
          Inl e \<Rightarrow> (Inl e, w')
        | Inr None \<Rightarrow> (Inr None, w')
        | Inr (Some row) \<Rightarrow>
            (let c = card_of row
             in (Inr (Some c), cacheSet ops (productCardKey cardId) (cw_text ops c) (productCardTtl ops w') w'))))"

text \<open>\<open>(await this.readCard(id)) ?? (await this.fetch(id))\<close>\<close>

definition read_or_fetch :: "('w, 't) card_world \<Rightarrow> string \<Rightarrow> ('w, ProductCard option) action" where
  "read_or_fetch ops cardId = andThen (readCard ops cardId) (\<lambda>found.
     case found of Some c \<Rightarrow> return (Some c) | None \<Rightarrow> fetch ops cardId)"

text \<open>One round of the loop: what it returns or throws, or nothing and the loop goes on.\<close>

definition load_round ::
  "('w, 't) card_world \<Rightarrow> int \<Rightarrow> string \<Rightarrow> 'w \<Rightarrow> ProductCard option result option \<times> 'w" where
  "load_round ops deadline cardId w =
     (if \<not> cw_clock ops w < deadline then (Some (Inl (ProductCardBusyError cardId)), w)
      else (case cw_lock ops (productCardLockKey cardId) LOCK_TTL_MS w of
         (Inl e, w1) \<Rightarrow> (case fetch ops cardId w1 of (r, w2) \<Rightarrow> (Some r, w2))
       | (Inr (Some token), w1) \<Rightarrow>
           (case read_or_fetch ops cardId w1 of
              (r, w2) \<Rightarrow> (Some r, snd (cw_unlock ops (productCardLockKey cardId) token w2)))
       | (Inr None, w1) \<Rightarrow>
           (case readCard ops cardId (cw_sleep ops LOCK_POLL_MS w1) of
              (Inl e, w2) \<Rightarrow> (Some (Inl e), w2)
            | (Inr (Some c), w2) \<Rightarrow> (Some (Inr (Some c)), w2)
            | (Inr None, w2) \<Rightarrow> (None, w2))))"

definition load_card :: "nat \<Rightarrow> ('w, 't) card_world \<Rightarrow> string \<Rightarrow> 'w \<Rightarrow> (ProductCard option result \<times> 'w) option" where
  "load_card fuel ops cardId w =
     map_option (\<lambda>(rounds, w'). (the (last rounds), w'))
       (repeat_until fuel (load_round ops (cw_clock ops w + LOCK_WAIT_BUDGET_MS) cardId) (\<lambda>r. r \<noteq> None) w)"

definition get_card :: "nat \<Rightarrow> ('w, 't) card_world \<Rightarrow> string \<Rightarrow> 'w \<Rightarrow> (ProductCard option result \<times> 'w) option" where
  "get_card fuel ops cardId w = (case readCard ops cardId w of
     (Inl e, w') \<Rightarrow> Some (Inl e, w')
   | (Inr (Some c), w') \<Rightarrow> Some (Inr (Some c), w')
   | (Inr None, w') \<Rightarrow> load_card fuel ops cardId w')"

section \<open>The refresh worker\<close>

definition REFRESH_JOB :: string where "REFRESH_JOB = ''refresh''"
definition REFRESH_ALL_JOB :: string where "REFRESH_ALL_JOB = ''refresh-all''"

definition refresh_card :: "nat \<Rightarrow> ('w, 't) card_world \<Rightarrow> string \<Rightarrow> 'w \<Rightarrow> (unit result \<times> 'w) option" where
  "refresh_card fuel ops productId w = (case cw_del ops (productCardKey productId) w of
     (Inl e, w') \<Rightarrow> Some (Inl e, w')
   | (Inr _, w') \<Rightarrow> map_option (\<lambda>(r, w2). (case r of Inl e \<Rightarrow> Inl e | Inr _ \<Rightarrow> Inr (), w2)) (get_card fuel ops productId w'))"

fun refresh_cards :: "nat \<Rightarrow> ('w, 't) card_world \<Rightarrow> string list \<Rightarrow> 'w \<Rightarrow> (unit result \<times> 'w) option" where
  "refresh_cards fuel ops [] w = Some (Inr (), w)"
| "refresh_cards fuel ops (p # ps) w = (case refresh_card fuel ops p w of
     None \<Rightarrow> None
   | Some (Inl e, w') \<Rightarrow> Some (Inl e, w')
   | Some (Inr _, w') \<Rightarrow> refresh_cards fuel ops ps w')"

definition process_refresh :: "nat \<Rightarrow> ('w, 't) card_world \<Rightarrow> string \<Rightarrow> string option \<Rightarrow> 'w \<Rightarrow> (unit result \<times> 'w) option" where
  "process_refresh fuel ops jobName productId w =
     (if jobName = REFRESH_ALL_JOB then
        (case cw_db ops w of
           (Inl e, w') \<Rightarrow> Some (Inl e, w')
         | (Inr d, w') \<Rightarrow> (case findAll d of
             (Inl e, _) \<Rightarrow> Some (Inl e, w')
           | (Inr ps, _) \<Rightarrow> refresh_cards fuel ops (map (dec \<circ> p_id) ps) w'))
      else (case productId of
          None \<Rightarrow> Some (Inr (), w)
        | Some p \<Rightarrow> if p = [] then Some (Inr (), w) else refresh_card fuel ops p w))"

end
