(* ===== verification/ProductCards_Theorems.thy ===== *)
theory ProductCards_Theorems
  imports ProductCards
begin

text \<open>
  A card request always ends, within the wait budget, with the right card, with the news that there
  is no such product, or with an error; and the lock it waits for excludes.
\<close>

section \<open>Which cards are right\<close>

text \<open>
  The card of a product in a database: its row, and the units of it in orders that are paid. Spelled out
  over the tables, without the query that computes it.
\<close>

definition card_true :: "db \<Rightarrow> string \<Rightarrow> ProductCard \<Rightarrow> bool" where
  "card_true d cardId c \<longleftrightarrow> (\<exists>p \<in> set (products d). p_id p = num_of cardId \<and>
     c = \<lparr>cd_id = dec (p_id p), cd_name = p_name p, cd_price_cents = p_price p, cd_stock = p_stock p,
       cd_units_sold = (\<Sum>i\<leftarrow>orderItems d. if i_productId i = p_id p \<and>
         (\<exists>r \<in> set (orders d). o_id r = i_orderId i \<and> o_status r = paid) then i_quantity i else 0)\<rparr>)"

definition card_missing :: "db \<Rightarrow> string \<Rightarrow> bool" where
  "card_missing d cardId \<longleftrightarrow> (\<forall>p \<in> set (products d). p_id p \<noteq> num_of cardId)"

lemma units_sold_sum:
  "units_sold d k = (\<Sum>i\<leftarrow>orderItems d. if i_productId i = k \<and>
     (\<exists>r \<in> set (orders d). o_id r = i_orderId i \<and> o_status r = paid) then i_quantity i else 0)"
  unfolding units_sold_def paid_order_def list_ex_iff by (simp only: sum_list_map_filter')

lemma int4_param_value: "int4_param i = Inr j \<Longrightarrow> j = i"
  by (auto simp: int4_param_def split: if_splits)

lemma bigint_param_Inr: "bigint_param s = Inr k \<Longrightarrow> k = num_of s"
  by (auto simp: bigint_param_def split: if_splits)

lemma findCard_Inr:
  assumes f: "fst (findCard cardId d) = Inr v"
  shows "v = None \<and> card_missing d cardId \<or> (\<exists>row. v = Some row \<and> card_true d cardId (card_of row))"
proof -
  obtain k where k: "bigint_param cardId = Inr k" using f by (cases "bigint_param cardId") (auto simp: findCard_def andThen_def lift_def)
  then have k': "k = num_of cardId" by (rule bigint_param_Inr)
  show ?thesis
  proof (cases "select_one (\<lambda>p. p_id p = k) (products d)")
    case None
    then have "card_missing d cardId" by (simp add: card_missing_def select_one_None k')
    with f k None show ?thesis by (simp add: findCard_def andThen_def lift_def return_def)
  next
    case (Some p)
    then obtain n where n: "int4_param (units_sold d k) = Inr n"
      using f k by (cases "int4_param (units_sold d k)") (auto simp: findCard_def andThen_def lift_def)
    from f k Some n have row: "v = Some \<lparr>cr_id = dec (p_id p), cr_name = p_name p, cr_price = p_price p,
        cr_stock = p_stock p, cr_unitsSold = n\<rparr>" by (auto simp: findCard_def andThen_def lift_def)
    have "p \<in> set (products d)" "p_id p = k" using select_one_Some [OF Some] by simp_all
    with int4_param_value [OF n] k' show ?thesis
      unfolding row card_true_def units_sold_sum by (auto simp: card_of_def)
  qed
qed

lemma findCard_not_busy: "fst (findCard cardId d) \<noteq> Inl (ProductCardBusyError x)"
  by (auto simp: findCard_def andThen_def lift_def return_def bigint_param_def int4_param_def invalid_text_def out_of_range_def
      split: option.splits if_splits)

section \<open>The world\<close>

text \<open>
  \<open>seen\<close> are the databases that queries have seen up to a world, by this call or before it. \<open>ok\<close> says of a
  world that its clock, cache and database are sane, and survives whatever happens during a call: time
  does not run backwards and sleeping takes its time, a query sees a well-formed database, and under the
  key of a card stand only texts of cards that were true of a database a query had seen. The cache is
  written by this code alone, so this last is what every process relies on of the others and has to keep
  itself: a write keeps \<open>ok\<close> only if its card is true of a database seen.
\<close>

definition later :: "('w, 't) card_world \<Rightarrow> ('w \<Rightarrow> bool) \<Rightarrow> ('w \<Rightarrow> db set) \<Rightarrow> 'w \<Rightarrow> 'w \<Rightarrow> bool" where
  "later ops ok seen w w' \<longleftrightarrow> ok w' \<and> cw_clock ops w \<le> cw_clock ops w' \<and> seen w \<subseteq> seen w'"

definition card_right :: "('w \<Rightarrow> db set) \<Rightarrow> 'w \<Rightarrow> string \<Rightarrow> ProductCard \<Rightarrow> bool" where
  "card_right seen w cardId c \<longleftrightarrow> (\<exists>d \<in> seen w. card_true d cardId c)"

definition card_world_lawful :: "('w, 't) card_world \<Rightarrow> ('w \<Rightarrow> bool) \<Rightarrow> ('w \<Rightarrow> db set) \<Rightarrow> bool" where
  "card_world_lawful ops ok seen \<longleftrightarrow>
     (\<forall>c. cw_parse ops (cw_text ops c) = Inr c) \<and>
     (\<forall>w ms. ok w \<longrightarrow> ok (cw_sleep ops ms w) \<and> cw_clock ops w + ms \<le> cw_clock ops (cw_sleep ops ms w) \<and>
        seen w \<subseteq> seen (cw_sleep ops ms w)) \<and>
     (\<forall>w k. ok w \<longrightarrow> later ops ok seen w (snd (cw_get ops k w))) \<and>
     (\<forall>w p t. ok w \<longrightarrow> fst (cw_get ops (productCardKey p) w) = Inr (Some t) \<longrightarrow>
        (\<exists>c. t = cw_text ops c \<and> card_right seen w p c)) \<and>
     (\<forall>w p c ttl. ok w \<longrightarrow> card_right seen w p c \<longrightarrow> later ops ok seen w (snd (cw_set ops (productCardKey p) (cw_text ops c) ttl w))) \<and>
     (\<forall>w k. ok w \<longrightarrow> later ops ok seen w (snd (cw_del ops k w))) \<and>
     (\<forall>w k ttl. ok w \<longrightarrow> later ops ok seen w (snd (cw_lock ops k ttl w))) \<and>
     (\<forall>w k t. ok w \<longrightarrow> later ops ok seen w (snd (cw_unlock ops k t w))) \<and>
     (\<forall>w. ok w \<longrightarrow> later ops ok seen w (snd (cw_db ops w))) \<and>
     (\<forall>w d. ok w \<longrightarrow> fst (cw_db ops w) = Inr d \<longrightarrow> d \<in> seen (snd (cw_db ops w))) \<and>
     (\<forall>w p. ok w \<longrightarrow> fst (cw_db ops w) \<noteq> Inl (ProductCardBusyError p))"

text \<open>What a result may be, short of the loop giving up.\<close>

definition answer_right :: "('w \<Rightarrow> db set) \<Rightarrow> 'w \<Rightarrow> string \<Rightarrow> ProductCard option result \<Rightarrow> bool" where
  "answer_right seen w cardId r \<longleftrightarrow> (\<forall>c. r = Inr (Some c) \<longrightarrow> card_right seen w cardId c) \<and>
     (r = Inr None \<longrightarrow> (\<exists>d \<in> seen w. card_missing d cardId)) \<and>
     (\<forall>p. r \<noteq> Inl (ProductCardBusyError p))"

lemma later_trans: "later ops ok seen a b \<Longrightarrow> later ops ok seen b c \<Longrightarrow> later ops ok seen a c"
  by (auto simp: later_def)

lemma card_right_later: "card_right seen w p c \<Longrightarrow> later ops ok seen w w' \<Longrightarrow> card_right seen w' p c"
  by (auto simp: card_right_def later_def)

lemma answer_right_later: "answer_right seen w p r \<Longrightarrow> later ops ok seen w w' \<Longrightarrow> answer_right seen w' p r"
  by (auto simp: answer_right_def later_def dest!: card_right_later [of seen w p _ ops ok w'])

lemma lawfulD:
  assumes "card_world_lawful ops ok seen" and "ok w"
  shows "cw_parse ops (cw_text ops c) = Inr c"
    and "ok (cw_sleep ops ms w)" and "cw_clock ops w + ms \<le> cw_clock ops (cw_sleep ops ms w)"
    and "seen w \<subseteq> seen (cw_sleep ops ms w)"
    and "later ops ok seen w (snd (cw_get ops k w))"
    and "fst (cw_get ops (productCardKey p) w) = Inr (Some t) \<Longrightarrow> \<exists>c. t = cw_text ops c \<and> card_right seen w p c"
    and "card_right seen w p c \<Longrightarrow> later ops ok seen w (snd (cw_set ops (productCardKey p) (cw_text ops c) ttl w))"
    and "later ops ok seen w (snd (cw_lock ops k ttl w))"
    and "later ops ok seen w (snd (cw_unlock ops k tok w))" and "later ops ok seen w (snd (cw_db ops w))"
    and "fst (cw_db ops w) = Inr d \<Longrightarrow> d \<in> seen (snd (cw_db ops w))" and "fst (cw_db ops w) \<noteq> Inl (ProductCardBusyError p)"
  using assms by (simp_all add: card_world_lawful_def)

section \<open>The steps of a request\<close>

lemma readCard_right:
  assumes law: "card_world_lawful ops ok seen" and ok: "ok w" and run: "readCard ops p w = (r, w')"
  shows "later ops ok seen w w'" and "\<exists>v. r = Inr v \<and> (\<forall>c. v = Some c \<longrightarrow> card_right seen w' p c)"
proof -
  obtain q w1 where g: "cw_get ops (productCardKey p) w = (q, w1)" by fastforce
  have 1: "later ops ok seen w w1" using lawfulD(5) [OF law ok, of "productCardKey p"] g by simp
  have 2: "\<exists>c. t = cw_text ops c \<and> card_right seen w1 p c" if "q = Inr (Some t)" for t
    using lawfulD(6) [OF law ok, of p t] g that card_right_later [OF _ 1] by auto
  have w': "w' = w1" using run g by (auto simp: readCard_def cacheGet_def split: sum.splits option.splits)
  then show "later ops ok seen w w'" using 1 by simp
  show "\<exists>v. r = Inr v \<and> (\<forall>c. v = Some c \<longrightarrow> card_right seen w' p c)"
  proof (cases q)
    case (Inl e)
    with run g show ?thesis by (auto simp: readCard_def cacheGet_def)
  next
    case (Inr v)
    show ?thesis
    proof (cases v)
      case None
      with Inr run g show ?thesis by (auto simp: readCard_def cacheGet_def)
    next
      case (Some t)
      with 2 Inr obtain c where "t = cw_text ops c" "card_right seen w1 p c" by blast
      with Inr Some run g w' lawfulD(1) [OF law ok] show ?thesis by (auto simp: readCard_def cacheGet_def)
    qed
  qed
qed

lemma fetch_right:
  assumes law: "card_world_lawful ops ok seen" and ok: "ok w" and run: "fetch ops p w = (r, w')"
  shows "later ops ok seen w w' \<and> answer_right seen w' p r"
proof -
  obtain q w1 where d: "cw_db ops w = (q, w1)" by fastforce
  have 1: "later ops ok seen w w1" using lawfulD(10) [OF law ok] d by simp
  show ?thesis
  proof (cases q)
    case (Inl e)
    with run d 1 lawfulD(12) [OF law ok] show ?thesis by (auto simp: fetch_def answer_right_def)
  next
    case (Inr b)
    have b: "b \<in> seen w1" using lawfulD(11) [OF law ok] d Inr by simp
    show ?thesis
    proof (cases "fst (findCard p b)")
      case (Inl e)
      with run d Inr 1 findCard_not_busy [of p b] show ?thesis by (auto simp: fetch_def answer_right_def)
    next
      case f: (Inr v)
      show ?thesis
      proof (cases v)
        case None
        with findCard_Inr [OF f] have "card_missing b p" by simp
        with run d Inr f None 1 b show ?thesis by (auto simp: fetch_def answer_right_def)
      next
        case (Some row)
        with findCard_Inr [OF f] b have c: "card_right seen w1 p (card_of row)" by (auto simp: card_right_def)
        from run d Inr f Some have r: "r = Inr (Some (card_of row))"
          "w' = snd (cw_set ops (productCardKey p) (cw_text ops (card_of row)) (productCardTtl ops w1) w1)"
          by (auto simp: fetch_def Let_def cacheSet_def)
        have "ok w1" using 1 by (simp add: later_def)
        from lawfulD(7) [OF law this c] have 2: "later ops ok seen w1 w'" by (simp add: r(2))
        with later_trans [OF 1] card_right_later [OF c] r(1) show ?thesis by (auto simp: answer_right_def)
      qed
    qed
  qed
qed

lemma read_or_fetch_right:
  assumes law: "card_world_lawful ops ok seen" and ok: "ok w" and run: "read_or_fetch ops p w = (r, w')"
  shows "later ops ok seen w w' \<and> answer_right seen w' p r"
proof -
  obtain q w1 where rd: "readCard ops p w = (q, w1)" by fastforce
  note 1 = readCard_right [OF law ok rd]
  from 1(2) obtain v where v: "q = Inr v" "\<forall>c. v = Some c \<longrightarrow> card_right seen w1 p c" by blast
  show ?thesis
  proof (cases v)
    case None
    with run rd v have "fetch ops p w1 = (r, w')" by (simp add: read_or_fetch_def andThen_def)
    moreover have "ok w1" using 1(1) by (simp add: later_def)
    ultimately show ?thesis using fetch_right [OF law] later_trans [OF 1(1)] by blast
  next
    case (Some c)
    with run rd v 1(1) show ?thesis by (auto simp: read_or_fetch_def andThen_def answer_right_def return_def)
  qed
qed

text \<open>A round of the loop: it ends with a right answer, or it has waited at least the poll interval.\<close>

lemma load_round_right:
  assumes law: "card_world_lawful ops ok seen" and ok: "ok w" and run: "load_round ops deadline p w = (out, w')"
  shows "later ops ok seen w w'"
    and "out = None \<Longrightarrow> cw_clock ops w < deadline \<and> cw_clock ops w + LOCK_POLL_MS \<le> cw_clock ops w'"
    and "out = Some r \<Longrightarrow> answer_right seen w' p r \<or> r = Inl (ProductCardBusyError p) \<and> deadline \<le> cw_clock ops w'"
proof -
  have "later ops ok seen w w' \<and>
    (out = None \<longrightarrow> cw_clock ops w < deadline \<and> cw_clock ops w + LOCK_POLL_MS \<le> cw_clock ops w') \<and>
    (\<forall>r. out = Some r \<longrightarrow> answer_right seen w' p r \<or> r = Inl (ProductCardBusyError p) \<and> deadline \<le> cw_clock ops w')"
  proof (cases "cw_clock ops w < deadline")
    case False
    with run ok show ?thesis by (auto simp: load_round_def later_def)
  next
    case early: True
    obtain q w1 where l: "cw_lock ops (productCardLockKey p) LOCK_TTL_MS w = (q, w1)" by fastforce
    have 1: "later ops ok seen w w1" using lawfulD(8) [OF law ok, of "productCardLockKey p" LOCK_TTL_MS] l by simp
    then have ok1: "ok w1" by (simp add: later_def)
    show ?thesis
    proof (cases q)
      case (Inl e)
      obtain r w2 where f: "fetch ops p w1 = (r, w2)" by fastforce
      with run early l Inl have "out = Some r" "w' = w2" by (auto simp: load_round_def)
      with fetch_right [OF law ok1 f] later_trans [OF 1] show ?thesis by auto
    next
      case (Inr v)
      show ?thesis
      proof (cases v)
        case (Some token)
        obtain r w2 where f: "read_or_fetch ops p w1 = (r, w2)" by fastforce
        with run early l Inr Some have o: "out = Some r" "w' = snd (cw_unlock ops (productCardLockKey p) token w2)"
          by (auto simp: load_round_def)
        from read_or_fetch_right [OF law ok1 f] have 2: "later ops ok seen w1 w2" "answer_right seen w2 p r" by simp_all
        then have "ok w2" by (simp add: later_def)
        from lawfulD(9) [OF law this] have "later ops ok seen w2 w'" by (simp add: o(2))
        from later_trans [OF later_trans [OF 1 2(1)] this] answer_right_later [OF 2(2) this] o(1) show ?thesis by auto
      next
        case None
        let ?s = "cw_sleep ops LOCK_POLL_MS w1"
        from lawfulD(2-4) [OF law ok1, of LOCK_POLL_MS] have s: "ok ?s" "cw_clock ops w1 + LOCK_POLL_MS \<le> cw_clock ops ?s"
          "seen w1 \<subseteq> seen ?s" by blast+
        obtain r w2 where rd: "readCard ops p ?s = (r, w2)" by fastforce
        note 2 = readCard_right [OF law s(1) rd]
        from 2(2) obtain x where x: "r = Inr x" "\<forall>c. x = Some c \<longrightarrow> card_right seen w2 p c" by blast
        from run early l Inr None rd x have o: "w' = w2" "out = (case x of None \<Rightarrow> None | Some c \<Rightarrow> Some (Inr (Some c)))"
          by (auto simp: load_round_def split: option.splits)
        have clock: "cw_clock ops w + LOCK_POLL_MS \<le> cw_clock ops w'"
          using 1 s(2) 2(1) o(1) by (simp add: later_def)
        moreover have "later ops ok seen w w'"
          using clock 1 s(3) 2(1) o(1) by (auto simp: later_def LOCK_POLL_MS_def)
        ultimately show ?thesis using o x(2) early by (auto simp: answer_right_def split: option.splits)
      qed
    qed
  qed
  then show "later ops ok seen w w'"
    and "out = None \<Longrightarrow> cw_clock ops w < deadline \<and> cw_clock ops w + LOCK_POLL_MS \<le> cw_clock ops w'"
    and "out = Some r \<Longrightarrow> answer_right seen w' p r \<or> r = Inl (ProductCardBusyError p) \<and> deadline \<le> cw_clock ops w'"
    by blast+
qed

text \<open>The loop makes progress: the rounds left before the deadline.\<close>

definition rounds_left :: "('w, 't) card_world \<Rightarrow> int \<Rightarrow> 'w \<Rightarrow> nat" where
  "rounds_left ops deadline w = nat ((deadline - cw_clock ops w + 24) div 25)"

lemma rounds_left_less:
  assumes "cw_clock ops w < deadline" and "cw_clock ops w + LOCK_POLL_MS \<le> cw_clock ops w'"
  shows "rounds_left ops deadline w' < rounds_left ops deadline w"
proof -
  have "(deadline - cw_clock ops w' + 24) div 25 \<le> (deadline - cw_clock ops w + 24 + (-1) * 25) div 25"
    by (rule zdiv_mono1) (use assms(2) in \<open>simp_all add: LOCK_POLL_MS_def\<close>)
  moreover have "0 < (deadline - cw_clock ops w + 24) div 25" using assms(1) by (simp add: pos_imp_zdiv_pos_iff)
  ultimately show ?thesis by (simp add: rounds_left_def)
qed

interpretation card_loop: progressing "\<lambda>w. card_world_lawful ops ok seen \<and> ok w" "load_round ops deadline p"
  "\<lambda>r. r \<noteq> None" "rounds_left ops deadline" for ops ok seen deadline p
proof
  fix w x w' assume a: "card_world_lawful ops ok seen \<and> ok w" and r: "load_round ops deadline p w = (x, w')"
  note law = conjunct1 [OF a] and okw = conjunct2 [OF a]
  show "card_world_lawful ops ok seen \<and> ok w'" using law load_round_right(1) [OF law okw r] by (simp add: later_def)
  assume "\<not> x \<noteq> None"
  with load_round_right(2) [OF law okw r] show "rounds_left ops deadline w' < rounds_left ops deadline w"
    by (intro rounds_left_less) auto
qed

section \<open>The lock as a sequence of commands\<close>

datatype lock_event =
    Acquire string int
  | Release string

fun lock_step :: "'r lock_ops \<Rightarrow> string \<Rightarrow> int \<times> lock_event \<Rightarrow> 'r \<Rightarrow> bool \<times> 'r" where
  "lock_step ops key (now, Acquire token ttl) r =
     (case acquireLock ops key ttl token now r of (t, r') \<Rightarrow> (t \<noteq> None, r'))"
| "lock_step ops key (now, Release token) r = releaseLock ops key token now r"

fun lock_run :: "'r lock_ops \<Rightarrow> string \<Rightarrow> (int \<times> lock_event) list \<Rightarrow> 'r \<Rightarrow> bool list \<times> 'r" where
  "lock_run ops key [] r = ([], r)"
| "lock_run ops key (e # es) r = (case lock_step ops key e r of (b, r1) \<Rightarrow>
     (case lock_run ops key es r1 of (bs, r2) \<Rightarrow> (b # bs, r2)))"

text \<open>What the code relies on of \<open>GET\<close>, \<open>DEL\<close> and \<open>SET PX NX\<close> on one key, with time moving forward.\<close>

definition lock_lawful :: "'r lock_ops \<Rightarrow> string \<Rightarrow> bool" where
  "lock_lawful ops key \<longleftrightarrow>
     (\<forall>t ttl now r. fst (lo_set_nx ops key t ttl now r) = (lo_get ops key now r = None)) \<and>
     (\<forall>t ttl now r now'. now \<le> now' \<longrightarrow> lo_get ops key now r = None \<longrightarrow>
        lo_get ops key now' (snd (lo_set_nx ops key t ttl now r)) = (if now' < now + ttl then Some t else None)) \<and>
     (\<forall>t ttl now r now'. lo_get ops key now r \<noteq> None \<longrightarrow>
        lo_get ops key now' (snd (lo_set_nx ops key t ttl now r)) = lo_get ops key now' r) \<and>
     (\<forall>now r. lo_get ops key now (lo_del ops key r) = None)"

lemma lock_lawfulD:
  assumes "lock_lawful ops key"
  shows "fst (lo_set_nx ops key t ttl now r) \<longleftrightarrow> lo_get ops key now r = None"
    and "now \<le> now' \<Longrightarrow> lo_get ops key now r = None \<Longrightarrow>
      lo_get ops key now' (snd (lo_set_nx ops key t ttl now r)) = (if now' < now + ttl then Some t else None)"
    and "lo_get ops key now r \<noteq> None \<Longrightarrow>
      lo_get ops key now' (snd (lo_set_nx ops key t ttl now r)) = lo_get ops key now' r"
  using assms by (simp_all add: lock_lawful_def)

text \<open>While a token holds the lock, nothing but its own release changes that.\<close>

lemma lock_held:
  assumes law: "lock_lawful ops key"
    and "\<forall>now'. now \<le> now' \<and> now' < till \<longrightarrow> lo_get ops key now' r = Some token"
    and "sorted (now # map fst es)" and "\<forall>(t, e) \<in> set es. t < till \<and> e \<noteq> Release token"
    and "lock_run ops key es r = (bs, r')"
  shows "(\<forall>now'. now \<le> now' \<and> now' < till \<longrightarrow> lo_get ops key now' r' = Some token) \<and>
    (\<forall>k < length es. bs ! k = False)"
  using assms(2-5)
proof (induction es arbitrary: r bs now)
  case Nil
  then show ?case by simp
next
  case (Cons x es)
  obtain t e where x: "x = (t, e)" by (cases x)
  obtain b r1 where st: "lock_step ops key (t, e) r = (b, r1)" by fastforce
  obtain bs' where rest: "lock_run ops key es r1 = (bs', r')" and bs: "bs = b # bs'"
    using Cons.prems(4) x st by (auto split: prod.splits)
  have t: "now \<le> t" "t < till" "e \<noteq> Release token" using Cons.prems(2,3) x by auto
  have held: "lo_get ops key t r = Some token" using Cons.prems(1) t by blast
  have same: "\<not> b \<and> (\<forall>now'. lo_get ops key now' r1 = lo_get ops key now' r)"
  proof (cases e)
    case (Acquire tok ttl)
    with st lock_lawfulD(1) [OF law, of tok ttl t r] lock_lawfulD(3) [OF law, of t r _ tok ttl] held
    show ?thesis by (auto simp: acquireLock_def split: prod.splits if_splits)
  next
    case (Release tok)
    with st t(3) held show ?thesis by (auto simp: releaseLock_def release_script_def)
  qed
  have IH: "(\<forall>now'. now \<le> now' \<and> now' < till \<longrightarrow> lo_get ops key now' r' = Some token) \<and>
    (\<forall>k < length es. bs' ! k = False)"
  proof (rule Cons.IH [OF _ _ _ rest])
    show "\<forall>now'. now \<le> now' \<and> now' < till \<longrightarrow> lo_get ops key now' r1 = Some token"
      using Cons.prems(1) same by auto
    show "sorted (now # map fst es)" using Cons.prems(2) by auto
    show "\<forall>(t, e) \<in> set es. t < till \<and> e \<noteq> Release token" using Cons.prems(3) by auto
  qed
  with same show ?case by (auto simp: bs nth_Cons split: nat.splits)
qed

section \<open>Concrete instances\<close>

text \<open>One key: its token and when it expires.\<close>

definition demo_lock :: "(string \<times> int) option lock_ops" where
  "demo_lock = \<lparr>lo_get = (\<lambda>k now r. case r of None \<Rightarrow> None | Some (t, e) \<Rightarrow> if now < e then Some t else None),
     lo_del = (\<lambda>k r. None),
     lo_set_nx = (\<lambda>k t ttl now r. case r of None \<Rightarrow> (True, Some (t, now + ttl))
       | Some (t', e) \<Rightarrow> if now < e then (False, r) else (True, Some (t, now + ttl)))\<rparr>"

lemma demo_lock_lawful: "lock_lawful demo_lock key"
  by (auto simp: lock_lawful_def demo_lock_def split: option.splits if_splits)

text \<open>
  A world of a clock and a cache that keeps what is set, over one database; the lock is always free. Its
  \<open>ok\<close> is that the cache holds true cards only.
\<close>

definition cache_world :: "db \<Rightarrow> (int \<times> (string \<times> ProductCard) list, ProductCard) card_world" where
  "cache_world d = \<lparr>cw_clock = fst, cw_sleep = (\<lambda>ms (t, m). (t + max 0 ms, m)),
     cw_get = (\<lambda>k (t, m). (Inr (map_of m k), (t, m))), cw_set = (\<lambda>k c ttl (t, m). (Inr (), (t, (k, c) # m))),
     cw_del = (\<lambda>k (t, m). (Inr (), (t, filter (\<lambda>e. fst e \<noteq> k) m))),
     cw_lock = (\<lambda>k ttl w. (Inr (Some ''t''), w)), cw_unlock = (\<lambda>k t w. (Inr True, w)),
     cw_db = (\<lambda>w. (Inr d, w)), cw_random = (\<lambda>w. 0), cw_text = (\<lambda>c. c), cw_parse = Inr\<rparr>"

definition cache_true :: "db \<Rightarrow> int \<times> (string \<times> ProductCard) list \<Rightarrow> bool" where
  "cache_true d w \<longleftrightarrow> (\<forall>p c. (productCardKey p, c) \<in> set (snd w) \<longrightarrow> card_true d p c)"

lemma productCardKey_inject [simp]: "productCardKey p = productCardKey q \<longleftrightarrow> p = q"
  by (simp add: productCardKey_def)

lemma cache_world_lawful: "card_world_lawful (cache_world d) (cache_true d) (\<lambda>_. {d})"
  by (auto simp: card_world_lawful_def cache_world_def later_def card_right_def cache_true_def dest: map_of_SomeD)

text \<open>A shop where two pens have been sold.\<close>

definition pens_sold :: db where
  "pens_sold = snd (checkout shop_env None (shop_input [shop_line ''1'' 2]) shop_db)"

definition pen_card :: ProductCard where
  "pen_card = \<lparr>cd_id = ''1'', cd_name = ''pen'', cd_price_cents = 20, cd_stock = 7, cd_units_sold = 2\<rparr>"

section \<open>Properties\<close>

text \<open>
  C26: a request for a product card ends, whoever holds the lock and whatever Redis answers: 201 rounds
  are enough. A card it returns is exactly the card of the product in a database that a query of this
  call, or the query the cached card was made from, has seen: id, name, price, stock and the units in paid
  orders. The answer that there is no such product is true of a database that a query has seen; the
  request gives up as busy only after the whole wait budget has passed; and it leaves only such cards in
  the cache (\<open>ok w'\<close>).
\<close>

theorem get_card_ends_right:
  assumes "card_world_lawful ops ok seen" and "ok w" and "200 < fuel"
  shows "\<exists>r w'. get_card fuel ops cardId w = Some (r, w') \<and> ok w' \<and>
    (\<forall>c. r = Inr (Some c) \<longrightarrow> (\<exists>d \<in> seen w'. card_true d cardId c)) \<and>
    (r = Inr None \<longrightarrow> (\<exists>d \<in> seen w'. card_missing d cardId)) \<and>
    (\<forall>p. r = Inl (ProductCardBusyError p) \<longrightarrow> cw_clock ops w + 5000 \<le> cw_clock ops w')"
proof -
  obtain q w1 where rd: "readCard ops cardId w = (q, w1)" by fastforce
  note 1 = readCard_right [OF assms(1,2) rd]
  from 1(2) obtain v where v: "q = Inr v" "\<forall>c. v = Some c \<longrightarrow> card_right seen w1 cardId c" by blast
  show ?thesis
  proof (cases v)
    case (Some c)
    with rd v 1(1) show ?thesis by (auto simp: get_card_def later_def card_right_def)
  next
    case None
    let ?dl = "cw_clock ops w1 + LOCK_WAIT_BUDGET_MS"
    have w1: "card_world_lawful ops ok seen \<and> ok w1" and clock: "cw_clock ops w \<le> cw_clock ops w1"
      using assms(1) 1(1) by (simp_all add: later_def)
    have "rounds_left ops ?dl w1 < fuel"
      using assms(3) by (simp add: rounds_left_def LOCK_WAIT_BUDGET_MS_def)
    from card_loop.enough_fuel [OF w1 this] obtain rounds w' where
      run: "repeat_until fuel (load_round ops ?dl cardId) (\<lambda>r. r \<noteq> None) w1 = Some (rounds, w')" by blast
    from card_loop.result_output [OF w1 run] obtain s r where
      last: "card_world_lawful ops ok seen \<and> ok s" "load_round ops ?dl cardId s = (Some r, w')" "last rounds = Some r" by auto
    have ok': "ok w'" using card_loop.result_ok [OF w1 run] by simp
    have res: "get_card fuel ops cardId w = Some (r, w')"
      using rd v None run last(3) by (simp add: get_card_def load_card_def)
    from load_round_right(3) [OF _ _ last(2) refl] last(1)
    have "answer_right seen w' cardId r \<or> r = Inl (ProductCardBusyError cardId) \<and> ?dl \<le> cw_clock ops w'" by blast
    then show ?thesis
      using res ok' clock by (auto simp: answer_right_def card_right_def LOCK_WAIT_BUDGET_MS_def)
  qed
qed

theorem get_card_ends_right_witness:
  "get_card 201 (cache_world pens_sold) ''1'' (0, []) = Some (Inr (Some pen_card), (0, [(productCardKey ''1'', pen_card)])) \<and>
   card_true pens_sold ''1'' pen_card \<and> cache_true pens_sold (0, [(productCardKey ''1'', pen_card)])"
proof -
  let ?w' = "(0, [(productCardKey ''1'', pen_card)])"
  have run: "get_card 201 (cache_world pens_sold) ''1'' (0, []) = Some (Inr (Some pen_card), ?w')" by code_simp
  have "\<exists>r w'. get_card 201 (cache_world pens_sold) ''1'' (0, []) = Some (r, w') \<and> cache_true pens_sold w' \<and>
    (\<forall>c. r = Inr (Some c) \<longrightarrow> (\<exists>d \<in> {pens_sold}. card_true d ''1'' c)) \<and>
    (r = Inr None \<longrightarrow> (\<exists>d \<in> {pens_sold}. card_missing d ''1'')) \<and>
    (\<forall>p. r = Inl (ProductCardBusyError p) \<longrightarrow>
       cw_clock (cache_world pens_sold) (0, []) + 5000 \<le> cw_clock (cache_world pens_sold) w')"
    by (rule get_card_ends_right [OF cache_world_lawful]) (simp_all add: cache_true_def)
  with run show ?thesis by simp
qed

text \<open>
  C27: the lock excludes. A client that acquires it holds it, and every other attempt fails, until it
  releases it or its time to live is over, whatever other clients try; a release with another
  client's token removes nothing.
\<close>

theorem lock_excludes:
  assumes "lock_lawful ops key" and "acquireLock ops key ttl token now r = (Some token, r1)"
    and "sorted (now # map fst es)" and "\<forall>(t, e) \<in> set es. t < now + ttl \<and> e \<noteq> Release token"
    and "lock_run ops key es r1 = (bs, r2)" and "now \<le> now'" and "now' < now + ttl"
  shows "lo_get ops key now' r2 = Some token \<and> (\<forall>k < length es. bs ! k = False)"
proof -
  obtain b where set: "lo_set_nx ops key token ttl now r = (b, r1)" and b
    using assms(2) by (auto simp: acquireLock_def split: prod.splits if_splits)
  with lock_lawfulD(1) [OF assms(1), of token ttl now r] have free: "lo_get ops key now r = None" by simp
  have "\<forall>now'. now \<le> now' \<and> now' < now + ttl \<longrightarrow> lo_get ops key now' r1 = Some token"
    using lock_lawfulD(2) [OF assms(1) _ free, of _ token ttl] set by simp
  from lock_held [OF assms(1) this assms(3,4,5)] assms(6,7) show ?thesis by blast
qed

theorem lock_excludes_witness:
  "lock_run demo_lock ''k'' [(5, Acquire ''b'' 10), (6, Release ''b''), (9, Acquire ''c'' 10)] (Some (''a'', 10)) =
     ([False, False, False], Some (''a'', 10))
   \<and> lo_get demo_lock ''k'' 9 (Some (''a'', 10)) = Some ''a''"
proof -
  have run: "lock_run demo_lock ''k'' [(5, Acquire ''b'' 10), (6, Release ''b''), (9, Acquire ''c'' 10)] (Some (''a'', 10)) =
     ([False, False, False], Some (''a'', 10))"
    by (simp add: demo_lock_def acquireLock_def releaseLock_def release_script_def)
  have acq: "acquireLock demo_lock ''k'' 10 ''a'' 0 None = (Some ''a'', Some (''a'', 10))"
    by (simp add: demo_lock_def acquireLock_def)
  from lock_excludes [OF demo_lock_lawful acq _ _ run, of 9] run show ?thesis by simp
qed

end
