(* ===== verification/Products_Theorems.thy ===== *)
theory Products_Theorems
  imports Products Checkout_Theorems Orders_Same
begin

text \<open>
  The revenue report agrees with the orders: its rows add up to the totals of the paid orders, and the
  formatted amounts are the same amounts.
\<close>

section \<open>Sums over groups\<close>

lemma sum_pick:
  fixes c :: int
  assumes "distinct ks" and "a \<in> set ks"
  shows "(\<Sum>k\<leftarrow>ks. if a = k then c else 0) = c"
  using assms
proof (induction ks)
  case (Cons k ks)
  show ?case
  proof (cases "a = k")
    case True
    with Cons.prems have "(\<Sum>k\<leftarrow>ks. if a = k then c else 0) = (\<Sum>k\<leftarrow>ks. 0)"
      by (intro arg_cong [of _ _ sum_list] map_cong) auto
    with True show ?thesis by (simp add: sum_list_0)
  qed (use Cons in simp)
qed simp

lemma sum_groups:
  fixes f :: "'a \<Rightarrow> int"
  assumes "distinct ks" and "g ` set xs \<subseteq> set ks"
  shows "(\<Sum>k\<leftarrow>ks. \<Sum>x\<leftarrow>filter (\<lambda>x. g x = k \<and> P x) xs. f x) = (\<Sum>x\<leftarrow>filter P xs. f x)"
  using assms(2)
proof (induction xs)
  case (Cons x xs)
  have "(\<Sum>k\<leftarrow>ks. \<Sum>y\<leftarrow>filter (\<lambda>y. g y = k \<and> P y) (x # xs). f y) =
      (\<Sum>k\<leftarrow>ks. (if g x = k then (if P x then f x else 0) else 0) + (\<Sum>y\<leftarrow>filter (\<lambda>y. g y = k \<and> P y) xs. f y))"
    by (intro arg_cong [of _ _ sum_list] map_cong) auto
  also have "\<dots> = (if P x then f x else 0) + (\<Sum>y\<leftarrow>filter P xs. f y)"
    using Cons sum_pick [OF assms(1), of "g x" "if P x then f x else 0"] by (simp add: sum_list_addf)
  finally show ?case by simp
qed (simp add: sum_list_0)

lemma sum_list_sort_key:
  fixes f :: "'a \<Rightarrow> int"
  shows "(\<Sum>x\<leftarrow>sort_key g xs. f x) = (\<Sum>x\<leftarrow>xs. f x)"
  by (metis mset_map mset_sort sum_mset_sum_list)

lemma sum_list_filter_zero:
  fixes f :: "'a \<Rightarrow> int"
  assumes "\<And>x. x \<in> set xs \<Longrightarrow> \<not> P x \<Longrightarrow> f x = 0"
  shows "(\<Sum>x\<leftarrow>filter P xs. f x) = (\<Sum>x\<leftarrow>xs. f x)"
  using assms by (induction xs) auto

section \<open>Revenue\<close>

definition paid_total :: "db \<Rightarrow> int" where
  "paid_total d = (\<Sum>r\<leftarrow>filter (\<lambda>r. o_status r = paid) (orders d). o_total r)"

abbreviation amount :: "OrderItem \<Rightarrow> int" where
  "amount i \<equiv> i_quantity i * i_unitPrice i"

lemma paid_items_total:
  assumes "db_ok d" and "totals_ok d"
  shows "(\<Sum>i\<leftarrow>filter (paid_order d) (orderItems d). amount i) = paid_total d"
proof -
  have dist: "distinct (map o_id (orders d))" by (rule db_okD(3) [OF assms(1)])
  have paid_iff: "paid_order d i \<longleftrightarrow> o_status r = paid" if "r \<in> set (orders d)" "i_orderId i = o_id r" for i r
    using that dist by (auto simp: paid_order_def list_ex_iff dest: distinct_map [THEN iffD1, THEN conjunct2, THEN inj_onD])
  have "(\<Sum>i\<leftarrow>filter (paid_order d) (orderItems d). amount i) =
      (\<Sum>k\<leftarrow>map o_id (orders d). \<Sum>i\<leftarrow>filter (\<lambda>i. i_orderId i = k \<and> paid_order d i) (orderItems d). amount i)"
    using assms(1) by (intro sum_groups [symmetric] dist) (auto simp: db_ok_defs)
  also have "\<dots> = (\<Sum>r\<leftarrow>orders d. if o_status r = paid then o_total r else 0)"
    unfolding map_map comp_def
  proof (intro arg_cong [of _ _ sum_list] map_cong refl)
    fix r assume r: "r \<in> set (orders d)"
    have "filter (\<lambda>i. i_orderId i = o_id r \<and> paid_order d i) (orderItems d) =
        (if o_status r = paid then items_of d (o_id r) else [])"
      using paid_iff [OF r] by (auto simp: items_of_def filter_empty_conv intro: filter_cong)
    with r assms(2) show "(\<Sum>i\<leftarrow>filter (\<lambda>i. i_orderId i = o_id r \<and> paid_order d i) (orderItems d). amount i) =
        (if o_status r = paid then o_total r else 0)"
      by (simp add: totals_ok_def items_total_def)
  qed
  also have "\<dots> = paid_total d"
    unfolding paid_total_def by (induction "orders d") (simp_all add: sum_list_map_filter')
  finally show ?thesis .
qed

lemma sum_list_member:
  fixes f :: "'a \<Rightarrow> int"
  assumes "\<And>x. x \<in> set xs \<Longrightarrow> 0 \<le> f x" and "y \<in> set xs"
  shows "f y \<le> (\<Sum>x\<leftarrow>xs. f x)"
  using assms
proof (induction xs)
  case (Cons x xs)
  then have "0 \<le> f x" "0 \<le> (\<Sum>x\<leftarrow>xs. f x)" by (auto intro!: sum_list_nonneg)
  then show ?case
  proof (cases "y = x")
    case False
    with Cons have "f y \<le> (\<Sum>x\<leftarrow>xs. f x)" by auto
    with \<open>0 \<le> f x\<close> show ?thesis by simp
  qed simp
qed simp

text \<open>No product of a quantity and a price overflows.\<close>

lemma amount_fits:
  assumes "db_ok d" and "totals_ok d" and "i \<in> set (orderItems d)"
  shows "0 \<le> amount i" and "amount i \<le> int4_max"
proof -
  have items: "\<And>j. j \<in> set (orderItems d) \<Longrightarrow> 0 \<le> amount j"
    using assms(1) by (auto simp: db_ok_defs list_all_iff item_ok_def)
  then show "0 \<le> amount i" using assms(3) .
  obtain r where r: "r \<in> set (orders d)" "i_orderId i = o_id r"
    using assms(1,3) by (auto simp: db_ok_defs)
  have "amount i \<le> (\<Sum>j\<leftarrow>items_of d (o_id r). amount j)"
    by (rule sum_list_member) (use items assms(3) r in \<open>auto simp: items_of_def\<close>)
  also have "\<dots> = o_total r" using assms(2) r(1) by (simp add: totals_ok_def items_total_def)
  also have "\<dots> \<le> int4_max" using db_okD(8) [OF assms(1) r(1)] by (simp add: order_ok_def)
  finally show "amount i \<le> int4_max" .
qed

lemma product_revenue_nonneg: "db_ok d \<Longrightarrow> totals_ok d \<Longrightarrow> 0 \<le> product_revenue d k"
  unfolding product_revenue_def by (rule sum_list_nonneg) (auto intro: amount_fits(1))

lemma num_of_int_text: "0 \<le> n \<Longrightarrow> num_of (int_text n) = nat n"
  by (simp add: int_text_def)

section \<open>Amounts as text\<close>

definition two_digits :: "nat \<Rightarrow> string" where
  "two_digits n = [digit_char (n div 10), digit_char (n mod 10)]"

lemma dec_below_10: "n < 10 \<Longrightarrow> dec n = [digit_char n]"
  by (simp add: dec.simps)

lemma dec_below_100: "10 \<le> n \<Longrightarrow> n < 100 \<Longrightarrow> dec n = two_digits n"
  by (simp add: dec.simps [of n] dec_below_10 two_digits_def)

lemma take_dec: "take 1 (dec n) \<noteq> ''-''"
proof
  assume "take 1 (dec n) = ''-''"
  then have "CHR ''-'' \<in> set (dec n)" by (metis in_set_takeD list.set_intros(1))
  with dec_not_mark [of "CHR ''-''" n] show False by blast
qed

lemma formatUah_dec: "formatUah (dec n) = dec (n div 100) @ ''.'' @ two_digits (n mod 100)"
proof -
  have "replicate (2 - length (dec k)) (CHR ''0'') @ dec k = two_digits k" if "k < 100" for k
  proof (cases "k < 10")
    case True
    moreover have "CHR ''0'' = digit_char 0" by code_simp
    ultimately show ?thesis by (simp add: dec_below_10 two_digits_def)
  next
    case False
    with that have "dec k = two_digits k" by (simp add: dec_below_100)
    then show ?thesis by (simp add: two_digits_def)
  qed
  from this [of "n mod 100"] show ?thesis
    using take_dec [of n] by (simp add: formatUah_def Let_def int_text_def nat_div_distrib nat_mod_distrib)
qed

section \<open>The report\<close>

definition sold_products :: "db \<Rightarrow> Product list" where
  "sold_products d = filter (\<lambda>p. list_ex (\<lambda>i. i_productId i = p_id p \<and> paid_order d i) (orderItems d)) (products d)"

definition revenue_row :: "db \<Rightarrow> Product \<Rightarrow> ProductRevenue" where
  "revenue_row d p = \<lparr>pr_productId = dec (p_id p), pr_productName = p_name p,
     pr_unitsSold = int_text (units_sold d (p_id p)), pr_revenue = int_text (product_revenue d (p_id p))\<rparr>"

lemma revenue_rows:
  assumes "db_ok d" and "totals_ok d"
  shows "revenueByProduct d =
    (Inr (map (revenue_row d) (sort_key (\<lambda>p. - product_revenue d (p_id p)) (sold_products d))), d)"
proof -
  have "\<not> list_ex (\<lambda>i. paid_order d i \<and> int4_max < amount i) (orderItems d)"
    using amount_fits(2) [OF assms] by (auto simp: list_ex_iff not_less)
  then show ?thesis unfolding revenueByProduct_def Let_def sold_products_def revenue_row_def by (simp only: if_False)
qed

lemma revenue_sum:
  assumes "db_ok d" and "totals_ok d"
  shows "(\<Sum>p\<leftarrow>sold_products d. product_revenue d (p_id p)) = paid_total d"
proof -
  have "(\<Sum>p\<leftarrow>sold_products d. product_revenue d (p_id p)) = (\<Sum>p\<leftarrow>products d. product_revenue d (p_id p))"
    unfolding sold_products_def
  proof (rule sum_list_filter_zero)
    fix p assume "\<not> list_ex (\<lambda>i. i_productId i = p_id p \<and> paid_order d i) (orderItems d)"
    then have "filter (\<lambda>i. i_productId i = p_id p \<and> paid_order d i) (orderItems d) = []"
      by (auto simp: list_ex_iff filter_empty_conv)
    then show "product_revenue d (p_id p) = 0" by (simp add: product_revenue_def)
  qed
  also have "\<dots> = (\<Sum>k\<leftarrow>map p_id (products d). \<Sum>i\<leftarrow>filter (\<lambda>i. i_productId i = k \<and> paid_order d i) (orderItems d). amount i)"
    by (simp add: product_revenue_def comp_def)
  also have "\<dots> = (\<Sum>i\<leftarrow>filter (paid_order d) (orderItems d). amount i)"
    using assms(1) by (intro sum_groups) (auto simp: db_ok_defs)
  finally show ?thesis by (simp add: paid_items_total [OF assms])
qed

lemma sold_ids:
  assumes "db_ok d"
  shows "p_id ` set (sold_products d) = i_productId ` {i \<in> set (orderItems d). paid_order d i}"
proof (intro equalityI subsetI)
  fix k assume "k \<in> p_id ` set (sold_products d)"
  then obtain p where "k = p_id p" "p \<in> set (sold_products d)" by blast
  then obtain i where "k = i_productId i" "i \<in> set (orderItems d)" "paid_order d i"
    unfolding sold_products_def set_filter mem_Collect_eq list_ex_iff by metis
  then show "k \<in> i_productId ` {i \<in> set (orderItems d). paid_order d i}" by simp
next
  fix k assume "k \<in> i_productId ` {i \<in> set (orderItems d). paid_order d i}"
  then obtain i where i: "k = i_productId i" "i \<in> set (orderItems d)" "paid_order d i" by blast
  moreover have "i_productId i \<in> p_id ` set (products d)"
    using assms i(2) by (auto simp: db_ok_defs)
  then obtain p where "i_productId i = p_id p" "p \<in> set (products d)" by blast
  ultimately have "p \<in> set (sold_products d)" "k = p_id p"
    by (auto simp: sold_products_def list_ex_iff)
  then show "k \<in> p_id ` set (sold_products d)" by simp
qed

text \<open>
  C31: in every well-formed database whose order totals are right, the revenue report succeeds, has one
  row for each product with a paid item, by falling revenue, its revenues add up to the totals of the
  paid orders, and each is printed as hryvnias and two digits of kopiykas.
\<close>

theorem revenue_report_adds_up:
  assumes "db_ok d" and "totals_ok d"
  shows "\<exists>rows. revenueByProduct d = (Inr rows, d) \<and>
    (\<Sum>row\<leftarrow>rows. int (num_of (pr_revenue row))) = paid_total d \<and>
    sorted (rev (map (num_of \<circ> pr_revenue) rows)) \<and> distinct (map pr_productId rows) \<and>
    set (map pr_productId rows) = dec ` i_productId ` {i \<in> set (orderItems d). paid_order d i} \<and>
    (\<forall>row \<in> set rows. formatUah (pr_revenue row) =
       dec (num_of (pr_revenue row) div 100) @ ''.'' @ two_digits (num_of (pr_revenue row) mod 100))"
proof (intro exI conjI)
  let ?R = "\<lambda>p. product_revenue d (p_id p)"
  let ?ps = "sort_key (\<lambda>p. - ?R p) (sold_products d)"
  have num: "num_of (pr_revenue (revenue_row d p)) = nat (?R p)" for p
    using product_revenue_nonneg [OF assms] by (simp add: revenue_row_def num_of_int_text)
  have printed: "pr_revenue (revenue_row d p) = dec (nat (?R p))" for p
    using product_revenue_nonneg [OF assms] by (simp add: revenue_row_def int_text_def not_less)
  show "revenueByProduct d = (Inr (map (revenue_row d) ?ps), d)" by (rule revenue_rows [OF assms])
  show "(\<Sum>row\<leftarrow>map (revenue_row d) ?ps. int (num_of (pr_revenue row))) = paid_total d"
    using revenue_sum [OF assms] product_revenue_nonneg [OF assms] by (simp add: comp_def num sum_list_sort_key)
  have "sorted_wrt (\<lambda>p q. - ?R p \<le> - ?R q) ?ps"
    using sorted_sort_key [of "\<lambda>p. - ?R p" "sold_products d"] by (simp only: sorted_map)
  then show "sorted (rev (map (num_of \<circ> pr_revenue) (map (revenue_row d) ?ps)))"
    by (auto simp: sorted_wrt_rev sorted_wrt_map num elim!: sorted_wrt_mono_rel [rotated])
  have "distinct (map p_id (sold_products d))"
    using db_okD(1) [OF assms(1)] by (simp add: sold_products_def distinct_map_filter)
  then have "distinct (map p_id ?ps)" by (simp add: distinct_map)
  then show "distinct (map pr_productId (map (revenue_row d) ?ps))"
    by (auto simp: revenue_row_def distinct_map inj_on_def)
  show "set (map pr_productId (map (revenue_row d) ?ps)) = dec ` i_productId ` {i \<in> set (orderItems d). paid_order d i}"
    by (simp add: image_image revenue_row_def sold_ids [OF assms(1), symmetric])
  show "\<forall>row \<in> set (map (revenue_row d) ?ps). formatUah (pr_revenue row) =
       dec (num_of (pr_revenue row) div 100) @ ''.'' @ two_digits (num_of (pr_revenue row) mod 100)"
  proof
    fix row assume "row \<in> set (map (revenue_row d) ?ps)"
    then obtain p where "row = revenue_row d p" by auto
    then show "formatUah (pr_revenue row) =
       dec (num_of (pr_revenue row) div 100) @ ''.'' @ two_digits (num_of (pr_revenue row) mod 100)"
      by (simp only: printed num_of_dec formatUah_dec)
  qed
qed

definition report_db :: db where
  "report_db = shop_db\<lparr>
     orders := [\<lparr>o_id = 1, o_userId = 1, o_status = paid, o_total = 130, o_idempotencyKey = None, o_createdAt = 0\<rparr>,
                \<lparr>o_id = 2, o_userId = 1, o_status = pending, o_total = 20, o_idempotencyKey = None, o_createdAt = 1\<rparr>],
     orderItems := [\<lparr>i_id = 1, i_orderId = 1, i_productId = 1, i_quantity = 3, i_unitPrice = 20\<rparr>,
                    \<lparr>i_id = 2, i_orderId = 1, i_productId = 2, i_quantity = 1, i_unitPrice = 70\<rparr>,
                    \<lparr>i_id = 3, i_orderId = 2, i_productId = 1, i_quantity = 1, i_unitPrice = 20\<rparr>],
     seqs := \<lparr>sq_product = 3, sq_order = 3, sq_item = 4, sq_job = 1, sq_receipt = 1\<rparr>\<rparr>"

lemma report_db_ok: "db_ok report_db" "totals_ok report_db" "paid_total report_db = 130"
  by code_simp+

theorem revenue_report_adds_up_witness:
  "\<exists>rows. revenueByProduct report_db = (Inr rows, report_db) \<and>
    (\<Sum>row\<leftarrow>rows. int (num_of (pr_revenue row))) = 130"
  using revenue_report_adds_up [OF report_db_ok(1,2)] unfolding report_db_ok(3) by blast

end
