(* ===== verification/Http.thy ===== *)
theory Http
  imports Access Products ProductCards Idempotency OrderStatusService RateLimiter
begin

text \<open>
  The HTTP surface: the problem filter (\<open>src/http/problem.filter.ts\<close>) and the handlers of the orders
  and products controllers (\<open>src/controllers/orders.controller.ts\<close>,
  \<open>src/controllers/products.controller.ts\<close>). Requests have passed the OpenAPI validation; \<open>toISO\<close> is
  \<open>Date.prototype.toISOString\<close> on milliseconds.
\<close>

section \<open>Error messages and problems\<close>

fun failure_text :: "checkout_failure \<Rightarrow> string" where
  "failure_text PRODUCT_NOT_FOUND = ''PRODUCT_NOT_FOUND''"
| "failure_text OUT_OF_STOCK = ''OUT_OF_STOCK''"
| "failure_text USER_NOT_FOUND = ''USER_NOT_FOUND''"
| "failure_text INSUFFICIENT_FUNDS = ''INSUFFICIENT_FUNDS''"

fun error_message :: "js_error \<Rightarrow> string" where
  "error_message (CheckoutError reason (Some p)) =
     (if p = [] then failure_text reason else failure_text reason @ '': product '' @ p)"
| "error_message (CheckoutError reason None) = failure_text reason"
| "error_message (IdempotencyKeyReusedError key) =
     ''Idempotency-Key '' @ quoted key @ '' was already used with a different request body''"
| "error_message (OrderStatusError reason msg) = msg"
| "error_message (ProductCardBusyError p) = ''product card '' @ p @ '' is still being loaded''"
| "error_message InvalidCredentialsError = ''Email or password is incorrect''"
| "error_message InvalidRefreshTokenError = ''Refresh token is invalid, expired or revoked''"
| "error_message (AccessTokenRejectedError msg) = msg"
| "error_message RevocationCheckUnavailableError = REVOCATION_UNAVAILABLE"
| "error_message (HttpException status msg) = msg"
| "error_message (PlainError msg) = msg"
| "error_message _ = []"

record Problem =
  pb_type :: string
  pb_title :: string
  pb_status :: nat
  pb_detail :: string
  pb_instance :: string

definition PROBLEM_TYPE :: string where
  "PROBLEM_TYPE = ''https://api.one-marketplace.com/problems/http-error''"

definition sendProblem :: "string \<Rightarrow> nat \<Rightarrow> string \<Rightarrow> string \<Rightarrow> Problem" where
  "sendProblem originalUrl status title detail =
     \<lparr>pb_type = PROBLEM_TYPE, pb_title = title, pb_status = status, pb_detail = detail, pb_instance = originalUrl\<rparr>"

text \<open>The class names of Nest's exceptions, by the status they carry.\<close>

definition exception_name :: "nat \<Rightarrow> string" where
  "exception_name status = (if status = 401 then ''UnauthorizedException'' else if status = 403 then ''ForbiddenException''
     else if status = 404 then ''NotFoundException'' else if status = 409 then ''ConflictException''
     else if status = 422 then ''UnprocessableEntityException'' else if status = 503 then ''ServiceUnavailableException''
     else ''HttpException'')"

definition problem_filter :: "string \<Rightarrow> js_error \<Rightarrow> Problem" where
  "problem_filter originalUrl e = (case e of
     HttpException status msg \<Rightarrow> sendProblem originalUrl status (exception_name status) msg
   | _ \<Rightarrow> sendProblem originalUrl 500 ''InternalServerError'' ''Unexpected server error'')"

text \<open>\<open>promise.catch(handler)\<close> where the handler always throws.\<close>

definition catching :: "('s, 'a) action \<Rightarrow> (js_error \<Rightarrow> js_error) \<Rightarrow> ('s, 'a) action" where
  "catching m f s = (case m s of (Inl e, s') \<Rightarrow> (Inl (f e), s') | (Inr x, s') \<Rightarrow> (Inr x, s'))"

section \<open>Orders\<close>

record OrderItemResponse =
  oi_product_id :: string
  oi_quantity :: int
  oi_price_cents :: int

record OrderResponse =
  or_id :: string
  or_user_id :: string
  or_created_at :: string
  or_status :: string
  or_items :: "OrderItemResponse list"
  or_total_cents :: int

definition toOrderResponse :: "(int \<Rightarrow> string) \<Rightarrow> order_view \<Rightarrow> OrderResponse" where
  "toOrderResponse toISO v =
     \<lparr>or_id = dec (o_id (v_order v)), or_user_id = dec (o_userId (v_order v)),
      or_created_at = toISO (o_createdAt (v_order v) div 1000), or_status = status_text (o_status (v_order v)),
      or_items = map (\<lambda>i. \<lparr>oi_product_id = dec (i_productId i), oi_quantity = i_quantity i,
                          oi_price_cents = i_unitPrice i\<rparr>) (v_items v),
      or_total_cents = o_total (v_order v)\<rparr>"

fun translatePlaceOrderError :: "js_error \<Rightarrow> js_error" where
  "translatePlaceOrderError (IdempotencyKeyReusedError key) =
     HttpException 422 (error_message (IdempotencyKeyReusedError key))"
| "translatePlaceOrderError (CheckoutError reason p) =
     (if reason = PRODUCT_NOT_FOUND \<or> reason = USER_NOT_FOUND
      then HttpException 404 (error_message (CheckoutError reason p))
      else HttpException 409 (error_message (CheckoutError reason p)))"
| "translatePlaceOrderError e = e"

fun translateOrderStatusError :: "js_error \<Rightarrow> js_error" where
  "translateOrderStatusError (OrderStatusError reason msg) =
     (if reason = ORDER_NOT_FOUND then HttpException 404 msg else HttpException 409 msg)"
| "translateOrderStatusError e = e"

definition toLastEventId :: "string option \<Rightarrow> nat option" where
  "toLastEventId v = (case v of None \<Rightarrow> None | Some s \<Rightarrow> if isId s then Some (js_Number s) else None)"

definition event_json_text :: "(int \<Rightarrow> string) \<Rightarrow> OrderStatusEvent \<Rightarrow> string" where
  "event_json_text toISO ev = ''{'' @ stringify_text ''id'' @ '':'' @ dec (se_id ev) @ '','' @
     stringify_text ''orderId'' @ '':'' @ stringify_text (se_orderId ev) @ '','' @
     stringify_text ''status'' @ '':'' @ stringify_text (status_text (se_status ev)) @ '','' @
     stringify_text ''changedAt'' @ '':'' @ stringify_text (toISO (se_changedAt ev)) @ ''}''"

definition toSseBlock :: "(int \<Rightarrow> string) \<Rightarrow> OrderStatusEvent \<Rightarrow> string" where
  "toSseBlock toISO ev = ''id: '' @ dec (se_id ev) @ [CHR 0x0A] @ ''event: order.status'' @ [CHR 0x0A] @
     ''data: '' @ event_json_text toISO ev @ [CHR 0x0A, CHR 0x0A]"

definition not_found :: "string \<Rightarrow> string \<Rightarrow> js_error" where
  "not_found what x = HttpException 404 (what @ '' '' @ quoted x @ '' was not found'')"

definition other_buyer :: "string \<Rightarrow> js_error" where
  "other_buyer orderId = HttpException 403 (''Order '' @ quoted orderId @ '' belongs to another buyer'')"

definition list_orders :: "(int \<Rightarrow> string) \<Rightarrow> AuthenticatedUser \<Rightarrow> string option \<Rightarrow> (db, OrderResponse list) action" where
  "list_orders toISO user limit =
     andThen (listByUser (au_id user) (Some (if truthy limit then js_Number (the limit) else 20)))
       (\<lambda>views. return (map (toOrderResponse toISO) views))"

text \<open>The response and whether the replay header is set.\<close>

definition post_order ::
  "(int \<Rightarrow> string) \<Rightarrow> 'q place_env \<Rightarrow> AuthenticatedUser \<Rightarrow> string option \<Rightarrow> (string \<times> js_number) list \<Rightarrow>
     (db \<times> 'q, OrderResponse \<times> bool) action" where
  "post_order toISO env user idempotencyKey items =
     (case find (\<lambda>item. \<not> isId (fst item)) items of
        Some unknown \<Rightarrow> throw (not_found ''Product'' (fst unknown))
      | None \<Rightarrow>
          andThen (catching (place env \<lparr>ci_userId = au_id user,
              ci_items = map (\<lambda>item. \<lparr>cl_productId = fst item, cl_quantity = snd item\<rparr>) items,
              ci_idempotencyKey = idempotencyKey\<rparr>) translatePlaceOrderError)
            (\<lambda>placed. return (toOrderResponse toISO (po_order placed), po_replay placed)))"

definition load_order_view :: "string \<Rightarrow> (db, order_view) action" where
  "load_order_view orderId =
     andThen (if isId orderId then findById orderId else return None)
       (\<lambda>found. case found of None \<Rightarrow> throw (not_found ''Order'' orderId) | Some v \<Rightarrow> return v)"

definition get_order :: "(int \<Rightarrow> string) \<Rightarrow> AuthenticatedUser \<Rightarrow> string \<Rightarrow> (db, OrderResponse) action" where
  "get_order toISO user orderId =
     andThen (load_order_view orderId) (\<lambda>v.
       if dec (o_userId (v_order v)) \<noteq> au_id user then throw (other_buyer orderId)
       else return (toOrderResponse toISO v))"

definition patch_order_status ::
  "(int \<Rightarrow> string) \<Rightarrow> 'q queue_add option \<Rightarrow> int \<Rightarrow> string \<Rightarrow> OrderStatus \<Rightarrow> ('q app_state, OrderResponse) action" where
  "patch_order_status toISO refresher now orderId status =
     (if \<not> isId orderId then throw (not_found ''Order'' orderId)
      else andThen (catching (change_status refresher now orderId status) translateOrderStatusError)
        (\<lambda>_ s. (case load_order_view orderId (app_db s) of
           (r, d) \<Rightarrow> (case r of Inl e \<Rightarrow> Inl e | Inr v \<Rightarrow> Inr (toOrderResponse toISO v), s\<lparr>app_db := d\<rparr>))))"

text \<open>
  The event stream of an order: what is refused, or what is written at once. Nothing happens between
  reading the missed events and subscribing.
\<close>

definition stream_events ::
  "(int \<Rightarrow> string) \<Rightarrow> AuthenticatedUser \<Rightarrow> string \<Rightarrow> string option \<Rightarrow> db \<times> event_log \<Rightarrow> string list result" where
  "stream_events toISO user orderId lastEventId s =
     (case fst ((if isId orderId then findOwnerId orderId else return None) (fst s)) of
        Inl e \<Rightarrow> Inl e
      | Inr owner \<Rightarrow>
          if \<not> truthy owner then Inl (not_found ''Order'' orderId)
          else if the owner \<noteq> au_id user then Inl (other_buyer orderId)
          else Inr ((''retry: 1000'' @ [CHR 0x0A, CHR 0x0A]) #
            (case toLastEventId lastEventId of None \<Rightarrow> []
             | Some lastSeen \<Rightarrow> map (toSseBlock toISO) (missedSince orderId lastSeen (snd s)))))"

text \<open>
  The subscription: each event of the order waits for the check of the one before it, and the first
  refusal ends the stream. \<open>allowed\<close> is what \<open>isStillValid\<close> answers at that event.
\<close>

definition stream_live ::
  "(int \<Rightarrow> string) \<Rightarrow> (OrderStatusEvent \<Rightarrow> bool) \<Rightarrow> string \<Rightarrow> OrderStatusEvent list \<Rightarrow> string list" where
  "stream_live toISO allowed orderId events =
     map (toSseBlock toISO) (takeWhile allowed (streamFor orderId events))"

section \<open>Products\<close>

record ProductResponse =
  pp_id :: string
  pp_name :: string
  pp_price_cents :: int
  pp_stock :: int

definition toProductResponse :: "Product \<Rightarrow> ProductResponse" where
  "toProductResponse p = \<lparr>pp_id = dec (p_id p), pp_name = p_name p, pp_price_cents = p_price p, pp_stock = p_stock p\<rparr>"

record CreateProductBody =
  pb_name :: string
  pb_price_cents :: int
  pb_description :: "string option"
  pb_stock :: "int option"

definition list_products :: "(db, ProductResponse list) action" where
  "list_products = andThen findAll (\<lambda>ps. return (map toProductResponse ps))"

text \<open>The card, and the \<open>Retry-After\<close> header a busy card sets.\<close>

definition get_product_card ::
  "nat \<Rightarrow> ('w, 't) card_world \<Rightarrow> string \<Rightarrow> 'w \<Rightarrow> ((ProductCard result \<times> string option) \<times> 'w) option" where
  "get_product_card fuel ops productId w =
     (if \<not> isId productId then Some ((Inl (not_found ''Product'' productId), None), w)
      else map_option (\<lambda>(r, w'). (case r of
          Inl (ProductCardBusyError p) \<Rightarrow> (Inl (HttpException 503 (error_message (ProductCardBusyError p))), Some ''1'')
        | Inl e \<Rightarrow> (Inl e, None)
        | Inr None \<Rightarrow> (Inl (not_found ''Product'' productId), None)
        | Inr (Some c) \<Rightarrow> (Inr c, None), w')) (get_card fuel ops productId w))"

definition post_product ::
  "(string \<Rightarrow> string) \<Rightarrow> (ProductResponse idempotency_records \<Rightarrow> ProductResponse idempotency_records) \<Rightarrow>
     (CreateProductBody \<Rightarrow> json) \<Rightarrow> int \<Rightarrow> string \<Rightarrow> CreateProductBody \<Rightarrow>
     (ProductResponse idempotency_records \<times> db, ProductResponse \<times> bool) action" where
  "post_product sha256 meanwhile body_json now idempotencyKey body =
     andThen (handleIdempotency sha256 meanwhile idempotencyKey (body_json body)
        (andThen (create_product now
            \<lparr>pi_name = pb_name body,
             pi_description = (case pb_description body of None \<Rightarrow> [] | Some t \<Rightarrow> t),
             pi_price = pb_price_cents body,
             pi_stock = (case pb_stock body of None \<Rightarrow> 0 | Some n \<Rightarrow> n)\<rparr>)
          (\<lambda>p. return (toProductResponse p))))
      (\<lambda>res. return (id_response res, id_replay res))"

end
