(* ===== verification/Gateway.thy ===== *)
theory Gateway
  imports Http
begin

text \<open>
  The rest of the surface: the auth controller (\<open>src/controllers/auth.controller.ts\<close>), the sessions in
  Redis (\<open>src/services/session.service.ts\<close>, \<open>src/controllers/sessions.controller.ts\<close>,
  \<open>src/repositories/users.repository.ts\<close>) and the WebSocket gateway (\<open>src/gateways/orders.gateway.ts\<close>).
  Redis and Socket.IO are parameters.
\<close>

section \<open>The auth controller\<close>

record TokenPairResponse =
  tr_access_token :: string
  tr_token_type :: string
  tr_expires_in :: int
  tr_refresh_token :: string

definition toTokenResponse :: "TokenPair \<Rightarrow> TokenPairResponse" where
  "toTokenResponse pair = \<lparr>tr_access_token = tp_accessToken pair, tr_token_type = ''Bearer'',
     tr_expires_in = tp_expiresIn pair, tr_refresh_token = tp_refreshToken pair\<rparr>"

fun toUnauthorized :: "js_error \<Rightarrow> js_error" where
  "toUnauthorized InvalidCredentialsError = HttpException 401 (error_message InvalidCredentialsError)"
| "toUnauthorized InvalidRefreshTokenError = HttpException 401 (error_message InvalidRefreshTokenError)"
| "toUnauthorized e = e"

definition post_login ::
  "'r auth_ops \<Rightarrow> scrypt_ops \<Rightarrow> string \<Rightarrow> auth_env \<Rightarrow> string \<Rightarrow> string \<Rightarrow> (db, TokenPairResponse) action" where
  "post_login ops sc dummyHash env email password =
     andThen (catching (login ops sc dummyHash env email password) toUnauthorized)
       (\<lambda>pair. return (toTokenResponse pair))"

definition post_refresh :: "'r auth_ops \<Rightarrow> auth_env \<Rightarrow> string \<Rightarrow> (db \<times> 'r, TokenPairResponse) action" where
  "post_refresh ops env refresh_token =
     andThen (catching (refresh ops env refresh_token) toUnauthorized) (\<lambda>pair. return (toTokenResponse pair))"

definition get_me :: "AuthenticatedUser \<Rightarrow> string \<times> string" where
  "get_me user = (au_id user, role_text (au_role user))"

definition LOGOUT_UNFINISHED :: js_error where
  "LOGOUT_UNFINISHED = HttpException 503 ''Logout could not be completed, retry the request''"

definition post_logout :: "'r auth_ops \<Rightarrow> auth_env \<Rightarrow> AuthenticatedUser \<Rightarrow> (db \<times> 'r, unit) action" where
  "post_logout ops env user = catching (logout ops env user) (\<lambda>e. LOGOUT_UNFINISHED)"

section \<open>Sessions\<close>

record Session =
  ss_token :: string
  ss_user_id :: string
  ss_created_at :: string

definition SESSION_TTL_SECONDS :: int where "SESSION_TTL_SECONDS = 1800"

definition sessionKey :: "string \<Rightarrow> string" where
  "sessionKey token = ''session:'' @ token"

text \<open>
  \<open>SET key value EX ttl\<close> and \<open>GETEX key EX ttl\<close>, and \<open>JSON.stringify\<close> and \<open>JSON.parse\<close> on sessions.
\<close>

record 'r session_ops =
  so_set :: "string \<Rightarrow> string \<Rightarrow> int \<Rightarrow> 'r \<Rightarrow> unit result \<times> 'r"
  so_getex :: "string \<Rightarrow> int \<Rightarrow> 'r \<Rightarrow> string option result \<times> 'r"
  so_text :: "Session \<Rightarrow> string"
  so_parse :: "string \<Rightarrow> Session result"

definition create_session :: "'r session_ops \<Rightarrow> string \<Rightarrow> string \<Rightarrow> string \<Rightarrow> ('r, Session) action" where
  "create_session ops uuid createdAt userId =
     (let session = \<lparr>ss_token = uuid, ss_user_id = userId, ss_created_at = createdAt\<rparr>
      in andThen (so_set ops (sessionKey (ss_token session)) (so_text ops session) SESSION_TTL_SECONDS)
           (\<lambda>_. return session))"

definition touch :: "'r session_ops \<Rightarrow> string \<Rightarrow> ('r, Session option) action" where
  "touch ops token =
     andThen (so_getex ops (sessionKey token) SESSION_TTL_SECONDS) (\<lambda>raw.
       if truthy raw then lift (case so_parse ops (the raw) of Inl e \<Rightarrow> Inl e | Inr s \<Rightarrow> Inr (Some s))
       else return None)"

definition user_exists :: "string \<Rightarrow> (db, bool) action" where
  "user_exists userId = andThen (lift (bigint_param userId)) (\<lambda>k d. (Inr (list_ex (\<lambda>u. u_id u = k) (users d)), d))"

definition post_session ::
  "'r session_ops \<Rightarrow> string \<Rightarrow> string \<Rightarrow> string \<Rightarrow> db \<Rightarrow> ('r, Session) action" where
  "post_session ops uuid createdAt userId d =
     (case (if \<not> isId userId then Inr False else fst (user_exists userId d)) of
        Inl e \<Rightarrow> throw e
      | Inr found \<Rightarrow> if \<not> found then throw (not_found ''User'' userId) else create_session ops uuid createdAt userId)"

definition SESSION_REQUIRED :: js_error where
  "SESSION_REQUIRED = HttpException 401 ''X-Session-Token header with an active session is required''"

definition get_session :: "'r session_ops \<Rightarrow> string option \<Rightarrow> ('r, Session) action" where
  "get_session ops token =
     andThen (if truthy token then touch ops (the token) else return None)
       (\<lambda>found. case found of None \<Rightarrow> throw SESSION_REQUIRED | Some s \<Rightarrow> return s)"

section \<open>The orders gateway\<close>

datatype JoinFailure = JOIN_UNAUTHORIZED | JOIN_UNAVAILABLE | JOIN_ORDER_NOT_FOUND | JOIN_FORBIDDEN

datatype JoinAck = joined string | refused JoinFailure

definition orderRoom :: "string \<Rightarrow> string" where
  "orderRoom orderId = ''orders:'' @ orderId"

text \<open>\<open>number_text\<close> is \<open>String\<close> on numbers.\<close>

definition toId :: "(js_number \<Rightarrow> string) \<Rightarrow> json option \<Rightarrow> string option" where
  "toId number_text value =
     (case (case value of Some (JNum n) \<Rightarrow> Some (JStr (number_text n)) | v \<Rightarrow> v) of
        Some (JStr s) \<Rightarrow> if isId s then Some s else None
      | _ \<Rightarrow> None)"

text \<open>\<open>auth\<close> is the authenticator; a token that is no string is None.\<close>

definition authenticate_socket ::
  "(string \<Rightarrow> AuthenticatedUser result) \<Rightarrow> string option \<Rightarrow> (JoinFailure + AuthenticatedUser) result" where
  "authenticate_socket auth token =
     (if \<not> truthy token then Inr (Inl JOIN_UNAUTHORIZED)
      else (case auth (the token) of
         Inr user \<Rightarrow> Inr (Inr user)
       | Inl (AccessTokenRejectedError msg) \<Rightarrow> Inr (Inl JOIN_UNAUTHORIZED)
       | Inl RevocationCheckUnavailableError \<Rightarrow> Inr (Inl JOIN_UNAVAILABLE)
       | Inl e \<Rightarrow> Inl e))"

text \<open>The answer, and the user and the room the socket gets when it joins.\<close>

definition join ::
  "(js_number \<Rightarrow> string) \<Rightarrow> (string \<Rightarrow> AuthenticatedUser result) \<Rightarrow> string option \<Rightarrow> json option \<Rightarrow> db \<Rightarrow>
     (JoinAck \<times> (AuthenticatedUser \<times> string) option) result" where
  "join number_text auth token body d =
     (case authenticate_socket auth token of
        Inl e \<Rightarrow> Inl e
      | Inr (Inl failure) \<Rightarrow> Inr (refused failure, None)
      | Inr (Inr user) \<Rightarrow>
          (let orderId = toId number_text (json_get ''orderId'' body) in
           case (case orderId of None \<Rightarrow> Inr None | Some k \<Rightarrow> fst (findOwnerId k d)) of
             Inl e \<Rightarrow> Inl e
           | Inr ownerId \<Rightarrow>
               if orderId = None \<or> \<not> truthy ownerId then Inr (refused JOIN_ORDER_NOT_FOUND, None)
               else if the ownerId \<noteq> au_id user then Inr (refused JOIN_FORBIDDEN, None)
               else Inr (joined (orderRoom (the orderId)), Some (user, orderRoom (the orderId)))))"

text \<open>
  Delivering one event: \<open>sockets\<close> is what \<open>fetchSockets\<close> answers for a room, each socket with the user
  its \<open>join\<close> stored, and \<open>valid\<close> what \<open>isStillValid\<close> answers. An error is logged and nothing is sent.
\<close>

datatype socket_action = emit_status string OrderStatusEvent | disconnect_socket string

definition deliver ::
  "(string \<Rightarrow> (string \<times> AuthenticatedUser option) list result) \<Rightarrow> (AuthenticatedUser \<Rightarrow> bool) \<Rightarrow>
     OrderStatusEvent \<Rightarrow> socket_action list" where
  "deliver sockets valid ev =
     (case sockets (orderRoom (se_orderId ev)) of
        Inl e \<Rightarrow> []
      | Inr found \<Rightarrow>
          map (\<lambda>(sock, user). case user of
             None \<Rightarrow> disconnect_socket sock
           | Some u \<Rightarrow> if valid u then emit_status sock ev else disconnect_socket sock) found)"

end
