(* ===== verification/Http_Theorems.thy ===== *)
theory Http_Theorems
  imports Gateway
begin

text \<open>
  What the surface lets through: the answers of the order endpoints by owner, their independence of
  other buyers' data, and streams that resume without a gap.
\<close>

section \<open>Who may see an order\<close>

datatype order_visibility = Missing | Unrepresentable | Foreign_order | Own_order

definition order_access :: "string \<Rightarrow> string \<Rightarrow> db \<Rightarrow> order_visibility" where
  "order_access userId orderId d =
     (if \<not> isId orderId then Missing
      else if int8_max < num_of orderId then Unrepresentable
      else (case find (has_id (num_of orderId)) (orders d) of
         None \<Rightarrow> Missing
       | Some r \<Rightarrow> if dec (o_userId r) = userId then Own_order else Foreign_order))"

lemmas reads = findOwnerId_def findById_def view_where_def andThen_def lift_def return_def throw_def
  bigint_param_def select_one_def

lemma truthy_simps [simp]: "truthy (Some (dec n))" "\<not> truthy None"
  by (simp_all add: truthy_def)

lemma truthy_printed: "dec n = s \<Longrightarrow> truthy (Some s)"
  by auto

lemma owner_answer:
  "isId oid \<Longrightarrow> findOwnerId oid d = (if int8_max < num_of oid then Inl out_of_range
     else Inr (map_option (\<lambda>r. dec (o_userId r)) (find (has_id (num_of oid)) (orders d))), d)"
  by (simp add: reads)

lemma view_answer:
  "isId oid \<Longrightarrow> load_order_view oid d = (if int8_max < num_of oid then Inl out_of_range
     else case find (has_id (num_of oid)) (orders d) of None \<Rightarrow> Inl (not_found ''Order'' oid)
       | Some r \<Rightarrow> Inr (load_order d r), d)"
  by (simp add: load_order_view_def reads split: option.split)

lemma v_order_load [simp]: "v_order (load_order d r) = r"
  by (simp add: load_order_def)

lemma get_order_answer:
  "get_order toISO user oid d = (case order_access (au_id user) oid d of
     Missing \<Rightarrow> Inl (not_found ''Order'' oid)
   | Unrepresentable \<Rightarrow> Inl out_of_range
   | Foreign_order \<Rightarrow> Inl (other_buyer oid)
   | Own_order \<Rightarrow> Inr (toOrderResponse toISO
       (load_order d (the (find (has_id (num_of oid)) (orders d))))), d)"
proof (cases "isId oid")
  case True
  then show ?thesis
    by (simp add: get_order_def andThen_def view_answer order_access_def return_def throw_def split: option.split)
next
  case False
  then show ?thesis by (simp add: get_order_def load_order_view_def andThen_def return_def throw_def order_access_def)
qed

lemma stream_answer:
  "stream_events toISO user oid lastEventId (d, log) = (case order_access (au_id user) oid d of
     Missing \<Rightarrow> Inl (not_found ''Order'' oid)
   | Unrepresentable \<Rightarrow> Inl out_of_range
   | Foreign_order \<Rightarrow> Inl (other_buyer oid)
   | Own_order \<Rightarrow> Inr ((''retry: 1000'' @ [CHR 0x0A, CHR 0x0A]) #
       (case toLastEventId lastEventId of None \<Rightarrow> []
        | Some lastSeen \<Rightarrow> map (toSseBlock toISO) (missedSince oid lastSeen log))))"
proof (cases "isId oid")
  case True
  then show ?thesis
    by (auto simp: stream_events_def owner_answer order_access_def dest: truthy_printed split: option.split)
next
  case False
  then show ?thesis by (simp add: stream_events_def return_def order_access_def)
qed

lemma toId_isId: "toId number_text v = Some k \<Longrightarrow> isId k"
  by (auto simp: toId_def split: option.splits json.splits if_splits)

lemma join_answer:
  assumes "authenticate_socket auth token = Inr (Inr user)"
    and "toId number_text (json_get ''orderId'' body) = Some oid"
  shows "join number_text auth token body d = (case order_access (au_id user) oid d of
     Missing \<Rightarrow> Inr (refused JOIN_ORDER_NOT_FOUND, None)
   | Unrepresentable \<Rightarrow> Inl out_of_range
   | Foreign_order \<Rightarrow> Inr (refused JOIN_FORBIDDEN, None)
   | Own_order \<Rightarrow> Inr (joined (orderRoom oid), Some (user, orderRoom oid)))"
  using assms toId_isId [OF assms(2)]
  by (auto simp: join_def owner_answer order_access_def dest: truthy_printed split: option.split)

lemma list_answer:
  "fst (list_orders toISO user limit d) = (case bigint_param (au_id user) of Inl e \<Rightarrow> Inl e
   | Inr uid \<Rightarrow> Inr (map (\<lambda>r. toOrderResponse toISO (load_order d r))
       (take (if truthy limit then js_Number (the limit) else 20)
         (sort_key (\<lambda>r. - o_createdAt r) (filter (\<lambda>r. o_userId r = uid) (orders d))))))"
  by (simp add: list_orders_def listByUser_def andThen_def lift_def return_def Let_def o_def take_map
      split: sum.split)

text \<open>What the three endpoints that name an order answer, and what they answer it with.\<close>

definition answers ::
  "AuthenticatedUser \<Rightarrow> string \<Rightarrow> OrderResponse result \<Rightarrow> string list result \<Rightarrow>
     (JoinAck \<times> (AuthenticatedUser \<times> string) option) result \<Rightarrow> order_visibility \<Rightarrow> bool" where
  "answers user oid got streamed ack access \<longleftrightarrow> (case access of
     Missing \<Rightarrow> got = Inl (HttpException 404 (''Order '' @ quoted oid @ '' was not found'')) \<and>
       streamed = Inl (HttpException 404 (''Order '' @ quoted oid @ '' was not found'')) \<and>
       ack = Inr (refused JOIN_ORDER_NOT_FOUND, None)
   | Unrepresentable \<Rightarrow> got = Inl out_of_range \<and> streamed = Inl out_of_range \<and> ack = Inl out_of_range
   | Foreign_order \<Rightarrow> got = Inl (HttpException 403 (''Order '' @ quoted oid @ '' belongs to another buyer'')) \<and>
       streamed = Inl (HttpException 403 (''Order '' @ quoted oid @ '' belongs to another buyer'')) \<and>
       ack = Inr (refused JOIN_FORBIDDEN, None)
   | Own_order \<Rightarrow> (\<exists>resp. got = Inr resp \<and> or_id resp = dec (num_of oid) \<and> or_user_id resp = au_id user) \<and>
       (\<exists>blocks. streamed = Inr blocks) \<and>
       ack = Inr (joined (''orders:'' @ oid), Some (user, ''orders:'' @ oid)))"

text \<open>
  C28: an order is shown, streamed and joined by its buyer only: the buyer gets it, its stream and the
  room, any other user 403 and FORBIDDEN, and a missing order is 404 and ORDER_NOT_FOUND. A list holds
  nothing but the caller's own orders.
\<close>

theorem orders_by_owner:
  assumes "authenticate_socket auth token = Inr (Inr user)"
    and "toId number_text (json_get ''orderId'' body) = Some oid"
  shows "answers user oid (fst (get_order toISO user oid d)) (stream_events toISO user oid since (d, log))
       (join number_text auth token body d) (order_access (au_id user) oid d) \<and>
     list_all (\<lambda>resp. or_user_id resp = dec (num_of (au_id user)))
       (case fst (list_orders toISO user limit d) of Inl e \<Rightarrow> [] | Inr resps \<Rightarrow> resps)"
proof (rule conjI)
  have "isId oid" by (rule toId_isId [OF assms(2)])
  note ids = find_Some_iff [of "has_id (num_of oid)" "orders d"]
  show "answers user oid (fst (get_order toISO user oid d)) (stream_events toISO user oid since (d, log))
       (join number_text auth token body d) (order_access (au_id user) oid d)"
  proof (cases "order_access (au_id user) oid d")
    case Own_order
    then obtain r where "find (has_id (num_of oid)) (orders d) = Some r" "dec (o_userId r) = au_id user"
      by (auto simp: order_access_def split: if_splits option.splits)
    then have "o_id r = num_of oid" "find (has_id (num_of oid)) (orders d) = Some r" "dec (o_userId r) = au_id user"
      by (auto simp: find_Some_iff has_id_def)
    with Own_order show ?thesis
      by (simp add: answers_def join_answer [OF assms] get_order_answer stream_answer toOrderResponse_def orderRoom_def)
  qed (simp_all add: answers_def join_answer [OF assms] get_order_answer stream_answer not_found_def other_buyer_def)
  show "list_all (\<lambda>resp. or_user_id resp = dec (num_of (au_id user)))
       (case fst (list_orders toISO user limit d) of Inl e \<Rightarrow> [] | Inr resps \<Rightarrow> resps)"
    unfolding list_answer
    by (auto simp: list_all_iff bigint_param_def toOrderResponse_def dest!: in_set_takeD split: sum.split if_splits)
qed

definition demo_order :: "nat \<Rightarrow> nat \<Rightarrow> int \<Rightarrow> Order" where
  "demo_order k uid cents = \<lparr>o_id = k, o_userId = uid, o_status = paid, o_total = cents,
     o_idempotencyKey = None, o_createdAt = 0\<rparr>"

definition demo_buyer :: AuthenticatedUser where
  "demo_buyer = \<lparr>au_id = ''1'', au_role = buyer, au_sessionId = ''s'', au_tokenId = ''t'', au_expiresAt = 600\<rparr>"

definition orders_db :: "int \<Rightarrow> db" where
  "orders_db cents = empty_db\<lparr>orders := [demo_order 7 1 5, demo_order 8 2 cents]\<rparr>"

definition demo_iso :: "int \<Rightarrow> string" where
  "demo_iso ms = dec (nat ms)"

definition demo_body :: "string \<Rightarrow> json option" where
  "demo_body oid = Some (JObj [(''orderId'', JStr oid)])"

lemma demo_join_premises:
  "authenticate_socket (\<lambda>t. Inr demo_buyer) (Some ''tok'') = Inr (Inr demo_buyer)"
  "toId js_text (json_get ''orderId'' (demo_body ''7'')) = Some ''7''"
  "toId js_text (json_get ''orderId'' (demo_body ''8'')) = Some ''8''"
  by (simp_all add: authenticate_socket_def truthy_def toId_def json_get_def demo_body_def isId_def is_digit_def)

lemma dec_small: "dec 1 = ''1''" "dec (Suc 0) = ''1''" "dec 2 = ''2''"
  by code_simp+

lemma demo_access: "order_access ''1'' ''7'' (orders_db c) = Own_order" "order_access ''1'' ''8'' (orders_db c) = Foreign_order"
  by (simp_all add: order_access_def orders_db_def empty_db_def demo_order_def has_id_def isId_def is_digit_def
      num_of_def digit_val_def int8_max_def dec_small)

theorem orders_by_owner_witness:
  "join js_text (\<lambda>t. Inr demo_buyer) (Some ''tok'') (demo_body ''8'') (orders_db 9) = Inr (refused JOIN_FORBIDDEN, None) \<and>
   join js_text (\<lambda>t. Inr demo_buyer) (Some ''tok'') (demo_body ''7'') (orders_db 9) =
     Inr (joined ''orders:7'', Some (demo_buyer, ''orders:7''))"
  using orders_by_owner [OF demo_join_premises(1,2), of demo_iso "orders_db 9" None empty_log None]
    orders_by_owner [OF demo_join_premises(1,3), of demo_iso "orders_db 9" None empty_log None]
  by (simp add: answers_def demo_buyer_def demo_access)

section \<open>Other buyers' data stays theirs\<close>

text \<open>
  Two states a user cannot tell apart: the same orders exist with the same owners, and the orders of
  the user, with their items and their events, are the same.
\<close>

definition same_order :: "nat \<Rightarrow> Order \<Rightarrow> Order \<Rightarrow> bool" where
  "same_order uid r r' \<longleftrightarrow> o_id r = o_id r' \<and> o_userId r = o_userId r' \<and> (o_userId r = uid \<longrightarrow> r = r')"

definition same_for :: "nat \<Rightarrow> db \<times> event_log \<Rightarrow> db \<times> event_log \<Rightarrow> bool" where
  "same_for uid s s' \<longleftrightarrow> list_all2 (same_order uid) (orders (fst s)) (orders (fst s')) \<and>
     (\<forall>r \<in> set (orders (fst s)). o_userId r = uid \<longrightarrow> items_of (fst s) (o_id r) = items_of (fst s') (o_id r) \<and>
        (\<forall>oid. num_of oid = o_id r \<longrightarrow> buffer_of oid (snd s) = buffer_of oid (snd s')))"

lemma find_same:
  assumes "list_all2 (same_order uid) rs rs'"
  shows "find (has_id k) rs = None \<and> find (has_id k) rs' = None \<or>
    (\<exists>r r'. find (has_id k) rs = Some r \<and> find (has_id k) rs' = Some r' \<and> same_order uid r r' \<and> r \<in> set rs)"
  using assms
proof (induction rule: list_all2_induct)
  case (Cons r rs r' rs')
  then have "has_id k r = has_id k r'" by (simp add: same_order_def has_id_def)
  with Cons show ?case by (cases "has_id k r") auto
qed simp

lemma filter_same:
  assumes "list_all2 (same_order uid) rs rs'"
  shows "filter (\<lambda>r. o_userId r = uid) rs = filter (\<lambda>r. o_userId r = uid) rs'"
  using assms
proof (induction rule: list_all2_induct)
  case (Cons r rs r' rs')
  then have "o_userId r = o_userId r'" "o_userId r = uid \<Longrightarrow> r = r'" by (simp_all add: same_order_def)
  with Cons.IH show ?case by (cases "o_userId r = uid") simp_all
qed simp

lemma same_access:
  assumes "same_for uid (d, log) (d', log')"
  shows "order_access (dec uid) oid d = order_access (dec uid) oid d'"
    and "order_access (dec uid) oid d = Own_order \<Longrightarrow> \<exists>r. find (has_id (num_of oid)) (orders d) = Some r \<and>
      find (has_id (num_of oid)) (orders d') = Some r \<and> load_order d r = load_order d' r \<and>
      buffer_of oid log = buffer_of oid log'"
proof -
  have all: "list_all2 (same_order uid) (orders d) (orders d')" using assms by (simp add: same_for_def)
  from find_same [OF this, of "num_of oid"]
  show "order_access (dec uid) oid d = order_access (dec uid) oid d'"
    by (auto simp: order_access_def same_order_def)
  assume own: "order_access (dec uid) oid d = Own_order"
  then obtain r where r: "find (has_id (num_of oid)) (orders d) = Some r" "o_userId r = uid"
    by (auto simp: order_access_def split: if_splits option.splits)
  with find_same [OF all, of "num_of oid"] have "find (has_id (num_of oid)) (orders d') = Some r" "r \<in> set (orders d)"
    by (auto simp: same_order_def)
  moreover from r(1) have "o_id r = num_of oid" by (auto simp: find_Some_iff has_id_def)
  ultimately show "\<exists>r. find (has_id (num_of oid)) (orders d) = Some r \<and>
      find (has_id (num_of oid)) (orders d') = Some r \<and> load_order d r = load_order d' r \<and>
      buffer_of oid log = buffer_of oid log'"
    using r assms by (auto simp: same_for_def load_order_def)
qed

lemma same_list:
  assumes "same_for uid (d, log) (d', log')" and "au_id user = dec uid"
  shows "fst (list_orders toISO user limit d) = fst (list_orders toISO user limit d')"
proof -
  let ?mine = "filter (\<lambda>r. o_userId r = uid) (orders d)"
  have "?mine = filter (\<lambda>r. o_userId r = uid) (orders d')"
    using assms(1) by (simp add: same_for_def filter_same)
  moreover have "load_order d r = load_order d' r" if "r \<in> set (take n (sort_key f ?mine))" for r n and f :: "Order \<Rightarrow> int"
    using in_set_takeD [OF that] assms(1) by (auto simp: same_for_def load_order_def)
  ultimately show ?thesis
    unfolding list_answer by (auto simp: assms(2) bigint_param_def)
qed

text \<open>
  C29: what a user reads depends on the user's own data only: in two states that differ in other
  buyers' orders, items and events alone, every order endpoint and the gateway answer the user alike.
\<close>

theorem order_confidentiality:
  assumes "same_for uid (d, log) (d', log')" and "au_id user = dec uid"
  shows "fst (get_order toISO user oid d) = fst (get_order toISO user oid d') \<and>
    fst (list_orders toISO user limit d) = fst (list_orders toISO user limit d') \<and>
    stream_events toISO user oid since (d, log) = stream_events toISO user oid since (d', log') \<and>
    (authenticate_socket auth token = Inr (Inr user) \<longrightarrow>
       join number_text auth token body d = join number_text auth token body d')"
proof (intro conjI impI)
  note access = same_access [OF assms(1), of oid, folded assms(2)]
  show "fst (list_orders toISO user limit d) = fst (list_orders toISO user limit d')"
    by (rule same_list [OF assms])
  show "fst (get_order toISO user oid d) = fst (get_order toISO user oid d')"
    using access by (cases "order_access (au_id user) oid d") (auto simp: get_order_answer)
  show "stream_events toISO user oid since (d, log) = stream_events toISO user oid since (d', log')"
    using access by (cases "order_access (au_id user) oid d") (auto simp: stream_answer missedSince_def split: option.split)
  assume auth: "authenticate_socket auth token = Inr (Inr user)"
  show "join number_text auth token body d = join number_text auth token body d'"
  proof (cases "toId number_text (json_get ''orderId'' body)")
    case None
    with auth show ?thesis by (simp add: join_def)
  next
    case (Some k)
    then show ?thesis
      using same_access(1) [OF assms(1), of k, folded assms(2)] by (simp add: join_answer [OF auth Some])
  qed
qed

lemma demo_same: "same_for 1 (orders_db 5, empty_log) (orders_db 900, empty_log)"
  by (simp add: same_for_def orders_db_def same_order_def demo_order_def items_of_def empty_db_def)

theorem order_confidentiality_witness:
  "orders_db 5 \<noteq> orders_db 900 \<and>
   fst (list_orders demo_iso demo_buyer None (orders_db 5)) = fst (list_orders demo_iso demo_buyer None (orders_db 900))"
  using order_confidentiality [OF demo_same, of demo_buyer demo_iso "''7''" None None]
  by (simp add: demo_buyer_def dec_small orders_db_def demo_order_def empty_db_def)

section \<open>Resuming a stream\<close>

lemma lastEventId_printed: "n < 2 ^ 53 \<Longrightarrow> toLastEventId (Some (dec n)) = Some n"
  by (simp add: toLastEventId_def js_Number_exact)

lemma publish_all_emitted: "\<exists>new. emitted (publish_all ps s) = emitted s @ new"
proof (induction ps s rule: publish_all.induct)
  case (2 now oid status ps s)
  then obtain new where "emitted (publish_all ps (snd (publish now oid status s))) =
      emitted (snd (publish now oid status s)) @ new" by blast
  then show ?case by (simp add: publish_def Let_def)
qed simp

text \<open>The events of an order published after a state.\<close>

definition since_state :: "string \<Rightarrow> event_log \<Rightarrow> event_log \<Rightarrow> OrderStatusEvent list" where
  "since_state oid s s' = streamFor oid (drop (length (emitted s)) (emitted s'))"

lemma streamFor_append [simp]: "streamFor oid (xs @ ys) = streamFor oid xs @ streamFor oid ys"
  by (simp add: streamFor_def)

lemma since_state_append:
  assumes "emitted s' = emitted s @ xs" and "emitted s'' = emitted s' @ ys"
  shows "since_state oid s s'' = since_state oid s s' @ since_state oid s' s''"
  using assms by (simp add: since_state_def)

text \<open>
  C30: a client that comes back to the running process with the id of the last event it saw (below
  \<open>2 ^ 53\<close>, so that the header reads as that id) is written, in order and each once, the newest of the
  events of its order published while it was away, and then those published after it came back, up to
  the first at which its token is no longer valid. What is lost is what the bounded buffers no longer
  hold: as long as fewer than 1000 other orders were published while it was away, exactly the events
  before the newest 100, so none of up to 100; else the order may have been evicted, and the oldest of the
  events it missed are lost.
\<close>

theorem stream_resumes:
  assumes "log_ok s" and "publish now oid st s = (e, s')" and "se_id e < 2 ^ 53"
    and "order_access (au_id user) oid d = Own_order"
    and returned: "returned = publish_all away s'" and later: "later = publish_all live returned"
  shows "\<exists>lost missed. stream_events toISO user oid (Some (dec (se_id e))) (d, returned) =
      Inr ((''retry: 1000'' @ [CHR 0x0A, CHR 0x0A]) # map (toSseBlock toISO) missed) \<and>
    map (toSseBlock toISO) missed @
      stream_live toISO allowed oid (drop (length (emitted returned)) (emitted later)) =
    map (toSseBlock toISO) (missed @ takeWhile allowed (since_state oid returned later)) \<and>
    lost @ missed @ since_state oid returned later = since_state oid s' later \<and>
    (card (fst ` snd ` set away - {oid}) < 1000 \<longrightarrow> length lost = length (filter (about oid) away) - 100)"
proof -
  obtain lost where lost: "streamFor oid (emitted returned) = streamFor oid (emitted s') @ lost @ missedSince oid (se_id e) returned"
    "card (fst ` snd ` set away - {oid}) < 1000 \<longrightarrow> length lost = length (filter (about oid) away) - 100"
    using missed_is_end [OF assms(1,2), of away] unfolding returned MAX_ORDERS_def BUFFER_SIZE_def by blast
  let ?missed = "missedSince oid (se_id e) returned"
  obtain xs where xs: "emitted returned = emitted s' @ xs" using publish_all_emitted returned by blast
  obtain ys where ys: "emitted later = emitted returned @ ys" using publish_all_emitted later by blast
  from lost(1) xs have "since_state oid s' returned = lost @ ?missed" by (simp add: since_state_def)
  with since_state_append [OF xs ys]
  have "lost @ ?missed @ since_state oid returned later = since_state oid s' later" by simp
  moreover have "stream_events toISO user oid (Some (dec (se_id e))) (d, returned) =
      Inr ((''retry: 1000'' @ [CHR 0x0A, CHR 0x0A]) # map (toSseBlock toISO) ?missed)"
    by (simp add: stream_answer assms(4) lastEventId_printed [OF assms(3)])
  moreover have "map (toSseBlock toISO) ?missed @
      stream_live toISO allowed oid (drop (length (emitted returned)) (emitted later)) =
    map (toSseBlock toISO) (?missed @ takeWhile allowed (since_state oid returned later))"
    by (simp add: stream_live_def since_state_def)
  ultimately show ?thesis using lost(2) by blast
qed

theorem stream_resumes_witness:
  "\<exists>missed. missed @ since_state ''7'' (publish_all [(2, ''8'', pending), (3, ''7'', cancelled)] (snd (publish 1 ''7'' paid empty_log)))
       (publish_all [(4, ''7'', pending)] (publish_all [(2, ''8'', pending), (3, ''7'', cancelled)] (snd (publish 1 ''7'' paid empty_log)))) =
     since_state ''7'' (snd (publish 1 ''7'' paid empty_log))
       (publish_all [(4, ''7'', pending)] (publish_all [(2, ''8'', pending), (3, ''7'', cancelled)] (snd (publish 1 ''7'' paid empty_log)))) \<and>
     stream_events demo_iso demo_buyer ''7'' (Some (dec 1)) (orders_db 5,
         publish_all [(2, ''8'', pending), (3, ''7'', cancelled)] (snd (publish 1 ''7'' paid empty_log))) =
       Inr ((''retry: 1000'' @ [CHR 0x0A, CHR 0x0A]) # map (toSseBlock demo_iso) missed)"
proof -
  let ?s = "snd (publish 1 ''7'' paid empty_log)"
  have pub: "publish 1 ''7'' paid empty_log = (\<lparr>se_id = 1, se_orderId = ''7'', se_status = paid, se_changedAt = 1\<rparr>, ?s)"
    by (simp add: publish_def Let_def next_event_def buffer_of_def empty_log_def last_id_def)
  have "order_access (au_id demo_buyer) ''7'' (orders_db 5) = Own_order"
    by (simp add: demo_buyer_def demo_access)
  from stream_resumes [OF empty_log_ok pub _ this refl refl, where away = "[(2, ''8'', pending), (3, ''7'', cancelled)]"
      and toISO = demo_iso and allowed = "\<lambda>_. True" and live = "[(4, ''7'', pending)]"]
  show ?thesis by (auto simp: about_def)
qed

text \<open>
  The OpenAPI document accepts a price of 0, which \<open>products_price_check\<close> refuses: the answer to a free
  product is 500.
\<close>

lemma free_product_is_500:
  "\<exists>e d'. create_product now \<lparr>pi_name = name, pi_description = t, pi_price = 0, pi_stock = 0\<rparr> d = (Inl e, d') \<and>
     pb_status (problem_filter url e) = 500"
  by (simp add: create_product_def andThen_def lift_def int4_param_def int4_max_def Let_def violation_def
      problem_filter_def sendProblem_def)

end
