(* ===== verification/Seed.thy ===== *)
theory Seed
  imports Products Auth Access Checkout_Ledger
begin

text \<open>
  The seed script \<open>src/seed.ts\<close>: users, products and orders inserted unless they exist, then balances,
  roles, passwords and stocks set to the seed's values. The lists of the script are arguments, with
  their dates as instants in milliseconds. The identity sequence of \<open>users\<close>, which nothing else draws
  from, is kept beside the tables.
\<close>

section \<open>The data\<close>

record UserSeed =
  us_email :: string
  us_phone :: string
  us_name :: string
  us_balance :: int
  us_role :: UserRole

type_synonym ProductSeed = CreateProductInput

record SeedItem =
  sl_product :: string
  sl_quantity :: int

record OrderSeed =
  sd_email :: string
  sd_status :: OrderStatus
  sd_createdAt :: int
  sd_items :: "SeedItem list"

definition SEED_PASSWORD :: string where
  "SEED_PASSWORD = ''marketplace-dev''"

record seed_db =
  sd_db :: db
  sd_userSeq :: nat

definition at_db :: "(db, 'a) action \<Rightarrow> (seed_db, 'a) action" where
  "at_db m s = (case m (sd_db s) of (r, d) \<Rightarrow> (r, s\<lparr>sd_db := d\<rparr>))"

section \<open>Insert or ignore\<close>

text \<open>
  What \<open>INSERT \<dots> ON CONFLICT DO NOTHING RETURNING id\<close> does with one row of a table: the new row, with
  its value of the identity sequence; the check it violates; whether a unique key is taken; the
  foreign key it misses; adding it. A value is drawn from the sequence in every case.
\<close>

record ('s, 'r) seed_table =
  tb_row :: "'s \<Rightarrow> 'r"
  tb_draw :: "'s \<Rightarrow> 's"
  tb_violated :: "'r \<Rightarrow> js_error option"
  tb_taken :: "'r \<Rightarrow> 's \<Rightarrow> bool"
  tb_dangling :: "'r \<Rightarrow> 's \<Rightarrow> js_error option"
  tb_add :: "'r \<Rightarrow> 's \<Rightarrow> 's"

definition insertIfMissing :: "('s, 'r) seed_table \<Rightarrow> ('s, 'r option) action" where
  "insertIfMissing t s =
     (let row = tb_row t s; s1 = tb_draw t s
      in case tb_violated t row of
           Some e \<Rightarrow> (Inl e, s1)
         | None \<Rightarrow>
             if tb_taken t row s then (Inr None, s1)
             else (case tb_dangling t row s of
                 Some e \<Rightarrow> (Inl e, s1)
               | None \<Rightarrow> (Inr (Some row), tb_add t row s1)))"

text \<open>\<open>find\<close> reads the row the \<open>where\<close> of \<open>findOneByOrFail\<close> selects.\<close>

definition ensure :: "('s, 'r option) action \<Rightarrow> ('s \<Rightarrow> 'r option) \<Rightarrow> ('s, 'r) action" where
  "ensure missing found =
     andThen missing (\<lambda>_ s. case found s of
       None \<Rightarrow> (Inl (Foreign ''EntityNotFoundError''), s)
     | Some row \<Rightarrow> (Inr row, s))"

definition pick :: "(string \<times> 'v) list \<Rightarrow> string \<Rightarrow> 'v result" where
  "pick m key = (case map_get key m of
      None \<Rightarrow> Inl (PlainError (''Seed data is inconsistent: \"'' @ key @ ''\" is not defined''))
    | Some v \<Rightarrow> Inr v)"

section \<open>The three tables\<close>

definition first_violation :: "(bool \<times> string) list \<Rightarrow> js_error option" where
  "first_violation cs = map_option (\<lambda>c. violation ''23514'' (snd c)) (find (\<lambda>c. \<not> fst c) cs)"

definition user_table :: "int \<Rightarrow> UserSeed \<Rightarrow> string option \<Rightarrow> (seed_db, User) seed_table" where
  "user_table now seed passwordHash =
     \<lparr>tb_row = (\<lambda>s. \<lparr>u_id = sd_userSeq s, u_email = us_email seed, u_phone = us_phone seed, u_name = us_name seed,
        u_balance = us_balance seed, u_passwordHash = passwordHash, u_role = us_role seed, u_createdAt = now\<rparr>),
      tb_draw = (\<lambda>s. s\<lparr>sd_userSeq := Suc (sd_userSeq s)\<rparr>),
      tb_violated = (\<lambda>u. first_violation
        [(0 \<le> u_balance u, ''users_balance_check''), (u_email u = toLowerCase (u_email u), ''users_email_lower_check''),
         (phone_ok (u_phone u), ''users_phone_check'')]),
      tb_taken = (\<lambda>u s. list_ex (\<lambda>v. u_id v = u_id u \<or> u_email v = u_email u \<or> u_phone v = u_phone u) (users (sd_db s))),
      tb_dangling = (\<lambda>u s. None),
      tb_add = (\<lambda>u s. s\<lparr>sd_db := (sd_db s)\<lparr>users := users (sd_db s) @ [u]\<rparr>\<rparr>)\<rparr>"

definition product_table :: "int \<Rightarrow> ProductSeed \<Rightarrow> (db, Product) seed_table" where
  "product_table now seed =
     \<lparr>tb_row = (\<lambda>d. \<lparr>p_id = sq_product (seqs d), p_name = pi_name seed, p_description = pi_description seed,
        p_price = pi_price seed, p_stock = pi_stock seed, p_createdAt = now\<rparr>),
      tb_draw = (\<lambda>d. d\<lparr>seqs := (seqs d)\<lparr>sq_product := Suc (sq_product (seqs d))\<rparr>\<rparr>),
      tb_violated = (\<lambda>p. first_violation
        [(0 < p_price p, ''products_price_check''), (0 \<le> p_stock p, ''products_stock_check'')]),
      tb_taken = (\<lambda>p d. list_ex (\<lambda>v. p_id v = p_id p \<or> p_name v = p_name p) (products d)),
      tb_dangling = (\<lambda>p d. None),
      tb_add = (\<lambda>p d. d\<lparr>products := products d @ [p]\<rparr>)\<rparr>"

text \<open>The order is inserted without an idempotency key, so only its id and its date can be taken.\<close>

definition order_table :: "nat \<Rightarrow> OrderStatus \<Rightarrow> int \<Rightarrow> int \<Rightarrow> (db, Order) seed_table" where
  "order_table userId status amount createdAt =
     \<lparr>tb_row = (\<lambda>d. \<lparr>o_id = sq_order (seqs d), o_userId = userId, o_status = status, o_total = amount,
        o_idempotencyKey = None, o_createdAt = createdAt\<rparr>),
      tb_draw = (\<lambda>d. d\<lparr>seqs := (seqs d)\<lparr>sq_order := Suc (sq_order (seqs d))\<rparr>\<rparr>),
      tb_violated = (\<lambda>r. first_violation [(0 \<le> o_total r, ''orders_total_check'')]),
      tb_taken = (\<lambda>r d. list_ex (\<lambda>v. o_id v = o_id r \<or> o_userId v = o_userId r \<and> o_createdAt v = o_createdAt r) (orders d)),
      tb_dangling = (\<lambda>r d. if list_ex (\<lambda>u. u_id u = o_userId r) (users d) then None
        else Some (violation ''23503'' ''FK_a922b820eeef29ac1c6800e826a'')),
      tb_add = (\<lambda>r d. d\<lparr>orders := orders d @ [r]\<rparr>)\<rparr>"

section \<open>Users\<close>

text \<open>\<open>UPDATE users SET \<dots> WHERE id = $1\<close> for the columns the seed resets.\<close>

definition set_user :: "nat \<Rightarrow> (User \<Rightarrow> User) \<Rightarrow> (seed_db, unit) action" where
  "set_user k f s = (Inr (), s\<lparr>sd_db := (sd_db s)\<lparr>users := update_where (\<lambda>u. u_id u = k) f (users (sd_db s))\<rparr>\<rparr>)"

definition reset_balance :: "nat \<Rightarrow> int \<Rightarrow> (seed_db, unit) action" where
  "reset_balance k balance =
     andThen (lift (int4_param balance)) (\<lambda>b s.
       if b < 0 \<and> list_ex (\<lambda>u. u_id u = k) (users (sd_db s)) then (Inl (violation ''23514'' ''users_balance_check''), s)
       else set_user k (\<lambda>u. u\<lparr>u_balance := b\<rparr>) s)"

definition find_by_email :: "string \<Rightarrow> seed_db \<Rightarrow> User option" where
  "find_by_email email s = select_one (\<lambda>u. u_email u = email) (users (sd_db s))"

definition password_works :: "scrypt_ops \<Rightarrow> User \<Rightarrow> bool" where
  "password_works sc u \<longleftrightarrow> truthy (u_passwordHash u) \<and> verifyPassword sc SEED_PASSWORD (the (u_passwordHash u))"

definition seed_user :: "scrypt_ops \<Rightarrow> (string \<Rightarrow> int) \<Rightarrow> string \<Rightarrow> UserSeed \<Rightarrow> (seed_db, User) action" where
  "seed_user sc clock passwordHash seed =
     andThen (lift (int4_param (us_balance seed))) (\<lambda>_.
     andThen (ensure (insertIfMissing (user_table (clock (us_email seed)) seed (Some passwordHash))) (find_by_email (us_email seed))) (\<lambda>user.
     andThen (if u_balance user \<noteq> us_balance seed then reset_balance (u_id user) (us_balance seed) else return ()) (\<lambda>_.
     andThen (if u_role user \<noteq> us_role seed then set_user (u_id user) (\<lambda>u. u\<lparr>u_role := us_role seed\<rparr>) else return ()) (\<lambda>_.
     andThen (if \<not> password_works sc user
       then set_user (u_id user) (\<lambda>u. u\<lparr>u_passwordHash := Some passwordHash\<rparr>) else return ()) (\<lambda>_.
     return (user\<lparr>u_balance := us_balance seed, u_role := us_role seed,
       u_passwordHash := (if password_works sc user then u_passwordHash user else Some passwordHash)\<rparr>))))))"

fun seed_users :: "scrypt_ops \<Rightarrow> (string \<Rightarrow> int) \<Rightarrow> string \<Rightarrow> UserSeed list \<Rightarrow> (string \<times> User) list \<Rightarrow> (seed_db, (string \<times> User) list) action" where
  "seed_users sc clock passwordHash [] usersByEmail = return usersByEmail"
| "seed_users sc clock passwordHash (seed # seeds) usersByEmail =
     andThen (seed_user sc clock passwordHash seed) (\<lambda>user.
       seed_users sc clock passwordHash seeds (map_set (us_email seed) user usersByEmail))"

section \<open>Products\<close>

definition reset_stock :: "nat \<Rightarrow> int \<Rightarrow> (db, unit) action" where
  "reset_stock k stock =
     andThen (lift (int4_param stock)) (\<lambda>q d.
       if q < 0 \<and> list_ex (\<lambda>p. p_id p = k) (products d) then (Inl (violation ''23514'' ''products_stock_check''), d)
       else (Inr (), d\<lparr>products := update_where (\<lambda>p. p_id p = k) (\<lambda>p. p\<lparr>p_stock := q\<rparr>) (products d)\<rparr>))"

definition find_by_name :: "string \<Rightarrow> db \<Rightarrow> Product option" where
  "find_by_name name d = select_one (\<lambda>p. p_name p = name) (products d)"

definition seed_product :: "(string \<Rightarrow> int) \<Rightarrow> ProductSeed \<Rightarrow> (db, Product) action" where
  "seed_product clock seed =
     andThen (lift (int4_param (pi_price seed))) (\<lambda>_.
     andThen (lift (int4_param (pi_stock seed))) (\<lambda>_.
     andThen (ensure (insertIfMissing (product_table (clock (pi_name seed)) seed)) (find_by_name (pi_name seed))) (\<lambda>product.
     andThen (if p_stock product \<noteq> pi_stock seed then reset_stock (p_id product) (pi_stock seed) else return ()) (\<lambda>_.
     return (product\<lparr>p_stock := pi_stock seed\<rparr>)))))"

fun seed_products :: "(string \<Rightarrow> int) \<Rightarrow> ProductSeed list \<Rightarrow> (string \<times> Product) list \<Rightarrow> (db, (string \<times> Product) list) action" where
  "seed_products clock [] productsByName = return productsByName"
| "seed_products clock (seed # seeds) productsByName =
     andThen (seed_product clock seed) (\<lambda>product.
       seed_products clock seeds (map_set (pi_name seed) product productsByName))"

section \<open>Orders\<close>

fun seed_lines :: "(string \<times> Product) list \<Rightarrow> SeedItem list \<Rightarrow> event_item list result" where
  "seed_lines productsByName [] = Inr []"
| "seed_lines productsByName (item # items) =
     (case pick productsByName (sl_product item) of
        Inl e \<Rightarrow> Inl e
      | Inr product \<Rightarrow>
          (case seed_lines productsByName items of
             Inl e \<Rightarrow> Inl e
           | Inr lines \<Rightarrow> Inr (\<lparr>ei_productId = dec (p_id product), ei_quantity = sl_quantity item,
               ei_unitPrice = p_price product\<rparr> # lines)))"

text \<open>The quantities are parameters of the one INSERT of the lines.\<close>

definition quantities_fit :: "event_item list \<Rightarrow> unit result" where
  "quantities_fit lines =
     (if list_all (\<lambda>l. - int4_max - 1 \<le> ei_quantity l \<and> ei_quantity l \<le> int4_max) lines then Inr () else Inl out_of_range)"

definition insert_seed_order :: "nat \<Rightarrow> OrderStatus \<Rightarrow> int \<Rightarrow> event_item list \<Rightarrow> (db, unit) action" where
  "insert_seed_order userId status createdAt lines =
     andThen (lift (int4_param (order_total lines))) (\<lambda>amount.
     andThen (insertIfMissing (order_table userId status amount createdAt)) (\<lambda>order.
     case order of
       None \<Rightarrow> return ()
     | Some r \<Rightarrow> andThen (lift (quantities_fit lines)) (\<lambda>_. insert_items (o_id r) lines)))"

definition seed_order :: "(string \<times> User) list \<Rightarrow> (string \<times> Product) list \<Rightarrow> OrderSeed \<Rightarrow> (db, unit) action" where
  "seed_order usersByEmail productsByName seed =
     andThen (lift (pick usersByEmail (sd_email seed))) (\<lambda>user.
     andThen (lift (seed_lines productsByName (sd_items seed))) (\<lambda>lines.
     transaction (insert_seed_order (u_id user) (sd_status seed) (sd_createdAt seed * 1000) lines)))"

fun seed_orders :: "(string \<times> User) list \<Rightarrow> (string \<times> Product) list \<Rightarrow> OrderSeed list \<Rightarrow> (db, unit) action" where
  "seed_orders usersByEmail productsByName [] = return ()"
| "seed_orders usersByEmail productsByName (seed # seeds) =
     andThen (seed_order usersByEmail productsByName seed) (\<lambda>_. seed_orders usersByEmail productsByName seeds)"

section \<open>The script\<close>

record seed_counts =
  sc_users :: nat
  sc_products :: nat
  sc_orders :: nat
  sc_orderItems :: nat

definition counts :: "db \<Rightarrow> seed_counts" where
  "counts d = \<lparr>sc_users = length (users d), sc_products = length (products d), sc_orders = length (orders d),
     sc_orderItems = length (orderItems d)\<rparr>"

text \<open>
  \<open>clock\<close> gives the time a row is inserted at, by its email or name; \<open>salt\<close> is what \<open>randomBytes\<close> draws for the hash of
  the seed's password.
\<close>

definition seed_main ::
  "scrypt_ops \<Rightarrow> (string \<Rightarrow> int) \<Rightarrow> string \<Rightarrow> UserSeed list \<Rightarrow> ProductSeed list \<Rightarrow> OrderSeed list \<Rightarrow> (seed_db, seed_counts) action" where
  "seed_main sc clock salt us ps os =
     andThen (seed_users sc clock (hashPassword sc salt SEED_PASSWORD) us []) (\<lambda>usersByEmail.
     andThen (at_db (seed_products clock ps [])) (\<lambda>productsByName.
     andThen (at_db (seed_orders usersByEmail productsByName os)) (\<lambda>_.
     at_db (\<lambda>d. (Inr (counts d), d)))))"

end
