(* ===== verification/Seed_Theorems.thy ===== *)
theory Seed_Theorems
  imports Seed Auth_Theorems
begin

text \<open>
  What seeding establishes, and that seeding again changes nothing but the identity sequences.
\<close>

section \<open>Parameters and maps\<close>

lemma int4_param_Inr [simp]: "int4_param i = Inr j \<longleftrightarrow> - int4_max - 1 \<le> i \<and> i \<le> int4_max \<and> j = i"
  by (auto simp: int4_param_def)

lemma Inr_int4_param [simp]: "Inr j = int4_param i \<longleftrightarrow> - int4_max - 1 \<le> i \<and> i \<le> int4_max \<and> j = i"
  by (auto simp: int4_param_def)

lemma first_violation_None [simp]: "first_violation cs = None \<longleftrightarrow> (\<forall>c \<in> set cs. fst c)"
  by (auto simp: first_violation_def find_None_iff)

lemma map_get_set [simp]: "map_get k (map_set j v m) = (if k = j then Some v else map_get k m)"
proof (cases "list_ex (\<lambda>e. fst e = j) m")
  case True
  have "find (\<lambda>e. fst e = k) (map (\<lambda>e. if fst e = j then (j, v) else e) m) =
      map_option (\<lambda>e. if fst e = j then (j, v) else e) (find (\<lambda>e. fst e = k) m)"
    by (induction m) auto
  then have get: "map_get k (map_set j v m) = map_option (\<lambda>e. if fst e = j then v else snd e) (find (\<lambda>e. fst e = k) m)"
    using True by (simp add: map_get_def map_set_def option.map_comp comp_def) (auto intro!: option.map_cong0)
  show ?thesis
  proof (cases "find (\<lambda>e. fst e = k) m")
    case None
    with True have "k \<noteq> j" by (auto simp: find_None_iff list_ex_iff)
    with None show ?thesis unfolding get by (simp add: map_get_def)
  next
    case (Some e)
    then have "fst e = k" by (auto simp: find_Some_iff)
    with Some show ?thesis unfolding get by (auto simp: map_get_def)
  qed
next
  case False
  then have "find (\<lambda>e. fst e = j) m = None" by (force simp: find_None_iff list_ex_iff)
  moreover have "find P (m @ [x]) = (case find P m of None \<Rightarrow> if P x then Some x else None | Some y \<Rightarrow> Some y)"
    for P and x :: "string \<times> 'a"
    by (induction m) auto
  ultimately show ?thesis using False by (auto simp: map_get_def map_set_def split: option.splits)
qed

lemma map_get_Nil [simp]: "map_get k [] = None"
  by (simp add: map_get_def)

definition same_map :: "(string \<times> 'v) list \<Rightarrow> (string \<times> 'v) list \<Rightarrow> bool" where
  "same_map m n \<longleftrightarrow> (\<forall>k. map_get k m = map_get k n)"

lemma pick_cong: "same_map m n \<Longrightarrow> pick m k = pick n k"
  by (simp add: same_map_def pick_def)

lemma seed_lines_cong: "same_map p q \<Longrightarrow> seed_lines p items = seed_lines q items"
  by (induction items) (simp_all add: pick_cong [of p q] cong: sum.case_cong)

lemma seed_orders_cong: "same_map u v \<Longrightarrow> same_map p q \<Longrightarrow> seed_orders u p os = seed_orders v q os"
  by (induction os) (simp_all add: seed_order_def pick_cong [of u v] seed_lines_cong [of p q])

section \<open>Replacing rows\<close>

lemma users_replaced_ok:
  assumes "db_ok d" and "\<forall>u \<in> set us. user_ok u"
    and "distinct (map u_id us)" and "distinct (map u_email us)" and "distinct (map u_phone us)"
    and "u_id ` set (users d) \<subseteq> u_id ` set us"
  shows "db_ok (d\<lparr>users := us\<rparr>)"
  using assms(1-5) subset_trans [OF _ assms(6)] by (simp add: db_ok_defs list_all_iff)

lemma products_replaced_ok:
  assumes "db_ok d" and "\<forall>p \<in> set ps. product_ok p"
    and "distinct (map p_id ps)" and "distinct (map p_name ps)"
    and "p_id ` set (products d) \<subseteq> p_id ` set ps" and "below (sq_product q) (map p_id ps)"
    and "q = (seqs d)\<lparr>sq_product := sq_product q\<rparr>"
  shows "db_ok (d\<lparr>products := ps, seqs := q\<rparr>)"
proof -
  have "sq_order q = sq_order (seqs d) \<and> sq_item q = sq_item (seqs d) \<and> sq_job q = sq_job (seqs d) \<and>
      sq_receipt q = sq_receipt (seqs d)"
    by (subst assms(7), simp)+
  with assms(1-4,6) subset_trans [OF _ assms(5)] show ?thesis by (simp add: db_ok_defs list_all_iff)
qed

lemma update_where_twice:
  "(\<And>r. P r \<Longrightarrow> P (f r)) \<Longrightarrow> update_where P g (update_where P f rows) = update_where P (g \<circ> f) rows"
  by (simp add: update_where_def)

lemma update_one_row:
  assumes "distinct (map key rows)" and "r \<in> set rows"
  shows "update_where (\<lambda>x. key x = key r) f rows = map (\<lambda>x. if x = r then f r else x) rows"
  unfolding update_where_def
  by (rule map_cong [OF refl]) (use assms in \<open>auto dest: distinct_key_eq\<close>)

lemma map_change_row: "g (f r) = g r \<Longrightarrow> map g (map (\<lambda>x. if x = r then f r else x) rows) = map g rows"
  by (simp add: comp_def if_distrib cong: if_cong)

section \<open>Seeding a user\<close>

definition seed_ok :: "seed_db \<Rightarrow> bool" where
  "seed_ok s \<longleftrightarrow> db_ok (sd_db s) \<and> below (sd_userSeq s) (map u_id (users (sd_db s)))"

definition user_seed_fits :: "UserSeed \<Rightarrow> bool" where
  "user_seed_fits seed \<longleftrightarrow> 0 \<le> us_balance seed \<and> us_balance seed \<le> int4_max \<and>
     us_email seed = toLowerCase (us_email seed) \<and> phone_ok (us_phone seed)"

definition reset_user :: "scrypt_ops \<Rightarrow> string \<Rightarrow> UserSeed \<Rightarrow> User \<Rightarrow> User" where
  "reset_user sc h seed u = u\<lparr>u_balance := us_balance seed, u_role := us_role seed,
     u_passwordHash := (if password_works sc u then u_passwordHash u else Some h)\<rparr>"

lemma reset_user_simps [simp]: "u_id (reset_user sc h seed u) = u_id u" "u_email (reset_user sc h seed u) = u_email u"
  "u_phone (reset_user sc h seed u) = u_phone u"
  by (simp_all add: reset_user_def)

lemma reset_user_ok: "user_ok u \<Longrightarrow> user_seed_fits seed \<Longrightarrow> user_ok (reset_user sc h seed u)"
  by (simp add: user_ok_def reset_user_def user_seed_fits_def)

lemma insert_user:
  assumes ok: "seed_ok s" and fits: "us_balance seed \<le> int4_max"
    and ins: "insertIfMissing (user_table now seed h) s = (Inr r, s1)"
  shows "user_seed_fits seed" and "seed_ok s1"
    and "users (sd_db s1) = users (sd_db s) \<or> users (sd_db s1) = users (sd_db s) @ [tb_row (user_table now seed h) s]"
    and "sd_db s1 = (sd_db s)\<lparr>users := users (sd_db s1)\<rparr>"
proof -
  let ?t = "user_table now seed h" and ?d = "sd_db s"
  let ?row = "tb_row ?t s"
  from ins show fit: "user_seed_fits seed"
    using fits by (auto simp: insertIfMissing_def Let_def user_table_def user_seed_fits_def split: option.splits)
  have taken_iff: "tb_taken ?t ?row s \<longleftrightarrow>
      (\<exists>v \<in> set (users ?d). u_id v = u_id ?row \<or> u_email v = u_email ?row \<or> u_phone v = u_phone ?row)"
    by (simp add: user_table_def list_ex_iff)
  have "seed_ok s1 \<and> (users (sd_db s1) = users ?d \<or> users (sd_db s1) = users ?d @ [?row]) \<and>
      sd_db s1 = ?d\<lparr>users := users (sd_db s1)\<rparr>"
  proof (cases "tb_taken ?t ?row s")
    case True
    then have "s1 = tb_draw ?t s" using ins by (auto simp: insertIfMissing_def Let_def split: option.splits)
    then show ?thesis using ok by (auto simp: user_table_def seed_ok_def intro: below_mono)
  next
    case False
    then have s1: "s1 = tb_add ?t ?row (tb_draw ?t s)"
      using ins by (auto simp: insertIfMissing_def Let_def user_table_def split: option.splits)
    then have us: "users (sd_db s1) = users ?d @ [?row]" by (simp add: user_table_def)
    have dist: "distinct (map u_email (users ?d @ [?row]))" "distinct (map u_phone (users ?d @ [?row]))"
      "distinct (map u_id (users ?d @ [?row]))"
      using False ok unfolding taken_iff by (auto simp: seed_ok_def db_ok_def keys_ok_def)
    have "user_ok ?row"
      using fit by (simp add: user_table_def user_ok_def user_seed_fits_def)
    then have "db_ok (?d\<lparr>users := users ?d @ [?row]\<rparr>)"
      using ok dist db_okD(7) [of ?d] by (intro users_replaced_ok) (auto simp: seed_ok_def)
    moreover have "sd_db s1 = ?d\<lparr>users := users ?d @ [?row]\<rparr>" "sd_userSeq s1 = Suc (u_id ?row)" "sd_userSeq s = u_id ?row"
      by (simp_all add: s1 user_table_def)
    ultimately show ?thesis using ok us by (simp add: seed_ok_def)
  qed
  then show "seed_ok s1" and "users (sd_db s1) = users ?d \<or> users (sd_db s1) = users ?d @ [?row]"
    and "sd_db s1 = ?d\<lparr>users := users (sd_db s1)\<rparr>" by blast+
qed

lemma ensure_user:
  assumes ok: "seed_ok s" and fits: "us_balance seed \<le> int4_max"
    and run: "ensure (insertIfMissing (user_table now seed h)) (find_by_email (us_email seed)) s = (Inr u, s1)"
  shows "user_seed_fits seed" and "seed_ok s1" and "u \<in> set (users (sd_db s1))" and "u_email u = us_email seed"
    and "users (sd_db s1) = users (sd_db s) \<or> users (sd_db s1) = users (sd_db s) @ [u]"
    and "sd_db s1 = (sd_db s)\<lparr>users := users (sd_db s1)\<rparr>"
proof -
  let ?row = "tb_row (user_table now seed h) s"
  from run obtain r where ins: "insertIfMissing (user_table now seed h) s = (Inr r, s1)"
    and found: "find_by_email (us_email seed) s1 = Some u"
    by (auto simp: ensure_def split: option.splits)
  note i = insert_user [OF ok fits ins]
  show "user_seed_fits seed" "seed_ok s1" by (rule i(1), rule i(2))
  show "sd_db s1 = (sd_db s)\<lparr>users := users (sd_db s1)\<rparr>" by (rule i(4))
  from found show u: "u \<in> set (users (sd_db s1))" "u_email u = us_email seed"
    by (auto simp: find_by_email_def dest: select_one_Some)
  have "u = ?row" if "users (sd_db s1) = users (sd_db s) @ [?row]"
  proof (rule distinct_key_eq [of u_email "users (sd_db s1)"])
    show "distinct (map u_email (users (sd_db s1)))" using i(2) by (simp add: seed_ok_def db_ok_def keys_ok_def)
    show "u_email u = u_email ?row" using u(2) by (simp add: user_table_def)
  qed (use u that in simp_all)
  with i(3) show "users (sd_db s1) = users (sd_db s) \<or> users (sd_db s1) = users (sd_db s) @ [u]" by metis
qed

definition with_users :: "(User \<Rightarrow> bool) \<Rightarrow> (User \<Rightarrow> User) \<Rightarrow> seed_db \<Rightarrow> seed_db" where
  "with_users P f s = s\<lparr>sd_db := (sd_db s)\<lparr>users := update_where P f (users (sd_db s))\<rparr>\<rparr>"

lemma update_where_id [simp]: "update_where P id rows = rows"
  by (simp add: update_where_def cong: if_cong)

lemma with_users_id [simp]: "with_users P id s = s"
  by (simp add: with_users_def)

lemma set_user_with: "set_user k f s = (Inr (), with_users (\<lambda>u. u_id u = k) f s)"
  by (simp add: set_user_def with_users_def)

lemma with_users_twice:
  "(\<And>r. P r \<Longrightarrow> P (f r)) \<Longrightarrow> with_users P g (with_users P f s) = with_users P (g \<circ> f) s"
  by (simp add: with_users_def update_where_twice)

lemma set_user_if: "(if b then set_user k f else return ()) s = (Inr (), with_users (\<lambda>u. u_id u = k) (if b then f else id) s)"
  by (simp add: set_user_with return_def)

lemma reset_balance_if:
  assumes "(if b then reset_balance k n else return ()) s = (Inr x, s')"
  shows "s' = with_users (\<lambda>u. u_id u = k) (if b then (\<lambda>u. u\<lparr>u_balance := n\<rparr>) else id) s"
  using assms by (auto simp: reset_balance_def set_user_with split: if_splits)

lemma seed_user_Inr:
  assumes ok: "seed_ok s" and run: "seed_user sc clock h seed s = (Inr u', s')"
  obtains u s1 where "ensure (insertIfMissing (user_table (clock (us_email seed)) seed (Some h))) (find_by_email (us_email seed)) s = (Inr u, s1)"
    and "us_balance seed \<le> int4_max" and "u' = reset_user sc h seed u"
    and "s' = s1\<lparr>sd_db := (sd_db s1)\<lparr>users := map (\<lambda>x. if x = u then reset_user sc h seed u else x) (users (sd_db s1))\<rparr>\<rparr>"
proof -
  from run obtain u s1 s2 s3 where fits: "us_balance seed \<le> int4_max"
    and ens: "ensure (insertIfMissing (user_table (clock (us_email seed)) seed (Some h))) (find_by_email (us_email seed)) s = (Inr u, s1)"
    and bal: "(if u_balance u \<noteq> us_balance seed then reset_balance (u_id u) (us_balance seed) else return ()) s1 = (Inr (), s2)"
    and role: "(if u_role u \<noteq> us_role seed then set_user (u_id u) (\<lambda>u. u\<lparr>u_role := us_role seed\<rparr>) else return ()) s2 = (Inr (), s3)"
    and pass: "(if \<not> password_works sc u then set_user (u_id u) (\<lambda>u. u\<lparr>u_passwordHash := Some h\<rparr>) else return ()) s3 = (Inr (), s')"
    and u': "u' = reset_user sc h seed u"
    unfolding seed_user_def reset_user_def by (auto simp del: if_split)
  let ?P = "\<lambda>x. u_id x = u_id u"
  let ?f = "if u_balance u \<noteq> us_balance seed then (\<lambda>u. u\<lparr>u_balance := us_balance seed\<rparr>) else id"
  let ?g = "if u_role u \<noteq> us_role seed then (\<lambda>u. u\<lparr>u_role := us_role seed\<rparr>) else id"
  let ?h = "if \<not> password_works sc u then (\<lambda>u. u\<lparr>u_passwordHash := Some h\<rparr>) else id"
  have "s2 = with_users ?P ?f s1" using reset_balance_if [OF bal] .
  with role pass have s': "s' = with_users ?P ?h (with_users ?P ?g (with_users ?P ?f s1))"
    by (simp add: set_user_if)
  have "s' = with_users ?P (?h \<circ> (?g \<circ> ?f)) s1"
    unfolding s' by (subst (2) with_users_twice, simp, subst with_users_twice, auto)
  moreover have "(?h \<circ> (?g \<circ> ?f)) u = reset_user sc h seed u" by (simp add: reset_user_def)
  moreover have "distinct (map u_id (users (sd_db s1)))" "u \<in> set (users (sd_db s1))"
    using ensure_user(2,3) [OF ok fits ens] db_okD(2) by (auto simp: seed_ok_def)
  ultimately have "s' = s1\<lparr>sd_db := (sd_db s1)\<lparr>users := map (\<lambda>x. if x = u then reset_user sc h seed u else x) (users (sd_db s1))\<rparr>\<rparr>"
    by (simp add: with_users_def update_one_row cong: if_cong)
  with ens fits u' show ?thesis by (rule that)
qed

text \<open>A user is seed_settled when it has the seed's balance and role and its password logs in.\<close>

definition seed_settled :: "scrypt_ops \<Rightarrow> UserSeed \<Rightarrow> User \<Rightarrow> bool" where
  "seed_settled sc seed u \<longleftrightarrow> u_email u = us_email seed \<and> u_balance u = us_balance seed \<and> u_role u = us_role seed \<and>
     password_works sc u"

definition hash_works :: "scrypt_ops \<Rightarrow> string \<Rightarrow> bool" where
  "hash_works sc h \<longleftrightarrow> h \<noteq> [] \<and> verifyPassword sc SEED_PASSWORD h"

lemma reset_user_settled: "hash_works sc h \<Longrightarrow> u_email u = us_email seed \<Longrightarrow> seed_settled sc seed (reset_user sc h seed u)"
  by (simp add: seed_settled_def reset_user_def hash_works_def password_works_def truthy_def)

lemma seed_user_effect:
  assumes ok: "seed_ok s" and hash: "hash_works sc h" and run: "seed_user sc clock h seed s = (Inr u', s')"
  shows "user_seed_fits seed" and "seed_ok s'" and "seed_settled sc seed u'" and "u' \<in> set (users (sd_db s'))"
    and "sd_db s' = (sd_db s)\<lparr>users := users (sd_db s')\<rparr>"
    and "v \<in> set (users (sd_db s)) \<Longrightarrow> u_email v \<noteq> us_email seed \<Longrightarrow> v \<in> set (users (sd_db s'))"
proof -
  obtain u s1 where ens: "ensure (insertIfMissing (user_table (clock (us_email seed)) seed (Some h))) (find_by_email (us_email seed)) s = (Inr u, s1)"
    and top: "us_balance seed \<le> int4_max" and u': "u' = reset_user sc h seed u"
    and s': "s' = s1\<lparr>sd_db := (sd_db s1)\<lparr>users := map (\<lambda>x. if x = u then reset_user sc h seed u else x) (users (sd_db s1))\<rparr>\<rparr>"
    using seed_user_Inr [OF ok run] by blast
  note e = ensure_user [OF ok top ens]
  show "user_seed_fits seed" by (rule e(1))
  have us: "users (sd_db s') = map (\<lambda>x. if x = u then reset_user sc h seed u else x) (users (sd_db s1))" by (simp add: s')
  have same: "map u_id (users (sd_db s')) = map u_id (users (sd_db s1))"
    "map u_email (users (sd_db s')) = map u_email (users (sd_db s1))"
    "map u_phone (users (sd_db s')) = map u_phone (users (sd_db s1))"
    unfolding us by (simp_all add: map_change_row)
  have ok1: "db_ok (sd_db s1)" using e(2) by (simp add: seed_ok_def)
  have rows: "user_ok x" if "x \<in> set (users (sd_db s'))" for x
    using that db_okD(7) [OF ok1] reset_user_ok [OF _ e(1)] e(3) unfolding us by auto
  have "db_ok ((sd_db s1)\<lparr>users := users (sd_db s')\<rparr>)"
  proof (rule users_replaced_ok [OF ok1])
    show "u_id ` set (users (sd_db s1)) \<subseteq> u_id ` set (users (sd_db s'))"
      using same(1) by (metis list.set_map order_refl)
  qed (use ok1 rows same in \<open>auto simp: db_ok_def keys_ok_def\<close>)
  then have "db_ok (sd_db s')" by (simp add: s')
  moreover have "below (sd_userSeq s') (map u_id (users (sd_db s')))"
    unfolding same(1) using e(2) by (simp add: seed_ok_def s')
  ultimately show "seed_ok s'" by (simp add: seed_ok_def)
  show "seed_settled sc seed u'" unfolding u' by (rule reset_user_settled [OF hash e(4)])
  show "u' \<in> set (users (sd_db s'))" using e(3) by (auto simp: u' us)
  show "sd_db s' = (sd_db s)\<lparr>users := users (sd_db s')\<rparr>" by (subst s', simp add: us, subst e(6), simp)
  show "v \<in> set (users (sd_db s'))" if "v \<in> set (users (sd_db s))" "u_email v \<noteq> us_email seed"
    using that e(4,5) unfolding us by auto
qed

lemma find_user:
  "seed_ok s \<Longrightarrow> u \<in> set (users (sd_db s)) \<Longrightarrow> find_by_email (u_email u) s = Some u"
  unfolding find_by_email_def
  by (rule select_one_unique [of u_email]) (simp_all add: seed_ok_def db_ok_def keys_ok_def)

text \<open>Seeding a seed_settled user again draws a value from the sequence and does nothing else.\<close>

lemma seed_user_again:
  assumes ok: "seed_ok s" and fits: "user_seed_fits seed" and u: "u \<in> set (users (sd_db s))" and seed_settled: "seed_settled sc seed u"
  shows "seed_user sc clock h seed s = (Inr u, s\<lparr>sd_userSeq := Suc (sd_userSeq s)\<rparr>)"
proof -
  have mail: "u_email u = us_email seed" using seed_settled by (simp add: seed_settled_def)
  let ?s = "s\<lparr>sd_userSeq := Suc (sd_userSeq s)\<rparr>" and ?t = "user_table (clock (us_email seed)) seed (Some h)"
  have "tb_taken ?t (tb_row ?t s) s" using u mail by (auto simp: user_table_def list_ex_iff)
  moreover have "tb_violated ?t (tb_row ?t s) = None" using fits by (simp add: user_table_def user_seed_fits_def)
  moreover have "tb_draw ?t s = ?s" by (simp add: user_table_def)
  ultimately have "insertIfMissing ?t s = (Inr None, ?s)" by (simp add: insertIfMissing_def Let_def)
  moreover have "find_by_email (us_email seed) ?s = Some u"
    using find_user [OF ok u] mail by (simp add: find_by_email_def)
  ultimately have ens: "ensure (insertIfMissing ?t) (find_by_email (us_email seed)) s = (Inr u, ?s)"
    by (simp add: ensure_def andThen_def)
  have fit4: "- int4_max - 1 \<le> us_balance seed" "us_balance seed \<le> int4_max"
    using fits by (simp_all add: user_seed_fits_def int4_max_def)
  have "u\<lparr>u_balance := us_balance seed, u_role := us_role seed, u_passwordHash := u_passwordHash u\<rparr> = u"
    using seed_settled by (cases u) (simp add: seed_settled_def)
  with ens fit4 seed_settled show ?thesis
    by (simp add: seed_user_def seed_settled_def)
qed

lemma settled_stays:
  assumes "seed_settled sc seed u" and "us_email seed \<notin> E"
    and "\<And>v. v \<in> set us \<Longrightarrow> u_email v \<notin> E \<Longrightarrow> v \<in> set us'" and "u \<in> set us"
  shows "u \<in> set us'"
  using assms by (simp add: seed_settled_def)

text \<open>After the loop over the users every seed has its seed_settled row, and the map holds it.\<close>

lemma seed_users_effect:
  assumes "hash_works sc h" and "distinct (map us_email seeds)" and "seed_ok s"
    and "seed_users sc clock h seeds m s = (Inr m', s')"
  shows "seed_ok s' \<and> sd_db s' = (sd_db s)\<lparr>users := users (sd_db s')\<rparr> \<and>
    (\<forall>seed \<in> set seeds. user_seed_fits seed \<and>
       (\<exists>u \<in> set (users (sd_db s')). seed_settled sc seed u \<and> map_get (us_email seed) m' = Some u)) \<and>
    (\<forall>e. e \<notin> us_email ` set seeds \<longrightarrow> map_get e m' = map_get e m) \<and>
    (\<forall>v \<in> set (users (sd_db s)). u_email v \<notin> us_email ` set seeds \<longrightarrow> v \<in> set (users (sd_db s')))"
  using assms(2-)
proof (induction seeds arbitrary: m s)
  case Nil
  then show ?case by simp
next
  case (Cons seed seeds)
  from Cons.prems(3) obtain u s1 where one: "seed_user sc clock h seed s = (Inr u, s1)"
    and rest: "seed_users sc clock h seeds (map_set (us_email seed) u m) s1 = (Inr m', s')" by auto
  note e = seed_user_effect [OF Cons.prems(2) assms(1) one]
  have new: "us_email seed \<notin> us_email ` set seeds" and dist: "distinct (map us_email seeds)"
    using Cons.prems(1) by auto
  note ih = Cons.IH [OF dist e(2) rest]
  have keep: "v \<in> set (users (sd_db s'))" if "v \<in> set (users (sd_db s1))" "u_email v \<notin> us_email ` set seeds" for v
    using ih that by blast
  have "u \<in> set (users (sd_db s'))" using e(3,4) new keep by (simp add: seed_settled_def)
  moreover have "map_get (us_email seed) m' = Some u" using ih new by simp
  moreover have "sd_db s' = (sd_db s)\<lparr>users := users (sd_db s')\<rparr>"
  proof -
    have "sd_db s' = (sd_db s1)\<lparr>users := users (sd_db s')\<rparr>" using ih by blast
    then show ?thesis by (subst (asm) e(5)) simp
  qed
  moreover have "v \<in> set (users (sd_db s'))" if "v \<in> set (users (sd_db s))" "u_email v \<notin> us_email ` set (seed # seeds)" for v
    using e(6) [OF that(1)] keep that(2) by simp
  ultimately show ?case using ih e(1,3) by simp
qed

lemma seed_users_again:
  assumes "\<forall>seed \<in> set seeds. user_seed_fits seed \<and> (\<exists>u \<in> set (users (sd_db s)). seed_settled sc seed u)"
    and "distinct (map us_email seeds)" and "seed_ok s"
  shows "\<exists>m'. seed_users sc clock h seeds m s = (Inr m', s\<lparr>sd_userSeq := sd_userSeq s + length seeds\<rparr>) \<and>
    (\<forall>seed \<in> set seeds. \<forall>u \<in> set (users (sd_db s)). u_email u = us_email seed \<longrightarrow> map_get (us_email seed) m' = Some u) \<and>
    (\<forall>e. e \<notin> us_email ` set seeds \<longrightarrow> map_get e m' = map_get e m)"
  using assms
proof (induction seeds arbitrary: m s)
  case Nil
  then show ?case by simp
next
  case (Cons seed seeds)
  let ?s = "s\<lparr>sd_userSeq := Suc (sd_userSeq s)\<rparr>"
  from Cons.prems(1) obtain u where fits: "user_seed_fits seed" and u: "u \<in> set (users (sd_db s))" "seed_settled sc seed u" by auto
  have one: "seed_user sc clock h seed s = (Inr u, ?s)" by (rule seed_user_again [OF Cons.prems(3) fits u])
  have "seed_ok ?s" using Cons.prems(3) by (auto simp: seed_ok_def intro: below_mono)
  then obtain m' where rest: "seed_users sc clock h seeds (map_set (us_email seed) u m) ?s =
      (Inr m', ?s\<lparr>sd_userSeq := sd_userSeq ?s + length seeds\<rparr>)"
    and in_m: "\<forall>seed \<in> set seeds. \<forall>u \<in> set (users (sd_db s)). u_email u = us_email seed \<longrightarrow> map_get (us_email seed) m' = Some u"
    and out_m: "\<forall>e. e \<notin> us_email ` set seeds \<longrightarrow> map_get e m' = map_get e (map_set (us_email seed) u m)"
    using Cons.IH [of ?s "map_set (us_email seed) u m"] Cons.prems(1,2) by auto
  have "us_email seed \<notin> us_email ` set seeds" using Cons.prems(2) by simp
  then have "map_get (us_email seed) m' = Some u" using out_m by simp
  moreover have "v = u" if "v \<in> set (users (sd_db s))" "u_email v = us_email seed" for v
    using distinct_key_eq [of u_email "users (sd_db s)" v u] that u Cons.prems(3)
    by (simp add: seed_settled_def seed_ok_def db_ok_def keys_ok_def)
  ultimately show ?case using one rest in_m out_m by (auto simp: andThen_def)
qed

section \<open>Seeding a product\<close>

definition product_seed_fits :: "ProductSeed \<Rightarrow> bool" where
  "product_seed_fits seed \<longleftrightarrow> 0 < pi_price seed \<and> pi_price seed \<le> int4_max \<and> 0 \<le> pi_stock seed \<and> pi_stock seed \<le> int4_max"

definition stocked :: "ProductSeed \<Rightarrow> Product \<Rightarrow> bool" where
  "stocked seed p \<longleftrightarrow> p_name p = pi_name seed \<and> p_stock p = pi_stock seed"

definition only_products :: "db \<Rightarrow> db \<Rightarrow> bool" where
  "only_products d d' \<longleftrightarrow> (\<exists>ps k. d' = d\<lparr>products := ps, seqs := (seqs d)\<lparr>sq_product := k\<rparr>\<rparr>)"

lemma only_products_refl: "only_products d d"
proof -
  have "d = d\<lparr>products := products d, seqs := (seqs d)\<lparr>sq_product := sq_product (seqs d)\<rparr>\<rparr>" by simp
  then show ?thesis unfolding only_products_def by blast
qed

lemma only_products_trans: "only_products d d1 \<Longrightarrow> only_products d1 d2 \<Longrightarrow> only_products d d2"
  unfolding only_products_def by clarsimp blast

lemma only_products_same: "only_products d d' \<Longrightarrow> users d' = users d \<and> orders d' = orders d \<and> orderItems d' = orderItems d"
  by (auto simp: only_products_def)

lemma ensure_product:
  assumes ok: "db_ok d" and fits: "pi_price seed \<le> int4_max" "pi_stock seed \<le> int4_max"
    and run: "ensure (insertIfMissing (product_table now seed)) (find_by_name (pi_name seed)) d = (Inr p, d1)"
  shows "product_seed_fits seed" and "db_ok d1" and "p \<in> set (products d1)" and "p_name p = pi_name seed"
    and "products d1 = products d \<or> products d1 = products d @ [p]" and "only_products d d1"
proof -
  let ?t = "product_table now seed"
  let ?row = "tb_row ?t d"
  from run obtain r where ins: "insertIfMissing ?t d = (Inr r, d1)" and found: "find_by_name (pi_name seed) d1 = Some p"
    by (auto simp: ensure_def split: option.splits)
  from ins show fit: "product_seed_fits seed"
    using fits by (auto simp: insertIfMissing_def Let_def product_table_def product_seed_fits_def split: option.splits)
  from found show p: "p \<in> set (products d1)" "p_name p = pi_name seed"
    by (auto simp: find_by_name_def dest: select_one_Some)
  have taken_iff: "tb_taken ?t ?row d \<longleftrightarrow> (\<exists>v \<in> set (products d). p_id v = p_id ?row \<or> p_name v = p_name ?row)"
    by (simp add: product_table_def list_ex_iff)
  have "db_ok d1 \<and> (products d1 = products d \<or> products d1 = products d @ [p]) \<and>
      d1 = d\<lparr>products := products d1, seqs := (seqs d)\<lparr>sq_product := Suc (sq_product (seqs d))\<rparr>\<rparr>"
  proof (cases "tb_taken ?t ?row d")
    case True
    then have d1: "d1 = tb_draw ?t d" using ins by (auto simp: insertIfMissing_def Let_def split: option.splits)
    then have "d1 = d\<lparr>products := products d, seqs := (seqs d)\<lparr>sq_product := Suc (sq_product (seqs d))\<rparr>\<rparr>"
      by (simp add: product_table_def)
    moreover have "db_ok (d\<lparr>products := products d, seqs := (seqs d)\<lparr>sq_product := Suc (sq_product (seqs d))\<rparr>\<rparr>)"
      using ok db_okD(6) [OF ok] by (intro products_replaced_ok) (auto simp: db_ok_defs intro: below_mono)
    ultimately show ?thesis by simp
  next
    case False
    then have d1: "d1 = tb_add ?t ?row (tb_draw ?t d)"
      using ins by (auto simp: insertIfMissing_def Let_def product_table_def split: option.splits)
    then have ps: "products d1 = products d @ [?row]" by (simp add: product_table_def)
    have dist: "distinct (map p_id (products d @ [?row]))" "distinct (map p_name (products d @ [?row]))"
      using False ok unfolding taken_iff by (auto simp: db_ok_def keys_ok_def)
    have "p_name ?row = pi_name seed" by (simp add: product_table_def)
    with p dist(2) ps have "p = ?row" using distinct_key_eq [OF dist(2), of p ?row] by simp
    moreover have eq: "d1 = d\<lparr>products := products d @ [?row], seqs := (seqs d)\<lparr>sq_product := Suc (sq_product (seqs d))\<rparr>\<rparr>"
      by (simp add: d1 product_table_def)
    moreover have "product_ok ?row" using fit by (simp add: product_table_def product_ok_def product_seed_fits_def)
    moreover have "p_id ?row = sq_product (seqs d)" by (simp add: product_table_def)
    moreover have "db_ok (d\<lparr>products := products d @ [?row], seqs := (seqs d)\<lparr>sq_product := Suc (sq_product (seqs d))\<rparr>\<rparr>)"
    proof (rule products_replaced_ok [OF ok _ dist])
      show "\<forall>p \<in> set (products d @ [?row]). product_ok p" using db_okD(6) [OF ok] calculation(3) by auto
      show "below (sq_product ((seqs d)\<lparr>sq_product := Suc (sq_product (seqs d))\<rparr>)) (map p_id (products d @ [?row]))"
        using ok calculation(4) by (simp add: db_ok_def sequences_ok_def)
    qed auto
    ultimately show ?thesis using ps by metis
  qed
  then show "db_ok d1" and "products d1 = products d \<or> products d1 = products d @ [p]" and "only_products d d1"
    unfolding only_products_def by blast+
qed

lemma reset_stock_if:
  assumes "(if b then reset_stock k n else return ()) d = (Inr x, d')"
  shows "d' = d\<lparr>products := update_where (\<lambda>p. p_id p = k) (if b then (\<lambda>p. p\<lparr>p_stock := n\<rparr>) else id) (products d)\<rparr>"
  using assms by (auto simp: reset_stock_def split: if_splits)

lemma seed_product_effect:
  assumes ok: "db_ok d" and run: "seed_product clock seed d = (Inr p', d')"
  shows "product_seed_fits seed" and "db_ok d'" and "stocked seed p'" and "p' \<in> set (products d')"
    and "only_products d d'"
    and "v \<in> set (products d) \<Longrightarrow> p_name v \<noteq> pi_name seed \<Longrightarrow> v \<in> set (products d')"
proof -
  from run obtain p d1 where fits: "pi_price seed \<le> int4_max" "pi_stock seed \<le> int4_max"
    and ens: "ensure (insertIfMissing (product_table (clock (pi_name seed)) seed)) (find_by_name (pi_name seed)) d = (Inr p, d1)"
    and stock: "(if p_stock p \<noteq> pi_stock seed then reset_stock (p_id p) (pi_stock seed) else return ()) d1 = (Inr (), d')"
    and p': "p' = p\<lparr>p_stock := pi_stock seed\<rparr>"
    unfolding seed_product_def by (auto simp del: if_split)
  note e = ensure_product [OF ok fits ens]
  show "product_seed_fits seed" by (rule e(1))
  let ?f = "\<lambda>q. q\<lparr>p_stock := pi_stock seed\<rparr>"
  have f: "(if p_stock p \<noteq> pi_stock seed then ?f else id) p = ?f p" by simp
  have d': "d' = d1\<lparr>products := map (\<lambda>x. if x = p then ?f p else x) (products d1)\<rparr>"
    using reset_stock_if [OF stock] update_one_row [of p_id "products d1" p] db_okD(1) [OF e(2)] e(3) f
    by (simp cong: if_cong)
  have same: "map p_id (products d') = map p_id (products d1)" "map p_name (products d') = map p_name (products d1)"
    unfolding d' by (simp_all add: map_change_row)
  have "db_ok (d1\<lparr>products := products d', seqs := seqs d1\<rparr>)"
  proof (rule products_replaced_ok [OF e(2)])
    show "\<forall>x \<in> set (products d'). product_ok x"
      using db_okD(6) [OF e(2)] e(1,3) by (auto simp: d' product_ok_def product_seed_fits_def)
    show "p_id ` set (products d1) \<subseteq> p_id ` set (products d')"
      using same(1) by (metis list.set_map order_refl)
  qed (use e(2) same in \<open>auto simp: db_ok_def keys_ok_def sequences_ok_def\<close>)
  moreover have "d' = d1\<lparr>products := products d', seqs := seqs d1\<rparr>" by (simp add: d')
  ultimately show "db_ok d'" by metis
  show "stocked seed p'" using e(4) by (simp add: p' stocked_def)
  show "p' \<in> set (products d')" using e(3) by (auto simp: p' d')
  have "only_products d1 d'" unfolding only_products_def
    by (rule exI [of _ "products d'"], rule exI [of _ "sq_product (seqs d1)"]) (simp add: d')
  with e(6) show "only_products d d'" by (rule only_products_trans)
  show "v \<in> set (products d')" if "v \<in> set (products d)" "p_name v \<noteq> pi_name seed"
    using that e(4,5) by (auto simp: d')
qed

lemma seed_product_again:
  assumes ok: "db_ok d" and fits: "product_seed_fits seed" and p: "p \<in> set (products d)" and stocked: "stocked seed p"
  shows "seed_product clock seed d = (Inr p, d\<lparr>seqs := (seqs d)\<lparr>sq_product := Suc (sq_product (seqs d))\<rparr>\<rparr>)"
proof -
  have name: "p_name p = pi_name seed" using stocked by (simp add: stocked_def)
  let ?d = "d\<lparr>seqs := (seqs d)\<lparr>sq_product := Suc (sq_product (seqs d))\<rparr>\<rparr>" and ?t = "product_table (clock (pi_name seed)) seed"
  have "tb_taken ?t (tb_row ?t d) d" using p name by (auto simp: product_table_def list_ex_iff)
  moreover have "tb_violated ?t (tb_row ?t d) = None" using fits by (simp add: product_table_def product_seed_fits_def)
  moreover have "tb_draw ?t d = ?d" by (simp add: product_table_def)
  ultimately have "insertIfMissing ?t d = (Inr None, ?d)" by (simp add: insertIfMissing_def Let_def)
  moreover have "find_by_name (pi_name seed) ?d = Some p"
    using select_one_unique [of p_name "products d" p "\<lambda>q. p_name q = pi_name seed"] ok p name
    by (simp add: find_by_name_def db_ok_def keys_ok_def)
  ultimately have "ensure (insertIfMissing ?t) (find_by_name (pi_name seed)) d = (Inr p, ?d)"
    by (simp add: ensure_def andThen_def)
  moreover have "p\<lparr>p_stock := pi_stock seed\<rparr> = p" using stocked by (cases p) (simp add: stocked_def)
  ultimately show ?thesis
    using fits stocked by (simp add: seed_product_def product_seed_fits_def stocked_def int4_max_def)
qed

lemma seed_products_effect:
  assumes "distinct (map pi_name seeds)" and "db_ok d" and "seed_products clock seeds m d = (Inr m', d')"
  shows "db_ok d' \<and> only_products d d' \<and>
    (\<forall>seed \<in> set seeds. product_seed_fits seed \<and>
       (\<exists>p \<in> set (products d'). stocked seed p \<and> map_get (pi_name seed) m' = Some p)) \<and>
    (\<forall>k. k \<notin> pi_name ` set seeds \<longrightarrow> map_get k m' = map_get k m) \<and>
    (\<forall>v \<in> set (products d). p_name v \<notin> pi_name ` set seeds \<longrightarrow> v \<in> set (products d'))"
  using assms
proof (induction seeds arbitrary: m d)
  case Nil
  then show ?case using only_products_refl by simp
next
  case (Cons seed seeds)
  from Cons.prems(3) obtain p d1 where one: "seed_product clock seed d = (Inr p, d1)"
    and rest: "seed_products clock seeds (map_set (pi_name seed) p m) d1 = (Inr m', d')" by auto
  note e = seed_product_effect [OF Cons.prems(2) one]
  have new: "pi_name seed \<notin> pi_name ` set seeds" and dist: "distinct (map pi_name seeds)"
    using Cons.prems(1) by auto
  note ih = Cons.IH [OF dist e(2) rest]
  have keep: "v \<in> set (products d')" if "v \<in> set (products d1)" "p_name v \<notin> pi_name ` set seeds" for v
    using ih that by blast
  have "p \<in> set (products d')" using e(3,4) new keep by (simp add: stocked_def)
  moreover have "map_get (pi_name seed) m' = Some p" using ih new by simp
  moreover have "only_products d d'" using ih e(5) only_products_trans by blast
  moreover have "v \<in> set (products d')" if "v \<in> set (products d)" "p_name v \<notin> pi_name ` set (seed # seeds)" for v
    using e(6) [OF that(1)] keep that(2) by simp
  ultimately show ?case using ih e(1,3) by simp
qed

lemma seed_products_again:
  assumes "\<forall>seed \<in> set seeds. product_seed_fits seed \<and> (\<exists>p \<in> set (products d). stocked seed p)"
    and "distinct (map pi_name seeds)" and "db_ok d"
  shows "\<exists>m'. seed_products clock seeds m d =
      (Inr m', d\<lparr>seqs := (seqs d)\<lparr>sq_product := sq_product (seqs d) + length seeds\<rparr>\<rparr>) \<and>
    (\<forall>seed \<in> set seeds. \<forall>p \<in> set (products d). p_name p = pi_name seed \<longrightarrow> map_get (pi_name seed) m' = Some p) \<and>
    (\<forall>k. k \<notin> pi_name ` set seeds \<longrightarrow> map_get k m' = map_get k m)"
  using assms
proof (induction seeds arbitrary: m d)
  case Nil
  then show ?case by simp
next
  case (Cons seed seeds)
  let ?d = "d\<lparr>seqs := (seqs d)\<lparr>sq_product := Suc (sq_product (seqs d))\<rparr>\<rparr>"
  from Cons.prems(1) obtain p where fits: "product_seed_fits seed" and p: "p \<in> set (products d)" "stocked seed p" by auto
  have one: "seed_product clock seed d = (Inr p, ?d)" by (rule seed_product_again [OF Cons.prems(3) fits p])
  have "db_ok ?d" using seed_product_effect(2) [OF Cons.prems(3) one] .
  then obtain m' where rest: "seed_products clock seeds (map_set (pi_name seed) p m) ?d =
      (Inr m', ?d\<lparr>seqs := (seqs ?d)\<lparr>sq_product := sq_product (seqs ?d) + length seeds\<rparr>\<rparr>)"
    and in_m: "\<forall>seed \<in> set seeds. \<forall>p \<in> set (products d). p_name p = pi_name seed \<longrightarrow> map_get (pi_name seed) m' = Some p"
    and out_m: "\<forall>k. k \<notin> pi_name ` set seeds \<longrightarrow> map_get k m' = map_get k (map_set (pi_name seed) p m)"
    using Cons.IH [of ?d "map_set (pi_name seed) p m"] Cons.prems(1,2) by auto
  have "pi_name seed \<notin> pi_name ` set seeds" using Cons.prems(2) by simp
  then have "map_get (pi_name seed) m' = Some p" using out_m by simp
  moreover have "v = p" if "v \<in> set (products d)" "p_name v = pi_name seed" for v
    using distinct_key_eq [of p_name "products d" v p] that p Cons.prems(3)
    by (simp add: stocked_def db_ok_def keys_ok_def)
  ultimately show ?case using one rest in_m out_m by (auto simp: andThen_def)
qed

section \<open>Seeding an order\<close>

lemma insert_items_effect:
  assumes "insert_items oid ls d = (Inr x, d')"
  shows "d' = d\<lparr>orderItems := orderItems d @ item_rows (sq_item (seqs d)) oid ls,
       seqs := (seqs d)\<lparr>sq_item := sq_item (seqs d) + length ls\<rparr>\<rparr> \<and>
    (\<forall>i \<in> set (item_rows (sq_item (seqs d)) oid ls). 0 < i_quantity i \<and> 0 < i_unitPrice i \<and>
       i_productId i \<in> p_id ` set (products d))"
  using assms by (auto simp: insert_items_def Let_def list_ex_iff not_le split: if_splits)

text \<open>A new order with its lines keeps the constraints and the totals.\<close>

definition with_order :: "Order \<Rightarrow> event_item list \<Rightarrow> db \<Rightarrow> db" where
  "with_order r ls d = d\<lparr>orders := orders d @ [r],
     orderItems := orderItems d @ item_rows (sq_item (seqs d)) (o_id r) ls,
     seqs := (seqs d)\<lparr>sq_order := Suc (sq_order (seqs d)), sq_item := sq_item (seqs d) + length ls\<rparr>\<rparr>"

lemma with_order_ok:
  assumes ok: "db_ok d" and r: "o_id r = sq_order (seqs d)" "order_ok r" "o_userId r \<in> u_id ` set (users d)"
    and free: "o_idempotencyKey r = None" "\<forall>x \<in> set (orders d). o_userId x = o_userId r \<longrightarrow> o_createdAt x \<noteq> o_createdAt r"
    and items: "\<forall>i \<in> set (item_rows (sq_item (seqs d)) (o_id r) ls). item_ok i \<and> i_productId i \<in> p_id ` set (products d)"
  shows "db_ok (with_order r ls d)"
proof -
  have ck: "checks_ok d" and ky: "keys_ok d" and fk: "foreign_keys_ok d" and sq: "sequences_ok d"
    using ok by (simp_all add: db_ok_def)
  have own: "i_orderId i = o_id r" if "i \<in> set (item_rows (sq_item (seqs d)) (o_id r) ls)" for i
    using item_rows_set [OF that] by auto
  have "checks_ok (with_order r ls d)"
    using ck r(2) items by (auto simp: checks_ok_def with_order_def list_all_iff)
  moreover have "keys_ok (with_order r ls d)"
  proof -
    have "idempotency_unique (orders d @ [r])"
      using ky free(1) by (intro idempotency_unique_snoc) (auto simp: keys_ok_def)
    moreover have "distinct (map (\<lambda>r. (o_userId r, o_createdAt r)) (orders d @ [r]))"
      using ky free(2) by (auto simp: keys_ok_def)
    moreover have "distinct (map o_id (orders d @ [r]))"
      using ky sq r(1) by (auto simp: keys_ok_def sequences_ok_def below_def)
    moreover have "distinct (map i_id (orderItems d @ item_rows (sq_item (seqs d)) (o_id r) ls))"
      using ky sq by (auto simp: keys_ok_def sequences_ok_def item_rows_ids below_def)
    ultimately show ?thesis using ky by (simp add: keys_ok_def with_order_def)
  qed
  moreover have "foreign_keys_ok (with_order r ls d)"
    using fk r(3) items own by (auto simp: foreign_keys_ok_def with_order_def)
  moreover have "sequences_ok (with_order r ls d)"
    using sq r(1) by (auto simp: sequences_ok_def with_order_def item_rows_ids below_def)
  ultimately show ?thesis by (simp add: db_ok_def)
qed

lemma with_order_totals:
  assumes ok: "db_ok d" and "totals_ok d" and "o_id r = sq_order (seqs d)" and "o_total r = order_total ls"
  shows "totals_ok (with_order r ls d)"
proof -
  have old: "o_id x < sq_order (seqs d)" if "x \<in> set (orders d)" for x
    using that ok by (auto simp: db_ok_def sequences_ok_def below_def)
  have "i_orderId i \<in> o_id ` set (orders d)" if "i \<in> set (orderItems d)" for i
    using that ok by (auto simp: db_ok_def foreign_keys_ok_def)
  then have "i_orderId i \<noteq> o_id r" if "i \<in> set (orderItems d)" for i
    using that old assms(3) by fastforce
  then have "items_of (with_order r ls d) (o_id r) = item_rows (sq_item (seqs d)) (o_id r) ls"
    by (simp add: items_of_def with_order_def filter_empty_conv)
  moreover have "items_of (with_order r ls d) (o_id x) = items_of d (o_id x)" if "x \<in> set (orders d)" for x
    using old [OF that] assms(3) by (simp add: items_of_def with_order_def filter_item_rows_other)
  ultimately show ?thesis using assms(2,4) by (auto simp: totals_ok_def with_order_def)
qed

lemma insert_seed_order_cases:
  assumes "insert_seed_order k st t ls d = (Inr x, d')"
  obtains (old) "\<exists>r \<in> set (orders d). o_id r = sq_order (seqs d) \<or> o_userId r = k \<and> o_createdAt r = t"
      and "0 \<le> order_total ls" and "order_total ls \<le> int4_max"
      and "d' = d\<lparr>seqs := (seqs d)\<lparr>sq_order := Suc (sq_order (seqs d))\<rparr>\<rparr>"
  | (new) r where "r = \<lparr>o_id = sq_order (seqs d), o_userId = k, o_status = st, o_total = order_total ls,
        o_idempotencyKey = None, o_createdAt = t\<rparr>"
      and "order_ok r" and "k \<in> u_id ` set (users d)"
      and "\<forall>x \<in> set (orders d). o_userId x = o_userId r \<longrightarrow> o_createdAt x \<noteq> o_createdAt r"
      and "d' = with_order r ls d"
      and "\<forall>i \<in> set (item_rows (sq_item (seqs d)) (o_id r) ls). 0 < i_quantity i \<and> 0 < i_unitPrice i \<and>
        i_quantity i \<le> int4_max \<and> i_productId i \<in> p_id ` set (products d)"
proof -
  let ?t = "order_table k st (order_total ls) t"
  let ?row = "tb_row ?t d"
  from assms obtain found d1 where fit: "order_total ls \<le> int4_max" and ins: "insertIfMissing ?t d = (Inr found, d1)"
    and rest: "(case found of None \<Rightarrow> return ()
      | Some r \<Rightarrow> andThen (lift (quantities_fit ls)) (\<lambda>_. insert_items (o_id r) ls)) d1 = (Inr x, d')"
    unfolding insert_seed_order_def by auto
  have pos: "0 \<le> order_total ls"
    using ins by (auto simp: insertIfMissing_def Let_def order_table_def split: option.splits)
  show thesis
  proof (cases "tb_taken ?t ?row d")
    case True
    then have "found = None" "d1 = tb_draw ?t d"
      using ins by (auto simp: insertIfMissing_def Let_def split: option.splits)
    moreover have "\<exists>r \<in> set (orders d). o_id r = sq_order (seqs d) \<or> o_userId r = k \<and> o_createdAt r = t"
      using True by (auto simp: order_table_def list_ex_iff)
    ultimately show thesis using rest pos fit by (intro old) (simp_all add: order_table_def)
  next
    case False
    then have found: "found = Some ?row" and d1: "d1 = d\<lparr>orders := orders d @ [?row], seqs := (seqs d)\<lparr>sq_order := Suc (sq_order (seqs d))\<rparr>\<rparr>"
      and user: "k \<in> u_id ` set (users d)"
      using ins by (auto simp: insertIfMissing_def Let_def order_table_def split: option.splits if_splits)
    from rest found have fits: "quantities_fit ls = Inr ()" and items: "insert_items (o_id ?row) ls d1 = (Inr x, d')" by auto
    note e = insert_items_effect [OF items]
    have "d' = with_order ?row ls d" using e by (simp add: d1 with_order_def)
    moreover have "\<forall>i \<in> set (item_rows (sq_item (seqs d)) (o_id ?row) ls). 0 < i_quantity i \<and> 0 < i_unitPrice i \<and>
        i_quantity i \<le> int4_max \<and> i_productId i \<in> p_id ` set (products d)"
    proof
      fix i assume i: "i \<in> set (item_rows (sq_item (seqs d)) (o_id ?row) ls)"
      then obtain l where "l \<in> set ls" "i_quantity i = ei_quantity l" using item_rows_set by blast
      moreover have "\<forall>l \<in> set ls. ei_quantity l \<le> int4_max"
        using fits by (auto simp: quantities_fit_def list_all_iff split: if_splits)
      moreover have "0 < i_quantity i \<and> 0 < i_unitPrice i \<and> i_productId i \<in> p_id ` set (products d)"
        using e i by (simp add: d1)
      ultimately show "0 < i_quantity i \<and> 0 < i_unitPrice i \<and> i_quantity i \<le> int4_max \<and> i_productId i \<in> p_id ` set (products d)"
        by simp
    qed
    moreover have "order_ok ?row" using pos fit by (simp add: order_ok_def order_table_def)
    moreover have "\<forall>x \<in> set (orders d). o_userId x = o_userId ?row \<longrightarrow> o_createdAt x \<noteq> o_createdAt ?row"
      using False by (auto simp: order_table_def list_ex_iff)
    ultimately show thesis using user by (intro new [of ?row]) (simp_all add: order_table_def)
  qed
qed

definition has_order :: "nat \<Rightarrow> int \<Rightarrow> db \<Rightarrow> bool" where
  "has_order k t d \<longleftrightarrow> (\<exists>r \<in> set (orders d). o_userId r = k \<and> o_createdAt r = t)"

text \<open>What every step of the loop over the orders keeps.\<close>

definition orders_grow :: "db \<Rightarrow> db \<Rightarrow> bool" where
  "orders_grow d d' \<longleftrightarrow> users d' = users d \<and> products d' = products d \<and> set (orders d) \<subseteq> set (orders d') \<and>
     db_ok d' \<and> (totals_ok d \<longrightarrow> totals_ok d')"

lemma has_order_grow: "has_order k t d \<Longrightarrow> orders_grow d d' \<Longrightarrow> has_order k t d'"
  by (auto simp: has_order_def orders_grow_def)

lemma orders_grow_trans: "orders_grow d d1 \<Longrightarrow> orders_grow d1 d2 \<Longrightarrow> orders_grow d d2"
  by (auto simp: orders_grow_def)

lemma seqs_order_ok: "db_ok d \<Longrightarrow> db_ok (d\<lparr>seqs := (seqs d)\<lparr>sq_order := Suc (sq_order (seqs d))\<rparr>\<rparr>)"
  by (auto simp: db_ok_defs intro: below_mono)

lemma insert_seed_order_effect:
  assumes ok: "db_ok d" and prices: "\<forall>l \<in> set ls. ei_unitPrice l \<le> int4_max"
    and run: "insert_seed_order k st t ls d = (Inr x, d')"
  shows "orders_grow d d' \<and> has_order k t d' \<and> 0 \<le> order_total ls \<and> order_total ls \<le> int4_max"
  using run
proof (cases rule: insert_seed_order_cases)
  case old
  have "o_id r \<noteq> sq_order (seqs d)" if "r \<in> set (orders d)" for r
    using that ok by (auto simp: db_ok_def sequences_ok_def below_def)
  with old(1) have "has_order k t d" by (auto simp: has_order_def)
  with old seqs_order_ok [OF ok] show ?thesis
    by (simp add: orders_grow_def has_order_def totals_ok_def items_of_def)
next
  case (new r)
  have items: "\<forall>i \<in> set (item_rows (sq_item (seqs d)) (o_id r) ls). item_ok i \<and> i_productId i \<in> p_id ` set (products d)"
  proof
    fix i assume i: "i \<in> set (item_rows (sq_item (seqs d)) (o_id r) ls)"
    with prices have "i_unitPrice i \<le> int4_max" using item_rows_set [OF i] by auto
    with new(6) i show "item_ok i \<and> i_productId i \<in> p_id ` set (products d)" by (simp add: item_ok_def)
  qed
  have "db_ok d'" unfolding new(5) by (rule with_order_ok [OF ok _ new(2) _ _ new(4) items]) (use new(1,3) in simp_all)
  moreover have "totals_ok d \<longrightarrow> totals_ok d'"
    using with_order_totals [OF ok] new(1) by (simp add: new(5))
  ultimately show ?thesis
    using new(1,2) by (auto simp: orders_grow_def has_order_def with_order_def order_ok_def new(5))
qed

lemma insert_seed_order_again:
  assumes "has_order k t d" and "0 \<le> order_total ls" and "order_total ls \<le> int4_max"
  shows "insert_seed_order k st t ls d = (Inr (), d\<lparr>seqs := (seqs d)\<lparr>sq_order := Suc (sq_order (seqs d))\<rparr>\<rparr>)"
proof -
  let ?t = "order_table k st (order_total ls) t"
  have "tb_taken ?t (tb_row ?t d) d" using assms(1) by (auto simp: order_table_def list_ex_iff has_order_def)
  moreover have "tb_violated ?t (tb_row ?t d) = None" using assms(2) by (simp add: order_table_def)
  ultimately have "insertIfMissing ?t d = (Inr None, tb_draw ?t d)" by (simp add: insertIfMissing_def Let_def)
  then show ?thesis using assms(2,3) by (simp add: insert_seed_order_def int4_max_def) (simp add: order_table_def)
qed

definition from_table :: "(string \<times> Product) list \<Rightarrow> db \<Rightarrow> bool" where
  "from_table pm d \<longleftrightarrow> (\<forall>k p. map_get k pm = Some p \<longrightarrow> p \<in> set (products d))"

lemma seed_lines_prices:
  assumes "seed_lines pm items = Inr ls" and "from_table pm d" and "db_ok d"
  shows "\<forall>l \<in> set ls. ei_unitPrice l \<le> int4_max"
  using assms(1)
proof (induction items arbitrary: ls)
  case Nil
  then show ?case by simp
next
  case (Cons item items)
  then obtain p ls1 where p: "map_get (sl_product item) pm = Some p" and rest: "seed_lines pm items = Inr ls1"
    and ls: "ls = \<lparr>ei_productId = dec (p_id p), ei_quantity = sl_quantity item, ei_unitPrice = p_price p\<rparr> # ls1"
    by (auto simp: pick_def split: sum.splits option.splits)
  have "product_ok p" using db_okD(6) [OF assms(3)] assms(2) p by (auto simp: from_table_def)
  with Cons.IH [OF rest] ls show ?case by (simp add: product_ok_def)
qed

text \<open>What is left of a seed's order once it is in place: its order exists and its lines can be priced.\<close>

definition placed_seed :: "(string \<times> User) list \<Rightarrow> (string \<times> Product) list \<Rightarrow> OrderSeed \<Rightarrow> db \<Rightarrow> bool" where
  "placed_seed um pm seed d \<longleftrightarrow> (\<exists>u ls. map_get (sd_email seed) um = Some u \<and> seed_lines pm (sd_items seed) = Inr ls \<and>
     0 \<le> order_total ls \<and> order_total ls \<le> int4_max \<and> has_order (u_id u) (sd_createdAt seed * 1000) d)"

lemma seed_order_effect:
  assumes ok: "db_ok d" and tab: "from_table pm d" and run: "seed_order um pm seed d = (Inr x, d')"
  shows "orders_grow d d' \<and> placed_seed um pm seed d'"
proof -
  from run obtain u ls where u: "map_get (sd_email seed) um = Some u" and ls: "seed_lines pm (sd_items seed) = Inr ls"
    and ins: "insert_seed_order (u_id u) (sd_status seed) (sd_createdAt seed * 1000) ls d = (Inr x, d')"
    by (auto simp: seed_order_def pick_def transaction_Inr eq_commute [of _ "seed_lines pm (sd_items seed)"]
        split: option.splits)
  from insert_seed_order_effect [OF ok seed_lines_prices [OF ls tab ok] ins] u ls show ?thesis
    by (auto simp: placed_seed_def)
qed

lemma seed_order_again:
  assumes "placed_seed um pm seed d"
  shows "seed_order um pm seed d = (Inr (), d\<lparr>seqs := (seqs d)\<lparr>sq_order := Suc (sq_order (seqs d))\<rparr>\<rparr>)"
proof -
  from assms obtain u ls where "map_get (sd_email seed) um = Some u" "seed_lines pm (sd_items seed) = Inr ls"
    and "0 \<le> order_total ls" "order_total ls \<le> int4_max" "has_order (u_id u) (sd_createdAt seed * 1000) d"
    by (auto simp: placed_seed_def)
  with insert_seed_order_again show ?thesis
    by (simp add: seed_order_def pick_def transaction_Inr)
qed

lemma placed_seed_grow: "placed_seed um pm seed d \<Longrightarrow> orders_grow d d' \<Longrightarrow> placed_seed um pm seed d'"
  using has_order_grow by (fastforce simp: placed_seed_def)

lemma seed_orders_effect:
  assumes "db_ok d" and "from_table pm d" and "seed_orders um pm seeds d = (Inr x, d')"
  shows "orders_grow d d' \<and> (\<forall>seed \<in> set seeds. placed_seed um pm seed d')"
  using assms
proof (induction seeds arbitrary: d)
  case Nil
  then show ?case by (simp add: orders_grow_def)
next
  case (Cons seed seeds)
  from Cons.prems(3) obtain d1 where one: "seed_order um pm seed d = (Inr (), d1)"
    and rest: "seed_orders um pm seeds d1 = (Inr x, d')" by auto
  note e = seed_order_effect [OF Cons.prems(1,2) one]
  have "from_table pm d1" "db_ok d1" using e Cons.prems(2) by (simp_all add: orders_grow_def from_table_def)
  with Cons.IH rest have "orders_grow d1 d' \<and> (\<forall>seed \<in> set seeds. placed_seed um pm seed d')" by blast
  with e show ?case using orders_grow_trans placed_seed_grow by (metis set_ConsD)
qed

lemma seed_orders_again:
  assumes "\<forall>seed \<in> set seeds. placed_seed um pm seed d"
  shows "seed_orders um pm seeds d = (Inr (), d\<lparr>seqs := (seqs d)\<lparr>sq_order := sq_order (seqs d) + length seeds\<rparr>\<rparr>)"
  using assms
proof (induction seeds arbitrary: d)
  case Nil
  then show ?case by simp
next
  case (Cons seed seeds)
  let ?d = "d\<lparr>seqs := (seqs d)\<lparr>sq_order := Suc (sq_order (seqs d))\<rparr>\<rparr>"
  have "\<forall>seed \<in> set seeds. placed_seed um pm seed ?d"
    using Cons.prems by (simp add: placed_seed_def has_order_def)
  from Cons.IH [OF this] seed_order_again [of um pm seed d] Cons.prems show ?case by (simp add: andThen_def)
qed

section \<open>The whole script\<close>

text \<open>What holds once the script has run: \<open>um\<close> and \<open>pm\<close> are the maps it built.\<close>

definition seeded :: "scrypt_ops \<Rightarrow> UserSeed list \<Rightarrow> ProductSeed list \<Rightarrow> OrderSeed list \<Rightarrow>
    (string \<times> User) list \<Rightarrow> (string \<times> Product) list \<Rightarrow> db \<Rightarrow> bool" where
  "seeded sc us ps os um pm d \<longleftrightarrow>
     (\<forall>seed \<in> set us. user_seed_fits seed \<and> (\<exists>u \<in> set (users d). seed_settled sc seed u \<and> map_get (us_email seed) um = Some u)) \<and>
     (\<forall>e. e \<notin> us_email ` set us \<longrightarrow> map_get e um = None) \<and>
     (\<forall>seed \<in> set ps. product_seed_fits seed \<and> (\<exists>p \<in> set (products d). stocked seed p \<and> map_get (pi_name seed) pm = Some p)) \<and>
     (\<forall>k. k \<notin> pi_name ` set ps \<longrightarrow> map_get k pm = None) \<and>
     (\<forall>seed \<in> set os. placed_seed um pm seed d)"

lemma at_db_Inr [simp]: "at_db m s = (Inr x, s') \<longleftrightarrow> (\<exists>d'. m (sd_db s) = (Inr x, d') \<and> s' = s\<lparr>sd_db := d'\<rparr>)"
  by (auto simp: at_db_def split: prod.splits)

lemma seed_main_effect:
  assumes ok: "seed_ok s" and dist: "distinct (map us_email us)" "distinct (map pi_name ps)"
    and hash: "hash_works sc (hashPassword sc salt SEED_PASSWORD)"
    and run: "seed_main sc clock salt us ps os s = (Inr n, s')"
  obtains um pm where "seeded sc us ps os um pm (sd_db s')" and "seed_ok s'"
    and "totals_ok (sd_db s) \<longrightarrow> totals_ok (sd_db s')" and "n = counts (sd_db s')"
proof -
  let ?h = "hashPassword sc salt SEED_PASSWORD"
  from run obtain um s1 pm d2 d3 where us: "seed_users sc clock ?h us [] s = (Inr um, s1)"
    and ps: "seed_products clock ps [] (sd_db s1) = (Inr pm, d2)"
    and os: "seed_orders um pm os d2 = (Inr (), d3)" and s': "s' = s1\<lparr>sd_db := d3\<rparr>" and n: "n = counts d3"
    unfolding seed_main_def by auto
  note u = seed_users_effect [OF hash dist(1) ok us]
  have ok1: "db_ok (sd_db s1)" using u by (simp add: seed_ok_def)
  note p = seed_products_effect [OF dist(2) ok1 ps]
  have same12: "users d2 = users (sd_db s1) \<and> orders d2 = orders (sd_db s1) \<and> orderItems d2 = orderItems (sd_db s1)"
    using p only_products_same by blast
  have names: "k \<in> pi_name ` set ps" if "map_get k pm = Some q" for k q
    using p that by (metis map_get_Nil option.distinct(1))
  have "from_table pm d2"
    unfolding from_table_def using p names by (metis (no_types, lifting) image_iff option.inject)
  then have o: "orders_grow d2 d3 \<and> (\<forall>seed \<in> set os. placed_seed um pm seed d3)"
    using seed_orders_effect [OF _ _ os] p by blast
  have "users d3 = users (sd_db s1)" "products d3 = products d2" using o same12 by (simp_all add: orders_grow_def)
  then have "seeded sc us ps os um pm (sd_db s')"
    using u p o by (simp add: seeded_def s')
  moreover have "seed_ok s'"
    using u o same12 by (simp add: seed_ok_def s' orders_grow_def)
  moreover have "totals_ok (sd_db s) \<longrightarrow> totals_ok (sd_db s')"
  proof
    assume "totals_ok (sd_db s)"
    moreover have "orders (sd_db s1) = orders (sd_db s) \<and> orderItems (sd_db s1) = orderItems (sd_db s)"
      using u by (metis (no_types, lifting) db.select_convs(3,4) db.surjective db.update_convs(1))
    ultimately have "totals_ok d2" using same12 by (simp add: totals_ok_def items_of_def)
    then show "totals_ok (sd_db s')" using o by (simp add: orders_grow_def s')
  qed
  ultimately show thesis using n s' by (intro that) simp_all
qed

lemma seed_main_again:
  assumes done_before: "seeded sc us ps os um pm (sd_db s)" and ok: "seed_ok s"
    and dist: "distinct (map us_email us)" "distinct (map pi_name ps)"
  shows "\<exists>s'. seed_main sc clock salt us ps os s = (Inr (counts (sd_db s)), s') \<and>
    sd_db s' = (sd_db s)\<lparr>seqs := seqs (sd_db s')\<rparr>"
proof -
  let ?h = "hashPassword sc salt SEED_PASSWORD" and ?s1 = "s\<lparr>sd_userSeq := sd_userSeq s + length us\<rparr>"
  let ?d2 = "(sd_db s)\<lparr>seqs := (seqs (sd_db s))\<lparr>sq_product := sq_product (seqs (sd_db s)) + length ps\<rparr>\<rparr>"
  let ?d3 = "?d2\<lparr>seqs := (seqs ?d2)\<lparr>sq_order := sq_order (seqs ?d2) + length os\<rparr>\<rparr>"
  have "\<forall>seed \<in> set us. user_seed_fits seed \<and> (\<exists>u \<in> set (users (sd_db s)). seed_settled sc seed u)"
    using done_before by (auto simp: seeded_def)
  from seed_users_again [OF this dist(1) ok, of clock ?h "[]"] obtain um' where us: "seed_users sc clock ?h us [] s = (Inr um', ?s1)"
    and um': "\<And>seed u. seed \<in> set us \<Longrightarrow> u \<in> set (users (sd_db s)) \<Longrightarrow> u_email u = us_email seed \<Longrightarrow>
        map_get (us_email seed) um' = Some u"
      "\<And>e. e \<notin> us_email ` set us \<Longrightarrow> map_get e um' = None"
    by auto
  have "map_get e um = map_get e um'" for e
  proof (cases "e \<in> us_email ` set us")
    case True
    then obtain seed where "seed \<in> set us" "e = us_email seed" by blast
    then show ?thesis using done_before um'(1) unfolding seeded_def seed_settled_def by metis
  next
    case False
    with um'(2) done_before show ?thesis by (simp add: seeded_def)
  qed
  then have um: "same_map um' um" by (simp add: same_map_def)
  have "\<forall>seed \<in> set ps. product_seed_fits seed \<and> (\<exists>p \<in> set (products (sd_db s)). stocked seed p)"
    using done_before by (auto simp: seeded_def)
  moreover have db: "db_ok (sd_db s)" using ok by (simp add: seed_ok_def)
  ultimately obtain pm' where ps: "seed_products clock ps [] (sd_db s) = (Inr pm', ?d2)"
    and pm': "\<And>seed p. seed \<in> set ps \<Longrightarrow> p \<in> set (products (sd_db s)) \<Longrightarrow> p_name p = pi_name seed \<Longrightarrow>
        map_get (pi_name seed) pm' = Some p"
      "\<And>k. k \<notin> pi_name ` set ps \<Longrightarrow> map_get k pm' = None"
    using seed_products_again [OF _ dist(2), of "sd_db s" clock "[]"] by auto
  have "map_get k pm = map_get k pm'" for k
  proof (cases "k \<in> pi_name ` set ps")
    case True
    then obtain seed where "seed \<in> set ps" "k = pi_name seed" by blast
    then show ?thesis using done_before pm'(1) unfolding seeded_def stocked_def by metis
  next
    case False
    with pm'(2) done_before show ?thesis by (simp add: seeded_def)
  qed
  then have pm: "same_map pm' pm" by (simp add: same_map_def)
  have "\<forall>seed \<in> set os. placed_seed um pm seed ?d2"
    using done_before by (simp add: seeded_def placed_seed_def has_order_def)
  then have os: "seed_orders um' pm' os ?d2 = (Inr (), ?d3)"
    unfolding seed_orders_cong [OF um pm] by (rule seed_orders_again)
  have "seed_main sc clock salt us ps os s = (Inr (counts ?d3), ?s1\<lparr>sd_db := ?d3\<rparr>)"
    using us ps os by (simp add: seed_main_def)
  moreover have "counts ?d3 = counts (sd_db s)" by (simp add: counts_def)
  ultimately show ?thesis by auto
qed

lemma seeded_orders:
  assumes "seeded sc us ps os um pm d" and "seed \<in> set os"
  shows "\<exists>u \<in> set (users d). u_email u = sd_email seed \<and> has_order (u_id u) (sd_createdAt seed * 1000) d"
proof -
  from assms obtain u where u: "map_get (sd_email seed) um = Some u" and o: "has_order (u_id u) (sd_createdAt seed * 1000) d"
    unfolding seeded_def placed_seed_def by blast
  then have "sd_email seed \<in> us_email ` set us" using assms(1) unfolding seeded_def by (metis option.distinct(1))
  with assms(1) u o show ?thesis unfolding seeded_def seed_settled_def by (metis (no_types, lifting) image_iff option.inject)
qed

section \<open>Properties\<close>

text \<open>
  C32: after a run of the seed that ends, every seeded user has the seed's balance and role and signs
  in with the seed's password, every seeded product has the seed's stock, every seeded order is there
  for its buyer and date, and the constraints and totals of the database hold. Running the seed again
  then ends with the same counts and changes nothing but identity sequences, whatever its clock and salt.
\<close>

theorem seed_idempotent:
  assumes "seed_ok s" and "distinct (map us_email us)" and "distinct (map pi_name ps)"
    and "scrypt_lawful sc" and "salt \<noteq> []" and "sc_derive sc SEED_PASSWORD salt \<noteq> []"
    and "seed_main sc clock salt us ps os s = (Inr n, s')"
  shows "(\<forall>seed \<in> set us. \<exists>u \<in> set (users (sd_db s')). seed_settled sc seed u) \<and>
    (\<forall>seed \<in> set ps. \<exists>p \<in> set (products (sd_db s')). stocked seed p) \<and>
    (\<forall>seed \<in> set os. \<exists>u \<in> set (users (sd_db s')). u_email u = sd_email seed \<and>
       has_order (u_id u) (sd_createdAt seed * 1000) (sd_db s')) \<and>
    db_ok (sd_db s') \<and> (totals_ok (sd_db s) \<longrightarrow> totals_ok (sd_db s')) \<and>
    (\<exists>s''. seed_main sc clock' salt' us ps os s' = (Inr n, s'') \<and> sd_db s'' = (sd_db s')\<lparr>seqs := seqs (sd_db s'')\<rparr>)"
proof -
  have "hash_works sc (hashPassword sc salt SEED_PASSWORD)"
    using verify_hashed [OF assms(4-6)] by (simp add: hash_works_def hashPassword_def)
  from seed_main_effect [OF assms(1-3) this assms(7)] obtain um pm where
    s': "seeded sc us ps os um pm (sd_db s')" "seed_ok s'" "totals_ok (sd_db s) \<longrightarrow> totals_ok (sd_db s')"
    and n: "n = counts (sd_db s')" by blast
  have "\<exists>s''. seed_main sc clock' salt' us ps os s' = (Inr n, s'') \<and> sd_db s'' = (sd_db s')\<lparr>seqs := seqs (sd_db s'')\<rparr>"
    unfolding n by (rule seed_main_again [OF s'(1,2) assms(2,3)])
  with s' seeded_orders [OF s'(1)] show ?thesis by (auto simp: seeded_def seed_ok_def)
qed

definition demo_user_seeds :: "UserSeed list" where
  "demo_user_seeds =
     [\<lparr>us_email = ''olena@shop.ua'', us_phone = ''+380501000001'', us_name = ''Olena'', us_balance = 1000, us_role = buyer\<rparr>,
      \<lparr>us_email = ''taras@shop.ua'', us_phone = ''+380731000006'', us_name = ''Taras'', us_balance = 1000, us_role = seller\<rparr>]"

definition demo_product_seeds :: "ProductSeed list" where
  "demo_product_seeds = [\<lparr>pi_name = ''Kettle'', pi_description = ''1.7 l'', pi_price = 30, pi_stock = 10\<rparr>]"

definition demo_order_seeds :: "OrderSeed list" where
  "demo_order_seeds = [\<lparr>sd_email = ''olena@shop.ua'', sd_status = paid, sd_createdAt = 1785752100000,
     sd_items = [\<lparr>sl_product = ''Kettle'', sl_quantity = 2\<rparr>]\<rparr>]"

definition seed_once :: "string \<Rightarrow> seed_db \<Rightarrow> seed_counts result \<times> seed_db" where
  "seed_once salt = seed_main demo_scrypt (\<lambda>_. 7) salt demo_user_seeds demo_product_seeds demo_order_seeds"

definition unseeded :: seed_db where
  "unseeded = \<lparr>sd_db = empty_db, sd_userSeq = 1\<rparr>"

theorem seed_idempotent_witness:
  "fst (seed_once ''salt'' unseeded) = Inr \<lparr>sc_users = 2, sc_products = 1, sc_orders = 1, sc_orderItems = 1\<rparr> \<and>
   fst (seed_once ''pepper'' (snd (seed_once ''salt'' unseeded))) =
     Inr \<lparr>sc_users = 2, sc_products = 1, sc_orders = 1, sc_orderItems = 1\<rparr> \<and>
   orders (sd_db (snd (seed_once ''pepper'' (snd (seed_once ''salt'' unseeded))))) =
     [\<lparr>o_id = 1, o_userId = 1, o_status = paid, o_total = 60, o_idempotencyKey = None, o_createdAt = 1785752100000000\<rparr>]"
proof -
  let ?s = "snd (seed_once ''salt'' unseeded)"
  let ?n = "\<lparr>sc_users = 2, sc_products = 1, sc_orders = 1, sc_orderItems = 1\<rparr>"
  have first: "fst (seed_once ''salt'' unseeded) = Inr ?n" by code_simp
  have orders: "orders (sd_db ?s) =
      [\<lparr>o_id = 1, o_userId = 1, o_status = paid, o_total = 60, o_idempotencyKey = None, o_createdAt = 1785752100000000\<rparr>]"
    by code_simp
  have run: "seed_main demo_scrypt (\<lambda>_. 7) ''salt'' demo_user_seeds demo_product_seeds demo_order_seeds unseeded = (Inr ?n, ?s)"
    using first unfolding seed_once_def by (metis prod.collapse)
  have "seed_ok unseeded" using empty_db_ok by (simp add: seed_ok_def unseeded_def empty_db_def below_def)
  from seed_idempotent [OF this _ _ demo_scrypt_lawful _ _ run, of "\<lambda>_. 7" "''pepper''"]
  obtain s'' where again: "seed_once ''pepper'' ?s = (Inr ?n, s'')" and same: "sd_db s'' = (sd_db ?s)\<lparr>seqs := seqs (sd_db s'')\<rparr>"
    by (auto simp: demo_user_seeds_def demo_product_seeds_def demo_scrypt_def seed_once_def)
  have "orders (sd_db s'') = orders (sd_db ?s)" by (subst same) simp
  with first orders again show ?thesis by simp
qed

end
