(* ===== verification/Locking.thy ===== *)
theory Locking
  imports Prelude
begin

text \<open>
  Row locks of transactions that run at the same time. A client is a call with the phase its transaction
  is in; the phase tells which rows the transaction has updated and so holds. A statement that updates a
  row waits until no other client holds it. The locale is what a component promises about its
  statements, and gives that no two clients ever hold the same row.
\<close>

definition lock_free :: "('c \<Rightarrow> 'p \<Rightarrow> 'r set) \<Rightarrow> 'r \<Rightarrow> nat \<Rightarrow> ('c \<times> 'p) list \<Rightarrow> bool" where
  "lock_free held r i cs \<longleftrightarrow> (\<forall>j < length cs. j \<noteq> i \<longrightarrow> r \<notin> held (fst (cs ! j)) (snd (cs ! j)))"

definition locks_exclusive :: "('c \<Rightarrow> 'p \<Rightarrow> 'r set) \<Rightarrow> ('c \<times> 'p) list \<Rightarrow> bool" where
  "locks_exclusive held cs \<longleftrightarrow> (\<forall>i < length cs. \<forall>j < length cs. i \<noteq> j \<longrightarrow>
     held (fst (cs ! i)) (snd (cs ! i)) \<inter> held (fst (cs ! j)) (snd (cs ! j)) = {})"

lemma locks_exclusive_update:
  assumes "locks_exclusive held cs" and "i < length cs" and "cs ! i = (req, ph)"
    and sub: "held req' ph' \<subseteq> held req ph \<union> R" and free: "\<And>r. r \<in> R \<Longrightarrow> lock_free held r i cs"
  shows "locks_exclusive held (cs[i := (req', ph')])"
proof -
  have mine: "held req' ph' \<inter> held (fst (cs ! j)) (snd (cs ! j)) = {}" if "j < length cs" "j \<noteq> i" for j
  proof -
    have "held req ph \<inter> held (fst (cs ! j)) (snd (cs ! j)) = {}"
      using assms(1,2,3) that by (metis locks_exclusive_def fst_conv snd_conv)
    moreover have "R \<inter> held (fst (cs ! j)) (snd (cs ! j)) = {}"
      using free that by (auto simp: lock_free_def)
    ultimately show ?thesis using sub by blast
  qed
  show ?thesis
    unfolding locks_exclusive_def
  proof (intro allI impI)
    fix a b assume "a < length (cs[i := (req', ph')])" "b < length (cs[i := (req', ph')])" "a \<noteq> b"
    then consider "a = i" "b < length cs" "b \<noteq> i" | "b = i" "a < length cs" "a \<noteq> i"
      | "a < length cs" "b < length cs" "a \<noteq> i" "b \<noteq> i" "a \<noteq> b" by fastforce
    then show "held (fst (cs[i := (req', ph')] ! a)) (snd (cs[i := (req', ph')] ! a)) \<inter>
        held (fst (cs[i := (req', ph')] ! b)) (snd (cs[i := (req', ph')] ! b)) = {}"
    proof cases
      case 1
      with mine [of b] assms(2) show ?thesis by simp
    next
      case 2
      with mine [of a] assms(2) show ?thesis by (simp add: Int_commute)
    next
      case 3
      with assms(1) show ?thesis by (simp add: locks_exclusive_def)
    qed
  qed
qed

text \<open>A statement gains at most the row it asked for.\<close>

locale lock_steps =
  fixes held :: "'c \<Rightarrow> 'p \<Rightarrow> 'r set"
    and wanted :: "'c \<Rightarrow> 'd \<Rightarrow> 'p \<Rightarrow> 'r option"
    and statement :: "'c \<Rightarrow> 'd \<Rightarrow> 'p \<Rightarrow> 'p \<times> 'd"
  assumes gains: "statement c d ph = (ph', d') \<Longrightarrow> held c ph' \<subseteq> held c ph \<union> set_option (wanted c d ph)"
begin

lemma step_exclusive:
  assumes "locks_exclusive held cs" and "i < length cs" and "cs ! i = (c, ph)"
    and "\<And>r. wanted c d ph = Some r \<Longrightarrow> lock_free held r i cs" and "statement c d ph = (ph', d')"
  shows "locks_exclusive held (cs[i := (c, ph')])"
  using locks_exclusive_update [OF assms(1-3) gains [OF assms(5)]] assms(4) by simp

text \<open>What one client holds, no statement of another takes.\<close>

lemma others_keep:
  assumes "i < length cs" and "cs ! i = (c, ph)" and "j < length cs" and "j \<noteq> i"
    and "\<And>r. wanted c d ph = Some r \<Longrightarrow> lock_free held r i cs"
    and "r \<in> held (fst (cs ! j)) (snd (cs ! j))"
  shows "wanted c d ph \<noteq> Some r"
  using assms by (auto simp: lock_free_def)

end

end
