(* ===== verification/Checkout_Concurrent.thy ===== *)
theory Checkout_Concurrent
  imports Checkout_Theorems Locking
begin

text \<open>
  Checkouts that run at the same time (\<open>src/services/checkout.service.ts\<close> on the READ COMMITTED
  isolation Postgres defaults to). A statement sees the committed tables and the transaction's own
  changes; an UPDATE that finds its row waits while another transaction holds the row, and holds it
  until its own transaction ends. Every INSERT and the COMMIT are statements of their own: an INSERT draws
  its identity values when it runs, from sequences all transactions share and no rollback turns back, and
  its rows become visible at the commit. Of the keys an INSERT could collide on with an uncommitted row,
  those of \<open>orders\<close> name the user whose row the transaction already holds, identity values are
  drawn once only, and the INSERT into \<open>outbox\<close> waits for a transaction that has inserted the
  same id. Finished transactions are logged in the order they end.
\<close>

section \<open>One transaction, statement by statement\<close>

text \<open>The INSERT that is next after the charge; \<open>Committing\<close> is the hook and the COMMIT.\<close>

datatype insert_step = Ordering | Listing | Queueing | Announcing | Committing

text \<open>The rows a transaction has inserted, which no other sees before the commit.\<close>

record own_rows =
  ow_orders :: "Order list"
  ow_items :: "OrderItem list"
  ow_jobs :: "Job list"
  ow_outbox :: "Outbox list"

datatype checkout_phase =
    Waiting
  | Reserving "CheckoutLine list" "CheckoutLine list" "event_item list"
  | Recording insert_step "CheckoutLine list" "event_item list" own_rows
  | Finished "CheckoutResult result"

datatype row_lock = product_row nat | user_row nat | outbox_row string

definition own_stock :: "CheckoutLine list \<Rightarrow> db \<Rightarrow> db" where
  "own_stock taken d = d\<lparr>products := take_demand taken (products d)\<rparr>"

definition own_balance :: "int \<Rightarrow> string \<Rightarrow> db \<Rightarrow> db" where
  "own_balance t userId d = d\<lparr>users := lower_row u_id lower_balance (num_of userId) t (users d)\<rparr>"

definition priced_item :: "CheckoutLine \<Rightarrow> int \<Rightarrow> event_item" where
  "priced_item l price = \<lparr>ei_productId = cl_productId l, ei_quantity = qty l, ei_unitPrice = price\<rparr>"

definition no_rows :: own_rows where
  "no_rows = \<lparr>ow_orders = [], ow_items = [], ow_jobs = [], ow_outbox = []\<rparr>"

text \<open>The tables as the transaction sees them after the charge: the committed ones with its own changes.\<close>

definition own_sale :: "CheckoutInput \<Rightarrow> CheckoutLine list \<Rightarrow> event_item list \<Rightarrow> own_rows \<Rightarrow> db \<Rightarrow> db" where
  "own_sale input taken priced own d =
     (own_balance (order_total priced) (ci_userId input) (own_stock taken d))\<lparr>
       orders := orders d @ ow_orders own, orderItems := orderItems d @ ow_items own,
       jobs := jobs d @ ow_jobs own, outbox := outbox d @ ow_outbox own\<rparr>"

definition inserted :: "db \<Rightarrow> db \<Rightarrow> own_rows" where
  "inserted d view = \<lparr>ow_orders = drop (length (orders d)) (orders view),
     ow_items = drop (length (orderItems d)) (orderItems view),
     ow_jobs = drop (length (jobs d)) (jobs view), ow_outbox = drop (length (outbox d)) (outbox view)\<rparr>"

abbreviation own_order :: "own_rows \<Rightarrow> Order" where
  "own_order own \<equiv> hd (ow_orders own)"

fun next_insert :: "insert_step \<Rightarrow> insert_step" where
  "next_insert Ordering = Listing"
| "next_insert Listing = Queueing"
| "next_insert Queueing = Announcing"
| "next_insert Announcing = Committing"
| "next_insert Committing = Committing"

fun insert_statement :: "tx_env \<Rightarrow> CheckoutInput \<Rightarrow> event_item list \<Rightarrow> own_rows \<Rightarrow> insert_step \<Rightarrow> (db, unit) action" where
  "insert_statement env input priced own Ordering =
     andThen (insert_order (tx_now env) (ci_userId input) paid (order_total priced) (ci_idempotencyKey input)) (\<lambda>_. return ())"
| "insert_statement env input priced own Listing = insert_items (o_id (own_order own)) priced"
| "insert_statement env input priced own Queueing =
     insert_job (tx_now env) ''send_receipt'' (JObj [(''orderId'', JStr (dec (o_id (own_order own))))])"
| "insert_statement env input priced own Announcing =
     insert_outbox (tx_now env) (tx_uuid env) ORDER_AGGREGATE_TYPE (dec (o_id (own_order own)))
       (toOrderPlacedEvent \<lparr>os_id = dec (o_id (own_order own)), os_userId = ci_userId input,
          os_total = order_total priced, os_createdAt = o_createdAt (own_order own) div 1000, os_items = priced\<rparr>)"
| "insert_statement env input priced own Committing = return ()"

text \<open>
  The next statement of a transaction over the committed tables: the phase it leads to, and the
  committed tables afterwards, which only the COMMIT changes; the sequences move with every INSERT.
  Rolling back undoes the transaction's own changes and keeps what it drew from the sequences.
\<close>

fun advance :: "checkout_request \<Rightarrow> db \<Rightarrow> checkout_phase \<Rightarrow> checkout_phase \<times> db" where
  "advance (env, hook, input) d Waiting =
     (case validateLines (ci_items input) of
        Inl e \<Rightarrow> (Finished (Inl e), d)
      | Inr lines \<Rightarrow> (Reserving [] lines [], d))"
| "advance (env, hook, input) d (Reserving taken (l # ls) priced) =
     (case fst (take_stock (qty l) (cl_productId l) (own_stock taken d)) of
        Inl e \<Rightarrow> (Finished (Inl e), d)
      | Inr (Some price) \<Rightarrow> (Reserving (taken @ [l]) ls (priced @ [priced_item l price]), d)
      | Inr None \<Rightarrow>
          (case fst (product_found (cl_productId l) (own_stock taken d)) of
             Inl e \<Rightarrow> (Finished (Inl e), d)
           | Inr found \<Rightarrow> (Finished (Inl (CheckoutError (if found then OUT_OF_STOCK else PRODUCT_NOT_FOUND)
               (Some (cl_productId l)))), d)))"
| "advance (env, hook, input) d (Reserving taken [] priced) =
     (case fst (charge (order_total priced) (ci_userId input) (own_stock taken d)) of
        Inl e \<Rightarrow> (Finished (Inl e), d)
      | Inr (Some b) \<Rightarrow> (Recording Ordering taken priced no_rows, d)
      | Inr None \<Rightarrow>
          (case fst (user_found (ci_userId input) (own_stock taken d)) of
             Inl e \<Rightarrow> (Finished (Inl e), d)
           | Inr found \<Rightarrow> (Finished (Inl (CheckoutError (if found then INSUFFICIENT_FUNDS else USER_NOT_FOUND) None)), d)))"
| "advance (env, hook, input) d (Recording at taken priced own) =
     (if at = Committing then
        (case hook of
           Some e \<Rightarrow> (Finished (Inl e), d)
         | None \<Rightarrow> (Finished (Inr \<lparr>cr_orderId = dec (o_id (own_order own)), cr_total = order_total priced\<rparr>),
             own_sale input taken priced own d))
      else
        (case insert_statement env input priced own at (own_sale input taken priced own d) of
           (Inl e, view) \<Rightarrow> (Finished (Inl e), d\<lparr>seqs := seqs view\<rparr>)
         | (Inr _, view) \<Rightarrow> (Recording (next_insert at) taken priced (inserted d view), d\<lparr>seqs := seqs view\<rparr>)))"
| "advance (env, hook, input) d (Finished r) = (Finished r, d)"

text \<open>
  The row the next statement waits for: the row an UPDATE finds, and the key of \<open>outbox\<close> an INSERT
  takes. And the rows a transaction holds.
\<close>

fun wants :: "checkout_request \<Rightarrow> db \<Rightarrow> checkout_phase \<Rightarrow> row_lock option" where
  "wants (env, hook, input) d (Reserving taken (l # ls) priced) =
     (case fst (take_stock (qty l) (cl_productId l) (own_stock taken d)) of
        Inr (Some price) \<Rightarrow> Some (product_row (num_of (cl_productId l))) | _ \<Rightarrow> None)"
| "wants (env, hook, input) d (Reserving taken [] priced) =
     (case fst (charge (order_total priced) (ci_userId input) (own_stock taken d)) of
        Inr (Some b) \<Rightarrow> Some (user_row (num_of (ci_userId input))) | _ \<Rightarrow> None)"
| "wants (env, hook, input) d (Recording Announcing taken priced own) =
     (case fst (insert_statement env input priced own Announcing (own_sale input taken priced own d)) of
        Inr _ \<Rightarrow> Some (outbox_row (tx_uuid env)) | _ \<Rightarrow> None)"
| "wants _ d _ = None"

definition product_rows :: "CheckoutLine list \<Rightarrow> row_lock set" where
  "product_rows ls = (\<lambda>l. product_row (num_of (cl_productId l))) ` set ls"

fun holds :: "checkout_request \<Rightarrow> checkout_phase \<Rightarrow> row_lock set" where
  "holds (env, hook, input) (Reserving taken todo priced) = product_rows taken"
| "holds (env, hook, input) (Recording at taken priced own) =
     insert (user_row (num_of (ci_userId input))) (product_rows taken) \<union>
       (if at = Committing then {outbox_row (tx_uuid env)} else {})"
| "holds _ _ = {}"

fun finished :: "checkout_phase \<Rightarrow> bool" where
  "finished (Finished r) = True"
| "finished _ = False"

text \<open>
  The sequences as a transaction has drawn from them: the first identity value it drew of each, and where
  they stand now for those it has not drawn from.
\<close>

definition first_of :: "('r \<Rightarrow> nat) \<Rightarrow> 'r list \<Rightarrow> nat \<Rightarrow> nat" where
  "first_of f rows n = (case rows of [] \<Rightarrow> n | r # _ \<Rightarrow> f r)"

definition drawn :: "own_rows \<Rightarrow> sequences \<Rightarrow> sequences" where
  "drawn own q = q\<lparr>sq_order := first_of o_id (ow_orders own) (sq_order q), sq_item := first_of i_id (ow_items own) (sq_item q),
     sq_job := first_of j_id (ow_jobs own) (sq_job q)\<rparr>"

fun draws :: "checkout_phase \<Rightarrow> sequences \<Rightarrow> sequences" where
  "draws (Recording at taken priced own) q = drawn own q"
| "draws _ q = q"

section \<open>Many transactions\<close>

type_synonym checkout_client = "checkout_request \<times> checkout_phase"

text \<open>An entry of the log: the request, what it drew, and how it ended.\<close>

type_synonym log_entry = "checkout_request \<times> sequences \<times> CheckoutResult result"

record checkout_pool =
  cp_db :: db
  cp_clients :: "checkout_client list"
  cp_log :: "log_entry list"

definition row_free :: "row_lock \<Rightarrow> nat \<Rightarrow> checkout_client list \<Rightarrow> bool" where
  "row_free r i cs \<longleftrightarrow> lock_free holds r i cs"

lemma next_Committing: "next_insert at = Committing \<Longrightarrow> at \<noteq> Committing \<Longrightarrow> at = Announcing"
  by (cases at) simp_all

lemma advance_gains:
  assumes "advance c d ph = (ph', d')"
  shows "holds c ph' \<subseteq> holds c ph \<union> set_option (wants c d ph)"
proof -
  obtain env hook input where c: "c = (env, hook, input)" by (cases c)
  show ?thesis
  proof (cases ph)
    case (Reserving taken todo priced)
    with assms c show ?thesis
      by (cases todo) (auto simp: product_rows_def split: sum.splits option.splits if_splits)
  next
    case (Recording at taken priced own)
    show ?thesis
    proof (cases "at = Announcing")
      case True
      with assms c Recording show ?thesis by (auto split: sum.splits prod.splits simp del: insert_statement.simps)
    next
      case False
      with assms c Recording next_Committing [of at] show ?thesis
        by (auto split: sum.splits prod.splits option.splits if_splits simp del: insert_statement.simps)
    qed
  qed (use assms c in \<open>auto simp: product_rows_def split: sum.splits\<close>)
qed

interpretation checkout_locks: lock_steps holds wants advance
  by unfold_locales (rule advance_gains)

definition ended :: "checkout_client \<Rightarrow> (checkout_request \<times> CheckoutResult result) list" where
  "ended cl = (case snd cl of Finished r \<Rightarrow> [(fst cl, r)] | _ \<Rightarrow> [])"

definition log_entries :: "sequences \<Rightarrow> checkout_client \<Rightarrow> log_entry list" where
  "log_entries q cl = map (\<lambda>(req, r). (req, q, r)) (ended cl)"

inductive pool_moves :: "checkout_pool \<Rightarrow> checkout_pool \<Rightarrow> bool" where
  statement: "pool_moves \<lparr>cp_db = d, cp_clients = cs, cp_log = log\<rparr>
      \<lparr>cp_db = d', cp_clients = cs[i := (req, ph')], cp_log = log @ log_entries (draws ph (seqs d)) (req, ph')\<rparr>"
    if "i < length cs" and "cs ! i = (req, ph)" and "\<not> finished ph"
      and "\<And>r. wants req d ph = Some r \<Longrightarrow> row_free r i cs" and "advance req d ph = (ph', d')"

inductive_cases pool_moves_cases: "pool_moves s t"

definition new_pool :: "checkout_request list \<Rightarrow> db \<Rightarrow> checkout_pool" where
  "new_pool reqs d = \<lparr>cp_db = d, cp_clients = map (\<lambda>req. (req, Waiting)) reqs, cp_log = []\<rparr>"

end
