(* ===== verification/Checkout_Statements.thy ===== *)
theory Checkout_Statements
  imports Checkout_Concurrent
begin

text \<open>
  One statement of a concurrent checkout: what the statements before it have established over the
  committed tables, and that it either goes on or ends as the serial checkout with the same identity
  values would at this moment.
\<close>

section \<open>What a transaction has established\<close>

text \<open>Over the committed tables, as they are now, its own statements would still have gone as they did.\<close>

definition reserved :: "CheckoutLine list \<Rightarrow> event_item list \<Rightarrow> db \<Rightarrow> bool" where
  "reserved taken priced d \<longleftrightarrow> reservable taken (products d) \<and> priced = map (priced_line (products d)) taken"

definition chargeable :: "int \<Rightarrow> string \<Rightarrow> db \<Rightarrow> bool" where
  "chargeable t userId d \<longleftrightarrow> - int4_max - 1 \<le> t \<and> t \<le> int4_max \<and> isId userId \<and> num_of userId \<le> int8_max \<and>
     (\<exists>u \<in> set (users d). level_hit u_id u_balance (num_of userId) t u)"

text \<open>All the rows of a sale with the identity values \<open>q\<close>, and those there are before a step.\<close>

definition sale_rows :: "tx_env \<Rightarrow> CheckoutInput \<Rightarrow> event_item list \<Rightarrow> sequences \<Rightarrow> own_rows" where
  "sale_rows env input priced q =
     \<lparr>ow_orders = [\<lparr>o_id = sq_order q, o_userId = num_of (ci_userId input), o_status = paid, o_total = order_total priced,
        o_idempotencyKey = ci_idempotencyKey input, o_createdAt = tx_now env\<rparr>],
      ow_items = item_rows (sq_item q) (sq_order q) priced,
      ow_jobs = [\<lparr>j_id = sq_job q, j_queue = ''default'', j_type = ''send_receipt'',
        j_payload = JObj [(''orderId'', JStr (dec (sq_order q)))], j_status = JPending, j_processed = 0, j_attempts = 0,
        j_lastError = None, j_worker = None, j_createdAt = tx_now env, j_processedAt = None\<rparr>],
      ow_outbox = [\<lparr>x_id = tx_uuid env, x_aggregateType = ORDER_AGGREGATE_TYPE, x_aggregateId = dec (sq_order q),
        x_type = ORDER_PLACED_TYPE, x_payload = toOrderPlacedEvent \<lparr>os_id = dec (sq_order q), os_userId = ci_userId input,
          os_total = order_total priced, os_createdAt = tx_now env div 1000, os_items = priced\<rparr>,
        x_createdAt = tx_now env, x_publishedAt = None, x_attempts = 0\<rparr>]\<rparr>"

fun rows_until :: "insert_step \<Rightarrow> own_rows \<Rightarrow> own_rows" where
  "rows_until Ordering own = no_rows"
| "rows_until Listing own = own\<lparr>ow_items := [], ow_jobs := [], ow_outbox := []\<rparr>"
| "rows_until Queueing own = own\<lparr>ow_jobs := [], ow_outbox := []\<rparr>"
| "rows_until Announcing own = own\<lparr>ow_outbox := []\<rparr>"
| "rows_until Committing own = own"

definition rows_ok :: "db \<Rightarrow> tx_env \<Rightarrow> CheckoutInput \<Rightarrow> insert_step \<Rightarrow> event_item list \<Rightarrow> own_rows \<Rightarrow> bool" where
  "rows_ok d env input at priced own \<longleftrightarrow> (\<exists>q. own = rows_until at (sale_rows env input priced q)) \<and>
     (at \<noteq> Ordering \<longrightarrow> key_free env input d) \<and> (at = Committing \<longrightarrow> tx_uuid env \<notin> x_id ` set (outbox d))"

fun progress_ok :: "db \<Rightarrow> checkout_request \<Rightarrow> checkout_phase \<Rightarrow> bool" where
  "progress_ok d (env, hook, input) (Reserving taken todo priced) \<longleftrightarrow>
     valid_lines (ci_items input) \<and> taken @ todo = sorted_lines (ci_items input) \<and> reserved taken priced d"
| "progress_ok d (env, hook, input) (Recording at taken priced own) \<longleftrightarrow>
     valid_lines (ci_items input) \<and> taken = sorted_lines (ci_items input) \<and> reserved taken priced d \<and>
     chargeable (order_total priced) (ci_userId input) d \<and> rows_ok d env input at priced own"
| "progress_ok d req ph \<longleftrightarrow> True"

lemma own_stock_simps [simp]:
  "products (own_stock taken d) = take_demand taken (products d)" "users (own_stock taken d) = users d"
  "seqs (own_stock taken d) = seqs d" "own_stock [] d = d"
  by (simp_all add: own_stock_def)

lemma valid_done: "valid_lines items \<Longrightarrow> taken @ todo = sorted_lines items \<Longrightarrow> \<forall>l \<in> set taken. 0 < qty l"
  unfolding valid_lines_def by (metis UnCI set_append set_sorted_lines)

lemma reserve_done:
  assumes "stock_ok d" and "\<forall>l \<in> set taken. 0 < qty l"
  shows "reserve taken [] d = (Inr priced, d1) \<longleftrightarrow> reserved taken priced d \<and> d1 = own_stock taken d"
  unfolding reserve_iff [OF stock_okD(1) [OF assms(1)] assms(2)] reserved_def own_stock_def by auto

lemma reserve_append:
  "reserve (xs @ ys) acc d = andThen (reserve xs acc) (reserve ys) d"
proof (induction xs arbitrary: acc d)
  case Nil
  then show ?case by (simp add: andThen_def return_def)
next
  case (Cons x xs)
  obtain r d1 where ts: "take_stock (qty x) (cl_productId x) d = (r, d1)" by fastforce
  show ?case
  proof (cases "\<exists>price. r = Inr (Some price)")
    case True
    then obtain price where "r = Inr (Some price)" by blast
    with ts Cons show ?thesis by (simp add: reserve.simps(2) andThen_def)
  next
    case False
    with ts show ?thesis
      by (auto simp: reserve.simps(2) andThen_def throw_def split: sum.split option.split prod.split)
  qed
qed

text \<open>The serial checkout from where the transaction stands.\<close>

definition rest_of :: "checkout_request \<Rightarrow> CheckoutLine list \<Rightarrow> event_item list \<Rightarrow> (db, CheckoutResult) action" where
  "rest_of req todo priced = (case req of (env, hook, input) \<Rightarrow>
     andThen (reserve todo priced) (\<lambda>priced.
     andThen (charge (order_total priced) (ci_userId input)) (\<lambda>charged.
     if charged = None then
       andThen (user_found (ci_userId input)) (\<lambda>found.
         throw (CheckoutError (if found then INSUFFICIENT_FUNDS else USER_NOT_FOUND) None))
     else record_sale env hook input priced)))"

definition serially :: "checkout_request \<Rightarrow> db \<Rightarrow> CheckoutResult result \<times> db" where
  "serially req d = (case req of (env, hook, input) \<Rightarrow> checkout env hook input d)"

definition closing :: "db \<Rightarrow> 'a result \<times> db \<Rightarrow> 'a result \<times> db" where
  "closing d out = (case out of (Inr x, d') \<Rightarrow> (Inr x, d') | (Inl e, d') \<Rightarrow> (Inl e, d\<lparr>seqs := seqs d'\<rparr>))"

lemma serially_rest:
  assumes "stock_ok d" and "progress_ok d req (Reserving taken todo priced)"
  shows "serially req d = closing d (rest_of req todo priced (own_stock taken d))"
proof -
  obtain env hook input where req: "req = (env, hook, input)" by (cases req)
  have v: "validateLines (ci_items input) = Inr (taken @ todo)"
    using assms(2) by (simp add: req validateLines_Inr)
  have "\<forall>l \<in> set taken. 0 < qty l" using assms(2) valid_done by (auto simp: req)
  then have "reserve taken [] d = (Inr priced, own_stock taken d)"
    using assms reserve_done by (simp add: req)
  then have "reserve (taken @ todo) [] d = reserve todo priced (own_stock taken d)"
    by (simp add: reserve_append andThen_def)
  then show ?thesis
    unfolding serially_def req checkout_def prod.case v sum.case transaction_def checkout_body_eq rest_of_def closing_def
    by (simp add: andThen_def)
qed

lemma closing_own [simp]: "closing d (Inl e, own_stock taken d) = (Inl e, d)"
  by (simp add: closing_def)

lemma rest_stop: "take_stock (qty l) (cl_productId l) d = (Inl e, d1) \<Longrightarrow>
    rest_of req (l # ls) priced d = (Inl e, d1)"
  by (simp add: rest_of_def reserve.simps(2) andThen_def split: prod.split)

lemma rest_missing:
  assumes "take_stock (qty l) (cl_productId l) d = (Inr None, d1)"
  shows "rest_of req (l # ls) priced d = (case product_found (cl_productId l) d1 of
     (Inl e, d2) \<Rightarrow> (Inl e, d2)
   | (Inr found, d2) \<Rightarrow> (Inl (CheckoutError (if found then OUT_OF_STOCK else PRODUCT_NOT_FOUND)
       (Some (cl_productId l))), d2))"
  using assms by (simp add: rest_of_def reserve.simps(2) andThen_def throw_def split: prod.split sum.split)

lemma missing_same: "take_stock q pid d = (Inr None, d1) \<Longrightarrow> d1 = d"
  by (auto simp: take_stock_Inr stock.hit_None)

lemma product_found_same: "product_found pid d = (r, d1) \<Longrightarrow> d1 = d"
  by (auto simp: product_found_def andThen_def lift_def bigint_param_def split: if_splits)

lemma user_found_same: "user_found uid d = (r, d1) \<Longrightarrow> d1 = d"
  by (auto simp: user_found_def andThen_def lift_def bigint_param_def split: if_splits)

lemma rest_charge_Inl: "charge (order_total priced) (ci_userId (snd (snd req))) d = (Inl e, d1) \<Longrightarrow>
    rest_of req [] priced d = (Inl e, d1)"
  by (cases req) (simp add: rest_of_def andThen_def return_def)

lemma rest_charge_None:
  assumes "charge (order_total priced) (ci_userId (snd (snd req))) d = (Inr None, d1)"
  shows "rest_of req [] priced d = (case user_found (ci_userId (snd (snd req))) d1 of
     (Inl e, d2) \<Rightarrow> (Inl e, d2)
   | (Inr found, d2) \<Rightarrow> (Inl (CheckoutError (if found then INSUFFICIENT_FUNDS else USER_NOT_FOUND) None), d2))"
  using assms by (cases req) (simp add: rest_of_def andThen_def return_def throw_def split: prod.split sum.split)

text \<open>Extending the prefix a transaction has reserved.\<close>

lemma reserved_snoc:
  assumes ok: "stock_ok d" and pos: "\<forall>x \<in> set (taken @ [l]). 0 < qty x" and res: "reserved taken priced d"
    and took: "take_stock (qty l) (cl_productId l) (own_stock taken d) = (Inr (Some price), d1)"
  shows "reserved (taken @ [l]) (priced @ [priced_item l price]) d"
proof -
  have "reserve taken [] d = (Inr priced, own_stock taken d)"
    using res pos reserve_done [OF ok] by simp
  then have "reserve (taken @ [l]) [] d = (Inr (priced @ [priced_item l price]), d1)"
    using took by (simp add: reserve_append andThen_def reserve.simps(2) priced_item_def return_def)
  then show ?thesis using reserve_done [OF ok pos] by simp
qed

lemma chargeable_iff:
  assumes "stock_ok d"
  shows "(\<exists>b d1. charge t uid (own_stock taken d) = (Inr (Some b), d1)) \<longleftrightarrow> chargeable t uid d"
    and "charge t uid (own_stock taken d) = (Inr (Some b), d1) \<Longrightarrow> d1 = own_balance t uid (own_stock taken d)"
  using charge_Some [of "own_stock taken d" t uid] stock_okD(2) [OF assms]
  by (auto simp: chargeable_def own_balance_def)

section \<open>The INSERTs one by one\<close>

text \<open>What the INSERTs rely on: priced lines of products there are, a buyer there is, and a total in range.\<close>

definition sale_ready :: "db \<Rightarrow> CheckoutInput \<Rightarrow> event_item list \<Rightarrow> bool" where
  "sale_ready d input priced \<longleftrightarrow> priced \<noteq> [] \<and> (\<forall>l \<in> set priced. 0 < ei_quantity l \<and> 0 < ei_unitPrice l \<and>
       num_of (ei_productId l) \<in> p_id ` set (products d)) \<and> num_of (ci_userId input) \<in> u_id ` set (users d) \<and>
     isId (ci_userId input) \<and> num_of (ci_userId input) \<le> int8_max \<and> 0 \<le> order_total priced \<and> order_total priced \<le> int4_max"

lemma own_sale_simps [simp]:
  "products (own_sale input taken priced own d) = take_demand taken (products d)"
  "u_id ` set (users (own_sale input taken priced own d)) = u_id ` set (users d)"
  "orders (own_sale input taken priced own d) = orders d @ ow_orders own"
  "orderItems (own_sale input taken priced own d) = orderItems d @ ow_items own"
  "jobs (own_sale input taken priced own d) = jobs d @ ow_jobs own"
  "outbox (own_sale input taken priced own d) = outbox d @ ow_outbox own"
  "seqs (own_sale input taken priced own d) = seqs d"
  by (simp_all add: own_sale_def own_balance_def)

lemma inserted_own [simp]:
  "inserted d (own_sale input taken priced own (d\<lparr>seqs := q\<rparr>)) = own" "inserted d (own_sale input taken priced own d) = own"
  by (simp_all add: inserted_def)

lemma sale_row_simps [simp]:
  "ow_orders (rows_until Ordering own) = []" "ow_orders no_rows = []" "ow_items no_rows = []" "ow_jobs no_rows = []"
  "ow_outbox no_rows = []"
  by (simp_all add: no_rows_def)

lemma ordering_statement:
  fixes env :: tx_env and taken :: "CheckoutLine list"
  assumes ready: "sale_ready d input priced" and q: "sq_order q = sq_order (seqs d)"
  defines "run \<equiv> insert_order (tx_now env) (ci_userId input) paid (order_total priced) (ci_idempotencyKey input)
     (own_sale input taken priced no_rows d)"
  shows "key_free env input d \<Longrightarrow> run = (Inr (hd (ow_orders (sale_rows env input priced q))),
      own_sale input taken priced (rows_until Listing (sale_rows env input priced q))
        (d\<lparr>seqs := (seqs d)\<lparr>sq_order := Suc (sq_order (seqs d))\<rparr>\<rparr>))"
    and "run = (Inr x, v) \<Longrightarrow> key_free env input d"
proof -
  let ?v = "own_sale input taken priced no_rows d"
  have fits: "isId (ci_userId input)" "num_of (ci_userId input) \<le> int8_max" "0 \<le> order_total priced"
    "order_total priced \<le> int4_max" "num_of (ci_userId input) \<in> u_id ` set (users ?v)"
    using ready by (simp_all add: sale_ready_def)
  show "key_free env input d" if "run = (Inr x, v)"
    using that unfolding run_def insert_order_Inr by (auto simp: key_free_def)
  assume "key_free env input d"
  then show "run = (Inr (hd (ow_orders (sale_rows env input priced q))),
      own_sale input taken priced (rows_until Listing (sale_rows env input priced q))
        (d\<lparr>seqs := (seqs d)\<lparr>sq_order := Suc (sq_order (seqs d))\<rparr>\<rparr>))"
    unfolding run_def insert_order_Inr using fits
    by (simp add: key_free_def sale_rows_def q own_sale_def own_balance_def own_stock_def no_rows_def)
qed

lemma listing_statement:
  assumes ready: "sale_ready d input priced" and q: "sq_item q = sq_item (seqs d)"
  shows "insert_items (sq_order q) priced (own_sale input taken priced (rows_until Listing (sale_rows env input priced q)) d) =
    (Inr (), own_sale input taken priced (rows_until Queueing (sale_rows env input priced q))
       (d\<lparr>seqs := (seqs d)\<lparr>sq_item := sq_item (seqs d) + length priced\<rparr>\<rparr>))"
proof -
  let ?v = "own_sale input taken priced (rows_until Listing (sale_rows env input priced q)) d"
  have "\<forall>l \<in> set priced. 0 < ei_quantity l \<and> 0 < ei_unitPrice l \<and> num_of (ei_productId l) \<in> p_id ` set (products ?v)"
    using ready by (simp add: sale_ready_def)
  moreover have "sq_order q \<in> o_id ` set (orders ?v)" by (simp add: sale_rows_def)
  ultimately have "insert_items (sq_order q) priced ?v = (Inr (), ?v\<lparr>orderItems := orderItems ?v @ item_rows (sq_item (seqs ?v)) (sq_order q) priced,
      seqs := (seqs ?v)\<lparr>sq_item := sq_item (seqs ?v) + length priced\<rparr>\<rparr>)" by (rule insert_items_Inr)
  then show ?thesis by (simp add: q sale_rows_def own_sale_def own_balance_def own_stock_def)
qed

lemma queueing_statement:
  assumes q: "sq_job q = sq_job (seqs d)"
  shows "insert_job (tx_now env) ''send_receipt'' (JObj [(''orderId'', JStr (dec (sq_order q)))])
      (own_sale input taken priced (rows_until Queueing (sale_rows env input priced q)) d) =
    (Inr (), own_sale input taken priced (rows_until Announcing (sale_rows env input priced q))
       (d\<lparr>seqs := (seqs d)\<lparr>sq_job := Suc (sq_job (seqs d))\<rparr>\<rparr>))"
  by (simp add: insert_job_def q sale_rows_def own_sale_def own_balance_def own_stock_def)

lemma announcing_statement:
  "insert_outbox (tx_now env) (tx_uuid env) ORDER_AGGREGATE_TYPE (dec (sq_order q))
      (toOrderPlacedEvent \<lparr>os_id = dec (sq_order q), os_userId = ci_userId input, os_total = order_total priced,
         os_createdAt = tx_now env div 1000, os_items = priced\<rparr>)
      (own_sale input taken priced (rows_until Announcing (sale_rows env input priced q)) d) =
    (if tx_uuid env \<in> x_id ` set (outbox d)
     then (Inl (violation ''23505'' ''PK_340ab539f309f03bdaa14aa7649''),
       own_sale input taken priced (rows_until Announcing (sale_rows env input priced q)) d)
     else (Inr (), own_sale input taken priced (sale_rows env input priced q) d))"
proof -
  have "list_ex (\<lambda>x. x_id x = tx_uuid env) (outbox d) \<longleftrightarrow> tx_uuid env \<in> x_id ` set (outbox d)"
    by (auto simp: list_ex_iff)
  then show ?thesis
    by (simp add: insert_outbox_def sale_rows_def own_sale_def own_balance_def own_stock_def
        toOrderPlacedEvent_def)
qed

section \<open>The serial checkout from the charge on\<close>

text \<open>Once the key is free, only the id in \<open>outbox\<close> and the hook can stop it.\<close>

lemma record_sale_at:
  assumes ready: "sale_ready d input priced" and free: "key_free env input d"
  shows "fst (record_sale env hook input priced (own_sale input taken priced no_rows d)) =
      (if tx_uuid env \<in> x_id ` set (outbox d) then Inl (violation ''23505'' ''PK_340ab539f309f03bdaa14aa7649'')
       else case hook of Some e \<Rightarrow> Inl e
         | None \<Rightarrow> Inr \<lparr>cr_orderId = dec (sq_order (seqs d)), cr_total = order_total priced\<rparr>)"
    and "tx_uuid env \<notin> x_id ` set (outbox d) \<Longrightarrow> \<exists>q. snd (record_sale env hook input priced (own_sale input taken priced no_rows d)) =
      own_sale input taken priced (sale_rows env input priced (seqs d)) (d\<lparr>seqs := q\<rparr>)"
proof -
  let ?R = "sale_rows env input priced (seqs d)"
  let ?d1 = "d\<lparr>seqs := (seqs d)\<lparr>sq_order := Suc (sq_order (seqs d))\<rparr>\<rparr>"
  let ?d2 = "?d1\<lparr>seqs := (seqs ?d1)\<lparr>sq_item := sq_item (seqs ?d1) + length priced\<rparr>\<rparr>"
  let ?d3 = "?d2\<lparr>seqs := (seqs ?d2)\<lparr>sq_job := Suc (sq_job (seqs ?d2))\<rparr>\<rparr>"
  have row: "o_id (hd (ow_orders ?R)) = sq_order (seqs d)" "o_createdAt (hd (ow_orders ?R)) = tx_now env"
    by (simp_all add: sale_rows_def)
  note one = ordering_statement(1) [OF ready refl free, of taken]
  have ready1: "sale_ready ?d1 input priced" using ready by (simp add: sale_ready_def)
  have two: "insert_items (sq_order (seqs d)) priced (own_sale input taken priced (rows_until Listing ?R) ?d1) =
      (Inr (), own_sale input taken priced (rows_until Queueing ?R) ?d2)"
    by (rule listing_statement [OF ready1]) simp
  have three: "insert_job (tx_now env) ''send_receipt'' (JObj [(''orderId'', JStr (dec (sq_order (seqs d))))])
      (own_sale input taken priced (rows_until Queueing ?R) ?d2) =
      (Inr (), own_sale input taken priced (rows_until Announcing ?R) ?d3)"
    by (rule queueing_statement) simp
  have four: "insert_outbox (tx_now env) (tx_uuid env) ORDER_AGGREGATE_TYPE (dec (sq_order (seqs d)))
      (toOrderPlacedEvent \<lparr>os_id = dec (sq_order (seqs d)), os_userId = ci_userId input, os_total = order_total priced,
         os_createdAt = tx_now env div 1000, os_items = priced\<rparr>)
      (own_sale input taken priced (rows_until Announcing ?R) ?d3) =
    (if tx_uuid env \<in> x_id ` set (outbox d)
     then (Inl (violation ''23505'' ''PK_340ab539f309f03bdaa14aa7649''),
       own_sale input taken priced (rows_until Announcing ?R) ?d3)
     else (Inr (), own_sale input taken priced ?R ?d3))"
    unfolding announcing_statement by simp
  have run: "record_sale env hook input priced (own_sale input taken priced no_rows d) =
      (if tx_uuid env \<in> x_id ` set (outbox d)
       then (Inl (violation ''23505'' ''PK_340ab539f309f03bdaa14aa7649''), own_sale input taken priced (rows_until Announcing ?R) ?d3)
       else case hook of Some e \<Rightarrow> (Inl e, own_sale input taken priced ?R ?d3)
         | None \<Rightarrow> (Inr \<lparr>cr_orderId = dec (sq_order (seqs d)), cr_total = order_total priced\<rparr>, own_sale input taken priced ?R ?d3))"
    unfolding record_sale_def andThen_def one prod.case sum.case row two three four
    by (simp add: throw_def return_def split: option.split)
  show "fst (record_sale env hook input priced (own_sale input taken priced no_rows d)) =
      (if tx_uuid env \<in> x_id ` set (outbox d) then Inl (violation ''23505'' ''PK_340ab539f309f03bdaa14aa7649'')
       else case hook of Some e \<Rightarrow> Inl e
         | None \<Rightarrow> Inr \<lparr>cr_orderId = dec (sq_order (seqs d)), cr_total = order_total priced\<rparr>)"
    unfolding run by (simp split: option.split)
  assume "tx_uuid env \<notin> x_id ` set (outbox d)"
  then show "\<exists>q. snd (record_sale env hook input priced (own_sale input taken priced no_rows d)) =
      own_sale input taken priced ?R (d\<lparr>seqs := q\<rparr>)"
    unfolding run by (intro exI [of _ "seqs ?d3"]) (simp split: option.split)
qed

lemma own_sale_start: "own_sale input taken priced no_rows d = own_balance (order_total priced) (ci_userId input) (own_stock taken d)"
  by (simp add: own_sale_def own_balance_def own_stock_def no_rows_def)

lemma own_sale_seqs: "own_sale input taken priced own (d\<lparr>seqs := q\<rparr>) = (own_sale input taken priced own d)\<lparr>seqs := q\<rparr>"
  by (simp add: own_sale_def own_balance_def own_stock_def)

lemma recording_ready:
  assumes ok: "stock_ok d" and prog: "progress_ok d (env, hook, input) (Recording at taken priced own)"
  shows "sale_ready d input priced"
proof -
  have val: "valid_lines (ci_items input)" and res: "reservable (ci_items input) (products d)"
    and priced: "priced = map (priced_line (products d)) (sorted_lines (ci_items input))"
    and pay: "chargeable (order_total priced) (ci_userId input) d"
    using prog unfolding progress_ok.simps reserved_def by auto
  have "0 \<le> order_total priced" using amount_nonneg_stock [OF ok val res] by (simp add: priced)
  moreover have "num_of (ci_userId input) \<in> u_id ` set (users d)"
    using pay unfolding chargeable_def level_hit_def by (metis imageI)
  moreover have "priced \<noteq> []" unfolding priced using val by (metis length_0_conv length_map length_sorted_lines valid_lines_def)
  ultimately show ?thesis
    using new_priced_ok_stock [OF ok val res, folded priced] pay by (simp add: sale_ready_def chargeable_def)
qed

lemma serially_recording:
  assumes ok: "stock_ok d" and prog: "progress_ok d (env, hook, input) (Recording at taken priced own)"
  shows "serially (env, hook, input) (d\<lparr>seqs := q\<rparr>) =
    closing (d\<lparr>seqs := q\<rparr>) (record_sale env hook input priced (own_sale input taken priced no_rows (d\<lparr>seqs := q\<rparr>)))"
proof -
  let ?d = "d\<lparr>seqs := q\<rparr>"
  have prog': "progress_ok ?d (env, hook, input) (Reserving taken [] priced)"
    and pay: "chargeable (order_total priced) (ci_userId input) ?d"
    using prog by (auto simp: reserved_def chargeable_def)
  have ok': "stock_ok ?d" using ok by simp
  obtain b d1 where ch: "charge (order_total priced) (ci_userId input) (own_stock taken ?d) = (Inr (Some b), d1)"
    using chargeable_iff(1) [OF ok'] pay by blast
  have "d1 = own_sale input taken priced no_rows ?d" using chargeable_iff(2) [OF ok' ch] by (simp only: own_sale_start)
  with ch serially_rest [OF ok' prog'] show ?thesis by (simp add: rest_of_def andThen_def return_def)
qed

text \<open>The identity values a transaction has drawn give back its rows.\<close>

lemma drawn_rows:
  assumes "priced \<noteq> []" and "own = rows_until at (sale_rows env input priced q)" and "at = Announcing \<or> at = Committing"
  shows "sale_rows env input priced (drawn own q') = sale_rows env input priced q"
    and "sq_order (drawn own q') = sq_order q"
  using assms by (cases priced; auto simp: drawn_def first_of_def sale_rows_def)+

section \<open>One statement\<close>

text \<open>
  Either the transaction goes on, or it ends as the serial checkout that draws the same identity values
  would now, except where the sequences stand.
\<close>

definition ends_serially :: "checkout_request \<Rightarrow> db \<Rightarrow> checkout_phase \<Rightarrow> CheckoutResult result \<Rightarrow> db \<Rightarrow> bool" where
  "ends_serially req d ph r d' \<longleftrightarrow>
     (\<exists>d''. serially req (d\<lparr>seqs := draws ph (seqs d)\<rparr>) = (r, d'') \<and> d' = d''\<lparr>seqs := seqs d'\<rparr>)"

definition goes_on :: "checkout_request \<Rightarrow> db \<Rightarrow> checkout_phase \<Rightarrow> db \<Rightarrow> bool" where
  "goes_on req d ph' d' \<longleftrightarrow> \<not> finished ph' \<and> d' = d\<lparr>seqs := seqs d'\<rparr> \<and> progress_ok d req ph'"

lemma ends_seriallyI: "draws ph (seqs d) = seqs d \<Longrightarrow> serially req d = (r, d') \<Longrightarrow> ends_serially req d ph r d'"
  by (simp add: ends_serially_def)

lemma goes_onI: "\<not> finished ph' \<Longrightarrow> progress_ok d req ph' \<Longrightarrow> goes_on req d ph' d"
  by (simp add: goes_on_def)

lemma advance_waiting:
  assumes "advance req d Waiting = (ph', d')"
  shows "(\<exists>r. ph' = Finished r \<and> ends_serially req d Waiting r d') \<or> goes_on req d ph' d'"
proof -
  obtain env hook input where req: "req = (env, hook, input)" by (cases req)
  show ?thesis
  proof (cases "validateLines (ci_items input)")
    case (Inl e)
    with assms have "ph' = Finished (Inl e)" "serially req d = (Inl e, d')" by (auto simp: req serially_def checkout_def)
    then show ?thesis using ends_seriallyI [of Waiting d req] by simp
  next
    case (Inr lines)
    with assms show ?thesis
      by (auto simp: req validateLines_Inr reserved_def reservable_def intro!: goes_onI)
  qed
qed

lemma advance_reserving:
  assumes ok: "stock_ok d" and prog: "progress_ok d req (Reserving taken todo priced)"
    and adv: "advance req d (Reserving taken todo priced) = (ph', d')"
  shows "(\<exists>r. ph' = Finished r \<and> ends_serially req d (Reserving taken todo priced) r d') \<or> goes_on req d ph' d'"
proof -
  obtain env hook input where req: "req = (env, hook, input)" by (cases req)
  note serial = serially_rest [OF ok prog]
  note fin = ends_seriallyI [of "Reserving taken todo priced" d req]
  show ?thesis
  proof (cases todo)
    case Nil
    obtain c d1 where ch: "charge (order_total priced) (ci_userId input) (own_stock taken d) = (c, d1)" by fastforce
    consider (err) e where "c = Inl e" | (none) "c = Inr None" | (some) b where "c = Inr (Some b)"
      by (metis not_Some_eq sum.exhaust)
    then show ?thesis
    proof cases
      case err
      with ch have "d1 = own_stock taken d" using charge_Inl by blast
      with serial ch err adv fin show ?thesis
        by (auto simp: Nil req rest_charge_Inl)
    next
      case none
      with ch have d1: "d1 = own_stock taken d" using charge_None by blast
      obtain f d2 where uf: "user_found (ci_userId input) (own_stock taken d) = (f, d2)" by fastforce
      with user_found_same have "d2 = own_stock taken d" by blast
      with serial ch none d1 uf adv fin show ?thesis
        by (cases f) (auto simp: Nil req rest_charge_None)
    next
      case some
      then have "chargeable (order_total priced) (ci_userId input) d"
        using ch chargeable_iff(1) [OF ok] by blast
      moreover have "rows_ok d env input Ordering priced no_rows" by (simp add: rows_ok_def)
      ultimately show ?thesis using some ch adv prog by (auto simp: Nil req intro!: goes_onI)
    qed
  next
    case (Cons l ls)
    obtain c d1 where ts: "take_stock (qty l) (cl_productId l) (own_stock taken d) = (c, d1)" by fastforce
    consider (err) e where "c = Inl e" | (none) "c = Inr None" | (some) price where "c = Inr (Some price)"
      by (metis not_Some_eq sum.exhaust)
    then show ?thesis
    proof cases
      case err
      with ts have "d1 = own_stock taken d" using take_stock_Inl by blast
      with serial ts err adv fin show ?thesis
        by (auto simp: Cons req rest_stop)
    next
      case none
      with ts have d1: "d1 = own_stock taken d" using missing_same by blast
      obtain f d2 where pf: "product_found (cl_productId l) (own_stock taken d) = (f, d2)" by fastforce
      with product_found_same have "d2 = own_stock taken d" by blast
      with serial ts none d1 pf adv fin show ?thesis
        by (cases f) (auto simp: Cons req rest_missing)
    next
      case some
      have "(taken @ [l]) @ ls = sorted_lines (ci_items input)" and valid: "valid_lines (ci_items input)"
        using prog by (simp_all add: Cons req)
      then have "\<forall>x \<in> set (taken @ [l]). 0 < qty x" using valid_done [OF valid] by blast
      moreover have "reserved taken priced d" using prog by (simp add: req)
      ultimately have "reserved (taken @ [l]) (priced @ [priced_item l price]) d"
        using reserved_snoc [OF ok] ts some by blast
      with some ts adv prog show ?thesis
        by (auto simp: Cons req intro!: goes_onI)
    qed
  qed
qed

lemma advance_recording:
  assumes ok: "stock_ok d" and prog: "progress_ok d req (Recording at taken priced own)"
    and adv: "advance req d (Recording at taken priced own) = (ph', d')"
  shows "(\<exists>r. ph' = Finished r \<and> ends_serially req d (Recording at taken priced own) r d') \<or> goes_on req d ph' d'"
proof -
  obtain env hook input where req: "req = (env, hook, input)" by (cases req)
  let ?view = "own_sale input taken priced own d"
  note prog = prog [unfolded req]
  note ready = recording_ready [OF ok prog]
  have priced: "priced \<noteq> []" using ready by (simp add: sale_ready_def)
  have rows: "rows_ok d env input at priced own" using prog by simp
  then obtain q where own: "own = rows_until at (sale_rows env input priced q)" by (auto simp: rows_ok_def)
  have progI: "progress_ok d req (Recording at' taken priced own')" if "rows_ok d env input at' priced own'" for at' own'
    using prog that unfolding req progress_ok.simps by blast
  let ?q = "drawn own (seqs d)"
  note serial = serially_recording [OF ok prog, of ?q]
  have ready': "sale_ready (d\<lparr>seqs := ?q\<rparr>) input priced" using ready by (simp add: sale_ready_def)
  show ?thesis
  proof (cases at)
    case Ordering
    then have own: "own = no_rows" using own by simp
    then have q: "d\<lparr>seqs := ?q\<rparr> = d" by (simp add: drawn_def first_of_def)
    obtain r v where run: "insert_order (tx_now env) (ci_userId input) paid (order_total priced) (ci_idempotencyKey input)
        (own_sale input taken priced no_rows d) = (r, v)" by fastforce
    show ?thesis
    proof (cases r)
      case (Inl e)
      with run have "record_sale env hook input priced (own_sale input taken priced no_rows d) = (Inl e, v)"
        by (simp add: record_sale_def andThen_def)
      then have "serially req d = (Inl e, d\<lparr>seqs := seqs v\<rparr>)" using serial unfolding q req by (simp add: closing_def)
      with adv run Inl show ?thesis unfolding Ordering req own
        by (simp add: andThen_def) (auto simp: ends_serially_def drawn_def first_of_def)
    next
      case (Inr x)
      then have free: "key_free env input d" using ordering_statement(2) [OF ready refl] run by blast
      note ran = ordering_statement(1) [OF ready refl free, of taken]
      have "rows_ok d env input Listing priced (rows_until Listing (sale_rows env input priced (seqs d)))"
        using free by (auto simp: rows_ok_def)
      note next_ok = progI [OF this]
      with adv ran show ?thesis unfolding Ordering req own
        by (auto simp: andThen_def return_def goes_on_def req)
    qed
  next
    case Listing
    have free: "key_free env input d" using rows Listing by (simp add: rows_ok_def)
    let ?q' = "q\<lparr>sq_item := sq_item (seqs d)\<rparr>"
    have own': "own = rows_until Listing (sale_rows env input priced ?q')" "o_id (own_order own) = sq_order ?q'"
      using own Listing by (simp_all add: sale_rows_def)
    have "insert_items (sq_order ?q') priced ?view = (Inr (), own_sale input taken priced
        (rows_until Queueing (sale_rows env input priced ?q')) (d\<lparr>seqs := (seqs d)\<lparr>sq_item := sq_item (seqs d) + length priced\<rparr>\<rparr>))"
      unfolding own'(1) by (rule listing_statement [OF ready]) simp
    moreover have "rows_ok d env input Queueing priced (rows_until Queueing (sale_rows env input priced ?q'))"
      using free by (auto simp: rows_ok_def)
    note progI [OF this]
    ultimately show ?thesis using adv own'(2) unfolding Listing req
      by (auto simp: goes_on_def req)
  next
    case Queueing
    have free: "key_free env input d" using rows Queueing by (simp add: rows_ok_def)
    let ?q' = "q\<lparr>sq_job := sq_job (seqs d)\<rparr>"
    have own': "own = rows_until Queueing (sale_rows env input priced ?q')" "o_id (own_order own) = sq_order ?q'"
      using own Queueing by (simp_all add: sale_rows_def)
    have "insert_job (tx_now env) ''send_receipt'' (JObj [(''orderId'', JStr (dec (sq_order ?q')))]) ?view =
        (Inr (), own_sale input taken priced (rows_until Announcing (sale_rows env input priced ?q'))
          (d\<lparr>seqs := (seqs d)\<lparr>sq_job := Suc (sq_job (seqs d))\<rparr>\<rparr>))"
      unfolding own'(1) by (rule queueing_statement) simp
    moreover have "rows_ok d env input Announcing priced (rows_until Announcing (sale_rows env input priced ?q'))"
      using free by (auto simp: rows_ok_def)
    note progI [OF this]
    ultimately show ?thesis using adv own'(2) unfolding Queueing req
      by (auto simp: goes_on_def req)
  next
    case Announcing
    have free: "key_free env input d" using rows Announcing by (simp add: rows_ok_def)
    note same = drawn_rows [OF priced own, of "seqs d"]
    have own': "own = rows_until Announcing (sale_rows env input priced q)" "o_id (own_order own) = sq_order q"
      "o_createdAt (own_order own) = tx_now env" using own Announcing by (simp_all add: sale_rows_def)
    note stmt = announcing_statement [of env q input priced taken d, folded own'(1)]
    show ?thesis
    proof (cases "tx_uuid env \<in> x_id ` set (outbox d)")
      case True
      have "key_free env input (d\<lparr>seqs := ?q\<rparr>)" using free by (simp add: key_free_def)
      from record_sale_at(1) [OF ready' this, of hook taken] True
      have "fst (record_sale env hook input priced (own_sale input taken priced no_rows (d\<lparr>seqs := ?q\<rparr>))) =
          Inl (violation ''23505'' ''PK_340ab539f309f03bdaa14aa7649'')" by simp
      then obtain v where "record_sale env hook input priced (own_sale input taken priced no_rows (d\<lparr>seqs := ?q\<rparr>)) =
          (Inl (violation ''23505'' ''PK_340ab539f309f03bdaa14aa7649''), v)" by (metis prod.collapse)
      with serial have "serially req (d\<lparr>seqs := ?q\<rparr>) = (Inl (violation ''23505'' ''PK_340ab539f309f03bdaa14aa7649''),
          d\<lparr>seqs := seqs v\<rparr>)" by (simp add: closing_def req)
      with adv stmt True own' show ?thesis unfolding Announcing req
        by (auto simp: ends_serially_def)
    next
      case False
      have "rows_ok d env input Committing priced (sale_rows env input priced q)"
        using free False by (auto simp: rows_ok_def)
      note progI [OF this]
      with adv stmt False own' show ?thesis unfolding Announcing req by (auto simp: goes_on_def req)
    qed
  next
    case Committing
    have free: "key_free env input d" and uuid: "tx_uuid env \<notin> x_id ` set (outbox d)"
      using rows Committing by (simp_all add: rows_ok_def)
    have own': "own = sale_rows env input priced q" using own Committing by simp
    note same = drawn_rows [OF priced own disjI2 [OF Committing], of "seqs d"]
    have oid: "o_id (own_order own) = sq_order q" by (simp add: own' sale_rows_def)
    have free': "key_free env input (d\<lparr>seqs := ?q\<rparr>)" and uuid': "tx_uuid env \<notin> x_id ` set (outbox (d\<lparr>seqs := ?q\<rparr>))"
      using free uuid by (simp_all add: key_free_def)
    note run = record_sale_at [OF ready' free', of hook taken]
    obtain x where view: "snd (record_sale env hook input priced (own_sale input taken priced no_rows (d\<lparr>seqs := ?q\<rparr>))) =
        own_sale input taken priced own (d\<lparr>seqs := x\<rparr>)" using run(2) [OF uuid'] same(1) by (auto simp: own')
    show ?thesis
    proof (cases hook)
      case None
      with run(1) uuid' same(2) view have "record_sale env hook input priced (own_sale input taken priced no_rows (d\<lparr>seqs := ?q\<rparr>)) =
          (Inr \<lparr>cr_orderId = dec (sq_order q), cr_total = order_total priced\<rparr>, own_sale input taken priced own (d\<lparr>seqs := x\<rparr>))"
        by (simp add: prod_eq_iff)
      with serial have "serially req (d\<lparr>seqs := ?q\<rparr>) = (Inr \<lparr>cr_orderId = dec (sq_order q), cr_total = order_total priced\<rparr>,
          (own_sale input taken priced own d)\<lparr>seqs := x\<rparr>)" by (simp add: closing_def req own_sale_seqs)
      with adv None oid show ?thesis unfolding Committing req by (auto simp: ends_serially_def)
    next
      case (Some e)
      with run(1) uuid' view have "record_sale env hook input priced (own_sale input taken priced no_rows (d\<lparr>seqs := ?q\<rparr>)) =
          (Inl e, own_sale input taken priced own (d\<lparr>seqs := x\<rparr>))"
        by (simp add: prod_eq_iff)
      with serial have "serially req (d\<lparr>seqs := ?q\<rparr>) = (Inl e, d\<lparr>seqs := x\<rparr>)" by (simp add: closing_def req)
      with adv Some show ?thesis unfolding Committing req by (auto simp: ends_serially_def)
    qed
  qed
qed

lemma advance_serial:
  assumes ok: "stock_ok d" and prog: "progress_ok d req ph" and go: "\<not> finished ph" and adv: "advance req d ph = (ph', d')"
  shows "(\<exists>r. ph' = Finished r \<and> ends_serially req d ph r d') \<or> goes_on req d ph' d'"
proof (cases ph)
  case Waiting
  with advance_waiting adv show ?thesis by simp
next
  case (Reserving taken todo priced)
  with advance_reserving [OF ok] prog adv show ?thesis by blast
next
  case (Recording at taken priced own)
  with advance_recording [OF ok] prog adv show ?thesis by blast
qed (use go in simp)

end
