(* ===== verification/Checkout_Concurrent_Theorems.thy ===== *)
theory Checkout_Concurrent_Theorems
  imports Checkout_Statements
begin

text \<open>
  Any number of concurrent checkouts: the invariant of the pool, its serializability in the order the
  transactions end, the absence of deadlocks while locks are taken in ascending order, and a bound on
  every run.
\<close>

section \<open>Other transactions do not disturb it\<close>

lemma price_of_take [simp]: "price_of (take_demand ls ps) k = price_of ps k"
  unfolding price_of_def take_demand_def by (induction ps) auto

lemma product_rows_sorted [simp]: "product_rows (sorted_lines items) = product_rows items"
  by (simp add: product_rows_def)

lemma reserved_disjoint:
  assumes "product_rows xs \<inter> product_rows ys = {}" and "products d' = take_demand ys (products d)"
  shows "reserved xs pr d' \<longleftrightarrow> reserved xs pr d"
proof -
  have zero: "demand ys (num_of (cl_productId l)) = 0" if "l \<in> set xs" for l
    using assms(1) that by (intro demand_zero) (auto simp: product_rows_def)
  have "covered xs (take_demand ys (products d)) l \<longleftrightarrow> covered xs (products d) l" if "l \<in> set xs" for l
  proof -
    have "covered xs (take_demand ys (products d)) l \<longleftrightarrow> (\<exists>p \<in> set (products d). p_id p = num_of (cl_productId l) \<and>
        demand xs (p_id p) \<le> p_stock p - demand ys (p_id p))"
      unfolding covered_def take_demand_def set_map bex_simps by simp
    also have "\<dots> \<longleftrightarrow> covered xs (products d) l"
      unfolding covered_def using zero [OF that] by (intro bex_cong refl) auto
    finally show ?thesis .
  qed
  then show ?thesis by (simp add: reserved_def reservable_def assms(2) priced_line_def [abs_def])
qed

lemma chargeable_other:
  assumes "k \<noteq> num_of uid" and "users d' = lower_row u_id lower_balance k t (users d)"
  shows "chargeable a uid d' \<longleftrightarrow> chargeable a uid d"
proof -
  have "(\<exists>u \<in> set (lower_row u_id lower_balance k t (users d)). level_hit u_id u_balance (num_of uid) a u) \<longleftrightarrow>
      (\<exists>u \<in> set (users d). level_hit u_id u_balance (num_of uid) a u)"
    unfolding lower_row_def set_map bex_simps using assms(1) by (intro bex_cong refl) (auto simp: level_hit_def lower_balance_def)
  then show ?thesis by (simp add: chargeable_def assms(2))
qed

lemma progress_seqs [simp]: "progress_ok (d\<lparr>seqs := q\<rparr>) req ph \<longleftrightarrow> progress_ok d req ph"
  by (cases "(d, req, ph)" rule: progress_ok.cases) (simp_all add: reserved_def chargeable_def rows_ok_def key_free_def)

text \<open>What a COMMIT does to the tables the others read.\<close>

lemma commit_tables:
  assumes ok: "stock_ok d" and prog: "progress_ok d (env, hook, input) (Recording Committing taken priced own)"
  shows "checkout_allowed env input d"
    and "own_sale input taken priced own d =
      (checkout_effect env input (d\<lparr>seqs := drawn own (seqs d)\<rparr>))\<lparr>seqs := seqs d\<rparr>"
    and "\<exists>q. own = sale_rows env input priced q"
proof -
  have val: "valid_lines (ci_items input)" and res: "reservable (ci_items input) (products d)" and taken: "taken = sorted_lines (ci_items input)"
    and priced: "priced = map (priced_line (products d)) (sorted_lines (ci_items input))"
    and pay: "chargeable (order_total priced) (ci_userId input) d" and rows: "rows_ok d env input Committing priced own"
    using prog unfolding progress_ok.simps reserved_def by auto
  have total: "order_total priced = amount_of (ci_items input) (products d)" by (simp add: priced)
  from rows obtain q where own: "own = sale_rows env input priced q" by (auto simp: rows_ok_def)
  then show "\<exists>q. own = sale_rows env input priced q" ..
  show "checkout_allowed env input d"
    using val res pay rows by (simp add: checkout_allowed_def can_pay_def chargeable_def total rows_ok_def)
  have "priced \<noteq> []" using recording_ready [OF ok prog] by (simp add: sale_ready_def)
  from drawn_rows [OF this, of own Committing env input q "seqs d"]
  have same: "own = sale_rows env input priced (drawn own (seqs d))" using own by simp
  show "own_sale input taken priced own d =
      (checkout_effect env input (d\<lparr>seqs := drawn own (seqs d)\<rparr>))\<lparr>seqs := seqs d\<rparr>"
    by (subst same)
      (simp add: own_sale_def own_balance_def own_stock_def checkout_effect_def taken total sale_rows_def new_order_def
        new_items_def new_job_def new_outbox_def new_event_def new_priced_def ORDER_AGGREGATE_TYPE_def ORDER_PLACED_TYPE_def
        flip: priced)
qed

lemma progress_commit:
  assumes ok: "stock_ok d" and mine: "progress_ok d (env, hook, input) (Recording Committing taken pr own)"
    and prog: "progress_ok d req ph" and free: "holds req ph \<inter> holds (env, hook, input) (Recording Committing taken pr own) = {}"
  shows "progress_ok (own_sale input taken pr own d) req ph"
proof -
  let ?d = "own_sale input taken pr own d"
  obtain env2 hook2 input2 where req: "req = (env2, hook2, input2)" by (cases req)
  note c = commit_tables [OF ok mine]
  have taken: "product_rows taken = product_rows (ci_items input)" using mine by auto
  have eff: "products ?d = take_demand (ci_items input) (products d)"
    "users ?d = lower_row u_id lower_balance (num_of (ci_userId input)) (amount_of (ci_items input) (products d)) (users d)"
    by (simp_all add: c(2))
  show ?thesis
  proof (cases ph)
    case (Reserving xs todo priced)
    have "product_rows xs \<inter> product_rows (ci_items input) = {}"
      using free taken by (auto simp: Reserving req)
    from reserved_disjoint [OF this eff(1)] prog show ?thesis by (simp add: Reserving req)
  next
    case (Recording at xs priced rows)
    have "product_rows xs \<inter> product_rows (ci_items input) = {}"
      and user: "num_of (ci_userId input) \<noteq> num_of (ci_userId input2)"
      and uuid: "at = Committing \<Longrightarrow> tx_uuid env2 \<noteq> tx_uuid env"
      using free taken by (auto simp: Recording req)
    note same = reserved_disjoint [OF this(1) eff(1)] chargeable_other [OF user eff(2)]
    obtain q where own: "own = sale_rows env input pr q" using c(3) by blast
    have "rows_ok ?d env2 input2 at priced rows"
      using prog user uuid by (auto simp: Recording req rows_ok_def key_free_def own sale_rows_def)
    with same prog show ?thesis unfolding Recording req progress_ok.simps by blast
  qed (simp_all add: req)
qed

text \<open>Only a COMMIT changes more than the sequences.\<close>

lemma seqs_insert_statement: "steps_by seqs_le (insert_statement env input priced own at)"
  by (cases at) (auto intro!: seqs_steps seqs_insert_order seqs_insert_items seqs_insert_job seqs_insert_outbox)

lemma advance_effect:
  assumes "advance (env, hook, input) d ph = (ph', d')"
  shows "(d' = d\<lparr>seqs := seqs d'\<rparr> \<and> seqs_le d d') \<or>
    (\<exists>taken pr own. ph = Recording Committing taken pr own \<and> d' = own_sale input taken pr own d)"
proof -
  have refl: "seqs_le d d" by (simp add: seqs_le_def)
  show ?thesis
  proof (cases ph)
    case (Reserving taken todo priced)
    with assms refl show ?thesis by (cases todo) (auto split: sum.splits option.splits)
  next
    case (Recording at taken priced own)
    show ?thesis
    proof (cases "at = Committing")
      case True
      with assms Recording refl show ?thesis by (auto split: option.splits)
    next
      case False
      obtain r view where st: "insert_statement env input priced own at (own_sale input taken priced own d) = (r, view)" by fastforce
      then have "seqs_le (own_sale input taken priced own d) view"
        using seqs_insert_statement unfolding steps_by_def by (metis snd_conv)
      with False assms Recording st show ?thesis by (auto simp: seqs_le_def split: sum.splits)
    qed
  qed (use assms refl in \<open>auto split: sum.splits\<close>)
qed

section \<open>Identity values\<close>

text \<open>
  The values of the identity sequences: which are in the committed tables, which a transaction has drawn
  and not yet committed, and which are below the sequences, so that no transaction will draw them again.
\<close>

datatype drawn_id = order_id nat | item_id nat | job_id nat

definition ids_of :: "Order list \<Rightarrow> OrderItem list \<Rightarrow> Job list \<Rightarrow> drawn_id set" where
  "ids_of os is js = order_id ` o_id ` set os \<union> item_id ` i_id ` set is \<union> job_id ` j_id ` set js"

abbreviation committed_ids :: "db \<Rightarrow> drawn_id set" where
  "committed_ids d \<equiv> ids_of (orders d) (orderItems d) (jobs d)"

fun own_ids :: "checkout_request \<Rightarrow> checkout_phase \<Rightarrow> drawn_id set" where
  "own_ids req (Recording at taken priced own) = ids_of (ow_orders own) (ow_items own) (ow_jobs own)"
| "own_ids req ph = {}"

fun below_seqs :: "sequences \<Rightarrow> drawn_id \<Rightarrow> bool" where
  "below_seqs q (order_id k) \<longleftrightarrow> k < sq_order q"
| "below_seqs q (item_id k) \<longleftrightarrow> k < sq_item q"
| "below_seqs q (job_id k) \<longleftrightarrow> k < sq_job q"

lemma ids_of_append: "ids_of (os @ os') (is @ is') (js @ js') = ids_of os is js \<union> ids_of os' is' js'"
  by (auto simp: ids_of_def)

lemma in_ids_of [simp]:
  "order_id k \<in> ids_of os is js \<longleftrightarrow> k \<in> o_id ` set os" "item_id k \<in> ids_of os is js \<longleftrightarrow> k \<in> i_id ` set is"
  "job_id k \<in> ids_of os is js \<longleftrightarrow> k \<in> j_id ` set js"
  by (auto simp: ids_of_def)

lemma below_seqs_le: "seqs_le d d' \<Longrightarrow> below_seqs (seqs d) x \<Longrightarrow> below_seqs (seqs d') x"
  by (cases x) (auto simp: seqs_le_def)

lemma committed_seqs: "d' = d\<lparr>seqs := q\<rparr> \<Longrightarrow> committed_ids d' = committed_ids d"
  by simp

lemma committed_below: "db_ok d \<Longrightarrow> x \<in> committed_ids d \<Longrightarrow> below_seqs (seqs d) x"
  by (auto simp: ids_of_def db_ok_def sequences_ok_def below_def)

text \<open>An INSERT draws values no one has drawn.\<close>

definition newly_drawn :: "db \<Rightarrow> db \<Rightarrow> drawn_id set" where
  "newly_drawn d d' = {x. \<not> below_seqs (seqs d) x \<and> below_seqs (seqs d') x}"

lemma insert_statement_ids:
  assumes "insert_statement env input priced own at v = (Inr x, v')"
  shows "\<exists>os is js xs. orders v' = orders v @ os \<and> orderItems v' = orderItems v @ is \<and> jobs v' = jobs v @ js \<and>
    outbox v' = outbox v @ xs \<and> ids_of os is js \<subseteq> newly_drawn v v'"
proof (cases at)
  case Ordering
  with assms obtain r where "v' = v\<lparr>orders := orders v @ [r], seqs := (seqs v)\<lparr>sq_order := Suc (sq_order (seqs v))\<rparr>\<rparr>"
    "o_id r = sq_order (seqs v)" by (auto simp: insert_order_Inr)
  then show ?thesis
    by (intro exI [of _ "[r]"] exI [of _ "[]"]) (auto simp: ids_of_def newly_drawn_def)
next
  case Listing
  let ?rows = "item_rows (sq_item (seqs v)) (o_id (own_order own)) priced"
  have v': "v' = v\<lparr>orderItems := orderItems v @ ?rows, seqs := (seqs v)\<lparr>sq_item := sq_item (seqs v) + length priced\<rparr>\<rparr>"
    using assms Listing by (auto simp: insert_items_def Let_def violation_def split: if_splits)
  have "i_id ` set ?rows = {sq_item (seqs v) ..< sq_item (seqs v) + length priced}"
    using item_rows_ids by (metis list.set_map set_upt)
  then have "ids_of [] ?rows [] \<subseteq> newly_drawn v v'" by (auto simp: ids_of_def newly_drawn_def v')
  then show ?thesis
    by (intro exI [of _ "[]"] exI [of _ ?rows] conjI) (simp_all add: v')
next
  case Queueing
  with assms obtain j where "v' = v\<lparr>jobs := jobs v @ [j], seqs := (seqs v)\<lparr>sq_job := Suc (sq_job (seqs v))\<rparr>\<rparr>"
    "j_id j = sq_job (seqs v)" by (auto simp: insert_job_Inr)
  then show ?thesis
    by (intro exI [of _ "[j]"] exI [of _ "[]"]) (auto simp: ids_of_def newly_drawn_def)
next
  case Announcing
  with assms obtain x where "v' = v\<lparr>outbox := outbox v @ [x]\<rparr>" by (auto simp: insert_outbox_Inr)
  then show ?thesis
    by (intro exI [of _ "[x]"] exI [of _ "[]"]) (auto simp: ids_of_def)
next
  case Committing
  with assms show ?thesis
    by (intro exI [of _ "[]"]) (auto simp: return_def ids_of_def)
qed

lemma advance_ids:
  assumes "advance (env, hook, input) d ph = (ph', d')"
  shows "own_ids req ph' \<subseteq> own_ids req ph \<union> newly_drawn d d'"
proof (cases ph)
  case (Reserving taken todo priced)
  with assms show ?thesis by (cases todo) (auto simp: ids_of_def split: sum.splits option.splits)
next
  case (Recording at taken priced own)
  show ?thesis
  proof (cases "at = Committing")
    case True
    with assms Recording show ?thesis by (auto split: option.splits)
  next
    case False
    obtain r v where st: "insert_statement env input priced own at (own_sale input taken priced own d) = (r, v)" by fastforce
    show ?thesis
    proof (cases r)
      case (Inl e)
      with st False assms Recording show ?thesis by auto
    next
      case (Inr x)
      with st have "insert_statement env input priced own at (own_sale input taken priced own d) = (Inr x, v)" by simp
      from insert_statement_ids [OF this] obtain os "is" js xs where v:
        "orders v = orders d @ ow_orders own @ os" "orderItems v = orderItems d @ ow_items own @ is"
        "jobs v = jobs d @ ow_jobs own @ js" "ids_of os is js \<subseteq> newly_drawn (own_sale input taken priced own d) v"
        by auto
      then have "ids_of (ow_orders (inserted d v)) (ow_items (inserted d v)) (ow_jobs (inserted d v)) =
          ids_of (ow_orders own) (ow_items own) (ow_jobs own) \<union> ids_of os is js"
        by (simp add: inserted_def ids_of_append)
      with v(4) st Inr False assms Recording show ?thesis by (auto simp: newly_drawn_def)
    qed
  qed
qed (use assms in \<open>auto split: sum.splits\<close>)

text \<open>
  What is drawn and not committed belongs to one transaction, is below the sequences and in no table.
\<close>

definition ids_ok :: "db \<Rightarrow> checkout_client list \<Rightarrow> bool" where
  "ids_ok d cs \<longleftrightarrow> locks_exclusive own_ids cs \<and>
     (\<forall>cl \<in> set cs. \<forall>x \<in> own_ids (fst cl) (snd cl). below_seqs (seqs d) x \<and> x \<notin> committed_ids d)"

lemma sale_row_ids:
  "own_ids req (Recording at taken priced (sale_rows env input priced q)) =
    {order_id (sq_order q), job_id (sq_job q)} \<union> item_id ` {sq_item q ..< sq_item q + length priced}"
proof -
  have "i_id ` set (item_rows (sq_item q) (sq_order q) priced) = {sq_item q ..< sq_item q + length priced}"
    using item_rows_ids by (metis list.set_map set_upt)
  then show ?thesis by (simp add: sale_rows_def ids_of_def insert_commute)
qed

lemma commit_ok:
  assumes ok: "db_ok d" and prog: "progress_ok d (env, hook, input) (Recording Committing taken priced own)"
    and ids: "\<forall>x \<in> own_ids req (Recording Committing taken priced own). below_seqs (seqs d) x \<and> x \<notin> committed_ids d"
  shows "db_ok (own_sale input taken priced own d)"
proof -
  note c = commit_tables [OF db_ok_stock [OF ok] prog]
  have priced: "priced \<noteq> []" "length priced = length (ci_items input)"
    using recording_ready [OF db_ok_stock [OF ok] prog] prog by (auto simp: sale_ready_def reserved_def)
  obtain q where own: "own = sale_rows env input priced q" using commit_tables(3) [OF db_ok_stock [OF ok] prog] prog
    by (auto simp: rows_ok_def)
  have "own = sale_rows env input priced (drawn own (seqs d))"
    using drawn_rows(1) [OF priced(1), of own Committing env input q "seqs d"] own by simp
  then obtain q' where q': "drawn own (seqs d) = q'" "own = sale_rows env input priced q'" by blast
  have "ids_new q' (length (ci_items input)) (seqs d) d"
    using ids [unfolded q'(2) sale_row_ids] unfolding priced(2) ids_new_def by (simp add: ball_Un)
  moreover have "seqs_le d (d\<lparr>seqs := seqs d\<rparr>)" by (simp add: seqs_le_def)
  ultimately show ?thesis unfolding c(2) q'(1) by (rule checkout_effect_at_ok [OF ok c(1)])
qed

lemma ids_ok_step:
  assumes ok: "db_ok d" and ids: "ids_ok d cs" and i: "i < length cs" "cs ! i = (req, ph)"
    and adv: "advance req d ph = (ph', d')"
  shows "ids_ok d' (cs[i := (req, ph')])"
proof -
  obtain env hook input where req: "req = (env, hook, input)" by (cases req)
  have mem: "(req, ph) \<in> set cs" using i by (metis nth_mem)
  note gain = advance_ids [OF adv [unfolded req], of req]
  have excl: "locks_exclusive own_ids cs" and low: "\<forall>cl \<in> set cs. \<forall>x \<in> own_ids (fst cl) (snd cl). below_seqs (seqs d) x \<and> x \<notin> committed_ids d"
    using ids by (simp_all add: ids_ok_def)
  have free: "lock_free own_ids x i cs" if "x \<in> newly_drawn d d'" for x
    using that low nth_mem by (fastforce simp: lock_free_def newly_drawn_def)
  have excl': "locks_exclusive own_ids (cs[i := (req, ph')])"
    by (rule locks_exclusive_update [OF excl i gain]) (rule free)
  have new: "x \<notin> committed_ids d" if "x \<in> newly_drawn d d'" for x
    using that committed_below [OF ok] by (auto simp: newly_drawn_def)
  have "below_seqs (seqs d') x \<and> x \<notin> committed_ids d'"
    if cl: "cl \<in> set (cs[i := (req, ph')])" "x \<in> own_ids (fst cl) (snd cl)" for cl x
    using advance_effect [OF adv [unfolded req]]
  proof (elim disjE exE conjE)
    assume seqs: "d' = d\<lparr>seqs := seqs d'\<rparr>" "seqs_le d d'"
    note same = committed_seqs [OF seqs(1)]
    from cl consider "cl \<in> set cs" | "cl = (req, ph')" using set_update_subset_insert by fastforce
    then show ?thesis
    proof cases
      case 1
      with cl(2) low have "below_seqs (seqs d) x" "x \<notin> committed_ids d" by blast+
      with same below_seqs_le [OF seqs(2)] show ?thesis by simp
    next
      case 2
      with cl(2) gain consider "x \<in> own_ids req ph" | "x \<in> newly_drawn d d'" by auto
      then show ?thesis
      proof cases
        case 1
        with low mem have "below_seqs (seqs d) x" "x \<notin> committed_ids d" by fastforce+
        with same below_seqs_le [OF seqs(2)] show ?thesis by simp
      next
        case 2
        with new same show ?thesis by (simp add: newly_drawn_def)
      qed
    qed
  next
    fix taken pr own assume ph: "ph = Recording Committing taken pr own" "d' = own_sale input taken pr own d"
    have comm: "committed_ids d' = committed_ids d \<union> own_ids req ph" by (simp add: ph ids_of_append)
    have none: "own_ids req ph' = {}" using adv ph by (auto simp: req split: option.splits)
    obtain j where j': "j < length cs" "cl = cs[i := (req, ph')] ! j" using cl(1) by (metis in_set_conv_nth length_list_update)
    with cl(2) none have "j \<noteq> i" by auto
    with j' have j: "j < length cs" "j \<noteq> i" "cl = cs ! j" by simp_all
    then have "own_ids (fst cl) (snd cl) \<inter> own_ids req ph = {}"
      using excl i by (metis locks_exclusive_def fst_conv snd_conv)
    moreover have "below_seqs (seqs d) x" "x \<notin> committed_ids d" using low cl(2) j nth_mem by blast+
    ultimately show ?thesis using cl(2) comm ph(2) by auto
  qed
  with excl' show ?thesis by (simp add: ids_ok_def)
qed

section \<open>The pool\<close>

text \<open>
  A serial run of checkouts, each started with the sequences where its own identity values begin: what
  they return, and the tables they leave.
\<close>

fun serial_run :: "(checkout_request \<times> sequences) list \<Rightarrow> db \<Rightarrow> CheckoutResult result list \<times> db" where
  "serial_run [] d = ([], d)"
| "serial_run ((req, q) # xs) d =
     (case serially req (d\<lparr>seqs := q\<rparr>) of (r, d1) \<Rightarrow> (case serial_run xs d1 of (rs, d2) \<Rightarrow> (r # rs, d2)))"

lemma serial_run_snoc:
  "serial_run (xs @ [(req, q)]) d = (case serial_run xs d of (rs, d1) \<Rightarrow>
     (case serially req (d1\<lparr>seqs := q\<rparr>) of (r, d2) \<Rightarrow> (rs @ [r], d2)))"
  by (induction xs d rule: serial_run.induct) (auto split: prod.splits)

definition log_requests :: "log_entry list \<Rightarrow> (checkout_request \<times> sequences) list" where
  "log_requests log = map (\<lambda>(req, q, r). (req, q)) log"

definition log_results :: "log_entry list \<Rightarrow> CheckoutResult result list" where
  "log_results log = map (\<lambda>(req, q, r). r) log"

definition log_outcomes :: "log_entry list \<Rightarrow> (checkout_request \<times> CheckoutResult result) list" where
  "log_outcomes log = map (\<lambda>(req, q, r). (req, r)) log"

definition serial_log :: "db \<Rightarrow> log_entry list \<Rightarrow> db \<Rightarrow> bool" where
  "serial_log d0 log d \<longleftrightarrow> fst (serial_run (log_requests log) d0) = log_results log \<and>
     d = (snd (serial_run (log_requests log) d0))\<lparr>seqs := seqs d\<rparr>"

lemma seqs_twice: "(d :: db)\<lparr>seqs := a\<rparr>\<lparr>seqs := b\<rparr> = d\<lparr>seqs := b\<rparr>"
  by simp

lemma serial_log_ends:
  assumes "serial_log d0 log d" and "ends_serially req d ph r d'"
  shows "serial_log d0 (log @ [(req, draws ph (seqs d), r)]) d'"
proof -
  obtain rs d1 where run: "serial_run (log_requests log) d0 = (rs, d1)" by fastforce
  obtain d'' where d'': "serially req (d\<lparr>seqs := draws ph (seqs d)\<rparr>) = (r, d'')" "d' = d''\<lparr>seqs := seqs d'\<rparr>"
    using assms(2) by (auto simp: ends_serially_def)
  have "d = d1\<lparr>seqs := seqs d\<rparr>" using assms(1) run by (simp add: serial_log_def)
  then have "d1\<lparr>seqs := draws ph (seqs d)\<rparr> = d\<lparr>seqs := draws ph (seqs d)\<rparr>" by (metis seqs_twice)
  with d'' run assms(1) show ?thesis
    by (simp add: serial_log_def log_requests_def log_results_def serial_run_snoc)
qed

abbreviation exclusive :: "checkout_client list \<Rightarrow> bool" where
  "exclusive cs \<equiv> locks_exclusive holds cs"

definition clients_ok :: "db \<Rightarrow> checkout_request list \<Rightarrow> checkout_pool \<Rightarrow> bool" where
  "clients_ok d0 reqs s \<longleftrightarrow> serial_log d0 (cp_log s) (cp_db s) \<and> db_ok (cp_db s) \<and> seqs_le d0 (cp_db s) \<and>
     exclusive (cp_clients s) \<and> ids_ok (cp_db s) (cp_clients s) \<and>
     (\<forall>(req, ph) \<in> set (cp_clients s). progress_ok (cp_db s) req ph) \<and>
     map fst (cp_clients s) = reqs \<and> mset (log_outcomes (cp_log s)) = mset (concat (map ended (cp_clients s)))"

lemma ended_simps [simp]: "ended (req, Finished r) = [(req, r)]" "\<not> finished ph \<Longrightarrow> ended (req, ph) = []"
  by (simp add: ended_def, cases ph) (simp_all add: ended_def)

lemma log_entries_simps [simp]:
  "log_entries q (req, Finished r) = [(req, q, r)]" "\<not> finished ph \<Longrightarrow> log_entries q (req, ph) = []"
  by (simp_all add: log_entries_def)

lemma log_outcomes_entries: "log_outcomes (log @ log_entries q cl) = log_outcomes log @ ended cl"
  by (simp add: log_outcomes_def log_entries_def ended_def split: checkout_phase.split)

lemma holds_finished: "finished ph \<Longrightarrow> holds req ph = {}"
  by (cases req; cases ph) simp_all

lemma mset_concat_update:
  "i < length xs \<Longrightarrow> f (xs ! i) = [] \<Longrightarrow>
    mset (concat (map f (xs[i := x]))) = mset (concat (map f xs)) + mset (f x)"
proof (induction xs arbitrary: i)
  case (Cons y ys)
  then show ?case by (cases i) simp_all
qed simp

lemma clients_ok_start:
  assumes "db_ok d"
  shows "clients_ok d reqs (new_pool reqs d)"
  using assms
  by (auto simp: clients_ok_def new_pool_def serial_log_def locks_exclusive_def ids_ok_def ended_def comp_def seqs_le_def
      log_requests_def log_results_def log_outcomes_def)

lemma client_step_ok:
  assumes ok: "clients_ok d0 reqs s" and move: "pool_moves s t"
  shows "clients_ok d0 reqs t"
  using move
proof cases
  case (statement i cs req ph d ph' d' log)
  let ?cs' = "cs[i := (req, ph')]"
  obtain env hook input where req: "req = (env, hook, input)" by (cases req)
  have inv: "serial_log d0 log d" "db_ok d" "seqs_le d0 d" "exclusive cs" "ids_ok d cs" "\<forall>(req, ph) \<in> set cs. progress_ok d req ph"
    "map fst cs = reqs" "mset (log_outcomes log) = mset (concat (map ended cs))"
    using ok statement(1) by (simp_all add: clients_ok_def)
  have st: "stock_ok d" by (rule db_ok_stock [OF inv(2)])
  have mem: "(req, ph) \<in> set cs" using statement(3,4) by (metis nth_mem)
  have mine: "progress_ok d req ph" using inv(6) mem by blast
  note adv = advance_serial [OF st mine statement(5,7)]
  note eff = advance_effect [OF statement(7) [unfolded req]]
  have "fst (cs ! i) = req" using statement(4) by simp
  then have fsts: "map fst ?cs' = reqs" using inv(7) statement(3) by (metis fst_conv list_update_id map_update)
  have logs: "mset (log_outcomes (log @ log_entries (draws ph (seqs d)) (req, ph'))) = mset (concat (map ended ?cs'))"
    using mset_concat_update [of i cs ended "(req, ph')"] statement(3-5) inv(8) by (simp add: log_outcomes_entries)
  have excl: "exclusive ?cs'"
    by (rule checkout_locks.step_exclusive [OF inv(4) statement(3,4) _ statement(7)])
      (use statement(6) in \<open>simp add: row_free_def\<close>)
  have ids: "ids_ok d' ?cs'" by (rule ids_ok_step [OF inv(2,5) statement(3,4,7)])
  have serial: "serial_log d0 (log @ log_entries (draws ph (seqs d)) (req, ph')) d'"
    using adv
  proof (elim disjE exE conjE)
    fix r assume "ph' = Finished r" "ends_serially req d ph r d'"
    with serial_log_ends [OF inv(1)] show ?thesis by simp
  next
    assume go: "goes_on req d ph' d'"
    then have "d' = d\<lparr>seqs := seqs d'\<rparr>" by (simp add: goes_on_def)
    then have "serial_log d0 log d'" using inv(1) unfolding serial_log_def by (metis seqs_twice)
    with go show ?thesis by (simp add: goes_on_def)
  qed
  have dbs: "db_ok d' \<and> seqs_le d d'"
    using eff
  proof (elim disjE exE conjE)
    assume "d' = d\<lparr>seqs := seqs d'\<rparr>" "seqs_le d d'"
    with seqs_only_ok [OF inv(2)] show ?thesis by blast
  next
    fix taken pr own assume ph: "ph = Recording Committing taken pr own" "d' = own_sale input taken pr own d"
    have "\<forall>x \<in> own_ids req ph. below_seqs (seqs d) x \<and> x \<notin> committed_ids d"
      using inv(5) mem by (fastforce simp: ids_ok_def)
    then have "db_ok d'" unfolding ph using commit_ok [OF inv(2) mine [unfolded ph(1) req]] by blast
    then show ?thesis by (simp add: ph(2) seqs_le_def)
  qed
  have others: "progress_ok d' (fst (cs ! j)) (snd (cs ! j))" if j: "j < length cs" "j \<noteq> i" for j
  proof -
    have pj: "progress_ok d (fst (cs ! j)) (snd (cs ! j))" using inv(6) nth_mem [OF j(1)] by fastforce
    show ?thesis using eff
    proof (elim disjE exE conjE)
      assume "d' = d\<lparr>seqs := seqs d'\<rparr>"
      with pj show ?thesis by (metis progress_seqs)
    next
      fix taken pr own assume ph: "ph = Recording Committing taken pr own" "d' = own_sale input taken pr own d"
      have "holds (fst (cs ! j)) (snd (cs ! j)) \<inter> holds req ph = {}"
        using inv(4) j statement(3,4) by (metis locks_exclusive_def fst_conv snd_conv)
      then show ?thesis unfolding ph(2) by (intro progress_commit [OF st mine [unfolded ph(1) req] pj]) (simp only: ph(1) req)
    qed
  qed
  have "progress_ok d' req ph'"
    using adv
  proof (elim disjE exE conjE)
    fix r assume "ph' = Finished r"
    then show ?thesis by (simp add: req)
  next
    assume "goes_on req d ph' d'"
    then show ?thesis unfolding goes_on_def by (metis progress_seqs)
  qed
  with others have "progress_ok d' (fst (?cs' ! j)) (snd (?cs' ! j))" if "j < length ?cs'" for j
    using that by (cases "j = i") simp_all
  then have "\<forall>(req, ph) \<in> set ?cs'. progress_ok d' req ph"
    unfolding in_set_conv_nth by (metis (no_types, lifting) case_prodI2 fst_conv in_set_conv_nth snd_conv)
  moreover have "seqs_le d0 d'" using inv(3) dbs by (auto simp: seqs_le_def)
  ultimately show ?thesis using serial excl ids fsts logs dbs unfolding statement(2) clients_ok_def by simp
qed

lemma pool_reach_ok:
  assumes "db_ok d0" and "pool_moves\<^sup>*\<^sup>* (new_pool reqs d0) s"
  shows "clients_ok d0 reqs s"
  using assms(2) by (induction rule: rtranclp_induct) (auto intro: clients_ok_start client_step_ok assms(1))

section \<open>No deadlock, and an end\<close>

text \<open>
  Locks are taken in the order of the lines, which is the order of the product ids while those are
  exact as JavaScript numbers.
\<close>

definition exact_ids :: "checkout_request \<Rightarrow> bool" where
  "exact_ids req \<longleftrightarrow> (\<forall>l \<in> set (ci_items (snd (snd req))). num_of (cl_productId l) < 2 ^ 53)"

fun target :: "checkout_phase \<Rightarrow> nat" where
  "target (Reserving taken (l # ls) priced) = num_of (cl_productId l)"
| "target _ = 0"

lemma locks_ascend:
  assumes "taken @ l # ls = sorted_lines items" and "\<forall>x \<in> set items. num_of (cl_productId x) < 2 ^ 53"
    and "product_row k \<in> product_rows taken"
  shows "k \<le> num_of (cl_productId l)"
proof -
  from assms(3) obtain x where x: "x \<in> set taken" "k = num_of (cl_productId x)" by (auto simp: product_rows_def)
  have "sorted (map (\<lambda>i. js_Number (cl_productId i)) (taken @ l # ls))"
    unfolding assms(1) sorted_lines_def by (rule sorted_sort_key)
  with x(1) have "js_Number (cl_productId x) \<le> js_Number (cl_productId l)"
    by (auto simp: sorted_append)
  moreover have "set (taken @ l # ls) = set items" unfolding assms(1) by simp
  then have "x \<in> set items" "l \<in> set items" using x(1) by auto
  ultimately show ?thesis using assms(2) x(2) by (simp add: js_Number_exact)
qed

lemma wants_cases:
  assumes "wants req d ph = Some r"
  obtains (product) taken l ls priced where "ph = Reserving taken (l # ls) priced" "r = product_row (num_of (cl_productId l))"
  | (user) taken priced where "ph = Reserving taken [] priced" "r = user_row (num_of (ci_userId (snd (snd req))))"
  | (outbox) taken priced own where "ph = Recording Announcing taken priced own" "r = outbox_row (tx_uuid (fst req))"
proof -
  obtain env hook input where req: "req = (env, hook, input)" by (cases req)
  show thesis
  proof (cases ph)
    case (Reserving taken todo priced)
    with assms req show thesis
      by (cases todo) (auto split: sum.splits option.splits intro: product user)
  next
    case (Recording at taken priced own)
    with assms req show thesis
      by (cases at) (auto split: sum.splits intro: outbox)
  qed (use assms req in simp_all)
qed

lemma holds_user: "user_row k \<in> holds req ph \<Longrightarrow> \<exists>at taken priced own. ph = Recording at taken priced own"
  by (cases req; cases ph) (auto simp: product_rows_def)

lemma holds_outbox: "outbox_row x \<in> holds req ph \<Longrightarrow> \<exists>taken priced own. ph = Recording Committing taken priced own"
  by (cases req; cases ph) (auto simp: product_rows_def split: if_splits)

lemma no_deadlock:
  assumes ok: "clients_ok d0 reqs s" and exact: "\<forall>req \<in> set reqs. exact_ids req"
    and left: "i < length (cp_clients s)" "\<not> finished (snd (cp_clients s ! i))"
  shows "\<exists>t. pool_moves s t"
proof (rule ccontr)
  assume stuck: "\<nexists>t. pool_moves s t"
  obtain d cs log where s: "s = \<lparr>cp_db = d, cp_clients = cs, cp_log = log\<rparr>" by (cases s)
  let ?req = "\<lambda>i. fst (cs ! i)" and ?ph = "\<lambda>i. snd (cs ! i)"
  let ?open = "\<lambda>i. i < length cs \<and> \<not> finished (?ph i)"
  have blocked: "\<exists>r j. wants (?req i) d (?ph i) = Some r \<and> j < length cs \<and> j \<noteq> i \<and> r \<in> holds (?req j) (?ph j)"
    if "?open i" for i
  proof (rule ccontr)
    assume "\<not> ?thesis"
    then have "\<And>r. wants (?req i) d (?ph i) = Some r \<Longrightarrow> row_free r i cs" by (auto simp: row_free_def lock_free_def)
    moreover obtain ph' d' where "advance (?req i) d (?ph i) = (ph', d')" by fastforce
    ultimately have "\<exists>t. pool_moves s t"
      unfolding s using that pool_moves.statement [of i cs "?req i" "?ph i" d ph' d' log] by auto
    with stuck show False ..
  qed
  have open_holds: "?open j" if "j < length cs" "r \<in> holds (?req j) (?ph j)" for j r
    using that holds_finished by fastforce
  have no_outbox: "outbox_row x \<notin> holds (?req j) (?ph j)" if "j < length cs" for x j
  proof
    assume u: "outbox_row x \<in> holds (?req j) (?ph j)"
    then obtain taken priced own where "?ph j = Recording Committing taken priced own" using holds_outbox by blast
    then have "wants (?req j) d (?ph j) = None" by (cases "?req j") simp
    with blocked [OF open_holds [OF that u]] show False by simp
  qed
  have no_user: "user_row k \<notin> holds (?req j) (?ph j)" if j: "j < length cs" for k j
  proof
    assume u: "user_row k \<in> holds (?req j) (?ph j)"
    then obtain at taken priced own where ph: "?ph j = Recording at taken priced own" using holds_user by blast
    obtain r i where r: "wants (?req j) d (?ph j) = Some r" "i < length cs" "r \<in> holds (?req i) (?ph i)"
      using blocked [OF open_holds [OF j u]] by blast
    from r(1) have "r = outbox_row (tx_uuid (fst (?req j)))" by (cases rule: wants_cases) (simp_all add: ph)
    with r(2,3) no_outbox show False by blast
  qed
  have wanted: "\<exists>taken l ls priced. ?ph i = Reserving taken (l # ls) priced \<and>
      (\<exists>j. j < length cs \<and> j \<noteq> i \<and> product_row (target (?ph i)) \<in> holds (?req j) (?ph j))" if opened: "?open i" for i
  proof -
    obtain r j where r: "wants (?req i) d (?ph i) = Some r" "j < length cs" "j \<noteq> i" "r \<in> holds (?req j) (?ph j)"
      using blocked [OF opened] by blast
    from r(1) show ?thesis
    proof (cases rule: wants_cases)
      case product
      with r show ?thesis by (metis target.simps(1))
    next
      case user
      with r no_user show ?thesis by blast
    next
      case outbox
      with r no_outbox show ?thesis by blast
    qed
  qed
  have ascend: "k \<le> target (?ph j)" if opened: "?open j" and held: "product_row k \<in> holds (?req j) (?ph j)" for j k
  proof -
    obtain env hook input where req: "?req j = (env, hook, input)" by (cases "?req j")
    obtain taken l ls priced where ph: "?ph j = Reserving taken (l # ls) priced" using wanted [OF opened] by blast
    have "(?req j, ?ph j) \<in> set cs" using opened by simp
    then have "progress_ok d (?req j) (?ph j)" using ok unfolding s clients_ok_def by auto
    then have "taken @ l # ls = sorted_lines (ci_items input)" by (simp add: req ph)
    moreover have "?req j \<in> set reqs"
      using ok opened unfolding s clients_ok_def by (metis checkout_pool.select_convs(2) length_map nth_map nth_mem)
    then have "\<forall>x \<in> set (ci_items input). num_of (cl_productId x) < 2 ^ 53"
      using exact req by (auto simp: exact_ids_def)
    ultimately show ?thesis using locks_ascend held by (simp add: req ph)
  qed
  have fin: "finite (Collect ?open)" by simp
  have "Collect ?open \<noteq> {}" using left by (auto simp: s)
  then obtain i where i: "?open i" "\<And>j. ?open j \<Longrightarrow> target (?ph j) \<le> target (?ph i)"
    using fin Max_in [of "target ` ?ph ` Collect ?open"] Max_ge [of "target ` ?ph ` Collect ?open"] by fastforce
  obtain j where j: "j < length cs" "product_row (target (?ph i)) \<in> holds (?req j) (?ph j)"
    using wanted [OF i(1)] by blast
  have "target (?ph j) = target (?ph i)"
    using ascend [OF open_holds [OF j] j(2)] i(2) [OF open_holds [OF j]] by simp
  moreover obtain k where k: "k < length cs" "k \<noteq> j" "product_row (target (?ph j)) \<in> holds (?req k) (?ph k)"
    using wanted [OF open_holds [OF j]] by blast
  ultimately have "product_row (target (?ph j)) \<in> holds (?req j) (?ph j) \<inter> holds (?req k) (?ph k)"
    using j by simp
  moreover have "exclusive cs" using ok by (simp add: s clients_ok_def)
  ultimately show False using j(1) k(1,2) unfolding locks_exclusive_def by blast
qed

text \<open>How many statements a transaction has left at most.\<close>

fun statements_left :: "checkout_client \<Rightarrow> nat" where
  "statements_left ((env, hook, input), Waiting) = length (ci_items input) + 7"
| "statements_left (req, Reserving taken todo priced) = length todo + 6"
| "statements_left (req, Recording at taken priced own) =
     (case at of Ordering \<Rightarrow> 5 | Listing \<Rightarrow> 4 | Queueing \<Rightarrow> 3 | Announcing \<Rightarrow> 2 | Committing \<Rightarrow> 1)"
| "statements_left (req, Finished r) = 0"

lemma advance_shrinks:
  assumes "advance req d ph = (ph', d')" and "\<not> finished ph"
  shows "statements_left (req, ph') < statements_left (req, ph)"
proof -
  obtain env hook input where req: "req = (env, hook, input)" by (cases req)
  show ?thesis
  proof (cases ph)
    case (Reserving taken todo priced)
    with assms req show ?thesis by (cases todo) (auto split: sum.splits option.splits)
  next
    case Waiting
    have "length lines = length (ci_items input)" if "validateLines (ci_items input) = Inr lines" for lines
      using that by (simp add: validateLines_Inr)
    with assms req Waiting show ?thesis by (auto split: sum.splits)
  next
    case (Recording at taken priced own)
    with assms req show ?thesis
      by (cases at) (auto split: prod.splits sum.splits option.splits simp del: insert_statement.simps)
  qed (use assms in \<open>auto split: prod.splits sum.splits\<close>)
qed

definition pool_work :: "checkout_client list \<Rightarrow> nat" where
  "pool_work cs = sum_list (map statements_left cs)"

lemma pool_work_update:
  "i < length cs \<Longrightarrow> statements_left x < statements_left (cs ! i) \<Longrightarrow> pool_work (cs[i := x]) < pool_work cs"
proof (induction cs arbitrary: i)
  case (Cons c cs)
  then show ?case by (cases i) (simp_all add: pool_work_def)
qed simp

lemma pool_moves_shrinks: "pool_moves s t \<Longrightarrow> pool_work (cp_clients t) < pool_work (cp_clients s)"
  by (erule pool_moves_cases) (auto intro!: pool_work_update advance_shrinks)

lemma pool_moves_bound: "(pool_moves ^^ n) s t \<Longrightarrow> n + pool_work (cp_clients t) \<le> pool_work (cp_clients s)"
proof (induction n arbitrary: t)
  case (Suc n)
  then obtain u where "(pool_moves ^^ n) s u" "pool_moves u t" by auto
  with Suc.IH pool_moves_shrinks show ?case by fastforce
qed simp

section \<open>Schedules\<close>

text \<open>Running the pool along a list of client numbers, as far as each may move.\<close>

definition schedule_step :: "nat \<Rightarrow> checkout_pool \<Rightarrow> checkout_pool option" where
  "schedule_step i s =
     (if i < length (cp_clients s) \<and> \<not> finished (snd (cp_clients s ! i)) \<and>
         (case wants (fst (cp_clients s ! i)) (cp_db s) (snd (cp_clients s ! i)) of
            None \<Rightarrow> True | Some r \<Rightarrow> row_free r i (cp_clients s))
      then (case advance (fst (cp_clients s ! i)) (cp_db s) (snd (cp_clients s ! i)) of (ph, d) \<Rightarrow>
        Some \<lparr>cp_db = d, cp_clients = (cp_clients s)[i := (fst (cp_clients s ! i), ph)],
              cp_log = cp_log s @ log_entries (draws (snd (cp_clients s ! i)) (seqs (cp_db s))) (fst (cp_clients s ! i), ph)\<rparr>)
      else None)"

fun run_schedule :: "nat list \<Rightarrow> checkout_pool \<Rightarrow> checkout_pool option" where
  "run_schedule [] s = Some s"
| "run_schedule (i # is) s = (case schedule_step i s of None \<Rightarrow> None | Some t \<Rightarrow> run_schedule is t)"

lemma schedule_step_moves: "schedule_step i s = Some t \<Longrightarrow> pool_moves s t"
proof -
  assume st: "schedule_step i s = Some t"
  obtain d cs log where s: "s = \<lparr>cp_db = d, cp_clients = cs, cp_log = log\<rparr>" by (cases s)
  obtain ph' d' where adv: "advance (fst (cs ! i)) d (snd (cs ! i)) = (ph', d')" by fastforce
  show ?thesis
    using st adv pool_moves.statement [of i cs "fst (cs ! i)" "snd (cs ! i)" d ph' d' log]
    by (auto simp: schedule_step_def s split: if_splits option.splits)
qed

lemma moves_schedule: "pool_moves s t \<Longrightarrow> \<exists>i < length (cp_clients s). schedule_step i s \<noteq> None"
proof (erule pool_moves_cases, goal_cases)
  case (1 i cs req ph d ph' d' log)
  have "case wants req d ph of None \<Rightarrow> True | Some r \<Rightarrow> row_free r i cs"
    using 1(6) by (simp split: option.split)
  then have "schedule_step i s \<noteq> None"
    unfolding 1(1) using 1(3-5,7) by (auto simp: schedule_step_def split: option.splits prod.splits)
  with 1 show ?case by (metis checkout_pool.select_convs(2))
qed

lemma run_schedule_moves: "run_schedule is s = Some t \<Longrightarrow> (pool_moves ^^ length is) s t"
proof (induction "is" arbitrary: s)
  case (Cons i "is")
  then obtain u where "schedule_step i s = Some u" "run_schedule is u = Some t" by (auto split: option.splits)
  with Cons.IH schedule_step_moves show ?case by (metis length_Cons relpowp_Suc_I2)
qed simp

definition ink_request :: "string \<Rightarrow> int \<Rightarrow> checkout_request" where
  "ink_request uuid now = (\<lparr>tx_now = now, tx_uuid = uuid\<rparr>, None, shop_input [shop_line ''2'' 1])"

definition ink_race :: checkout_pool where
  "ink_race = new_pool [ink_request ''u1'' 1, ink_request ''u2'' 2] shop_db"

definition ink_sold :: checkout_pool where
  "ink_sold = the (run_schedule [0, 1, 1, 1, 1, 1, 1, 1, 1, 0] ink_race)"

lemma ink_race_runs: "(pool_moves ^^ 10) ink_race ink_sold"
proof -
  have "run_schedule [0, 1, 1, 1, 1, 1, 1, 1, 1, 0] ink_race \<noteq> None" by code_simp
  then have "run_schedule [0, 1, 1, 1, 1, 1, 1, 1, 1, 0] ink_race = Some ink_sold" by (auto simp: ink_sold_def)
  from run_schedule_moves [OF this] have "(pool_moves ^^ length [0, 1, 1, 1, 1, 1, 1, 1, 1, 0 :: nat]) ink_race ink_sold" .
  moreover have "length [0, 1, 1, 1, 1, 1, 1, 1, 1, 0 :: nat] = 10" by simp
  ultimately show ?thesis by (simp only:)
qed

lemma ink_race_log: "log_results (cp_log ink_sold) =
    [Inr \<lparr>cr_orderId = ''1'', cr_total = 70\<rparr>, Inl (CheckoutError OUT_OF_STOCK (Some ''2''))]"
  by code_simp

text \<open>
  Two buyers of different products: the first inserts its order before the second, which overtakes it
  and commits first. The order ids cross.
\<close>

definition two_buyers :: db where
  "two_buyers = shop_db\<lparr>users := users shop_db @ [\<lparr>u_id = 2, u_email = ''d@e.f'', u_phone = ''+380501112244'', u_name = ''Bob'',
     u_balance = 500, u_passwordHash = None, u_role = buyer, u_createdAt = 0\<rparr>]\<rparr>"

definition buyer_request :: "nat \<Rightarrow> string \<Rightarrow> checkout_request" where
  "buyer_request k pid = (\<lparr>tx_now = 5, tx_uuid = dec k\<rparr>, None,
     \<lparr>ci_userId = dec k, ci_items = [shop_line pid 1], ci_idempotencyKey = None\<rparr>)"

definition drawn_at :: "nat \<Rightarrow> nat \<Rightarrow> nat \<Rightarrow> sequences" where
  "drawn_at order item job = \<lparr>sq_product = 3, sq_order = order, sq_item = item, sq_job = job, sq_receipt = 1\<rparr>"

definition crossed_sold :: checkout_pool where
  "crossed_sold = the (run_schedule (replicate 4 0 @ replicate 8 1 @ replicate 4 0)
     (new_pool [buyer_request 1 ''1'', buyer_request 2 ''2''] two_buyers))"

lemma two_buyers_ok: "db_ok two_buyers"
  by code_simp

lemma crossed_race_runs:
  "(pool_moves ^^ 16) (new_pool [buyer_request 1 ''1'', buyer_request 2 ''2''] two_buyers) crossed_sold"
proof -
  let ?is = "replicate 4 0 @ replicate 8 1 @ replicate 4 (0 :: nat)"
  let ?s = "new_pool [buyer_request 1 ''1'', buyer_request 2 ''2''] two_buyers"
  have "run_schedule ?is ?s \<noteq> None" by code_simp
  then have "run_schedule ?is ?s = Some crossed_sold" by (auto simp: crossed_sold_def)
  from run_schedule_moves [OF this] have "(pool_moves ^^ length ?is) ?s crossed_sold" .
  moreover have "length ?is = 16" by simp
  ultimately show ?thesis by (simp only:)
qed

lemma crossed_log:
  "log_results (cp_log crossed_sold) = [Inr \<lparr>cr_orderId = ''2'', cr_total = 70\<rparr>, Inr \<lparr>cr_orderId = ''1'', cr_total = 20\<rparr>]"
  "log_requests (cp_log crossed_sold) = [(buyer_request 2 ''2'', drawn_at 2 1 1), (buyer_request 1 ''1'', drawn_at 1 2 2)]"
  "map o_id (orders (cp_db crossed_sold)) = [2, 1]"
  by code_simp+

section \<open>Where the order of locks fails\<close>

text \<open>
  Ids beyond the exact integers of JavaScript can compare equal as numbers, and the sort keeps them in
  the order of the cart. Two carts naming two such products in opposite orders take the locks in
  opposite orders: each holds the row the other waits for.
\<close>

definition far_product :: "nat \<Rightarrow> string \<Rightarrow> Product" where
  "far_product k name = \<lparr>p_id = k, p_name = name, p_description = '''', p_price = 1, p_stock = 5, p_createdAt = 0\<rparr>"

definition far_db :: db where
  "far_db = shop_db\<lparr>products := [far_product 9007199254740992 ''a'', far_product 9007199254740993 ''b''],
     seqs := \<lparr>sq_product = 9007199254740994, sq_order = 1, sq_item = 1, sq_job = 1, sq_receipt = 1\<rparr>\<rparr>"

definition far_request :: "string list \<Rightarrow> checkout_request" where
  "far_request ids = (shop_env, None, shop_input (map (\<lambda>k. shop_line k 1) ids))"

definition far_race :: checkout_pool where
  "far_race = new_pool [far_request [''9007199254740992'', ''9007199254740993''],
     far_request [''9007199254740993'', ''9007199254740992'']] far_db"

lemma far_numbers: "num_of ''9007199254740992'' = 9007199254740992" "num_of ''9007199254740993'' = 9007199254740993"
  by (simp_all add: num_of_def digit_val_def)

lemma far_js_numbers: "js_Number ''9007199254740992'' = 9007199254740992" "js_Number ''9007199254740993'' = 9007199254740992"
  by (simp_all add: js_Number_def far_numbers Let_def round_double_def bit_length.simps)

lemma row_free_two: "row_free r i [a, b] \<longleftrightarrow>
    (0 \<noteq> i \<longrightarrow> r \<notin> holds (fst a) (snd a)) \<and> (1 \<noteq> i \<longrightarrow> r \<notin> holds (fst b) (snd b))"
  by (auto simp: row_free_def lock_free_def less_Suc_eq)

lemma far_race_runs:
  "run_schedule [0, 1, 0, 1] far_race = Some \<lparr>cp_db = far_db, cp_clients =
     [(far_request [''9007199254740992'', ''9007199254740993''],
       Reserving [shop_line ''9007199254740992'' 1] [shop_line ''9007199254740993'' 1] [priced_item (shop_line ''9007199254740992'' 1) 1]),
      (far_request [''9007199254740993'', ''9007199254740992''],
       Reserving [shop_line ''9007199254740993'' 1] [shop_line ''9007199254740992'' 1] [priced_item (shop_line ''9007199254740993'' 1) 1])],
     cp_log = []\<rparr>"
  by (simp add: far_race_def new_pool_def schedule_step_def far_request_def shop_input_def shop_line_def
      validateLines_def far_js_numbers far_numbers take_stock_def andThen_def lift_def int4_param_def int4_max_def
      bigint_param_def isId_def is_digit_def int8_max_def Let_def level_hit_def select_one_def far_db_def
      far_product_def row_free_two product_rows_def ended_def own_stock_def take_demand_def priced_item_def)

lemma inexact_ids_deadlock:
  "\<exists>s. run_schedule [0, 1, 0, 1] far_race = Some s \<and> cp_log s = [] \<and> (\<nexists>t. pool_moves s t)"
proof -
  obtain s where run: "run_schedule [0, 1, 0, 1] far_race = Some s" and log: "cp_log s = []"
    and len: "length (cp_clients s) = 2" and stuck: "schedule_step 0 s = None" "schedule_step 1 s = None"
    unfolding far_race_runs
    by (simp add: schedule_step_def far_request_def shop_line_def far_numbers take_stock_def andThen_def lift_def
        int4_param_def int4_max_def bigint_param_def isId_def is_digit_def int8_max_def Let_def level_hit_def
        select_one_def far_db_def far_product_def row_free_two product_rows_def own_stock_def take_demand_def priced_item_def)
  have "\<not> pool_moves s t" for t
  proof
    assume "pool_moves s t"
    then obtain i where i: "i < length (cp_clients s)" "schedule_step i s \<noteq> None" using moves_schedule by blast
    then consider "i = 0" | "i = 1" using len by linarith
    then show False using i(2) stuck by cases simp_all
  qed
  with run log show ?thesis by blast
qed

lemma pool_ends:
  assumes "clients_ok d reqs s" and "\<forall>req \<in> set reqs. exact_ids req"
  shows "(\<exists>t. pool_moves s t) \<or> (\<forall>cl \<in> set (cp_clients s). finished (snd cl))"
  using no_deadlock [OF assms] by (metis in_set_conv_nth)

lemma pool_all_ended:
  assumes ok: "clients_ok d reqs s" and ends: "\<forall>cl \<in> set (cp_clients s). finished (snd cl)"
  shows "length (cp_log s) = length reqs" and "mset (map fst (log_outcomes (cp_log s))) = mset reqs"
proof -
  have "map fst (concat (map ended cs)) = map fst cs" if "\<forall>cl \<in> set cs. finished (snd cl)" for cs
    using that by (induction cs) (auto simp: ended_def split: checkout_phase.splits)
  with ok ends have "mset (map fst (concat (map ended (cp_clients s)))) = mset reqs"
    by (simp add: clients_ok_def)
  then show "mset (map fst (log_outcomes (cp_log s))) = mset reqs" using ok by (simp add: clients_ok_def)
  then have "length (map fst (log_outcomes (cp_log s))) = length reqs" by (metis size_mset)
  then show "length (cp_log s) = length reqs" by (simp add: log_outcomes_def)
qed

lemma pool_work_start:
  "pool_work (cp_clients (new_pool reqs d)) = (\<Sum>(env, hook, input)\<leftarrow>reqs. length (ci_items input) + 7)"
proof -
  have "statements_left \<circ> (\<lambda>req. (req, Waiting)) = (\<lambda>(env, hook, input). length (ci_items input) + 7)"
    by (auto simp: fun_eq_iff)
  then show ?thesis by (simp add: pool_work_def new_pool_def)
qed

section \<open>Properties\<close>

text \<open>
  C3: checkouts that run at the same time, interleaved statement by statement, are serializable up to the
  identity values they draw. An INSERT draws its values when it runs, so a checkout that inserts first and
  commits second has the lower order id although it ends later. At every moment the committed tables are
  those of the checkouts that have ended, run one after the other in the order they ended, each with the
  order id, item ids and job id it drew, and each has ended with the result that serial run gives it;
  only the sequences may stand elsewhere. No value is drawn twice and the schema's constraints hold
  (\<open>db_ok\<close>), the sequences only move forward, and the log has every checkout that has ended once.
\<close>

theorem concurrent_checkouts_serialize:
  assumes "db_ok d" and "pool_moves\<^sup>*\<^sup>* (new_pool reqs d) s"
  shows "fst (serial_run (log_requests (cp_log s)) d) = log_results (cp_log s) \<and>
    cp_db s = (snd (serial_run (log_requests (cp_log s)) d))\<lparr>seqs := seqs (cp_db s)\<rparr> \<and>
    db_ok (cp_db s) \<and> seqs_le d (cp_db s) \<and> map fst (cp_clients s) = reqs \<and>
    mset (log_outcomes (cp_log s)) = mset (concat (map ended (cp_clients s)))"
  using pool_reach_ok [OF assms] by (simp add: clients_ok_def serial_log_def)

theorem concurrent_checkouts_serialize_witness:
  "log_results (cp_log crossed_sold) = [Inr \<lparr>cr_orderId = ''2'', cr_total = 70\<rparr>, Inr \<lparr>cr_orderId = ''1'', cr_total = 20\<rparr>] \<and>
   serial_run [(buyer_request 2 ''2'', drawn_at 2 1 1), (buyer_request 1 ''1'', drawn_at 1 2 2)] two_buyers =
     ([Inr \<lparr>cr_orderId = ''2'', cr_total = 70\<rparr>, Inr \<lparr>cr_orderId = ''1'', cr_total = 20\<rparr>],
      snd (serial_run (log_requests (cp_log crossed_sold)) two_buyers)) \<and>
   map o_id (orders (cp_db crossed_sold)) = [2, 1] \<and> db_ok (cp_db crossed_sold)"
proof -
  have "pool_moves\<^sup>*\<^sup>* (new_pool [buyer_request 1 ''1'', buyer_request 2 ''2''] two_buyers) crossed_sold"
    using crossed_race_runs by (rule relpowp_imp_rtranclp)
  note serial = concurrent_checkouts_serialize [OF two_buyers_ok this]
  then have "serial_run (log_requests (cp_log crossed_sold)) two_buyers =
      (log_results (cp_log crossed_sold), snd (serial_run (log_requests (cp_log crossed_sold)) two_buyers))"
    by (simp add: prod_eq_iff)
  moreover have "db_ok (cp_db crossed_sold)" using serial by blast
  ultimately show ?thesis unfolding crossed_log by (intro conjI refl)
qed

text \<open>
  C4: checkouts that run at the same time never deadlock and all end: as long as product ids are exact
  as JavaScript numbers, no run takes more steps than the carts have lines plus seven a checkout, and
  a state without a next step is one where every checkout has ended.
\<close>

theorem concurrent_checkouts_finish:
  assumes "db_ok d" and "\<forall>req \<in> set reqs. exact_ids req" and "(pool_moves ^^ n) (new_pool reqs d) s"
  shows "n \<le> (\<Sum>(env, hook, input)\<leftarrow>reqs. length (ci_items input) + 7) \<and>
    ((\<exists>t. pool_moves s t) \<or> length (cp_log s) = length reqs)"
proof (rule conjI)
  show "n \<le> (\<Sum>(env, hook, input)\<leftarrow>reqs. length (ci_items input) + 7)"
    using pool_moves_bound [OF assms(3)] pool_work_start [of reqs d] by simp
  have ok: "clients_ok d reqs s" by (rule pool_reach_ok [OF assms(1) relpowp_imp_rtranclp [OF assms(3)]])
  show "(\<exists>t. pool_moves s t) \<or> length (cp_log s) = length reqs"
    using pool_ends [OF ok assms(2)] pool_all_ended(1) [OF ok] by blast
qed

theorem concurrent_checkouts_finish_witness:
  "(\<exists>t. pool_moves ink_race t) \<and> length (cp_log ink_sold) = 2"
proof -
  have exact: "\<forall>req \<in> set [ink_request ''u1'' 1, ink_request ''u2'' 2]. exact_ids req" by code_simp
  have "length (cp_log ink_race) = 0" by (simp add: ink_race_def new_pool_def)
  then have "\<exists>t. pool_moves ink_race t"
    using concurrent_checkouts_finish [OF shop_db_ok exact, of 0 ink_race] by (auto simp: ink_race_def)
  moreover have "length (cp_log ink_sold) = 2" using arg_cong [OF ink_race_log, of length] by (simp add: log_results_def)
  ultimately show ?thesis ..
qed

end
