(* ===== verification/Demo_Race.thy ===== *)
theory Demo_Race
  imports Seed_Theorems Checkout_Concurrent_Theorems Loops
begin

text \<open>
  The race demonstration \<open>src/demo/demo-race.ts\<close>: fifty buyers check out one unit each of a product
  with ten units, all at once, and the script compares what happened with what it calls the invariant.
  The attempts run as the interleaved checkouts of \<open>Checkout_Concurrent\<close>.
\<close>

section \<open>The script\<close>

definition ATTEMPTS :: nat where "ATTEMPTS = 50"
definition RACE_STOCK :: int where "RACE_STOCK = 10"
definition BUYER_BALANCE :: int where "BUYER_BALANCE = 1000000000"

definition padStart :: "nat \<Rightarrow> string \<Rightarrow> string" where
  "padStart n s = replicate (n - length s) CHR ''0'' @ s"

definition race_buyer :: "nat \<Rightarrow> UserSeed" where
  "race_buyer index = (let number = padStart 2 (dec (index + 1)) in
     \<lparr>us_email = ''race-buyer-'' @ number @ ''@example.com'', us_phone = ''+38099'' @ padStart 7 (dec (index + 1)),
      us_name = ''Race Buyer '' @ number, us_balance = BUYER_BALANCE, us_role = buyer\<rparr>)"

definition race_buyers :: "UserSeed list" where
  "race_buyers = map race_buyer [0..<ATTEMPTS]"

definition is_racer :: "User \<Rightarrow> bool" where
  "is_racer u \<longleftrightarrow> u_email u \<in> set (map us_email race_buyers)"

text \<open>One INSERT of many rows that ignores those whose unique keys are taken.\<close>

fun insert_ignoring :: "int \<Rightarrow> UserSeed list \<Rightarrow> (seed_db, unit) action" where
  "insert_ignoring now [] = return ()"
| "insert_ignoring now (row # rows) =
     andThen (insertIfMissing (user_table now row None)) (\<lambda>_. insert_ignoring now rows)"

definition refill_balances :: "(seed_db, unit) action" where
  "refill_balances s = (Inr (), s\<lparr>sd_db := (sd_db s)\<lparr>users :=
     update_where is_racer (\<lambda>u. u\<lparr>u_balance := BUYER_BALANCE\<rparr>) (users (sd_db s))\<rparr>\<rparr>)"

definition find_one_or_fail :: "('r \<Rightarrow> bool) \<Rightarrow> (db \<Rightarrow> 'r list) \<Rightarrow> (db, 'r) action" where
  "find_one_or_fail P table d = (case select_one P (table d) of
     None \<Rightarrow> (Inl (Foreign ''EntityNotFoundError''), d) | Some r \<Rightarrow> (Inr r, d))"

definition race_setup :: "int \<Rightarrow> string \<Rightarrow> (seed_db, Product \<times> User list) action" where
  "race_setup now productName =
     andThen (insert_ignoring now race_buyers) (\<lambda>_.
     andThen refill_balances (\<lambda>_.
     andThen (at_db (find_one_or_fail (\<lambda>p. p_name p = productName) products)) (\<lambda>product.
     andThen (at_db (reset_stock (p_id product) RACE_STOCK)) (\<lambda>_ s.
       (Inr (product, sort_key u_id (filter is_racer (users (sd_db s)))), s)))))"

definition race_request :: "Product \<Rightarrow> User \<times> tx_env \<Rightarrow> checkout_request" where
  "race_request product b = (snd b, None, \<lparr>ci_userId = dec (u_id (fst b)),
     ci_items = [\<lparr>cl_productId = dec (p_id product), cl_quantity = JsInt 1\<rparr>], ci_idempotencyKey = None\<rparr>)"

datatype Outcome = SUCCESS | Refused checkout_failure

fun attempt :: "CheckoutResult result \<Rightarrow> Outcome result" where
  "attempt (Inr res) = Inr SUCCESS"
| "attempt (Inl (CheckoutError reason p)) = Inr (Refused reason)"
| "attempt (Inl e) = Inl e"

text \<open>\<open>Promise.all\<close> over the attempts of the clients, when all have ended and none has thrown.\<close>

fun race_outcomes :: "checkout_client list \<Rightarrow> Outcome list option" where
  "race_outcomes [] = Some []"
| "race_outcomes ((req, Finished r) # cs) =
     (case attempt r of Inl e \<Rightarrow> None
      | Inr outcome \<Rightarrow> map_option (Cons outcome) (race_outcomes cs))"
| "race_outcomes (cl # cs) = None"

definition count_outcomes :: "Outcome \<Rightarrow> Outcome list \<Rightarrow> nat" where
  "count_outcomes x outcomes = length (filter (\<lambda>y. y = x) outcomes)"

text \<open>The verdict from the outcomes, the tables before the attempts and the tables after them.\<close>

definition race_verdict :: "Product \<Rightarrow> db \<Rightarrow> checkout_client list \<Rightarrow> db \<Rightarrow> bool option" where
  "race_verdict product initial cs final =
     (case (race_outcomes cs, select_one (\<lambda>p. p_id p = p_id product) (products final)) of
        (Some outcomes, Some p) \<Rightarrow>
          let succeeded = count_outcomes SUCCESS outcomes;
              negativeRows = length (filter (\<lambda>p. p_stock p < 0) (products final));
              ordersCreated = int (length (orders final)) - int (length (orders initial));
              jobsCreated = int (length (jobs final)) - int (length (jobs initial))
          in Some (length outcomes = ATTEMPTS \<and> int succeeded = RACE_STOCK \<and> p_stock p = 0 \<and> negativeRows = 0 \<and>
               ordersCreated = int succeeded \<and> jobsCreated = int succeeded)
      | _ \<Rightarrow> None)"

section \<open>The setup\<close>

lemma insert_ignoring_ok:
  assumes "\<forall>seed \<in> set rows. us_balance seed \<le> int4_max" and "seed_ok s" and "insert_ignoring now rows s = (Inr x, s')"
  shows "seed_ok s'"
  using assms
proof (induction rows arbitrary: s)
  case (Cons seed rows)
  from Cons.prems(3) obtain r s1 where ins: "insertIfMissing (user_table now seed None) s = (Inr r, s1)"
    and rest: "insert_ignoring now rows s1 = (Inr x, s')" by auto
  have "seed_ok s1" using insert_user(2) [OF Cons.prems(2) _ ins] Cons.prems(1) by simp
  with Cons.IH rest Cons.prems(1) show ?case by simp
qed simp

lemma refill_ok:
  assumes "seed_ok s" and "refill_balances s = (Inr x, s')"
  shows "seed_ok s' \<and> (\<forall>u \<in> set (users (sd_db s')). is_racer u \<longrightarrow> u_balance u = BUYER_BALANCE)"
proof -
  let ?f = "\<lambda>u. u\<lparr>u_balance := BUYER_BALANCE\<rparr>"
  let ?us = "update_where is_racer ?f (users (sd_db s))"
  have same: "map u_id ?us = map u_id (users (sd_db s))" "map u_email ?us = map u_email (users (sd_db s))"
    "map u_phone ?us = map u_phone (users (sd_db s))"
    by (simp_all add: map_update_where)
  have ok: "db_ok (sd_db s)" using assms(1) by (simp add: seed_ok_def)
  have "db_ok ((sd_db s)\<lparr>users := ?us\<rparr>)"
  proof (rule users_replaced_ok [OF ok])
    show "\<forall>u \<in> set ?us. user_ok u"
      using db_okD(7) [OF ok] by (auto simp: set_update_where user_ok_def BUYER_BALANCE_def int4_max_def)
    show "u_id ` set (users (sd_db s)) \<subseteq> u_id ` set ?us" using same(1) by (metis list.set_map order_refl)
  qed (use ok same in \<open>auto simp: db_ok_def keys_ok_def\<close>)
  with assms same(1) show ?thesis
    by (auto simp: refill_balances_def seed_ok_def set_update_where is_racer_def)
qed

lemma race_buyers_fit: "\<forall>seed \<in> set race_buyers. us_balance seed \<le> int4_max"
  by (auto simp: race_buyers_def race_buyer_def Let_def BUYER_BALANCE_def int4_max_def)

lemma race_setup_ok:
  assumes ok: "seed_ok s0" and run: "race_setup now productName s0 = (Inr (product, buyers), s1)"
  shows "db_ok (sd_db s1)" and "\<exists>p \<in> set (products (sd_db s1)). p_id p = p_id product \<and> p_price p = p_price product \<and>
      p_stock p = RACE_STOCK"
    and "distinct (map u_id buyers)"
    and "\<forall>u \<in> set buyers. u \<in> set (users (sd_db s1)) \<and> u_balance u = BUYER_BALANCE"
proof -
  from run obtain s2 s3 where ins: "insert_ignoring now race_buyers s0 = (Inr (), s2)"
    and fill: "refill_balances s2 = (Inr (), s3)" and find: "select_one (\<lambda>p. p_name p = productName) (products (sd_db s3)) = Some product"
    and stock: "reset_stock (p_id product) RACE_STOCK (sd_db s3) = (Inr (), sd_db s1)"
    and s1: "s1 = s3\<lparr>sd_db := sd_db s1\<rparr>" and buyers: "buyers = sort_key u_id (filter is_racer (users (sd_db s1)))"
    by (auto simp: race_setup_def find_one_or_fail_def split: option.splits)
  have "seed_ok s2" by (rule insert_ignoring_ok [OF race_buyers_fit ok ins])
  note f = refill_ok [OF this fill]
  have ok3: "db_ok (sd_db s3)" using f by (simp add: seed_ok_def)
  have p: "product \<in> set (products (sd_db s3))" using find by (auto dest: select_one_Some)
  let ?f = "\<lambda>q. q\<lparr>p_stock := RACE_STOCK\<rparr>"
  have d1: "sd_db s1 = (sd_db s3)\<lparr>products := map (\<lambda>x. if x = product then ?f product else x) (products (sd_db s3))\<rparr>"
    using reset_stock_if [of True, simplified, OF stock] update_one_row [of p_id, OF db_okD(1) [OF ok3] p] by simp
  then have same: "map p_id (products (sd_db s1)) = map p_id (products (sd_db s3))"
    "map p_name (products (sd_db s1)) = map p_name (products (sd_db s3))" by (simp_all add: map_change_row)
  have "db_ok ((sd_db s3)\<lparr>products := products (sd_db s1), seqs := seqs (sd_db s3)\<rparr>)"
  proof (rule products_replaced_ok [OF ok3])
    show "\<forall>x \<in> set (products (sd_db s1)). product_ok x"
      using db_okD(6) [OF ok3] p by (auto simp: d1 product_ok_def RACE_STOCK_def int4_max_def)
    show "p_id ` set (products (sd_db s3)) \<subseteq> p_id ` set (products (sd_db s1))"
      using same(1) by (metis list.set_map order_refl)
  qed (use ok3 same in \<open>auto simp: db_ok_def keys_ok_def sequences_ok_def\<close>)
  moreover have "sd_db s1 = (sd_db s3)\<lparr>products := products (sd_db s1), seqs := seqs (sd_db s3)\<rparr>" by (subst d1) (simp add: d1)
  ultimately show okd: "db_ok (sd_db s1)" by metis
  show "\<exists>p \<in> set (products (sd_db s1)). p_id p = p_id product \<and> p_price p = p_price product \<and> p_stock p = RACE_STOCK"
    using p by (auto simp: d1 intro!: bexI [of _ product])
  have "distinct (map u_id (filter is_racer (users (sd_db s1))))"
    using okd by (simp add: db_ok_def keys_ok_def distinct_map inj_on_def)
  then show "distinct (map u_id buyers)"
    unfolding buyers by (simp add: distinct_map)
  show "\<forall>u \<in> set buyers. u \<in> set (users (sd_db s1)) \<and> u_balance u = BUYER_BALANCE"
    using f d1 by (auto simp: buyers)
qed

section \<open>The attempts, one after the other\<close>

text \<open>An attempt that only stock can refuse.\<close>

definition racer_ready :: "Product \<Rightarrow> db \<Rightarrow> User \<times> tx_env \<Rightarrow> bool" where
  "racer_ready product d b \<longleftrightarrow> u_id (fst b) \<le> int8_max \<and>
     (\<exists>u \<in> set (users d). u_id u = u_id (fst b) \<and> p_price product \<le> u_balance u) \<and>
     tx_uuid (snd b) \<notin> x_id ` set (outbox d) \<and>
     (\<forall>r \<in> set (orders d). o_userId r = u_id (fst b) \<longrightarrow> o_createdAt r \<noteq> tx_now (snd b))"

text \<open>The product of the race with \<open>k\<close> units left.\<close>

definition race_left :: "Product \<Rightarrow> nat \<Rightarrow> db \<Rightarrow> bool" where
  "race_left product k d \<longleftrightarrow> stock_ok d \<and> p_id product \<le> int8_max \<and>
     (\<exists>p \<in> set (products d). p_id p = p_id product \<and> p_price p = p_price product \<and> p_stock p = int k)"

lemma race_left_seqs [simp]: "race_left product k (d\<lparr>seqs := q\<rparr>) = race_left product k d"
  by (simp add: race_left_def)

lemma racer_ready_seqs [simp]: "racer_ready product (d\<lparr>seqs := q\<rparr>) b = racer_ready product d b"
  by (simp add: racer_ready_def)

lemma stock_ok_effect:
  assumes ok: "stock_ok d" and al: "checkout_allowed env input d"
  shows "stock_ok (checkout_effect env input d)"
proof -
  have "reservable (ci_items input) (products d)" "\<forall>l \<in> set (ci_items input). 0 < qty l"
    using al by (simp_all add: checkout_allowed_def valid_lines_def)
  then have "\<forall>p \<in> set (take_demand (ci_items input) (products d)). product_ok p"
    using take_demand_ok [OF _ _ _ stock_okD(1) [OF ok]] stock_okD(3) [OF ok] by blast
  with stock_okD(1,2) [OF ok] show ?thesis by (simp add: stock_ok_def)
qed

abbreviation "race_input product b \<equiv> snd (snd (race_request product b))"

lemma race_amount:
  assumes "race_left product k d"
  shows "amount_of (ci_items (race_input product b)) (products d) = p_price product"
proof -
  obtain p where "p \<in> set (products d)" "p_id p = p_id product" "p_price p = p_price product"
    using assms by (auto simp: race_left_def)
  with assms price_of_member [OF stock_okD(1), of d p] show ?thesis
    by (simp add: amount_of_def line_amount_def race_request_def race_left_def)
qed

lemma attempt_sold:
  assumes left: "race_left product (Suc k) d" and ready: "racer_ready product d b"
  shows "\<exists>res. serially (race_request product b) d = (Inr res, checkout_effect (snd b) (race_input product b) d)"
    and "race_left product k (checkout_effect (snd b) (race_input product b) d)"
proof -
  let ?input = "race_input product b" and ?d = "checkout_effect (snd b) (race_input product b) d"
  have ok: "stock_ok d" using left by (simp add: race_left_def)
  obtain p where p: "p \<in> set (products d)" "p_id p = p_id product" "p_price p = p_price product" "p_stock p = int (Suc k)"
    using left by (auto simp: race_left_def)
  have price: "p_price product \<le> int4_max" using stock_okD(3) [OF ok p(1)] p(3) by (simp add: product_ok_def)
  have "valid_lines (ci_items ?input)" by (simp add: valid_lines_def race_request_def)
  moreover have "reservable (ci_items ?input) (products d)"
    using p left by (auto simp: reservable_def line_fits_def covered_def race_request_def race_left_def int4_max_def
        intro!: bexI [of _ p])
  moreover have "can_pay ?input d"
    unfolding can_pay_def race_amount [OF left]
    using ready price by (auto simp: racer_ready_def race_request_def level_hit_def)
  moreover have "key_free (snd b) ?input d"
    using ready by (simp add: key_free_def racer_ready_def race_request_def)
  ultimately have allowed: "checkout_allowed (snd b) ?input d"
    using ready by (simp add: checkout_allowed_def racer_ready_def)
  then show "\<exists>res. serially (race_request product b) d = (Inr res, ?d)"
    using checkout_Inr_stock [OF ok] by (simp add: serially_def race_request_def)
  have "stock_ok ?d" by (rule stock_ok_effect [OF ok allowed])
  moreover have "p\<lparr>p_stock := p_stock p - 1\<rparr> \<in> set (products ?d)"
    using p(1,2) by (auto simp: take_demand_def race_request_def image_iff intro!: bexI [of _ p])
  ultimately show "race_left product k ?d"
    using left p by (auto simp: race_left_def intro!: bexI [of _ "p\<lparr>p_stock := p_stock p - 1\<rparr>"])
qed

lemma attempt_refused:
  assumes left: "race_left product 0 d"
  shows "serially (race_request product b) d = (Inl (CheckoutError OUT_OF_STOCK (Some (dec (p_id product)))), d)"
proof -
  obtain p where p: "p \<in> set (products d)" "p_id p = p_id product" "p_stock p = 0"
    using left by (auto simp: race_left_def)
  have "\<not> level_hit p_id p_stock (p_id product) 1 q" if "q \<in> set (products d)" for q
    using that p distinct_key_eq [OF stock_okD(1), of d q p] left by (auto simp: level_hit_def race_left_def)
  then have none: "select_one (level_hit p_id p_stock (p_id product) 1) (products d) = None"
    by (simp add: select_one_None)
  have fits: "p_id product \<le> int8_max" using left by (simp add: race_left_def)
  have "take_stock 1 (dec (p_id product)) d = (Inr None, d)"
    using fits none stock.hit_None [OF none] by (simp add: take_stock_Inr int4_max_def)
  moreover have "p_id product \<in> p_id ` set (products d)" using p(1,2) by (metis imageI)
  then have "product_found (dec (p_id product)) d = (Inr True, d)"
    using fits by (simp add: product_found_def andThen_def lift_def bigint_param_def)
  ultimately have "reserve [\<lparr>cl_productId = dec (p_id product), cl_quantity = JsInt 1\<rparr>] [] d =
      (Inl (CheckoutError OUT_OF_STOCK (Some (dec (p_id product)))), d)"
    by (simp add: andThen_def throw_def)
  then show ?thesis
    by (simp add: serially_def race_request_def checkout_def validateLines_def transaction_def checkout_body_def andThen_def)
qed

lemma racer_stays_ready:
  assumes left: "race_left product k d" and "racer_ready product d c" and "u_id (fst c) \<noteq> u_id (fst b)"
    and "tx_uuid (snd c) \<noteq> tx_uuid (snd b)"
  shows "racer_ready product (checkout_effect (snd b) (race_input product b) d) c"
proof -
  obtain u where u: "u \<in> set (users d)" "u_id u = u_id (fst c)" "p_price product \<le> u_balance u"
    using assms(2) by (auto simp: racer_ready_def)
  then have "u \<in> set (users (checkout_effect (snd b) (race_input product b) d))"
    using assms(3) by (force simp: lower_row_def race_request_def)
  with u assms(2-) show ?thesis
    by (auto simp: racer_ready_def new_order_def new_outbox_def race_request_def)
qed

text \<open>
  In any order, the first attempts take what stock there is and the rest are refused for lack of it.
\<close>

lemma zip_requests: "map fst log = map f bs \<Longrightarrow> log = map (\<lambda>(b, q). (f b, q)) (zip bs (map snd log))"
proof (induction log arbitrary: bs)
  case (Cons x log)
  then show ?case by (cases bs; cases x) auto
qed simp

definition race_run :: "Product \<Rightarrow> ((User \<times> tx_env) \<times> sequences) list \<Rightarrow> db \<Rightarrow> CheckoutResult result list \<times> db" where
  "race_run product xs d = serial_run (map (\<lambda>(b, q). (race_request product b, q)) xs) d"

lemma race_run_Cons: "race_run product ((b, q) # xs) d = (case serially (race_request product b) (d\<lparr>seqs := q\<rparr>) of
    (r, d1) \<Rightarrow> (case race_run product xs d1 of (rs, d2) \<Rightarrow> (r # rs, d2)))"
  by (simp add: race_run_def)

lemma race_serial:
  assumes "race_left product k d" and "\<forall>x \<in> set xs. racer_ready product d (fst x)"
    and "distinct (map (u_id \<circ> fst \<circ> fst) xs)" and "distinct (map (tx_uuid \<circ> snd \<circ> fst) xs)"
  shows "race_left product (k - length xs) (snd (race_run product xs d)) \<and>
    (\<exists>rs. fst (race_run product xs d) = map Inr rs @
        replicate (length xs - k) (Inl (CheckoutError OUT_OF_STOCK (Some (dec (p_id product))))) \<and>
      length rs = min (length xs) k) \<and>
    length (orders (snd (race_run product xs d))) = length (orders d) + min (length xs) k \<and>
    length (jobs (snd (race_run product xs d))) = length (jobs d) + min (length xs) k"
  using assms
proof (induction xs arbitrary: d k)
  case Nil
  then show ?case by (simp add: race_run_def)
next
  case (Cons x xs)
  obtain b q where x: "x = (b, q)" by (cases x)
  let ?at = "d\<lparr>seqs := q\<rparr>"
  show ?case
  proof (cases k)
    case 0
    with Cons.prems(1) have run: "serially (race_request product b) ?at =
        (Inl (CheckoutError OUT_OF_STOCK (Some (dec (p_id product)))), ?at)" by (intro attempt_refused) simp
    have "race_left product 0 ?at" "\<forall>y \<in> set xs. racer_ready product ?at (fst y)"
      using Cons.prems(1,2) 0 by simp_all
    from Cons.IH [OF this] Cons.prems(3,4) 0 run show ?thesis
      by (auto simp: x race_run_Cons split: prod.splits)
  next
    case (Suc j)
    let ?d = "checkout_effect (snd b) (race_input product b) ?at"
    have left: "race_left product (Suc j) ?at" using Cons.prems(1) Suc by simp
    have "racer_ready product ?at b" using Cons.prems(2) x by simp
    note sold = attempt_sold [OF left this]
    then obtain res where run: "serially (race_request product b) ?at = (Inr res, ?d)" by blast
    have "\<forall>y \<in> set xs. racer_ready product ?d (fst y)"
    proof
      fix y assume y: "y \<in> set xs"
      then have "u_id (fst (fst y)) \<noteq> u_id (fst b)" "tx_uuid (snd (fst y)) \<noteq> tx_uuid (snd b)"
        using Cons.prems(3,4) by (auto simp: image_iff x)
      then show "racer_ready product ?d (fst y)"
        using racer_stays_ready [OF left, of "fst y" b] Cons.prems(2) y by simp
    qed
    with Cons.IH [OF sold(2)] Cons.prems(3,4) obtain rs where ih:
      "race_left product (j - length xs) (snd (race_run product xs ?d))"
      "fst (race_run product xs ?d) = map Inr rs @
        replicate (length xs - j) (Inl (CheckoutError OUT_OF_STOCK (Some (dec (p_id product)))))"
      "length rs = min (length xs) j"
      "length (orders (snd (race_run product xs ?d))) = length (orders ?d) + min (length xs) j"
      "length (jobs (snd (race_run product xs ?d))) = length (jobs ?d) + min (length xs) j"
      by auto
    have split: "fst (race_run product (x # xs) d) = Inr res # fst (race_run product xs ?d)"
      "snd (race_run product (x # xs) d) = snd (race_run product xs ?d)"
      using run by (simp_all add: x race_run_Cons split: prod.splits)
    have "fst (race_run product (x # xs) d) = map Inr (res # rs) @
        replicate (length (x # xs) - k) (Inl (CheckoutError OUT_OF_STOCK (Some (dec (p_id product)))))"
      using ih(2) Suc by (simp add: split)
    moreover have "length (res # rs) = min (length (x # xs)) k" using ih(3) Suc by simp
    ultimately show ?thesis using ih(1,4,5) Suc unfolding split(2) by (auto intro!: exI [of _ "res # rs"])
  qed
qed

section \<open>The verdict\<close>

lemma mset_map_split: "mset xs = mset (map f ys) \<Longrightarrow> \<exists>zs. mset zs = mset ys \<and> xs = map f zs"
proof (induction xs arbitrary: ys)
  case Nil
  then show ?case by simp
next
  case (Cons x xs)
  then have "x \<in> f ` set ys" by (metis list.set_intros(1) list.set_map set_mset_mset)
  then obtain y where y: "y \<in> set ys" "x = f y" by blast
  with Cons.prems have "mset xs = mset (map f (remove1 y ys))"
    by (simp add: image_mset_Diff) (metis add_mset_remove_trivial)
  from Cons.IH [OF this] obtain zs where "mset zs = mset (remove1 y ys)" "xs = map f zs" by blast
  with y show ?case by (intro exI [of _ "y # zs"]) simp
qed

definition results_of :: "checkout_client list \<Rightarrow> CheckoutResult result list" where
  "results_of cs = map snd (concat (map ended cs))"

lemma race_outcomes_all:
  assumes "\<forall>cl \<in> set cs. finished (snd cl)" and "\<forall>r \<in> set (results_of cs). attempt r = Inr (f r)"
  shows "race_outcomes cs = Some (map f (results_of cs))"
  using assms
proof (induction cs)
  case (Cons cl cs)
  obtain req ph where cl: "cl = (req, ph)" by (cases cl)
  with Cons.prems(1) obtain r where "ph = Finished r" by (cases ph) auto
  with Cons cl show ?case by (simp add: results_of_def)
qed (simp add: results_of_def)

lemma race_counts:
  assumes "mset results = mset (map Inr rs @ replicate k (Inl (CheckoutError OUT_OF_STOCK p)))"
  shows "count_outcomes SUCCESS (map (\<lambda>r. projr (attempt r)) results) = length rs"
    and "\<forall>r \<in> set results. attempt r = Inr (projr (attempt r))"
proof -
  let ?P = "\<lambda>r. projr (attempt r) = SUCCESS"
  have "length (filter ?P results) = length (filter ?P (map Inr rs @ replicate k (Inl (CheckoutError OUT_OF_STOCK p))))"
    using assms by (metis mset_filter size_mset)
  also have "\<dots> = length rs" by (simp add: filter_map comp_def)
  finally show "count_outcomes SUCCESS (map (\<lambda>r. projr (attempt r)) results) = length rs"
    by (simp add: count_outcomes_def filter_map comp_def)
  have "set results = set (map Inr rs @ replicate k (Inl (CheckoutError OUT_OF_STOCK p)))"
    using assms by (metis set_mset_mset)
  then show "\<forall>r \<in> set results. attempt r = Inr (projr (attempt r))" by auto
qed

text \<open>
  However the fifty attempts interleave, they take at most 400 statements, and when none is left
  the script's own verdict is that the invariant holds: exactly ten attempts succeed, the rest are
  refused, no stock is negative or left over, and every success has its one order and its one job.
\<close>

lemma race_demo_holds:
  assumes ok: "seed_ok s0" and prep: "race_setup now productName s0 = (Inr (product, buyers), s1)"
    and all: "length buyers = ATTEMPTS" "length envs = ATTEMPTS"
    and fits: "p_id product < 2 ^ 53" "\<forall>u \<in> set buyers. u_id u \<le> int8_max" "p_price product \<le> BUYER_BALANCE"
    and fresh: "distinct (map tx_uuid envs)" "\<forall>env \<in> set envs. tx_uuid env \<notin> x_id ` set (outbox (sd_db s1)) \<and>
        (\<forall>r \<in> set (orders (sd_db s1)). o_createdAt r \<noteq> tx_now env)"
    and run: "(pool_moves ^^ n) (new_pool (map (race_request product) (zip buyers envs)) (sd_db s1)) t"
  shows "n \<le> 8 * ATTEMPTS \<and>
    ((\<exists>t'. pool_moves t t') \<or> race_verdict product (sd_db s1) (cp_clients t) (cp_db t) = Some True)"
proof -
  let ?bs = "zip buyers envs" and ?d = "sd_db s1"
  let ?reqs = "map (race_request product) ?bs"
  note setup_ok = race_setup_ok [OF ok prep]
  have len: "length ?bs = ATTEMPTS" using all by simp
  have left: "race_left product 10 ?d"
    using setup_ok(2) db_ok_stock [OF setup_ok(1)] fits(1) by (auto simp: race_left_def RACE_STOCK_def int8_max_def)
  have ready: "racer_ready product ?d b" if b: "b \<in> set ?bs" for b
  proof -
    have u: "fst b \<in> set buyers" and env: "snd b \<in> set envs"
      using set_zip_leftD [of "fst b" "snd b"] set_zip_rightD [of "fst b" "snd b"] b by simp_all
    have "fst b \<in> set (users ?d)" "p_price product \<le> u_balance (fst b)" using setup_ok(4) u fits(3) by simp_all
    with u env fits(2) fresh(2) show ?thesis unfolding racer_ready_def by blast
  qed
  have ids: "distinct (map (u_id \<circ> fst) ?bs)" "distinct (map (tx_uuid \<circ> snd) ?bs)"
    using setup_ok(3) fresh(1) all by (simp_all flip: map_map)
  have steps: "n \<le> 8 * ATTEMPTS"
    using pool_moves_bound [OF run] pool_work_start [of ?reqs ?d] len
    by (simp add: race_request_def comp_def case_prod_beta sum_list_triv)
  have ok_t: "clients_ok ?d ?reqs t" by (rule pool_reach_ok [OF setup_ok(1) relpowp_imp_rtranclp [OF run]])
  have "race_verdict product ?d (cp_clients t) (cp_db t) = Some True" if ends: "\<forall>cl \<in> set (cp_clients t). finished (snd cl)"
  proof -
    from mset_map_split [OF pool_all_ended(2) [OF ok_t ends]] obtain bs where
      bs: "mset bs = mset ?bs" "map fst (log_outcomes (cp_log t)) = map (race_request product) bs" by blast
    define xs where "xs = zip bs (map snd (log_requests (cp_log t)))"
    have len_log: "length (log_requests (cp_log t)) = length bs"
      using arg_cong [OF bs(2), of length] by (simp add: log_requests_def log_outcomes_def)
    have "map fst (log_requests (cp_log t)) = map (race_request product) bs"
      using bs(2) by (simp add: log_requests_def log_outcomes_def comp_def case_prod_beta)
    then have log: "log_requests (cp_log t) = map (\<lambda>(b, q). (race_request product b, q)) xs"
      unfolding xs_def by (rule zip_requests)
    have fsts: "map fst xs = bs" using len_log by (simp add: xs_def)
    then have same: "length xs = ATTEMPTS" "fst ` set xs = set ?bs"
      using len bs(1) by (metis length_map size_mset, metis list.set_map set_mset_mset)
    have "mset (map (u_id \<circ> fst) bs) = mset (map (u_id \<circ> fst) ?bs)" "mset (map (tx_uuid \<circ> snd) bs) = mset (map (tx_uuid \<circ> snd) ?bs)"
      using bs(1) by simp_all
    then have "distinct (map (u_id \<circ> fst) bs)" "distinct (map (tx_uuid \<circ> snd) bs)"
      using ids by (metis mset_eq_imp_distinct_iff)+
    then have keys: "distinct (map (u_id \<circ> fst \<circ> fst) xs)" "distinct (map (tx_uuid \<circ> snd \<circ> fst) xs)"
      unfolding fsts [symmetric] by (simp_all add: comp_assoc)
    have serial: "fst (race_run product xs ?d) = log_results (cp_log t)"
      "cp_db t = (snd (race_run product xs ?d))\<lparr>seqs := seqs (cp_db t)\<rparr>"
      using ok_t log by (simp_all add: clients_ok_def serial_log_def race_run_def)
    have "\<forall>x \<in> set xs. racer_ready product ?d (fst x)" using ready same(2) by (metis imageI)
    from race_serial [OF left this keys] same(1) obtain rs where
      run: "race_left product 0 (snd (race_run product xs ?d))" "length (orders (snd (race_run product xs ?d))) = length (orders ?d) + 10"
        "length (jobs (snd (race_run product xs ?d))) = length (jobs ?d) + 10"
      and rs: "log_results (cp_log t) = map Inr rs @ replicate 40 (Inl (CheckoutError OUT_OF_STOCK (Some (dec (p_id product)))))"
        "length rs = 10"
      unfolding serial(1) by (auto simp: ATTEMPTS_def)
    have final: "race_left product 0 (cp_db t)" "length (orders (cp_db t)) = length (orders ?d) + 10"
        "length (jobs (cp_db t)) = length (jobs ?d) + 10"
      using run by (subst serial(2), simp)+
    have results: "mset (results_of (cp_clients t)) = mset (log_results (cp_log t))"
    proof -
      have "mset (results_of (cp_clients t)) = image_mset snd (mset (concat (map ended (cp_clients t))))" by (simp add: results_of_def)
      also have "\<dots> = image_mset snd (mset (log_outcomes (cp_log t)))" using ok_t by (simp add: clients_ok_def)
      also have "image_mset snd (mset (log_outcomes log)) = mset (log_results log)" for log
        by (induction log) (auto simp: log_outcomes_def log_results_def)
      finally show ?thesis .
    qed
    note counts = race_counts [OF results [unfolded rs(1)]]
    have outs: "race_outcomes (cp_clients t) = Some (map (\<lambda>r. projr (attempt r)) (results_of (cp_clients t)))"
      by (rule race_outcomes_all [OF ends counts(2)])
    have "length (results_of (cp_clients t)) = ATTEMPTS"
      using mset_eq_length [OF results] pool_all_ended(1) [OF ok_t ends] len by (simp add: log_results_def)
    moreover obtain p where p: "p \<in> set (products (cp_db t))" "p_id p = p_id product" "p_stock p = 0"
      using final(1) by (auto simp: race_left_def)
    have dbt: "db_ok (cp_db t)" using ok_t by (simp add: clients_ok_def)
    have "select_one (\<lambda>q. p_id q = p_id product) (products (cp_db t)) = Some p"
      by (rule select_one_unique [OF db_okD(1) [OF dbt] p(1)]) (use p in simp_all)
    moreover have "filter (\<lambda>p. p_stock p < 0) (products (cp_db t)) = []"
      using db_okD(6) [OF dbt] by (fastforce simp: filter_empty_conv product_ok_def)
    ultimately show ?thesis
      using outs counts(1) final(2,3) rs(2) p(3) by (simp add: race_verdict_def Let_def RACE_STOCK_def)
  qed
  moreover have "\<forall>req \<in> set ?reqs. exact_ids req"
    using fits(1) by (auto simp: exact_ids_def race_request_def)
  ultimately show ?thesis using steps pool_ends [OF ok_t] by blast
qed

section \<open>The demonstration on a shop with one product\<close>

lemma num_of_padded [simp]: "num_of (padStart n s) = num_of s"
proof -
  have "foldl (\<lambda>acc c. acc * 10 + digit_val c) 0 (replicate k CHR ''0'') = 0" for k
    by (induction k) (simp_all add: digit_val_def)
  then show ?thesis by (simp add: num_of_def padStart_def)
qed

lemma race_buyer_inject:
  "us_email (race_buyer i) = us_email (race_buyer j) \<longleftrightarrow> i = j" "us_phone (race_buyer i) = us_phone (race_buyer j) \<longleftrightarrow> i = j"
proof -
  have "i = j" if "padStart n (dec (i + 1)) = padStart n (dec (j + 1))" for n
    using arg_cong [OF that, of num_of] by simp
  then show "us_email (race_buyer i) = us_email (race_buyer j) \<longleftrightarrow> i = j"
    and "us_phone (race_buyer i) = us_phone (race_buyer j) \<longleftrightarrow> i = j"
    by (auto simp: race_buyer_def Let_def)
qed

lemma length_dec: "n < 10 ^ Suc k \<Longrightarrow> length (dec n) \<le> Suc k"
proof (induction k arbitrary: n)
  case 0
  then show ?case by (simp add: dec.simps [of n])
next
  case (Suc k)
  then have "length (dec (n div 10)) \<le> Suc k" by (intro Suc.IH) (simp add: div_less_iff_less_mult)
  then show ?case by (simp add: dec.simps [of n])
qed

lemma padded_digits: "list_all is_digit (padStart n (dec m))"
  using dec_digits [of m] by (auto simp: padStart_def list_all_iff is_digit_def)

lemma lower_digits: "list_all is_digit s \<Longrightarrow> toLowerCase s = s"
  unfolding toLowerCase_def by (rule map_idI) (auto simp: list_all_iff is_digit_def lower_char_def Let_def)

lemma toLowerCase_append: "toLowerCase (s @ t) = toLowerCase s @ toLowerCase t"
  by (simp add: toLowerCase_def)

lemma race_buyer_fits: "i < ATTEMPTS \<Longrightarrow> user_seed_fits (race_buyer i)"
proof -
  assume "i < ATTEMPTS"
  then have "i + 1 < 10 ^ Suc 6" by (simp add: ATTEMPTS_def)
  from length_dec [OF this] have "length (padStart 7 (dec (i + 1))) = 7" by (simp add: padStart_def)
  then have "phone_ok (us_phone (race_buyer i))"
    using padded_digits [of 7 "i + 1"] by (simp add: phone_ok_def race_buyer_def Let_def is_digit_def)
  moreover have "toLowerCase (us_email (race_buyer i)) = us_email (race_buyer i)"
    unfolding race_buyer_def Let_def using lower_digits [OF padded_digits [of 2 "i + 1"]]
    by (simp add: toLowerCase_append) (simp add: toLowerCase_def lower_char_def Let_def)
  ultimately show ?thesis by (simp add: user_seed_fits_def race_buyer_def Let_def BUYER_BALANCE_def int4_max_def)
qed

text \<open>Inserting buyers that are all new.\<close>

definition new_racer :: "int \<Rightarrow> nat \<Rightarrow> nat \<Rightarrow> User" where
  "new_racer now k i = \<lparr>u_id = k + i, u_email = us_email (race_buyer i), u_phone = us_phone (race_buyer i),
     u_name = us_name (race_buyer i), u_balance = BUYER_BALANCE, u_passwordHash = None, u_role = buyer, u_createdAt = now\<rparr>"

definition with_racers :: "int \<Rightarrow> nat \<Rightarrow> nat list \<Rightarrow> seed_db \<Rightarrow> seed_db" where
  "with_racers now k is s = s\<lparr>sd_db := (sd_db s)\<lparr>users := users (sd_db s) @ map (new_racer now k) is\<rparr>,
     sd_userSeq := sd_userSeq s + length is\<rparr>"

lemma insert_new_racers:
  assumes "users (sd_db s) = map (new_racer now k) [0..<m]" and "sd_userSeq s = k + m" and "m + n \<le> ATTEMPTS"
  shows "insert_ignoring now (map race_buyer [m..<m + n]) s = (Inr (), with_racers now k [m..<m + n] s)"
  using assms
proof (induction n arbitrary: m s)
  case 0
  then show ?case by (simp add: with_racers_def)
next
  case (Suc n)
  let ?t = "user_table now (race_buyer m) None"
  let ?s = "s\<lparr>sd_db := (sd_db s)\<lparr>users := users (sd_db s) @ [new_racer now k m]\<rparr>, sd_userSeq := Suc (sd_userSeq s)\<rparr>"
  have ups: "[m..<m + Suc n] = m # [Suc m..<Suc m + n]" by (simp add: upt_conv_Cons del: upt_Suc)
  have row: "tb_row ?t s = new_racer now k m"
    using Suc.prems(2) by (simp add: user_table_def new_racer_def race_buyer_def Let_def)
  have "tb_violated ?t (new_racer now k m) = None"
    using race_buyer_fits [of m] Suc.prems(3) by (simp add: user_table_def user_seed_fits_def new_racer_def BUYER_BALANCE_def)
  moreover have "\<not> tb_taken ?t (new_racer now k m) s"
    using Suc.prems(1) by (auto simp: user_table_def list_ex_iff new_racer_def race_buyer_inject)
  moreover have "tb_dangling ?t (new_racer now k m) s = None" "tb_add ?t (new_racer now k m) (tb_draw ?t s) = ?s"
    by (simp_all add: user_table_def)
  ultimately have "insertIfMissing ?t s = (Inr (Some (new_racer now k m)), ?s)"
    by (simp add: insertIfMissing_def row Let_def)
  moreover have "insert_ignoring now (map race_buyer [Suc m..<Suc m + n]) ?s = (Inr (), with_racers now k [Suc m..<Suc m + n] ?s)"
    by (rule Suc.IH) (use Suc.prems in simp_all)
  moreover have "with_racers now k [Suc m..<Suc m + n] ?s = with_racers now k [m..<m + Suc n] s"
    unfolding ups by (simp add: with_racers_def)
  ultimately show ?case unfolding ups by (simp add: andThen_def del: upt_Suc)
qed

definition race_shop :: seed_db where
  "race_shop = \<lparr>sd_db = empty_db\<lparr>products := [\<lparr>p_id = 1, p_name = ''Kettle'', p_description = '''', p_price = 149900,
     p_stock = 3, p_createdAt = 0\<rparr>], seqs := (seqs empty_db)\<lparr>sq_product := 2\<rparr>\<rparr>, sd_userSeq = 1\<rparr>"

definition race_product :: Product where
  "race_product = \<lparr>p_id = 1, p_name = ''Kettle'', p_description = '''', p_price = 149900, p_stock = 3, p_createdAt = 0\<rparr>"

definition race_users :: "User list" where
  "race_users = map (new_racer 5 1) [0..<ATTEMPTS]"

definition race_start :: seed_db where
  "race_start = race_shop\<lparr>sd_db := (sd_db race_shop)\<lparr>users := race_users, products := [race_product\<lparr>p_stock := 10\<rparr>]\<rparr>,
     sd_userSeq := 51\<rparr>"

definition race_envs :: "tx_env list" where
  "race_envs = map (\<lambda>i. \<lparr>tx_now = 100, tx_uuid = dec i\<rparr>) [0..<ATTEMPTS]"

lemma race_shop_ok: "seed_ok race_shop"
  by (simp add: seed_ok_def race_shop_def empty_db_def db_ok_defs product_ok_def int4_max_def
      idempotency_unique_def below_def)

lemma race_shop_setup: "race_setup 5 ''Kettle'' race_shop = (Inr (race_product, race_users), race_start)"
proof -
  let ?s = "with_racers 5 1 [0..<ATTEMPTS] race_shop"
  have "insert_ignoring 5 race_buyers race_shop = (Inr (), ?s)"
    unfolding race_buyers_def using insert_new_racers [of race_shop 5 1 0 ATTEMPTS]
    by (simp add: race_shop_def empty_db_def)
  moreover have us: "users (sd_db ?s) = race_users" by (simp add: with_racers_def race_shop_def empty_db_def race_users_def)
  moreover have racer: "is_racer u \<and> u_balance u = BUYER_BALANCE" if "u \<in> set race_users" for u
    using that by (auto simp: race_users_def new_racer_def is_racer_def race_buyers_def)
  then have "update_where is_racer (\<lambda>u. u\<lparr>u_balance := BUYER_BALANCE\<rparr>) race_users = race_users"
    unfolding update_where_def by (intro map_idI) simp
  then have "refill_balances ?s = (Inr (), ?s)"
    using us by (simp add: refill_balances_def with_racers_def)
  moreover have "filter is_racer race_users = race_users" using racer by (simp add: filter_id_conv)
  moreover have "sort_key u_id race_users = race_users"
    by (rule sort_key_id_if_sorted) (simp add: race_users_def new_racer_def comp_def map_Suc_upt del: upt_Suc)
  moreover have "find_one_or_fail (\<lambda>p. p_name p = ''Kettle'') products (sd_db ?s) = (Inr race_product, sd_db ?s)"
    by (simp add: find_one_or_fail_def with_racers_def race_shop_def race_product_def select_one_def)
  moreover have "reset_stock (p_id race_product) RACE_STOCK (sd_db ?s) = (Inr (), sd_db race_start)"
    by (simp add: reset_stock_def andThen_def lift_def int4_param_def RACE_STOCK_def int4_max_def with_racers_def
        race_start_def race_shop_def race_product_def race_users_def empty_db_def)
  moreover have "?s\<lparr>sd_db := sd_db race_start\<rparr> = race_start" "users (sd_db race_start) = race_users"
    by (simp_all add: with_racers_def race_start_def race_shop_def ATTEMPTS_def)
  ultimately show ?thesis by (simp add: race_setup_def andThen_def at_db_def)
qed

lemma race_demo_runs:
  "\<exists>n t. (pool_moves ^^ n) (new_pool (map (race_request race_product) (zip race_users race_envs)) (sd_db race_start)) t \<and>
     race_verdict race_product (sd_db race_start) (cp_clients t) (cp_db t) = Some True"
proof (rule bounded_run_ends)
  fix n t
  assume run: "(pool_moves ^^ n) (new_pool (map (race_request race_product) (zip race_users race_envs)) (sd_db race_start)) t"
  have d: "outbox (sd_db race_start) = []" "orders (sd_db race_start) = []"
    by (simp_all add: race_start_def race_shop_def empty_db_def)
  have uuids: "distinct (map tx_uuid race_envs)" by (simp add: race_envs_def comp_def distinct_map inj_on_def)
  have ids: "\<forall>u \<in> set race_users. u_id u \<le> int8_max"
    by (auto simp: race_users_def new_racer_def ATTEMPTS_def int8_max_def)
  show "n \<le> 8 * ATTEMPTS \<and> ((\<exists>t'. pool_moves t t') \<or>
      race_verdict race_product (sd_db race_start) (cp_clients t) (cp_db t) = Some True)"
    by (rule race_demo_holds [OF race_shop_ok race_shop_setup _ _ _ ids _ uuids _ run])
      (simp_all add: d race_users_def race_envs_def race_product_def BUYER_BALANCE_def)
qed

end
