(* ===== verification/Config.thy ===== *)
theory Config
  imports Access Orders "HOL-Library.Monad_Syntax"
begin

text \<open>
  The configuration: the rules of \<open>src/config/env.schema.ts\<close>, the keys the application then verifies
  tokens with, and the database connection of \<open>src/database/database.module.ts\<close>. The environment is a
  map from names to strings. \<open>Number\<close>, URL and key parsing, base64 and the messages of Zod's own checks
  are arguments.
\<close>

section \<open>The environment\<close>

text \<open>
  \<open>eo_number\<close> is \<open>Number\<close> on a string; \<open>eo_scheme\<close> is the scheme of a text that is a URL; \<open>eo_pem\<close> decodes
  base64; the curve functions give \<open>asymmetricKeyDetails.namedCurve\<close> of a PEM text that parses;
  \<open>eo_message\<close> is what Zod says about a variable its own checks refuse, and \<open>eo_aborts\<close> whether Zod then
  skips the refinement of the whole object.
\<close>

record env_ops =
  eo_number :: "string \<Rightarrow> js_number"
  eo_scheme :: "string \<Rightarrow> string option"
  eo_pem :: "string \<Rightarrow> string"
  eo_privateCurve :: "string \<Rightarrow> string option"
  eo_publicCurve :: "string \<Rightarrow> string option"
  eo_message :: "string \<Rightarrow> string option \<Rightarrow> string"
  eo_aborts :: "(string \<Rightarrow> string option) \<Rightarrow> bool"

datatype LogLevel = debug | info | warn | log_error

fun log_level :: "string \<Rightarrow> LogLevel option" where
  "log_level s = (if s = ''debug'' then Some debug else if s = ''info'' then Some info
     else if s = ''warn'' then Some warn else if s = ''error'' then Some log_error else None)"

record Env =
  en_PORT :: int
  en_DB_URL :: "string option"
  en_DB_PASSWORD_FILE :: string
  en_BROKER_URL :: string
  en_REDIS_URL :: string
  en_REDIS_QUEUE_URL :: string
  en_JWT_PRIVATE_KEY :: string
  en_JWT_PUBLIC_KEY :: string
  en_JWT_KID :: string
  en_JWT_PREVIOUS_KID :: "string option"
  en_JWT_PREVIOUS_PUBLIC_KEY :: "string option"
  en_REFRESH_TOKEN_PEPPER :: string
  en_LOG_LEVEL :: LogLevel
  en_TIMEOUT_MS :: int

section \<open>One variable\<close>

text \<open>\<open>z.coerce.number().int()\<close>: an integer exact as a double; a missing variable is \<open>NaN\<close>.\<close>

definition coerced_int :: "env_ops \<Rightarrow> string option \<Rightarrow> int option" where
  "coerced_int ops v = (case v of None \<Rightarrow> None
     | Some s \<Rightarrow> (case eo_number ops s of JsNonInt t \<Rightarrow> None
         | JsInt i \<Rightarrow> if - (2 ^ 53) < i \<and> i < 2 ^ 53 then Some i else None))"

definition url_of :: "env_ops \<Rightarrow> string list \<Rightarrow> string option \<Rightarrow> string option" where
  "url_of ops schemes v = (case v of None \<Rightarrow> None
     | Some s \<Rightarrow> (case eo_scheme ops s of None \<Rightarrow> None | Some p \<Rightarrow> if p \<in> set schemes then Some s else None))"

definition text_of :: "nat \<Rightarrow> string option \<Rightarrow> string option" where
  "text_of least v = (case v of None \<Rightarrow> None | Some s \<Rightarrow> if least \<le> length s then Some s else None)"

definition isP256Key :: "env_ops \<Rightarrow> (string \<Rightarrow> string option) \<Rightarrow> string \<Rightarrow> bool" where
  "isP256Key ops curve s \<longleftrightarrow> curve (eo_pem ops s) = Some ''prime256v1''"

definition key_of :: "env_ops \<Rightarrow> (string \<Rightarrow> string option) \<Rightarrow> string option \<Rightarrow> string option" where
  "key_of ops curve v = (case v of None \<Rightarrow> None | Some s \<Rightarrow> if isP256Key ops curve s then Some s else None)"

text \<open>\<open>.optional()\<close> and \<open>.default(x)\<close>: a missing variable is accepted.\<close>

definition optional_of :: "(string option \<Rightarrow> 'v option) \<Rightarrow> string option \<Rightarrow> 'v option option" where
  "optional_of parse v = (if v = None then Some None else map_option Some (parse v))"

definition default_of :: "'v \<Rightarrow> (string option \<Rightarrow> 'v option) \<Rightarrow> string option \<Rightarrow> 'v option" where
  "default_of x parse v = (if v = None then Some x else parse v)"

definition bounded :: "(int \<Rightarrow> bool) \<Rightarrow> int option \<Rightarrow> int option" where
  "bounded P v = (case v of None \<Rightarrow> None | Some i \<Rightarrow> if P i then Some i else None)"

section \<open>The schema\<close>

definition parse_env :: "env_ops \<Rightarrow> (string \<Rightarrow> string option) \<Rightarrow> Env option" where
  "parse_env ops raw = do {
     port \<leftarrow> bounded (\<lambda>i. 1 \<le> i \<and> i \<le> 65535) (coerced_int ops (raw ''PORT''));
     dbUrl \<leftarrow> optional_of (url_of ops [''postgres'']) (raw ''DB_URL'');
     passwordFile \<leftarrow> default_of ''secrets/db_password'' (text_of 1) (raw ''DB_PASSWORD_FILE'');
     broker \<leftarrow> url_of ops [''amqp'', ''amqps''] (raw ''BROKER_URL'');
     redis \<leftarrow> url_of ops [''redis'', ''rediss''] (raw ''REDIS_URL'');
     queue \<leftarrow> url_of ops [''redis'', ''rediss''] (raw ''REDIS_QUEUE_URL'');
     privateKey \<leftarrow> key_of ops (eo_privateCurve ops) (raw ''JWT_PRIVATE_KEY'');
     publicKey \<leftarrow> key_of ops (eo_publicCurve ops) (raw ''JWT_PUBLIC_KEY'');
     kid \<leftarrow> text_of 1 (raw ''JWT_KID'');
     previousKid \<leftarrow> optional_of (text_of 1) (raw ''JWT_PREVIOUS_KID'');
     previousKey \<leftarrow> optional_of (key_of ops (eo_publicCurve ops)) (raw ''JWT_PREVIOUS_PUBLIC_KEY'');
     pepper \<leftarrow> text_of 32 (raw ''REFRESH_TOKEN_PEPPER'');
     level \<leftarrow> default_of info (\<lambda>v. Option.bind v log_level) (raw ''LOG_LEVEL'');
     timeout \<leftarrow> default_of 5000 (\<lambda>v. bounded (\<lambda>i. 0 < i) (coerced_int ops v)) (raw ''TIMEOUT_MS'');
     Some \<lparr>en_PORT = port, en_DB_URL = dbUrl, en_DB_PASSWORD_FILE = passwordFile, en_BROKER_URL = broker,
       en_REDIS_URL = redis, en_REDIS_QUEUE_URL = queue, en_JWT_PRIVATE_KEY = privateKey,
       en_JWT_PUBLIC_KEY = publicKey, en_JWT_KID = kid, en_JWT_PREVIOUS_KID = previousKid,
       en_JWT_PREVIOUS_PUBLIC_KEY = previousKey, en_REFRESH_TOKEN_PEPPER = pepper, en_LOG_LEVEL = level,
       en_TIMEOUT_MS = timeout\<rparr> }"

text \<open>The variables whose own checks fail, in the order of the schema.\<close>

definition refused_variables :: "env_ops \<Rightarrow> (string \<Rightarrow> string option) \<Rightarrow> string list" where
  "refused_variables ops raw = map fst (filter (\<lambda>c. \<not> snd c)
     [(''PORT'', bounded (\<lambda>i. 1 \<le> i \<and> i \<le> 65535) (coerced_int ops (raw ''PORT'')) \<noteq> None),
      (''DB_URL'', optional_of (url_of ops [''postgres'']) (raw ''DB_URL'') \<noteq> None),
      (''DB_PASSWORD_FILE'', default_of ''secrets/db_password'' (text_of 1) (raw ''DB_PASSWORD_FILE'') \<noteq> None),
      (''BROKER_URL'', url_of ops [''amqp'', ''amqps''] (raw ''BROKER_URL'') \<noteq> None),
      (''REDIS_URL'', url_of ops [''redis'', ''rediss''] (raw ''REDIS_URL'') \<noteq> None),
      (''REDIS_QUEUE_URL'', url_of ops [''redis'', ''rediss''] (raw ''REDIS_QUEUE_URL'') \<noteq> None),
      (''JWT_PRIVATE_KEY'', key_of ops (eo_privateCurve ops) (raw ''JWT_PRIVATE_KEY'') \<noteq> None),
      (''JWT_PUBLIC_KEY'', key_of ops (eo_publicCurve ops) (raw ''JWT_PUBLIC_KEY'') \<noteq> None),
      (''JWT_KID'', text_of 1 (raw ''JWT_KID'') \<noteq> None),
      (''JWT_PREVIOUS_KID'', optional_of (text_of 1) (raw ''JWT_PREVIOUS_KID'') \<noteq> None),
      (''JWT_PREVIOUS_PUBLIC_KEY'', optional_of (key_of ops (eo_publicCurve ops)) (raw ''JWT_PREVIOUS_PUBLIC_KEY'') \<noteq> None),
      (''REFRESH_TOKEN_PEPPER'', text_of 32 (raw ''REFRESH_TOKEN_PEPPER'') \<noteq> None),
      (''LOG_LEVEL'', default_of info (\<lambda>v. Option.bind v log_level) (raw ''LOG_LEVEL'') \<noteq> None),
      (''TIMEOUT_MS'', default_of 5000 (\<lambda>v. bounded (\<lambda>i. 0 < i) (coerced_int ops v)) (raw ''TIMEOUT_MS'') \<noteq> None)])"

text \<open>The refinement of the whole object, on the texts of the three variables it reads.\<close>

definition superRefine :: "string option \<Rightarrow> string option \<Rightarrow> string option \<Rightarrow> (string \<times> string) list" where
  "superRefine kid previousKid previousKey =
     (if truthy previousKid \<noteq> truthy previousKey
        then [(if truthy previousKid then ''JWT_PREVIOUS_PUBLIC_KEY'' else ''JWT_PREVIOUS_KID'',
               ''JWT_PREVIOUS_KID and JWT_PREVIOUS_PUBLIC_KEY are set together or not at all'')] else []) @
     (if truthy previousKid \<and> previousKid = kid then [(''JWT_PREVIOUS_KID'', ''must differ from JWT_KID'')] else [])"

text \<open>A refused key has the message of the schema, any other failure the one of Zod.\<close>

definition issue_message :: "env_ops \<Rightarrow> string \<Rightarrow> string option \<Rightarrow> string" where
  "issue_message ops name v =
     (if name = ''JWT_PRIVATE_KEY'' \<and> v \<noteq> None then ''must be a base64-encoded PEM private key on the P-256 curve''
      else if (name = ''JWT_PUBLIC_KEY'' \<or> name = ''JWT_PREVIOUS_PUBLIC_KEY'') \<and> v \<noteq> None
        then ''must be a base64-encoded PEM public key on the P-256 curve''
      else eo_message ops name v)"

definition env_issues :: "env_ops \<Rightarrow> (string \<Rightarrow> string option) \<Rightarrow> (string \<times> string) list" where
  "env_issues ops raw =
     (let own = map (\<lambda>name. (name, issue_message ops name (raw name))) (refused_variables ops raw)
      in own @ (if own \<noteq> [] \<and> eo_aborts ops raw then []
                else superRefine (raw ''JWT_KID'') (raw ''JWT_PREVIOUS_KID'') (raw ''JWT_PREVIOUS_PUBLIC_KEY'')))"

definition validate :: "env_ops \<Rightarrow> (string \<Rightarrow> string option) \<Rightarrow> Env result" where
  "validate ops raw =
     (case (env_issues ops raw, parse_env ops raw) of
        ([], Some env) \<Rightarrow> Inr env
      | (issues, _) \<Rightarrow> Inl (PlainError (''Invalid environment configuration:'' @ [CHR 0x0A] @
          join_with [CHR 0x0A] (map (\<lambda>(name, message). name @ '': '' @ message) issues))))"

text \<open>What \<open>verificationKeysFromConfig\<close> reads of the configuration.\<close>

definition keys_of :: "env_ops \<Rightarrow> Env \<Rightarrow> (string \<times> string) list" where
  "keys_of ops env = verificationKeysFromConfig (eo_pem ops)
     \<lparr>kc_kid = en_JWT_KID env, kc_publicKey = en_JWT_PUBLIC_KEY env, kc_previousKid = en_JWT_PREVIOUS_KID env,
      kc_previousPublicKey = en_JWT_PREVIOUS_PUBLIC_KEY env\<rparr>"

section \<open>The database connection\<close>

datatype DatabaseConnection =
    ByUrl string
  | ByParts string int string string string

record url_parts =
  up_hostname :: string
  up_port :: string
  up_pathname :: string
  up_username :: string

text \<open>
  \<open>url\<close> parses a URL, \<open>decode\<close> is \<open>decodeURIComponent\<close>, \<open>password\<close> the trimmed text of the file a path
  resolves to, or what reading it throws.
\<close>

definition connectionFromConfig ::
  "env_ops \<Rightarrow> (string \<Rightarrow> url_parts result) \<Rightarrow> (string \<Rightarrow> string result) \<Rightarrow> (string \<Rightarrow> string result) \<Rightarrow>
     string option \<Rightarrow> Env \<Rightarrow> DatabaseConnection result" where
  "connectionFromConfig ops url decode password databaseUrl env =
     (if truthy databaseUrl then Inr (ByUrl (the databaseUrl))
      else if \<not> truthy (en_DB_URL env) then Inl (PlainError ''Either DATABASE_URL or DB_URL must be set'')
      else (case url (the (en_DB_URL env)) of
          Inl e \<Rightarrow> Inl e
        | Inr parts \<Rightarrow>
            (case password (en_DB_PASSWORD_FILE env) of
               Inl e \<Rightarrow> Inl e
             | Inr secret \<Rightarrow>
                 let port = (case eo_number ops (up_port parts) of JsInt i \<Rightarrow> if i = 0 then 5432 else i | JsNonInt t \<Rightarrow> 5432)
                 in (case decode (up_username parts) of
                       Inl e \<Rightarrow> Inl e
                     | Inr username \<Rightarrow> Inr (ByParts (up_hostname parts) port username secret (drop 1 (up_pathname parts)))))))"

end
