(* ===== verification/Config_Theorems.thy ===== *)
theory Config_Theorems
  imports Config
begin

text \<open>
  Which environments are accepted and what an accepted one promises, and the rotation of the signing
  key: tokens of the retired key stay accepted, tokens of the new one are checked against the new key.
\<close>

lemmas parsers = optional_of_def default_of_def bounded_def text_of_def url_of_def key_of_def

lemma bind_defined: "Option.bind x f \<noteq> None \<longleftrightarrow> x \<noteq> None \<and> f (the x) \<noteq> None"
  by (cases x) simp_all

lemma none_refused: "map fst (filter (\<lambda>c. \<not> snd c) cs) = [] \<longleftrightarrow> list_all snd cs"
  by (induction cs) auto

lemma parse_iff: "refused_variables ops raw = [] \<longleftrightarrow> parse_env ops raw \<noteq> None"
  unfolding refused_variables_def parse_env_def none_refused bind_defined by (simp del: not_None_eq)

lemma superRefine_iff: "superRefine kid previousKid previousKey = [] \<longleftrightarrow>
    truthy previousKid = truthy previousKey \<and> (truthy previousKid \<longrightarrow> previousKid \<noteq> kid)"
  by (auto simp: superRefine_def)

lemma validate_Inr: "validate ops raw = Inr env \<longleftrightarrow> parse_env ops raw = Some env \<and>
    superRefine (raw ''JWT_KID'') (raw ''JWT_PREVIOUS_KID'') (raw ''JWT_PREVIOUS_PUBLIC_KEY'') = []"
proof (cases "parse_env ops raw")
  case None
  then show ?thesis by (simp add: validate_def split: list.split)
next
  case (Some e)
  then have "env_issues ops raw = superRefine (raw ''JWT_KID'') (raw ''JWT_PREVIOUS_KID'') (raw ''JWT_PREVIOUS_PUBLIC_KEY'')"
    using parse_iff [of ops raw] by (simp add: env_issues_def)
  with Some show ?thesis by (auto simp: validate_def split: list.split)
qed

lemma parse_env_fields:
  assumes "parse_env ops raw = Some env"
  shows "bounded (\<lambda>i. 1 \<le> i \<and> i \<le> 65535) (coerced_int ops (raw ''PORT'')) = Some (en_PORT env)"
    and "optional_of (url_of ops [''postgres'']) (raw ''DB_URL'') = Some (en_DB_URL env)"
    and "key_of ops (eo_privateCurve ops) (raw ''JWT_PRIVATE_KEY'') = Some (en_JWT_PRIVATE_KEY env)"
    and "key_of ops (eo_publicCurve ops) (raw ''JWT_PUBLIC_KEY'') = Some (en_JWT_PUBLIC_KEY env)"
    and "text_of 1 (raw ''JWT_KID'') = Some (en_JWT_KID env)"
    and "optional_of (text_of 1) (raw ''JWT_PREVIOUS_KID'') = Some (en_JWT_PREVIOUS_KID env)"
    and "optional_of (key_of ops (eo_publicCurve ops)) (raw ''JWT_PREVIOUS_PUBLIC_KEY'') = Some (en_JWT_PREVIOUS_PUBLIC_KEY env)"
    and "text_of 32 (raw ''REFRESH_TOKEN_PEPPER'') = Some (en_REFRESH_TOKEN_PEPPER env)"
    and "default_of 5000 (\<lambda>v. bounded (\<lambda>i. 0 < i) (coerced_int ops v)) (raw ''TIMEOUT_MS'') = Some (en_TIMEOUT_MS env)"
  using assms unfolding parse_env_def bind_eq_Some_conv by auto

lemma optional_text: "optional_of (text_of (Suc 0)) v = Some w \<Longrightarrow> w = v \<and> truthy v = (v \<noteq> None)"
  by (auto simp: parsers truthy_def split: option.splits if_splits)

lemma optional_key:
  assumes "eo_publicCurve ops (eo_pem ops []) \<noteq> Some ''prime256v1''" and "optional_of (key_of ops (eo_publicCurve ops)) v = Some w"
  shows "w = v \<and> truthy v = (v \<noteq> None) \<and> (v = Some k \<longrightarrow> isP256Key ops (eo_publicCurve ops) k)"
  using assms by (auto simp: parsers truthy_def isP256Key_def split: option.splits if_splits)

text \<open>An empty text decodes to no key, so the two variables are set together.\<close>

lemma accepted_previous:
  assumes "eo_publicCurve ops (eo_pem ops []) \<noteq> Some ''prime256v1''" and "validate ops raw = Inr env"
  shows "(en_JWT_PREVIOUS_KID env = None \<longleftrightarrow> en_JWT_PREVIOUS_PUBLIC_KEY env = None) \<and>
    en_JWT_PREVIOUS_KID env \<noteq> Some (en_JWT_KID env) \<and> en_JWT_PREVIOUS_KID env \<noteq> Some [] \<and>
    en_JWT_PREVIOUS_PUBLIC_KEY env \<noteq> Some []"
proof -
  have env: "parse_env ops raw = Some env" and
    sup: "superRefine (raw ''JWT_KID'') (raw ''JWT_PREVIOUS_KID'') (raw ''JWT_PREVIOUS_PUBLIC_KEY'') = []"
    using assms(2) by (simp_all add: validate_Inr)
  note f = parse_env_fields [OF env]
  have kid: "raw ''JWT_KID'' = Some (en_JWT_KID env)"
    using f(5) by (auto simp: text_of_def split: option.splits if_splits)
  have previous: "en_JWT_PREVIOUS_KID env = raw ''JWT_PREVIOUS_KID''" "truthy (raw ''JWT_PREVIOUS_KID'') = (raw ''JWT_PREVIOUS_KID'' \<noteq> None)"
    using optional_text [of "raw ''JWT_PREVIOUS_KID''"] f(6) by simp_all
  have key: "en_JWT_PREVIOUS_PUBLIC_KEY env = raw ''JWT_PREVIOUS_PUBLIC_KEY''"
    "truthy (raw ''JWT_PREVIOUS_PUBLIC_KEY'') = (raw ''JWT_PREVIOUS_PUBLIC_KEY'' \<noteq> None)"
    using optional_key [OF assms(1) f(7)] by simp_all
  show ?thesis
    using sup previous key kid by (auto simp: superRefine_iff truthy_def)
qed

section \<open>Properties\<close>

text \<open>
  C33: an environment is accepted exactly when every variable passes its own checks, the two variables
  of the previous key are set together and its id differs from the current one. What is accepted has
  the type the application reads: a port, a positive timeout, P-256 keys, a key id, a long pepper.
\<close>

theorem validated_env_typed:
  shows "((\<exists>env. validate ops raw = Inr env) \<longleftrightarrow> refused_variables ops raw = [] \<and>
      truthy (raw ''JWT_PREVIOUS_KID'') = truthy (raw ''JWT_PREVIOUS_PUBLIC_KEY'') \<and>
      (truthy (raw ''JWT_PREVIOUS_KID'') \<longrightarrow> raw ''JWT_PREVIOUS_KID'' \<noteq> raw ''JWT_KID'')) \<and>
    (validate ops raw = Inr env \<longrightarrow>
      1 \<le> en_PORT env \<and> en_PORT env \<le> 65535 \<and> 0 < en_TIMEOUT_MS env \<and> en_TIMEOUT_MS env < 2 ^ 53 \<and>
      isP256Key ops (eo_privateCurve ops) (en_JWT_PRIVATE_KEY env) \<and> isP256Key ops (eo_publicCurve ops) (en_JWT_PUBLIC_KEY env) \<and>
      en_JWT_KID env \<noteq> [] \<and> 32 \<le> length (en_REFRESH_TOKEN_PEPPER env) \<and> en_JWT_PREVIOUS_KID env \<noteq> Some (en_JWT_KID env))"
proof (intro conjI impI)
  show "(\<exists>env. validate ops raw = Inr env) \<longleftrightarrow> refused_variables ops raw = [] \<and>
      truthy (raw ''JWT_PREVIOUS_KID'') = truthy (raw ''JWT_PREVIOUS_PUBLIC_KEY'') \<and>
      (truthy (raw ''JWT_PREVIOUS_KID'') \<longrightarrow> raw ''JWT_PREVIOUS_KID'' \<noteq> raw ''JWT_KID'')"
    unfolding validate_Inr superRefine_iff parse_iff by auto
next
  assume run: "validate ops raw = Inr env"
  then have env: "parse_env ops raw = Some env" by (simp add: validate_Inr)
  note f = parse_env_fields [OF env]
  show "1 \<le> en_PORT env" "en_PORT env \<le> 65535"
    using f(1) by (auto simp: bounded_def split: option.splits if_splits)
  show "0 < en_TIMEOUT_MS env" "en_TIMEOUT_MS env < 2 ^ 53"
    using f(9) by (auto simp: default_of_def bounded_def coerced_int_def split: option.splits if_splits js_number.splits)
  show "isP256Key ops (eo_privateCurve ops) (en_JWT_PRIVATE_KEY env)" "isP256Key ops (eo_publicCurve ops) (en_JWT_PUBLIC_KEY env)"
    using f(3,4) by (auto simp: key_of_def split: option.splits if_splits)
  show "en_JWT_KID env \<noteq> []" "32 \<le> length (en_REFRESH_TOKEN_PEPPER env)"
    using f(5,8) by (auto simp: text_of_def split: option.splits if_splits)
  have "superRefine (raw ''JWT_KID'') (raw ''JWT_PREVIOUS_KID'') (raw ''JWT_PREVIOUS_PUBLIC_KEY'') = []"
    using run by (simp add: validate_Inr)
  then show "en_JWT_PREVIOUS_KID env \<noteq> Some (en_JWT_KID env)"
    using f(5,6) by (auto simp: superRefine_iff parsers truthy_def split: option.splits if_splits)
qed

definition demo_env_ops :: env_ops where
  "demo_env_ops = \<lparr>eo_number = (\<lambda>s. if isId s then JsInt (int (js_Number s)) else JsNonInt ''NaN''),
     eo_scheme = (\<lambda>s. if CHR '':'' \<in> set s then Some (takeWhile (\<lambda>c. c \<noteq> CHR '':'') s) else None),
     eo_pem = (\<lambda>s. s), eo_privateCurve = (\<lambda>p. if p = [] then None else Some ''prime256v1''),
     eo_publicCurve = (\<lambda>p. if p = [] then None else Some ''prime256v1''),
     eo_message = (\<lambda>name v. ''Invalid input''), eo_aborts = (\<lambda>raw. False)\<rparr>"

definition demo_raw :: "string \<Rightarrow> string \<Rightarrow> (string \<times> string) list \<Rightarrow> string \<Rightarrow> string option" where
  "demo_raw kid key extra = map_of ([(''PORT'', ''5001''), (''BROKER_URL'', ''amqp://mq''), (''REDIS_URL'', ''redis://a''),
     (''REDIS_QUEUE_URL'', ''redis://b''), (''JWT_PRIVATE_KEY'', ''private''), (''JWT_PUBLIC_KEY'', key), (''JWT_KID'', kid),
     (''REFRESH_TOKEN_PEPPER'', ''0123456789abcdef0123456789abcdef'')] @ extra)"

definition demo_previous :: "(string \<times> string) list" where
  "demo_previous = [(''JWT_PREVIOUS_KID'', ''k1''), (''JWT_PREVIOUS_PUBLIC_KEY'', ''pub1'')]"

theorem validated_env_typed_witness:
  "(case validate demo_env_ops (demo_raw ''k2'' ''pub2'' demo_previous) of
      Inr env \<Rightarrow> en_PORT env = 5001 \<and> en_TIMEOUT_MS env = 5000 \<and> en_JWT_KID env \<noteq> [] | Inl e \<Rightarrow> False) \<and>
   validate demo_env_ops (demo_raw ''k1'' ''pub2'' demo_previous) =
     Inl (PlainError (''Invalid environment configuration:'' @ [CHR 0x0A] @ ''JWT_PREVIOUS_KID: must differ from JWT_KID''))"
proof -
  have "case validate demo_env_ops (demo_raw ''k2'' ''pub2'' demo_previous) of
      Inr env \<Rightarrow> en_PORT env = 5001 \<and> en_TIMEOUT_MS env = 5000 | Inl e \<Rightarrow> False" by code_simp
  then obtain env where env: "validate demo_env_ops (demo_raw ''k2'' ''pub2'' demo_previous) = Inr env"
    "en_PORT env = 5001" "en_TIMEOUT_MS env = 5000" by (auto split: sum.splits)
  have "en_JWT_KID env \<noteq> []"
    using validated_env_typed [of demo_env_ops "demo_raw ''k2'' ''pub2'' demo_previous" env] env(1) by blast
  moreover have "validate demo_env_ops (demo_raw ''k1'' ''pub2'' demo_previous) =
      Inl (PlainError (''Invalid environment configuration:'' @ [CHR 0x0A] @ ''JWT_PREVIOUS_KID: must differ from JWT_KID''))"
    by code_simp
  ultimately show ?thesis using env by simp
qed

lemma keys_get:
  assumes "eo_publicCurve ops (eo_pem ops []) \<noteq> Some ''prime256v1''" and "validate ops raw = Inr env"
  shows "map_get k (keys_of ops env) =
    (if k = en_JWT_KID env then Some (eo_pem ops (en_JWT_PUBLIC_KEY env))
     else if en_JWT_PREVIOUS_KID env = Some k then map_option (eo_pem ops) (en_JWT_PREVIOUS_PUBLIC_KEY env) else None)"
proof (cases "en_JWT_PREVIOUS_KID env")
  case None
  then show ?thesis by (simp add: keys_of_def verificationKeysFromConfig_def truthy_def map_get_def Let_def)
next
  case (Some p)
  with accepted_previous [OF assms] obtain key where "en_JWT_PREVIOUS_PUBLIC_KEY env = Some key" "p \<noteq> []" "key \<noteq> []" "p \<noteq> en_JWT_KID env"
    by auto
  with Some show ?thesis
    by (auto simp: keys_of_def verificationKeysFromConfig_def truthy_def map_get_def map_set_def Let_def)
qed

text \<open>
  C34: rotating the signing key as the README describes locks nobody out: under the new configuration a
  token of the old key verifies exactly as before, a token of the new key is checked against the new
  public key, and a token of any other key is refused.
\<close>

theorem rotation_keeps_tokens:
  assumes "eo_publicCurve ops [] = None" and "eo_pem ops [] = []"
    and "validate ops raw = Inr old" and "validate ops raw' = Inr new"
    and "en_JWT_PREVIOUS_KID new = Some (en_JWT_KID old)" and "en_JWT_PREVIOUS_PUBLIC_KEY new = Some (en_JWT_PUBLIC_KEY old)"
  shows "verifyAccess jwt (keys_of ops new) clock token =
    (if jo_kid jwt token = KidString (en_JWT_KID new) then jo_verify jwt token (eo_pem ops (en_JWT_PUBLIC_KEY new)) clock
     else if jo_kid jwt token = KidString (en_JWT_KID old) then verifyAccess jwt (keys_of ops old) clock token
     else verifyAccess jwt [] clock token) \<and>
    (\<exists>m. verifyAccess jwt [] clock token = Inl (PlainError m))"
proof -
  have no_key: "eo_publicCurve ops (eo_pem ops []) \<noteq> Some ''prime256v1''" using assms(1,2) by simp
  have pem: "eo_pem ops (en_JWT_PUBLIC_KEY env) \<noteq> []" if "validate ops r = Inr env" for r env
  proof -
    have "isP256Key ops (eo_publicCurve ops) (en_JWT_PUBLIC_KEY env)"
      using that parse_env_fields(4) [of ops r env] by (auto simp: validate_Inr key_of_def split: option.splits if_splits)
    then show ?thesis using assms(1) by (auto simp: isP256Key_def)
  qed
  note new = keys_get [OF no_key assms(4)] and old = keys_get [OF no_key assms(3)]
  have empty: "map_get k [] = None" for k by (simp add: map_get_def)
  have "en_JWT_KID new \<noteq> en_JWT_KID old" using accepted_previous [OF no_key assms(4)] assms(5) by auto
  then show ?thesis
    using pem [OF assms(3)] pem [OF assms(4)] assms(5,6)
    by (cases "jo_kid jwt token") (auto simp: verifyAccess_def new old empty truthy_def Let_def)
qed

definition demo_rotated_jwt :: jwt_ops where
  "demo_rotated_jwt = \<lparr>jo_kid = (\<lambda>t. KidString (take 2 t)), jo_verify = (\<lambda>t key clock.
     if key = ''pub'' @ drop 1 (take 2 t) then Inr \<lparr>ac_sub = ''1'', ac_role = buyer, ac_sid = ''s'', ac_jti = t, ac_iat = 0, ac_exp = 9\<rparr>
     else Inl (PlainError ''invalid signature''))\<rparr>"

theorem rotation_keeps_tokens_witness:
  "case (validate demo_env_ops (demo_raw ''k1'' ''pub1'' []), validate demo_env_ops (demo_raw ''k2'' ''pub2'' demo_previous)) of
     (Inr old, Inr new) \<Rightarrow>
       verifyAccess demo_rotated_jwt (keys_of demo_env_ops new) 0 ''k1.a'' =
         verifyAccess demo_rotated_jwt (keys_of demo_env_ops old) 0 ''k1.a'' \<and>
       verifyAccess demo_rotated_jwt (keys_of demo_env_ops new) 0 ''k2.b'' =
         Inr \<lparr>ac_sub = ''1'', ac_role = buyer, ac_sid = ''s'', ac_jti = ''k2.b'', ac_iat = 0, ac_exp = 9\<rparr>
   | _ \<Rightarrow> False"
proof -
  have "case (validate demo_env_ops (demo_raw ''k1'' ''pub1'' []), validate demo_env_ops (demo_raw ''k2'' ''pub2'' demo_previous)) of
     (Inr old, Inr new) \<Rightarrow> en_JWT_KID old = ''k1'' \<and> en_JWT_PUBLIC_KEY old = ''pub1'' \<and> en_JWT_KID new = ''k2'' \<and>
       en_JWT_PUBLIC_KEY new = ''pub2'' \<and> en_JWT_PREVIOUS_KID new = Some ''k1'' \<and> en_JWT_PREVIOUS_PUBLIC_KEY new = Some ''pub1''
   | _ \<Rightarrow> False" by code_simp
  then obtain old new where runs: "validate demo_env_ops (demo_raw ''k1'' ''pub1'' []) = Inr old"
      "validate demo_env_ops (demo_raw ''k2'' ''pub2'' demo_previous) = Inr new"
    and f: "en_JWT_KID old = ''k1''" "en_JWT_PUBLIC_KEY old = ''pub1''" "en_JWT_KID new = ''k2''"
      "en_JWT_PUBLIC_KEY new = ''pub2''" "en_JWT_PREVIOUS_KID new = Some ''k1''" "en_JWT_PREVIOUS_PUBLIC_KEY new = Some ''pub1''"
    by (auto split: sum.splits)
  note rotated = rotation_keeps_tokens [OF _ _ runs, of demo_rotated_jwt 0]
  show ?thesis
    using rotated [of "''k1.a''"] rotated [of "''k2.b''"] runs f
    by (simp add: demo_env_ops_def demo_rotated_jwt_def)
qed

end
