(* ===== verification/Auth_Concurrent.thy ===== *)
theory Auth_Concurrent
  imports Auth_Theorems Locking
begin

text \<open>
  Refreshes, logouts and logins that run at the same time (\<open>src/auth/auth.service.ts\<close> on READ
  COMMITTED). A statement chooses its rows in the tables committed when it starts; a row another
  transaction holds is waited for, and then its own conditions are checked again on what is committed by
  then, while the subquery on the family is not. Token hashes are unique and name the rows. The insert
  of a rotation and its commit are one step, and so is the commit of a revocation.
\<close>

section \<open>The statements\<close>

datatype session_call =
    RefreshCall auth_env string
  | LogoutCall auth_env string
  | LoginCall auth_env nat string

datatype call_end =
    Rotation "RotationOutcome result"
  | LoggedOut
  | LoggedIn "unit result"

datatype call_phase =
    Presenting
  | Locking
  | Marked
  | Missed
  | Reusing nat string
  | Revoking call_end string "string list" "string list"
  | Closed call_end

fun call_now :: "session_call \<Rightarrow> int" where
  "call_now (RefreshCall env h) = ae_now env"
| "call_now (LogoutCall env f) = ae_now env"
| "call_now (LoginCall env u f) = ae_now env"

definition token_of :: "string \<Rightarrow> db \<Rightarrow> RefreshToken option" where
  "token_of h d = select_one (\<lambda>t. t_tokenHash t = h) (refreshTokens d)"

text \<open>The row's own conditions of the rotation, without the subquery.\<close>

definition still_unused :: "int \<Rightarrow> string \<Rightarrow> db \<Rightarrow> bool" where
  "still_unused now h d \<longleftrightarrow> (case token_of h d of None \<Rightarrow> False
     | Some t \<Rightarrow> t_usedAt t = None \<and> t_revokedAt t = None \<and> now < t_expiresAt t)"

definition mark_hash :: "int \<Rightarrow> string \<Rightarrow> db \<Rightarrow> db" where
  "mark_hash now h d = d\<lparr>refreshTokens :=
     update_where (\<lambda>t. t_tokenHash t = h) (\<lambda>t. t\<lparr>t_usedAt := Some now\<rparr>) (refreshTokens d)\<rparr>"

text \<open>After the UPDATE of a rotation: the owner, the next token, the commit; an error rolls back.\<close>

definition finish_rotation :: "'r auth_ops \<Rightarrow> auth_env \<Rightarrow> string \<Rightarrow> (db, RotationOutcome) action" where
  "finish_rotation ops env h d =
     (let d1 = mark_hash (ae_now env) h d
      in case token_of h d1 of
           None \<Rightarrow> (Inr rotation_invalid, d)
         | Some row \<Rightarrow>
             (case select_one (\<lambda>u. u_id u = t_userId row) (users d1) of
                None \<Rightarrow> (Inl (Foreign ''EntityNotFoundError''), d)
              | Some owner \<Rightarrow>
                  (case issueRefresh ops (ae_secret env) of (refreshToken, nextHash) \<Rightarrow>
                    (case insert_refresh env (u_id owner) (t_familyId row) nextHash d1 of
                       (Inl e, d2) \<Rightarrow> (Inl e, d)
                     | (Inr x, d2) \<Rightarrow> (Inr (rotated (u_id owner) (u_role owner) (t_familyId row) refreshToken), d2)))))"

definition live_hashes :: "string \<Rightarrow> db \<Rightarrow> string list" where
  "live_hashes f d = map t_tokenHash (filter (\<lambda>t. t_familyId t = f \<and> t_revokedAt t = None) (refreshTokens d))"

definition revoke_hashes :: "int \<Rightarrow> string list \<Rightarrow> db \<Rightarrow> db" where
  "revoke_hashes now hs d = d\<lparr>refreshTokens :=
     update_where (\<lambda>t. t_tokenHash t \<in> set hs) (\<lambda>t. t\<lparr>t_revokedAt := Some now\<rparr>) (refreshTokens d)\<rparr>"

definition not_revoked :: "string \<Rightarrow> db \<Rightarrow> bool" where
  "not_revoked h d \<longleftrightarrow> (case token_of h d of None \<Rightarrow> False | Some t \<Rightarrow> t_revokedAt t = None)"

fun session_step :: "'r auth_ops \<Rightarrow> session_call \<Rightarrow> db \<Rightarrow> call_phase \<Rightarrow> call_phase \<times> db" where
  "session_step ops (RefreshCall env h) d Presenting =
     (if select_one (usable (ae_now env) h (refreshTokens d)) (refreshTokens d) = None then (Missed, d) else (Locking, d))"
| "session_step ops (LogoutCall env f) d Presenting = (Revoking LoggedOut f (live_hashes f d) [], d)"
| "session_step ops (LoginCall env userId h) d Presenting =
     (case insert_refresh env userId (ae_family env) h d of (r, d') \<Rightarrow> (Closed (LoggedIn r), d'))"
| "session_step ops (RefreshCall env h) d Locking =
     (if still_unused (ae_now env) h d then (Marked, d) else (Missed, d))"
| "session_step ops (RefreshCall env h) d Marked =
     (case finish_rotation ops env h d of (r, d') \<Rightarrow> (Closed (Rotation r), d'))"
| "session_step ops (RefreshCall env h) d Missed =
     (case token_of h d of
        None \<Rightarrow> (Closed (Rotation (Inr rotation_invalid)), d)
      | Some known \<Rightarrow>
          if t_usedAt known = None \<or> t_revokedAt known \<noteq> None then (Closed (Rotation (Inr rotation_invalid)), d)
          else (Reusing (t_userId known) (t_familyId known), d))"
| "session_step ops call d (Reusing u f) = (Revoking (Rotation (Inr (reused u f))) f (live_hashes f d) [], d)"
| "session_step ops call d (Revoking e f (h # hs) marked) =
     (Revoking e f hs (if not_revoked h d then marked @ [h] else marked), d)"
| "session_step ops call d (Revoking e f [] marked) = (Closed e, revoke_hashes (call_now call) marked d)"
| "session_step ops call d ph = (ph, d)"

text \<open>The row the next statement waits for, and the rows a transaction holds.\<close>

fun wants_token :: "session_call \<Rightarrow> db \<Rightarrow> call_phase \<Rightarrow> string option" where
  "wants_token (RefreshCall env h) d Locking = Some h"
| "wants_token call d (Revoking e f (h # hs) marked) = Some h"
| "wants_token call d ph = None"

fun holds_token :: "session_call \<Rightarrow> call_phase \<Rightarrow> string set" where
  "holds_token (RefreshCall env h) Marked = {h}"
| "holds_token call (Revoking e f hs marked) = set marked"
| "holds_token call ph = {}"

fun closed :: "call_phase \<Rightarrow> bool" where
  "closed (Closed e) = True"
| "closed ph = False"

section \<open>Many calls\<close>

record session_pool =
  sp_db :: db
  sp_calls :: "(session_call \<times> call_phase) list"

inductive session_moves :: "'r auth_ops \<Rightarrow> session_pool \<Rightarrow> session_pool \<Rightarrow> bool" for ops where
  call_statement: "session_moves ops \<lparr>sp_db = d, sp_calls = cs\<rparr> \<lparr>sp_db = d', sp_calls = cs[i := (call, ph')]\<rparr>"
    if "i < length cs" and "cs ! i = (call, ph)" and "\<not> closed ph"
      and "\<And>h. wants_token call d ph = Some h \<Longrightarrow> lock_free holds_token h i cs"
      and "session_step ops call d ph = (ph', d')"

inductive_cases session_moves_cases: "session_moves ops s t"

definition new_sessions :: "session_call list \<Rightarrow> db \<Rightarrow> session_pool" where
  "new_sessions calls d = \<lparr>sp_db = d, sp_calls = map (\<lambda>c. (c, Presenting)) calls\<rparr>"

fun has_rotated :: "call_phase \<Rightarrow> bool" where
  "has_rotated (Closed (Rotation (Inr (rotated u role f t)))) = True"
| "has_rotated ph = False"

lemma session_step_gains:
  "session_step ops c d ph = (ph', d') \<Longrightarrow> holds_token c ph' \<subseteq> holds_token c ph \<union> set_option (wants_token c d ph)"
  by (induction ops c d ph rule: session_step.induct) (auto split: if_splits option.splits prod.splits)

interpretation session_locks: lock_steps holds_token wants_token "session_step ops"
  by unfold_locales (rule session_step_gains)

end
