(* ===== verification/Auth_Concurrent_Theorems.thy ===== *)
theory Auth_Concurrent_Theorems
  imports Auth_Concurrent
begin

text \<open>
  Refreshes and logouts that run at the same time: a token rotates once, and a session that has been
  revoked stays closed to every refresh that starts after, also when a refresh raced with the revocation
  and left a token the revocation did not see.
\<close>

section \<open>What a statement does to a token\<close>

definition hashes_unique :: "db \<Rightarrow> bool" where
  "hashes_unique d \<longleftrightarrow> distinct (map t_tokenHash (refreshTokens d))"

lemma token_of_iff:
  assumes "hashes_unique d"
  shows "token_of h d = Some t \<longleftrightarrow> t \<in> set (refreshTokens d) \<and> t_tokenHash t = h"
proof
  assume "token_of h d = Some t"
  then show "t \<in> set (refreshTokens d) \<and> t_tokenHash t = h" by (auto simp: token_of_def dest: select_one_Some)
next
  assume t: "t \<in> set (refreshTokens d) \<and> t_tokenHash t = h"
  then have "token_of h d \<noteq> None" by (auto simp: token_of_def select_one_None)
  then obtain t' where "token_of h d = Some t'" "t' \<in> set (refreshTokens d)" "t_tokenHash t' = h"
    by (auto simp: token_of_def dest: select_one_Some)
  with t assms show "token_of h d = Some t" by (auto simp: hashes_unique_def distinct_map dest: inj_onD)
qed

lemma token_of_update:
  assumes "\<And>t. t_tokenHash (g t) = t_tokenHash t"
  shows "token_of h (d\<lparr>refreshTokens := update_where (\<lambda>t. t_tokenHash t \<in> H) g (refreshTokens d)\<rparr>) =
    (if h \<in> H then map_option g (token_of h d) else token_of h d)"
proof -
  have "select_one (\<lambda>t. t_tokenHash t = h) (update_where (\<lambda>t. t_tokenHash t \<in> H) g ts) =
    (if h \<in> H then map_option g (select_one (\<lambda>t. t_tokenHash t = h) ts) else select_one (\<lambda>t. t_tokenHash t = h) ts)" for ts
    by (induction ts) (auto simp: select_one_def assms)
  then show ?thesis by (simp add: token_of_def)
qed

lemma hashes_update:
  "(\<And>t. t_tokenHash (g t) = t_tokenHash t) \<Longrightarrow>
    hashes_unique (d\<lparr>refreshTokens := update_where P g (refreshTokens d)\<rparr>) = hashes_unique d"
  by (simp add: hashes_unique_def map_update_where)

lemma token_of_mark: "token_of k (mark_hash now h d) =
    (if k = h then map_option (\<lambda>t. t\<lparr>t_usedAt := Some now\<rparr>) (token_of k d) else token_of k d)"
  using token_of_update [of "\<lambda>t. t\<lparr>t_usedAt := Some now\<rparr>" k "{h}" d] by (simp add: mark_hash_def)

lemma token_of_revoke: "token_of k (revoke_hashes now hs d) =
    (if k \<in> set hs then map_option (\<lambda>t. t\<lparr>t_revokedAt := Some now\<rparr>) (token_of k d) else token_of k d)"
  unfolding revoke_hashes_def by (rule token_of_update) simp

lemma unique_mark [simp]: "hashes_unique (mark_hash now h d) = hashes_unique d"
  by (simp add: mark_hash_def hashes_update)

lemma unique_revoke [simp]: "hashes_unique (revoke_hashes now hs d) = hashes_unique d"
  by (simp add: revoke_hashes_def hashes_update)

lemma insert_token:
  assumes "insert_refresh env u f n d = (r, d')" and "hashes_unique d"
  shows "hashes_unique d' \<and> (\<forall>t. token_of k d = Some t \<longrightarrow> token_of k d' = Some t)"
proof -
  have "find P (xs @ ys) = (case find P xs of None \<Rightarrow> find P ys | Some x \<Rightarrow> Some x)" for P and xs ys :: "RefreshToken list"
    by (induction xs) auto
  with assms show ?thesis
    by (auto simp: insert_refresh_def hashes_unique_def token_of_def select_one_def list_ex_iff split: if_splits)
qed

text \<open>
  The committed row of a token changes only under the transaction that holds it, which marks it used or
  revoked; it is never removed and keeps its family.
\<close>

definition token_kept :: "bool \<Rightarrow> RefreshToken \<Rightarrow> RefreshToken \<Rightarrow> bool" where
  "token_kept held t t' \<longleftrightarrow> t_familyId t' = t_familyId t \<and>
     (t_usedAt t \<noteq> None \<longrightarrow> t_usedAt t' \<noteq> None) \<and> (t_revokedAt t \<noteq> None \<longrightarrow> t_revokedAt t' \<noteq> None) \<and> (\<not> held \<longrightarrow> t' = t)"

lemma token_kept_refl [simp]: "token_kept held t t"
  by (simp add: token_kept_def)

lemma finish_token:
  assumes "finish_rotation ops env h d = (r, d')" and "hashes_unique d"
  shows "hashes_unique d' \<and> (token_of k d = Some t \<longrightarrow> (\<exists>t'. token_of k d' = Some t' \<and> token_kept (k = h) t t'))"
    and "r = Inr (rotated u role f tok) \<Longrightarrow>
      \<exists>t t'. token_of h d = Some t \<and> t_familyId t = f \<and> token_of h d' = Some t' \<and> t_usedAt t' \<noteq> None"
proof -
  let ?d1 = "mark_hash (ae_now env) h d"
  have mark: "token_of k d = Some t \<Longrightarrow> \<exists>t'. token_of k ?d1 = Some t' \<and> token_kept (k = h) t t'" for k t
    by (auto simp: token_of_mark token_kept_def)
  consider "d' = d" "\<And>u role f tok. r \<noteq> Inr (rotated u role f tok)"
    | row u n x role tok where "token_of h ?d1 = Some row" "insert_refresh env u (t_familyId row) n ?d1 = (Inr x, d')"
        "r = Inr (rotated u role (t_familyId row) tok)"
    using assms(1) by (auto simp: finish_rotation_def Let_def split: option.splits prod.splits sum.splits)
  then have "(hashes_unique d' \<and> (token_of k d = Some t \<longrightarrow> (\<exists>t'. token_of k d' = Some t' \<and> token_kept (k = h) t t'))) \<and>
    (r = Inr (rotated u role f tok) \<longrightarrow>
      (\<exists>t t'. token_of h d = Some t \<and> t_familyId t = f \<and> token_of h d' = Some t' \<and> t_usedAt t' \<noteq> None))"
  proof cases
    case 1
    with assms(2) show ?thesis by auto
  next
    case 2
    have ins: "hashes_unique d'" "\<And>k t. token_of k ?d1 = Some t \<Longrightarrow> token_of k d' = Some t"
      using insert_token [OF 2(2)] assms(2) by simp_all
    obtain t0 where t0: "token_of h d = Some t0" "row = t0\<lparr>t_usedAt := Some (ae_now env)\<rparr>"
      using 2(1) by (auto simp: token_of_mark)
    with ins 2(1,3) mark [of k t] show ?thesis by fastforce
  qed
  then show "hashes_unique d' \<and> (token_of k d = Some t \<longrightarrow> (\<exists>t'. token_of k d' = Some t' \<and> token_kept (k = h) t t'))"
    and "r = Inr (rotated u role f tok) \<Longrightarrow>
      \<exists>t t'. token_of h d = Some t \<and> t_familyId t = f \<and> token_of h d' = Some t' \<and> t_usedAt t' \<noteq> None"
    by blast+
qed

lemma statement_token:
  assumes "session_step ops c d ph = (ph', d')" and "hashes_unique d"
  shows "hashes_unique d' \<and>
    (token_of k d = Some t \<longrightarrow> (\<exists>t'. token_of k d' = Some t' \<and> token_kept (k \<in> holds_token c ph) t t'))"
  using assms
proof (induction ops c d ph arbitrary: rule: session_step.induct)
  case (3 ops env userId h d)
  then show ?case using insert_token [of env userId "ae_family env" h d] by (force split: prod.splits)
next
  case (5 ops env h d)
  then show ?case using finish_token(1) [of ops env h d] by (force split: prod.splits)
next
  case (9 ops c e f marked)
  then show ?case by (auto simp: token_of_revoke token_kept_def)
qed (auto split: if_splits option.splits)

section \<open>The invariant of a call\<close>

definition evolves :: "string set \<Rightarrow> db \<Rightarrow> db \<Rightarrow> bool" where
  "evolves H d d' \<longleftrightarrow> (\<forall>k t. token_of k d = Some t \<longrightarrow> (\<exists>t'. token_of k d' = Some t' \<and> token_kept (k \<in> H) t t'))"

definition closed_family :: "string \<Rightarrow> db \<Rightarrow> bool" where
  "closed_family f d \<longleftrightarrow> family_revoked f (refreshTokens d)"

definition known_family :: "string \<Rightarrow> db \<Rightarrow> bool" where
  "known_family f d \<longleftrightarrow> (\<exists>t \<in> set (refreshTokens d). t_familyId t = f)"

lemma statement_evolves:
  "session_step ops c d ph = (ph', d') \<Longrightarrow> hashes_unique d \<Longrightarrow> hashes_unique d' \<and> evolves (holds_token c ph) d d'"
  unfolding evolves_def using statement_token by blast

lemma closed_family_iff:
  "hashes_unique d \<Longrightarrow> closed_family f d \<longleftrightarrow> (\<exists>k t. token_of k d = Some t \<and> t_familyId t = f \<and> t_revokedAt t \<noteq> None)"
  by (auto simp: closed_family_def family_revoked_def list_ex_iff token_of_iff)

lemma known_family_iff:
  "hashes_unique d \<Longrightarrow> known_family f d \<longleftrightarrow> (\<exists>k t. token_of k d = Some t \<and> t_familyId t = f)"
  by (auto simp: known_family_def token_of_iff)

lemma evolves_closed: "evolves H d d' \<Longrightarrow> hashes_unique d \<Longrightarrow> hashes_unique d' \<Longrightarrow> closed_family f d \<Longrightarrow> closed_family f d'"
  unfolding closed_family_iff evolves_def token_kept_def by metis

lemma evolves_known: "evolves H d d' \<Longrightarrow> hashes_unique d \<Longrightarrow> hashes_unique d' \<Longrightarrow> known_family f d \<Longrightarrow> known_family f d'"
  unfolding known_family_iff evolves_def token_kept_def by metis

definition of_family :: "string \<Rightarrow> string \<Rightarrow> db \<Rightarrow> bool" where
  "of_family f h d \<longleftrightarrow> (\<exists>t. token_of h d = Some t \<and> t_familyId t = f)"

definition spent_token :: "string \<Rightarrow> db \<Rightarrow> bool" where
  "spent_token h d \<longleftrightarrow> (\<exists>t. token_of h d = Some t \<and> t_usedAt t \<noteq> None)"

definition unspent :: "string \<Rightarrow> db \<Rightarrow> bool" where
  "unspent h d \<longleftrightarrow> (\<exists>t. token_of h d = Some t \<and> t_usedAt t = None)"

lemma evolves_facts:
  assumes "evolves H d d'"
  shows "of_family f h d \<Longrightarrow> of_family f h d'" and "spent_token h d \<Longrightarrow> spent_token h d'" and "unspent h d \<Longrightarrow> h \<notin> H \<Longrightarrow> unspent h d'"
  using assms unfolding evolves_def of_family_def spent_token_def unspent_def token_kept_def by metis+

text \<open>The family a call is revoking; a logout of a family without rows revokes nothing.\<close>

fun revokes :: "db \<Rightarrow> session_call \<Rightarrow> call_end \<Rightarrow> string \<Rightarrow> bool" where
  "revokes d0 (LogoutCall env g) LoggedOut f \<longleftrightarrow> f = g \<and> known_family f d0"
| "revokes d0 (RefreshCall env h) (Rotation (Inr (reused u g))) f \<longleftrightarrow> f = g"
| "revokes d0 c e f \<longleftrightarrow> False"

fun call_ok :: "db \<Rightarrow> db \<Rightarrow> session_call \<Rightarrow> call_phase \<Rightarrow> bool" where
  "call_ok d0 d (RefreshCall env h) Marked \<longleftrightarrow> unspent h d"
| "call_ok d0 d c (Reusing u f) \<longleftrightarrow> (\<exists>env h. c = RefreshCall env h) \<and> known_family f d"
| "call_ok d0 d c (Revoking e f hs marked) \<longleftrightarrow> (\<forall>h \<in> set (hs @ marked). of_family f h d) \<and>
     (revokes d0 c e f \<longrightarrow> closed_family f d \<or> hs @ marked \<noteq> []) \<and>
     (case c of LogoutCall env g \<Rightarrow> e = LoggedOut \<and> f = g | RefreshCall env h \<Rightarrow> (\<exists>u. e = Rotation (Inr (reused u f))) | LoginCall env u h \<Rightarrow> False)"
| "call_ok d0 d (RefreshCall env h) (Closed (Rotation (Inr (rotated u r f tok)))) \<longleftrightarrow> spent_token h d"
| "call_ok d0 d c (Closed e) \<longleftrightarrow> (\<forall>f. revokes d0 c e f \<longrightarrow> closed_family f d)"
| "call_ok d0 d c ph \<longleftrightarrow> True"

lemma call_ok_others:
  assumes "call_ok d0 d c ph" and "evolves H d d'" and "hashes_unique d" and "hashes_unique d'"
    and "holds_token c ph \<inter> H = {}"
  shows "call_ok d0 d' c ph"
  using assms(1,5) evolves_facts [OF assms(2)] evolves_closed [OF assms(2-4)] evolves_known [OF assms(2-4)]
  by (induction d0 d c ph rule: call_ok.induct) auto

text \<open>The statement of a call keeps its own invariant.\<close>

lemma live_hashes_family: "hashes_unique d \<Longrightarrow> h \<in> set (live_hashes f d) \<Longrightarrow> of_family f h d"
  by (auto simp: live_hashes_def of_family_def token_of_iff)

lemma live_or_closed: "known_family f d \<Longrightarrow> closed_family f d \<or> live_hashes f d \<noteq> []"
  by (auto simp: known_family_def closed_family_def family_revoked_def list_ex_iff live_hashes_def filter_empty_conv)

lemma revoked_closes:
  assumes "hashes_unique d" and "h \<in> set hs" and "of_family f h d"
  shows "closed_family f (revoke_hashes now hs d)"
  using assms by (auto simp: closed_family_iff token_of_revoke of_family_def intro!: exI [of _ h])

lemma not_revoked_or_closed: "hashes_unique d \<Longrightarrow> of_family f h d \<Longrightarrow> not_revoked h d \<or> closed_family f d"
  by (auto simp: not_revoked_def of_family_def closed_family_iff)

lemma call_ok_closed:
  "\<not> has_rotated (Closed e) \<Longrightarrow> call_ok d0 d c (Closed e) \<longleftrightarrow> (\<forall>f. revokes d0 c e f \<longrightarrow> closed_family f d)"
  by (cases "(d0, d, c, Closed e)" rule: call_ok.cases) auto

lemma revokes_outcome: "revokes d0 c (Rotation r) f \<Longrightarrow> \<exists>u. r = Inr (reused u f)"
  by (cases "(d0, c, Rotation r, f)" rule: revokes.cases) auto

lemma finish_not_reused: "finish_rotation ops env h d = (r, d') \<Longrightarrow> r \<noteq> Inr (reused u f)"
  by (auto simp: finish_rotation_def Let_def split: option.splits prod.splits sum.splits)

lemma call_ok_step:
  assumes ok: "call_ok d0 d c ph" and step: "session_step ops c d ph = (ph', d')" and u: "hashes_unique d"
    and known: "\<And>f. known_family f d0 \<Longrightarrow> known_family f d" and go: "\<not> closed ph"
  shows "call_ok d0 d' c ph'"
  using step
proof (cases rule: session_step.cases [of "(ops, c, d, ph)"])
  case (1 ops env h d1)
  with step show ?thesis by (auto split: if_splits)
next
  case (2 ops env f d1)
  with step known [of f] live_or_closed [of f d] live_hashes_family [OF u] show ?thesis by auto
next
  case (3 ops env u' h d1)
  with step show ?thesis by (auto split: prod.splits)
next
  case (4 ops env h d1)
  with step show ?thesis by (auto simp: still_unused_def unspent_def split: if_splits option.splits)
next
  case (5 ops env h d1)
  then have fin: "\<exists>r. finish_rotation ops env h d = (r, d') \<and> ph' = Closed (Rotation r)" and c: "c = RefreshCall env h"
    using step by (auto split: prod.splits)
  then obtain r where r: "finish_rotation ops env h d = (r, d')" "ph' = Closed (Rotation r)" by blast
  show ?thesis
  proof (cases "\<exists>u role f tok. r = Inr (rotated u role f tok)")
    case True
    then obtain u role f tok where rr: "r = Inr (rotated u role f tok)" by blast
    from finish_token(2) [OF r(1) u rr] show ?thesis by (auto simp: rr r(2) c spent_token_def)
  next
    case False
    then have "\<not> has_rotated ph'" by (cases ph' rule: has_rotated.cases) (auto simp: r(2))
    with finish_not_reused [OF r(1)] revokes_outcome show ?thesis
      unfolding r(2) by (subst call_ok_closed) (simp, metis)
  qed
next
  case (6 ops env h d1)
  with step u show ?thesis
    by (fastforce simp: known_family_iff split: if_splits option.splits)
next
  case (7 ops call d1 u' f)
  with step ok live_or_closed [of f d] live_hashes_family [OF u] show ?thesis by auto
next
  case (8 ops call d1 e f h hs marked)
  with step ok not_revoked_or_closed [OF u, of f h] show ?thesis by (auto split: session_call.splits)
next
  case (9 ops call d1 e f marked)
  with step have d': "d' = revoke_hashes (call_now c) marked d" "ph' = Closed e" by auto
  have "closed_family f d'" if rev: "revokes d0 c e f"
  proof (cases marked)
    case Nil
    with ok rev 9 show ?thesis by (simp add: d' revoke_hashes_def update_where_none)
  next
    case (Cons h hs)
    with ok 9 show ?thesis unfolding d'(1) by (intro revoked_closes [OF u, of h]) auto
  qed
  moreover have "\<not> has_rotated (Closed e)" using ok 9 by (auto simp: d'(2) split: session_call.splits)
  moreover have "g = f" if "revokes d0 c e g" for g
    using ok 9 that by (auto split: session_call.splits)
  ultimately show ?thesis unfolding d'(2) by (subst call_ok_closed) (assumption, metis)
qed (use step ok in \<open>simp_all\<close>)

section \<open>The pool\<close>

definition sessions_ok :: "db \<Rightarrow> session_pool \<Rightarrow> bool" where
  "sessions_ok d0 s \<longleftrightarrow> hashes_unique (sp_db s) \<and> locks_exclusive holds_token (sp_calls s) \<and>
     (\<forall>f. known_family f d0 \<longrightarrow> known_family f (sp_db s)) \<and>
     (\<forall>(c, ph) \<in> set (sp_calls s). call_ok d0 (sp_db s) c ph)"

text \<open>The token a call has rotated; two calls that rotated the same token are the same call.\<close>

fun rotated_token :: "session_call \<times> call_phase \<Rightarrow> string option" where
  "rotated_token (RefreshCall env h, ph) = (if has_rotated ph then Some h else None)"
| "rotated_token (c, ph) = None"

definition rotates_once :: "session_pool \<Rightarrow> bool" where
  "rotates_once s \<longleftrightarrow> (\<forall>i < length (sp_calls s). \<forall>j < length (sp_calls s). \<forall>h.
     rotated_token (sp_calls s ! i) = Some h \<and> rotated_token (sp_calls s ! j) = Some h \<longrightarrow> i = j)"

lemma call_ok_spent: "call_ok d0 d (fst x) (snd x) \<Longrightarrow> rotated_token x = Some h \<Longrightarrow> spent_token h d"
  by (cases x rule: rotated_token.cases; cases "snd x" rule: has_rotated.cases) auto

lemma unspent_not_spent: "unspent h d \<Longrightarrow> \<not> spent_token h d"
  by (auto simp: unspent_def spent_token_def)

lemma rotating_was_marked:
  "session_step ops (RefreshCall env h) d ph = (ph', d') \<Longrightarrow> call_ok d0 d (RefreshCall env h) ph \<Longrightarrow> \<not> closed ph \<Longrightarrow> has_rotated ph' \<Longrightarrow> ph = Marked"
  by (cases "(ops, RefreshCall env h, d, ph)" rule: session_step.cases)
    (auto split: if_splits option.splits prod.splits)

lemma session_move_ok:
  assumes ok: "sessions_ok d0 s" and once: "rotates_once s" and move: "session_moves ops s t"
  shows "sessions_ok d0 t \<and> rotates_once t"
  using move
proof cases
  case (call_statement i cs c ph d ph' d')
  let ?cs' = "cs[i := (c, ph')]"
  have inv: "hashes_unique d" "locks_exclusive holds_token cs" "\<And>f. known_family f d0 \<Longrightarrow> known_family f d"
    "\<And>j. j < length cs \<Longrightarrow> call_ok d0 d (fst (cs ! j)) (snd (cs ! j))"
    using ok call_statement(1) nth_mem by (fastforce simp: sessions_ok_def)+
  have mine: "call_ok d0 d c ph" using inv(4) [OF call_statement(3)] call_statement(4) by simp
  have ev: "hashes_unique d'" "evolves (holds_token c ph) d d'"
    using statement_evolves [OF call_statement(7) inv(1)] by auto
  have disj: "holds_token (fst (cs ! j)) (snd (cs ! j)) \<inter> holds_token c ph = {}" if "j < length cs" "j \<noteq> i" for j
    using inv(2) call_statement(3,4) that by (metis locks_exclusive_def fst_conv snd_conv)
  have calls: "call_ok d0 d' (fst (?cs' ! j)) (snd (?cs' ! j))" if "j < length cs" for j
  proof (cases "j = i")
    case True
    then show ?thesis
      using call_ok_step [OF mine call_statement(7) inv(1,3) call_statement(5)] call_statement(3) by simp
  next
    case False
    then show ?thesis using call_ok_others [OF inv(4) ev(2) inv(1) ev(1) disj] that by simp
  qed
  have excl: "locks_exclusive holds_token ?cs'"
    using session_locks.step_exclusive [OF inv(2) call_statement(3,4) call_statement(6) call_statement(7)] .
  have known: "known_family f d'" if "known_family f d0" for f
    using evolves_known [OF ev(2) inv(1) ev(1)] inv(3) that by blast
  have "\<forall>(c, ph) \<in> set ?cs'. call_ok d0 d' c ph"
    using calls by (metis (no_types, lifting) case_prodI2 fst_conv in_set_conv_nth length_list_update snd_conv)
  with ev(1) excl known have "sessions_ok d0 t" by (simp add: sessions_ok_def call_statement(2))
  moreover have fresh: False
    if "rotated_token (c, ph') = Some h" "j < length cs" "j \<noteq> i" "rotated_token (cs ! j) = Some h" for h j
  proof -
    have "\<exists>env. c = RefreshCall env h \<and> has_rotated ph'"
      using that(1) by (cases c) (auto split: if_splits)
    then obtain env where c: "c = RefreshCall env h" "has_rotated ph'" by blast
    then have "ph = Marked" using rotating_was_marked call_statement(5,7) mine by metis
    with mine c have "unspent h d" by simp
    moreover have "spent_token h d" using call_ok_spent [OF inv(4) [OF that(2)] that(4)] .
    ultimately show False using unspent_not_spent by blast
  qed
  have "a = b" if "a < length cs" "b < length cs" "rotated_token (?cs' ! a) = Some h" "rotated_token (?cs' ! b) = Some h" for a b h
    using once that fresh [of h a] fresh [of h b]
    by (cases "a = i"; cases "b = i") (auto simp: rotates_once_def call_statement(1))
  then have "rotates_once t" by (simp add: rotates_once_def call_statement(2))
  ultimately show ?thesis by blast
qed

lemma sessions_start: "hashes_unique d \<Longrightarrow> sessions_ok d (new_sessions calls d) \<and> rotates_once (new_sessions calls d)"
proof -
  have "call_ok d d c Presenting" for c by (cases c) simp_all
  moreover have "holds_token c Presenting = {}" "rotated_token (c, Presenting) = None" for c by (cases c; simp)+
  ultimately show "hashes_unique d \<Longrightarrow> ?thesis"
    by (auto simp: sessions_ok_def rotates_once_def new_sessions_def locks_exclusive_def)
qed

lemma sessions_reach:
  assumes "hashes_unique d" and "(session_moves ops)\<^sup>*\<^sup>* (new_sessions calls d) s"
  shows "sessions_ok d s \<and> rotates_once s"
  using assms(2) by (induction rule: rtranclp_induct) (use sessions_start [OF assms(1)] session_move_ok in blast)+

section \<open>A call that comes after a revocation\<close>

text \<open>While a family is closed, a call that was still to start never works on one of its tokens.\<close>

fun aside :: "string \<Rightarrow> db \<Rightarrow> session_call \<Rightarrow> call_phase \<Rightarrow> bool" where
  "aside f d (RefreshCall env h) Locking \<longleftrightarrow> (\<exists>g. g \<noteq> f \<and> of_family g h d)"
| "aside f d (RefreshCall env h) Marked \<longleftrightarrow> (\<exists>g. g \<noteq> f \<and> of_family g h d)"
| "aside f d c (Closed (Rotation (Inr (rotated u r g tok)))) \<longleftrightarrow> g \<noteq> f"
| "aside f d c ph \<longleftrightarrow> True"

lemma aside_others: "aside f d c ph \<Longrightarrow> evolves H d d' \<Longrightarrow> aside f d' c ph"
  using evolves_facts(1) by (induction f d c ph rule: aside.induct) auto

lemma of_family_unique: "of_family f h d \<Longrightarrow> of_family g h d \<Longrightarrow> f = g"
  by (auto simp: of_family_def)

lemma aside_step:
  assumes "aside f d c ph" and step: "session_step ops c d ph = (ph', d')" and "hashes_unique d" and shut: "closed_family f d"
    and ok: "call_ok d0 d c ph" and "\<not> closed ph"
  shows "aside f d' c ph'"
  using step
proof (cases rule: session_step.cases [of "(ops, c, d, ph)"])
  case (1 ops env h d1)
  have "\<exists>g. g \<noteq> f \<and> of_family g h d" if "select_one (usable (ae_now env) h (refreshTokens d)) (refreshTokens d) \<noteq> None"
  proof -
    from that obtain t where "t \<in> set (refreshTokens d)" "t_tokenHash t = h" "\<not> closed_family (t_familyId t) d"
      by (auto simp: usable_def closed_family_def dest: select_one_Some)
    then have "of_family (t_familyId t) h d" "t_familyId t \<noteq> f"
      using shut by (auto simp: of_family_def token_of_iff assms(3))
    then show ?thesis by blast
  qed
  with 1 step show ?thesis by (auto split: if_splits)
next
  case (5 ops env h d1)
  then obtain r where fin: "finish_rotation ops env h d = (r, d')" "ph' = Closed (Rotation r)"
    using step by (auto split: prod.splits)
  show ?thesis
  proof (cases "\<exists>u role g tok. r = Inr (rotated u role g tok)")
    case True
    then obtain u role g tok where rr: "r = Inr (rotated u role g tok)" by blast
    then have "of_family g h d" using finish_token(2) [OF fin(1) assms(3)] by (auto simp: of_family_def)
    with assms(1) 5 show ?thesis by (auto simp: fin(2) rr dest: of_family_unique)
  next
    case False
    then show ?thesis unfolding fin(2) by (cases "(f, d', c, Closed (Rotation r))" rule: aside.cases) auto
  qed
next
  case (9 ops call d1 e g marked)
  with step ok show ?thesis by (auto split: session_call.splits)
qed (use step assms(1) in \<open>auto split: if_splits option.splits prod.splits\<close>)

definition kept_out :: "string \<Rightarrow> nat \<Rightarrow> session_pool \<Rightarrow> bool" where
  "kept_out f i s \<longleftrightarrow> closed_family f (sp_db s) \<and> i < length (sp_calls s) \<and>
     aside f (sp_db s) (fst (sp_calls s ! i)) (snd (sp_calls s ! i))"

lemma kept_out_move:
  assumes ok: "sessions_ok d0 s" and out: "kept_out f i s" and move: "session_moves ops s t"
  shows "kept_out f i t"
  using move
proof cases
  case (call_statement j cs c ph d ph' d')
  have u: "hashes_unique d" and shut: "closed_family f d" using ok out call_statement(1) by (simp_all add: sessions_ok_def kept_out_def)
  have mine: "call_ok d0 d c ph"
    using ok call_statement(1,3,4) nth_mem by (fastforce simp: sessions_ok_def)
  have ev: "hashes_unique d'" "evolves (holds_token c ph) d d'"
    using statement_evolves [OF call_statement(7) u] by auto
  have "aside f d' (fst (cs[j := (c, ph')] ! i)) (snd (cs[j := (c, ph')] ! i))"
  proof (cases "i = j")
    case True
    then show ?thesis
      using aside_step [OF _ call_statement(7) u shut mine call_statement(5)] out call_statement(1,3,4)
      by (simp add: kept_out_def)
  next
    case False
    then show ?thesis using aside_others [OF _ ev(2)] out call_statement(1) by (simp add: kept_out_def)
  qed
  then show ?thesis
    using evolves_closed [OF ev(2) u ev(1) shut] out call_statement(1,2) by (simp add: kept_out_def)
qed

lemma kept_out_reach:
  assumes "sessions_ok d0 s" and "rotates_once s" and "kept_out f i s" and "(session_moves ops)\<^sup>*\<^sup>* s t"
  shows "kept_out f i t"
proof -
  from assms(4) have "sessions_ok d0 t \<and> rotates_once t \<and> kept_out f i t"
    by (induction rule: rtranclp_induct) (use assms(1-3) session_move_ok kept_out_move in blast)+
  then show ?thesis by blast
qed

text \<open>The session a call has continued.\<close>

fun rotated_session :: "session_call \<times> call_phase \<Rightarrow> string option" where
  "rotated_session (c, Closed (Rotation (Inr (rotated u r f tok)))) = Some f"
| "rotated_session x = None"

lemma kept_out_session: "kept_out f i s \<Longrightarrow> rotated_session (sp_calls s ! i) \<noteq> Some f"
  by (cases "sp_calls s ! i" rule: rotated_session.cases) (auto simp: kept_out_def)

section \<open>One call alone\<close>

text \<open>A call that runs without others does what the operations on the tables do.\<close>

definition alone :: "'r auth_ops \<Rightarrow> session_call \<Rightarrow> nat \<Rightarrow> call_phase \<times> db \<Rightarrow> call_phase \<times> db" where
  "alone ops c n = (\<lambda>(ph, d). session_step ops c d ph) ^^ n"

lemma alone_simps [simp]:
  "alone ops c 0 x = x" "alone ops c (Suc n) (ph, d) = alone ops c n (session_step ops c d ph)"
  by (simp_all add: alone_def funpow_swap1 split: prod.splits)

lemma alone_revoking:
  assumes "\<forall>h \<in> set hs. not_revoked h d"
  shows "alone ops c (Suc (length hs)) (Revoking e f hs marked, d) = (Closed e, revoke_hashes (call_now c) (marked @ hs) d)"
  using assms by (induction hs arbitrary: marked) simp_all

lemma live_not_revoked: "hashes_unique d \<Longrightarrow> h \<in> set (live_hashes f d) \<Longrightarrow> not_revoked h d"
  by (auto simp: live_hashes_def not_revoked_def token_of_iff [THEN iffD2])

lemma revoke_live:
  assumes "hashes_unique d"
  shows "revoke_hashes now (live_hashes f d) d = revoke_family now f d"
proof -
  have "t_tokenHash t \<in> set (live_hashes f d) \<longleftrightarrow> t_familyId t = f \<and> t_revokedAt t = None" if "t \<in> set (refreshTokens d)" for t
    using assms that by (auto simp: live_hashes_def hashes_unique_def distinct_map dest: inj_onD)
  then show ?thesis by (simp add: revoke_hashes_def revoke_family_def update_where_def cong: map_cong)
qed

lemma logout_alone:
  assumes "hashes_unique d"
  shows "\<exists>n. alone ops (LogoutCall env f) n (Presenting, d) = (Closed LoggedOut, revoke_family (ae_now env) f d)"
proof
  show "alone ops (LogoutCall env f) (Suc (Suc (length (live_hashes f d)))) (Presenting, d) =
    (Closed LoggedOut, revoke_family (ae_now env) f d)"
    using alone_revoking [of "live_hashes f d" d ops "LogoutCall env f" LoggedOut f "[]"] live_not_revoked [OF assms]
    by (simp add: revoke_live [OF assms] del: length_0_conv)
qed

lemma mark_usable:
  assumes u: "hashes_unique d" and row: "select_one (usable now h (refreshTokens d)) (refreshTokens d) = Some t"
  shows "token_of h d = Some t" and "still_unused now h d"
    and "d\<lparr>refreshTokens := update_where (usable now h (refreshTokens d)) (\<lambda>t. t\<lparr>t_usedAt := Some n\<rparr>) (refreshTokens d)\<rparr> =
      mark_hash n h d"
proof -
  have t: "t \<in> set (refreshTokens d)" "usable now h (refreshTokens d) t" using select_one_Some [OF row] by auto
  then show tok: "token_of h d = Some t" by (auto simp: token_of_iff [OF u] usable_def)
  then show "still_unused now h d" using t(2) by (simp add: still_unused_def usable_def)
  have "usable now h (refreshTokens d) x \<longleftrightarrow> t_tokenHash x = h" if "x \<in> set (refreshTokens d)" for x
    using t that u tok by (auto simp: usable_def hashes_unique_def distinct_map dest: inj_onD)
  then show "d\<lparr>refreshTokens := update_where (usable now h (refreshTokens d)) (\<lambda>t. t\<lparr>t_usedAt := Some n\<rparr>) (refreshTokens d)\<rparr> =
      mark_hash n h d"
    by (simp add: mark_hash_def update_where_def cong: map_cong)
qed

lemma refresh_alone:
  assumes u: "hashes_unique d"
  shows "\<exists>n. alone ops (RefreshCall env h) n (Presenting, d) =
    (case transaction (rotate ops env h) d of (r, d') \<Rightarrow> (Closed (Rotation r), d'))"
proof (cases "select_one (usable (ae_now env) h (refreshTokens d)) (refreshTokens d)")
  case (Some row)
  have ins: "insert_refresh env v f n d1 = (Inl e, d2) \<Longrightarrow> d2 = d1" for v f n d1 e d2
    by (auto simp: insert_refresh_def split: if_splits)
  have seqs: "d\<lparr>seqs := seqs (mark_hash (ae_now env) h d)\<rparr> = d" by (simp add: mark_hash_def)
  have fin: "finish_rotation ops env h d = transaction (rotate ops env h) d"
    using mark_usable [OF u Some]
    by (auto simp: finish_rotation_def rotate_def transaction_def Some Let_def token_of_mark andThen_def return_def seqs
        dest!: ins split: option.splits prod.splits sum.splits)
  have "alone ops (RefreshCall env h) 3 (Presenting, d) =
    (case transaction (rotate ops env h) d of (r, d') \<Rightarrow> (Closed (Rotation r), d'))"
    using mark_usable(2) [OF u Some] by (simp add: numeral_3_eq_3 Some fin)
  then show ?thesis ..
next
  case None
  have same: "update_where (usable (ae_now env) h (refreshTokens d)) g (refreshTokens d) = refreshTokens d" for g
    using None by (simp add: update_where_none select_one_None)
  show ?thesis
  proof (cases "\<exists>t. token_of h d = Some t \<and> t_usedAt t \<noteq> None \<and> t_revokedAt t = None")
    case False
    then have "alone ops (RefreshCall env h) 2 (Presenting, d) = (Closed (Rotation (Inr rotation_invalid)), d)"
      "transaction (rotate ops env h) d = (Inr rotation_invalid, d)"
      using None by (auto simp: numeral_2_eq_2 rotate_def transaction_def Let_def same token_of_def split: option.splits)
    then show ?thesis by auto
  next
    case True
    then obtain t where t: "token_of h d = Some t" "t_usedAt t \<noteq> None" "t_revokedAt t = None" by blast
    let ?f = "t_familyId t" and ?e = "Rotation (Inr (reused (t_userId t) (t_familyId t)))"
    have "transaction (rotate ops env h) d = (Inr (reused (t_userId t) ?f), revoke_family (ae_now env) ?f d)"
      using None t by (auto simp: rotate_def transaction_def Let_def same token_of_def split: option.splits)
    moreover have "alone ops (RefreshCall env h) (Suc (Suc (Suc (Suc (length (live_hashes ?f d)))))) (Presenting, d) =
      (Closed ?e, revoke_family (ae_now env) ?f d)"
      using None t alone_revoking [of "live_hashes ?f d" d ops "RefreshCall env h" ?e ?f "[]"] live_not_revoked [OF u]
      by (auto simp: revoke_live [OF u] simp del: length_0_conv)
    ultimately show ?thesis by (metis case_prod_conv)
  qed
qed
section \<open>Schedules\<close>

text \<open>Running the pool along a list of call numbers, as far as each may move.\<close>

definition call_turn :: "'r auth_ops \<Rightarrow> nat \<Rightarrow> session_pool \<Rightarrow> session_pool option" where
  "call_turn ops i s =
     (case sp_calls s ! i of (c, ph) \<Rightarrow>
        if i < length (sp_calls s) \<and> \<not> closed ph \<and>
            (case wants_token c (sp_db s) ph of None \<Rightarrow> True | Some h \<Rightarrow> lock_free holds_token h i (sp_calls s))
        then (case session_step ops c (sp_db s) ph of (ph', d') \<Rightarrow>
          Some \<lparr>sp_db = d', sp_calls = (sp_calls s)[i := (c, ph')]\<rparr>)
        else None)"

fun run_turns :: "'r auth_ops \<Rightarrow> nat list \<Rightarrow> session_pool \<Rightarrow> session_pool option" where
  "run_turns ops [] s = Some s"
| "run_turns ops (i # is) s = (case call_turn ops i s of None \<Rightarrow> None | Some t \<Rightarrow> run_turns ops is t)"

lemma call_turn_moves: "call_turn ops i s = Some t \<Longrightarrow> session_moves ops s t"
proof -
  assume turn: "call_turn ops i s = Some t"
  obtain d cs where s: "s = \<lparr>sp_db = d, sp_calls = cs\<rparr>" by (cases s)
  obtain c ph where cl: "cs ! i = (c, ph)" by fastforce
  obtain ph' d' where step: "session_step ops c d ph = (ph', d')" by fastforce
  from turn show ?thesis
    unfolding s using session_moves.call_statement [OF _ cl _ _ step]
    by (auto simp: call_turn_def cl step split: if_splits option.splits)
qed

lemma run_turns_moves: "run_turns ops is s = Some t \<Longrightarrow> (session_moves ops)\<^sup>*\<^sup>* s t"
  by (induction "is" arbitrary: s)
    (auto split: option.splits intro: converse_rtranclp_into_rtranclp call_turn_moves)

lemma run_turns_the: "run_turns ops is s \<noteq> None \<Longrightarrow> (session_moves ops)\<^sup>*\<^sup>* s (the (run_turns ops is s))"
  using run_turns_moves by fastforce

text \<open>Two refreshes of one token; and a logout that races with a refresh, before the new token comes back.\<close>

definition twice :: session_pool where
  "twice = new_sessions [RefreshCall (demo_env 2 ''r2'' ''two'') ''mac-one'', RefreshCall (demo_env 3 ''r3'' ''three'') ''mac-one'']
     (demo_db [demo_token])"

definition twice_after :: session_pool where
  "twice_after = the (run_turns demo_auth [0, 1, 0, 0, 1, 1, 1, 1, 1, 1] twice)"

definition crossing :: session_pool where
  "crossing = new_sessions [RefreshCall (demo_env 2 ''r2'' ''two'') ''mac-one'', LogoutCall (demo_env 3 ''r3'' ''x'') ''fam'',
     RefreshCall (demo_env 4 ''r4'' ''four'') ''mac-two''] (demo_db [demo_token])"

definition crossed :: session_pool where
  "crossed = the (run_turns demo_auth [0, 0, 1, 0, 1, 1] crossing)"

definition crossed_after :: session_pool where
  "crossed_after = the (run_turns demo_auth [2, 2] crossed)"
lemma twice_runs: "(session_moves demo_auth)\<^sup>*\<^sup>* twice twice_after"
proof -
  have "run_turns demo_auth [0, 1, 0, 0, 1, 1, 1, 1, 1, 1] twice \<noteq> None" by code_simp
  then show ?thesis unfolding twice_after_def by (rule run_turns_the)
qed

lemma crossing_runs: "(session_moves demo_auth)\<^sup>*\<^sup>* crossing crossed" "(session_moves demo_auth)\<^sup>*\<^sup>* crossed crossed_after"
proof -
  have "run_turns demo_auth [0, 0, 1, 0, 1, 1] crossing \<noteq> None" by code_simp
  then show "(session_moves demo_auth)\<^sup>*\<^sup>* crossing crossed" unfolding crossed_def by (rule run_turns_the)
  have "run_turns demo_auth [2, 2] crossed \<noteq> None" by code_simp
  then show "(session_moves demo_auth)\<^sup>*\<^sup>* crossed crossed_after" unfolding crossed_after_def by (rule run_turns_the)
qed

section \<open>Properties\<close>

text \<open>
  C19: a refresh token is rotated at most once, however the refreshes that present it, other refreshes,
  logouts and logins interleave statement by statement: two calls that have rotated it are one call.
\<close>

theorem concurrent_refresh_single_use:
  assumes "distinct (map t_tokenHash (refreshTokens d))" and "(session_moves ops)\<^sup>*\<^sup>* (new_sessions calls d) s"
    and "i < length (sp_calls s)" and "j < length (sp_calls s)"
    and "rotated_token (sp_calls s ! i) = Some h" and "rotated_token (sp_calls s ! j) = Some h"
  shows "i = j"
proof -
  have "rotates_once s" using sessions_reach [OF _ assms(2)] assms(1) by (simp add: hashes_unique_def)
  with assms(3-6) show ?thesis by (simp add: rotates_once_def)
qed

theorem concurrent_refresh_single_use_witness:
  "rotated_token (sp_calls twice_after ! 0) = Some ''mac-one'' \<and>
   rotated_token (sp_calls twice_after ! 1) \<noteq> Some ''mac-one'' \<and>
   snd (sp_calls twice_after ! 1) = Closed (Rotation (Inr (reused 1 ''fam'')))"
proof -
  have run: "rotated_token (sp_calls twice_after ! 0) = Some ''mac-one''" "length (sp_calls twice_after) = 2"
    "snd (sp_calls twice_after ! 1) = Closed (Rotation (Inr (reused 1 ''fam'')))" by code_simp+
  have "rotated_token (sp_calls twice_after ! 1) \<noteq> Some ''mac-one''"
    using concurrent_refresh_single_use [OF _ twice_runs [unfolded twice_def], of 0 1 "''mac-one''"] run
    by (auto simp: demo_db_def)
  with run show ?thesis by blast
qed

text \<open>
  C20: a session that a logout or a detected reuse has revoked stays closed: a refresh that starts after
  the revocation has committed never continues it, whatever runs meanwhile, and also with a token that
  a refresh racing with the revocation inserted and the revocation did not see.
\<close>

theorem revoked_session_stays_closed:
  assumes "distinct (map t_tokenHash (refreshTokens d))" and "(session_moves ops)\<^sup>*\<^sup>* (new_sessions calls d) s"
    and "(c, Closed e) \<in> set (sp_calls s)" and "revokes d c e f"
    and "i < length (sp_calls s)" and "snd (sp_calls s ! i) = Presenting"
    and "(session_moves ops)\<^sup>*\<^sup>* s t"
  shows "rotated_session (sp_calls t ! i) \<noteq> Some f"
proof -
  have ok: "sessions_ok d s" "rotates_once s" using sessions_reach [OF _ assms(2)] assms(1) by (simp_all add: hashes_unique_def)
  then have "call_ok d (sp_db s) c (Closed e)" using assms(3) by (auto simp: sessions_ok_def)
  moreover have "\<not> has_rotated (Closed e)"
    using assms(4) by (cases "(d, c, e, f)" rule: revokes.cases) auto
  ultimately have "closed_family f (sp_db s)" using assms(4) call_ok_closed by blast
  then have "kept_out f i s" using assms(5,6) by (simp add: kept_out_def)
  from kept_out_session [OF kept_out_reach [OF ok this assms(7)]] show ?thesis .
qed

theorem revoked_session_stays_closed_witness:
  "map (\<lambda>t. (t_tokenHash t, t_revokedAt t)) (refreshTokens (sp_db crossed)) = [(''mac-one'', Some 3), (''mac-two'', None)] \<and>
   rotated_session (sp_calls crossed ! 0) = Some ''fam'' \<and> rotated_session (sp_calls crossed_after ! 2) \<noteq> Some ''fam''"
proof -
  have rows: "map (\<lambda>t. (t_tokenHash t, t_revokedAt t)) (refreshTokens (sp_db crossed)) = [(''mac-one'', Some 3), (''mac-two'', None)]"
    by code_simp
  have calls: "length (sp_calls crossed) = 3" "snd (sp_calls crossed ! 2) = Presenting"
    "sp_calls crossed ! 1 = (LogoutCall (demo_env 3 ''r3'' ''x'') ''fam'', Closed LoggedOut)"
    "rotated_session (sp_calls crossed ! 0) = Some ''fam''" by code_simp+
  then have "(LogoutCall (demo_env 3 ''r3'' ''x'') ''fam'', Closed LoggedOut) \<in> set (sp_calls crossed)"
    by (metis nth_mem one_less_numeral_iff semiring_norm(77))
  then have "rotated_session (sp_calls crossed_after ! 2) \<noteq> Some ''fam''"
    using revoked_session_stays_closed [OF _ crossing_runs(1) [unfolded crossing_def] _ _ _ _ crossing_runs(2), of _ _ _ 2] calls
    by (simp add: demo_db_def demo_token_def known_family_def)
  with rows calls show ?thesis by blast
qed

end
