(* ===== verification/Migrations.thy ===== *)
theory Migrations
  imports Schema
begin

text \<open>
  The migrations of \<open>src/migrations\<close>: each SQL statement is a value, and running it changes the catalogue
  of tables, constraints and indexes or fails as Postgres does. Conditions are syntax trees; the only
  pattern is that of \<open>users_phone_check\<close>. Table data play no part: a column added as NOT NULL always has
  a default here. The sequences behind identity columns are left out.
\<close>

section \<open>The catalogue\<close>

datatype sql_type = Bigint | Integer | Text | Timestamptz | Jsonb | Uuid | Tsvector

datatype column_default =
    NoDefault
  | IdentityAlways
  | DefaultNow
  | DefaultUuid
  | DefaultText string
  | DefaultInt int
  | StoredAs string

record column_def =
  cd_name :: string
  cd_type :: sql_type
  cd_notNull :: bool
  cd_default :: column_default

datatype condition =
    GreaterThan string int
  | AtLeast string int
  | OneOf string "string list"
  | IsLower string
  | MatchesPhone string
  | IsNull string
  | IsNotNull string

datatype delete_rule = Cascade | Restrict

datatype constraint =
    Check condition
  | Unique "string list"
  | PrimaryKey "string list"
  | ForeignKey string string string delete_rule

datatype index_method = Btree | Gin

record index_def =
  ix_name :: string
  ix_table :: string
  ix_unique :: bool
  ix_method :: index_method
  ix_columns :: "string list"
  ix_where :: "condition option"

record constraint_def =
  kd_table :: string
  kd_name :: string
  kd_body :: constraint

record catalog =
  ct_tables :: "(string \<times> column_def list) list"
  ct_constraints :: "constraint_def list"
  ct_indexes :: "index_def list"
  ct_metadata :: "(string list \<times> string) list"

definition empty_catalog :: catalog where
  "empty_catalog = \<lparr>ct_tables = [], ct_constraints = [], ct_indexes = [], ct_metadata = []\<rparr>"

datatype ddl =
    CreateTable string "column_def list" "(string \<times> constraint) list"
  | DropTable string
  | CreateIndex index_def
  | DropIndex string
  | AddColumn string column_def
  | DropColumn string string
  | AddConstraint string string constraint
  | DropConstraint string string
  | InsertMetadata "string list" string
  | DeleteMetadata "string list"

section \<open>Running a statement\<close>

fun condition_column :: "condition \<Rightarrow> string" where
  "condition_column (GreaterThan c n) = c"
| "condition_column (AtLeast c n) = c"
| "condition_column (OneOf c vs) = c"
| "condition_column (IsLower c) = c"
| "condition_column (MatchesPhone c) = c"
| "condition_column (IsNull c) = c"
| "condition_column (IsNotNull c) = c"

fun constraint_columns :: "constraint \<Rightarrow> string list" where
  "constraint_columns (Check p) = [condition_column p]"
| "constraint_columns (Unique cs) = cs"
| "constraint_columns (PrimaryKey cs) = cs"
| "constraint_columns (ForeignKey c t r d) = [c]"

definition index_uses :: "index_def \<Rightarrow> string list" where
  "index_uses i = ix_columns i @ (case ix_where i of None \<Rightarrow> [] | Some p \<Rightarrow> [condition_column p])"

fun has_index :: "constraint \<Rightarrow> bool" where
  "has_index (Unique cs) = True"
| "has_index (PrimaryKey cs) = True"
| "has_index k = False"

text \<open>Tables, indexes and the indexes of keys share one name space.\<close>

definition relation_names :: "catalog \<Rightarrow> string list" where
  "relation_names c = map fst (ct_tables c) @ map ix_name (ct_indexes c) @
     map kd_name (filter (\<lambda>k. has_index (kd_body k)) (ct_constraints c))"

definition columns_of :: "string \<Rightarrow> catalog \<Rightarrow> string list" where
  "columns_of t c = (case map_of (ct_tables c) t of None \<Rightarrow> [] | Some cols \<Rightarrow> map cd_name cols)"

definition has_table :: "string \<Rightarrow> catalog \<Rightarrow> bool" where
  "has_table t c \<longleftrightarrow> t \<in> set (map fst (ct_tables c))"

fun is_key_of :: "string \<Rightarrow> string \<Rightarrow> constraint_def \<Rightarrow> bool" where
  "is_key_of t col k \<longleftrightarrow> kd_table k = t \<and> (kd_body k = PrimaryKey [col] \<or> kd_body k = Unique [col])"

fun reference_ok :: "catalog \<Rightarrow> constraint \<Rightarrow> bool" where
  "reference_ok c (ForeignKey col t r d) \<longleftrightarrow> list_ex (is_key_of t r) (ct_constraints c)"
| "reference_ok c k \<longleftrightarrow> True"

definition constraint_fits :: "string \<Rightarrow> string \<Rightarrow> constraint \<Rightarrow> catalog \<Rightarrow> bool" where
  "constraint_fits t n k c \<longleftrightarrow> has_table t c \<and>
     \<not> list_ex (\<lambda>k'. kd_table k' = t \<and> kd_name k' = n) (ct_constraints c) \<and>
     (has_index k \<longrightarrow> n \<notin> set (relation_names c)) \<and>
     list_all (\<lambda>col. col \<in> set (columns_of t c)) (constraint_columns k) \<and> reference_ok c k"

definition add_constraint :: "string \<Rightarrow> string \<Rightarrow> constraint \<Rightarrow> catalog \<Rightarrow> catalog option" where
  "add_constraint t n k c = (if constraint_fits t n k c
     then Some (c\<lparr>ct_constraints := ct_constraints c @ [\<lparr>kd_table = t, kd_name = n, kd_body = k\<rparr>]\<rparr>) else None)"

fun add_constraints :: "string \<Rightarrow> (string \<times> constraint) list \<Rightarrow> catalog \<Rightarrow> catalog option" where
  "add_constraints t [] c = Some c"
| "add_constraints t ((n, k) # ks) c = Option.bind (add_constraint t n k c) (add_constraints t ks)"

definition map_table :: "string \<Rightarrow> (column_def list \<Rightarrow> column_def list) \<Rightarrow> catalog \<Rightarrow> catalog" where
  "map_table t f c = c\<lparr>ct_tables := map (\<lambda>(n, cols). (n, if n = t then f cols else cols)) (ct_tables c)\<rparr>"

text \<open>
  Dropping a table or a column takes its own constraints and indexes with it. A statement that would leave
  a foreign key without the key it refers to is refused.
\<close>

definition keep_references :: "catalog \<Rightarrow> catalog option" where
  "keep_references c = (if list_all (\<lambda>k. reference_ok c (kd_body k)) (ct_constraints c) then Some c else None)"

fun exec_ddl :: "ddl \<Rightarrow> catalog \<Rightarrow> catalog option" where
  "exec_ddl (CreateTable t cols ks) c =
     (if t \<in> set (relation_names c) \<or> \<not> distinct (map cd_name cols) then None
      else add_constraints t ks (c\<lparr>ct_tables := ct_tables c @ [(t, cols)]\<rparr>))"
| "exec_ddl (DropTable t) c =
     (if \<not> has_table t c then None
      else keep_references (c\<lparr>ct_tables := filter (\<lambda>x. fst x \<noteq> t) (ct_tables c),
        ct_constraints := filter (\<lambda>k. kd_table k \<noteq> t) (ct_constraints c),
        ct_indexes := filter (\<lambda>i. ix_table i \<noteq> t) (ct_indexes c)\<rparr>))"
| "exec_ddl (CreateIndex i) c =
     (if ix_name i \<in> set (relation_names c) \<or> \<not> has_table (ix_table i) c \<or>
         \<not> list_all (\<lambda>col. col \<in> set (columns_of (ix_table i) c)) (index_uses i) then None
      else Some (c\<lparr>ct_indexes := ct_indexes c @ [i]\<rparr>))"
| "exec_ddl (DropIndex n) c =
     (if list_ex (\<lambda>i. ix_name i = n) (ct_indexes c)
      then Some (c\<lparr>ct_indexes := filter (\<lambda>i. ix_name i \<noteq> n) (ct_indexes c)\<rparr>) else None)"
| "exec_ddl (AddColumn t col) c =
     (if has_table t c \<and> cd_name col \<notin> set (columns_of t c) then Some (map_table t (\<lambda>cols. cols @ [col]) c) else None)"
| "exec_ddl (DropColumn t n) c =
     (if n \<notin> set (columns_of t c) then None
      else keep_references ((map_table t (filter (\<lambda>col. cd_name col \<noteq> n)) c)\<lparr>
        ct_constraints := filter (\<lambda>k. \<not> (kd_table k = t \<and> n \<in> set (constraint_columns (kd_body k)))) (ct_constraints c),
        ct_indexes := filter (\<lambda>i. \<not> (ix_table i = t \<and> n \<in> set (index_uses i))) (ct_indexes c)\<rparr>))"
| "exec_ddl (AddConstraint t n k) c = add_constraint t n k c"
| "exec_ddl (DropConstraint t n) c =
     (if list_ex (\<lambda>k. kd_table k = t \<and> kd_name k = n) (ct_constraints c)
      then keep_references (c\<lparr>ct_constraints := filter (\<lambda>k. \<not> (kd_table k = t \<and> kd_name k = n)) (ct_constraints c)\<rparr>) else None)"
| "exec_ddl (InsertMetadata r v) c = Some (c\<lparr>ct_metadata := ct_metadata c @ [(r, v)]\<rparr>)"
| "exec_ddl (DeleteMetadata r) c = Some (c\<lparr>ct_metadata := filter (\<lambda>m. fst m \<noteq> r) (ct_metadata c)\<rparr>)"

fun exec_all :: "ddl list \<Rightarrow> catalog \<Rightarrow> catalog option" where
  "exec_all [] c = Some c"
| "exec_all (s # ss) c = Option.bind (exec_ddl s c) (exec_all ss)"

section \<open>The migrations\<close>

record migration =
  mg_name :: string
  mg_up :: "ddl list"
  mg_down :: "ddl list"

definition column :: "string \<Rightarrow> sql_type \<Rightarrow> column_def" where
  "column n ty = \<lparr>cd_name = n, cd_type = ty, cd_notNull = True, cd_default = NoDefault\<rparr>"

definition nullable_col :: "string \<Rightarrow> sql_type \<Rightarrow> column_def" where
  "nullable_col n ty = (column n ty)\<lparr>cd_notNull := False\<rparr>"

definition default_col :: "string \<Rightarrow> sql_type \<Rightarrow> column_default \<Rightarrow> column_def" where
  "default_col n ty dflt = (column n ty)\<lparr>cd_default := dflt\<rparr>"

definition plain_index :: "string \<Rightarrow> string \<Rightarrow> string list \<Rightarrow> index_def" where
  "plain_index n t cs = \<lparr>ix_name = n, ix_table = t, ix_unique = False, ix_method = Btree, ix_columns = cs, ix_where = None\<rparr>"

definition unique_index :: "string \<Rightarrow> string \<Rightarrow> string list \<Rightarrow> index_def" where
  "unique_index n t cs = (plain_index n t cs)\<lparr>ix_unique := True\<rparr>"

definition partial_index :: "string \<Rightarrow> string \<Rightarrow> string list \<Rightarrow> condition \<Rightarrow> index_def" where
  "partial_index n t cs p = (plain_index n t cs)\<lparr>ix_where := Some p\<rparr>"

abbreviation id_col :: column_def where "id_col \<equiv> default_col ''id'' Bigint IdentityAlways"
abbreviation uuid_col :: column_def where "uuid_col \<equiv> default_col ''id'' Uuid DefaultUuid"
abbreviation created_col :: column_def where "created_col \<equiv> default_col ''created_at'' Timestamptz DefaultNow"

definition search_expression :: string where
  "search_expression = ''to_tsvector('' @ [CHR 39] @ ''simple'' @ [CHR 39] @ '', name || '' @ [CHR 39, CHR 32, CHR 39] @ '' || description)''"

text \<open>A row of \<open>typeorm_metadata\<close> by database, schema, table, type and name; the value is kept beside it.\<close>

definition search_key :: "string list" where
  "search_key = [''marketplace'', ''public'', ''products'', ''GENERATED_COLUMN'', ''search_vector'']"

definition InitialSchema :: migration where
  "InitialSchema = \<lparr>mg_name = ''InitialSchema1789727746208'',
     mg_up =
      [InsertMetadata search_key search_expression,
       CreateTable ''products''
         [id_col, column ''name'' Text, column ''description'' Text, column ''price'' Integer, created_col,
          default_col ''search_vector'' Tsvector (StoredAs search_expression)]
         [(''UQ_4c9fb58de893725258746385e16'', Unique [''name'']),
          (''products_price_check'', Check (GreaterThan ''price'' 0)),
          (''PK_0806c755e0aca124e67c0cf6d7d'', PrimaryKey [''id''])],
       CreateIndex ((plain_index ''idx_products_search_vector'' ''products'' [''search_vector''])\<lparr>ix_method := Gin\<rparr>),
       CreateTable ''order_items''
         [id_col, column ''order_id'' Bigint, column ''product_id'' Bigint, column ''quantity'' Integer, column ''unit_price'' Integer]
         [(''order_items_unit_price_check'', Check (GreaterThan ''unit_price'' 0)),
          (''order_items_quantity_check'', Check (GreaterThan ''quantity'' 0)),
          (''PK_005269d8574e6fac0493715c308'', PrimaryKey [''id''])],
       CreateIndex (plain_index ''order_items_product_id_idx'' ''order_items'' [''product_id'']),
       CreateIndex (plain_index ''order_items_order_id_idx'' ''order_items'' [''order_id'']),
       CreateTable ''orders''
         [id_col, column ''user_id'' Bigint, column ''status'' Text, column ''total'' Integer, created_col]
         [(''orders_total_check'', Check (AtLeast ''total'' 0)),
          (''orders_status_check'', Check (OneOf ''status'' [''pending'', ''paid'', ''cancelled''])),
          (''PK_710e2d4957aa5878dfe94e4ac2f'', PrimaryKey [''id''])],
       CreateIndex (partial_index ''orders_cancelled_created_at_idx'' ''orders'' [''created_at''] (OneOf ''status'' [''cancelled''])),
       CreateIndex (unique_index ''orders_user_id_created_at_idx'' ''orders'' [''user_id'', ''created_at'']),
       CreateTable ''users''
         [id_col, column ''email'' Text, column ''phone'' Text, column ''name'' Text, created_col]
         [(''UQ_97672ac88f789774dd47f7c8be3'', Unique [''email'']),
          (''UQ_a000cca60bcf04454e727699490'', Unique [''phone'']),
          (''users_email_lower_check'', Check (IsLower ''email'')),
          (''users_phone_check'', Check (MatchesPhone ''phone'')),
          (''PK_a3ffb1c0c8416b9fc6f907b7433'', PrimaryKey [''id''])],
       AddConstraint ''order_items'' ''FK_145532db85752b29c57d2b7b1f1'' (ForeignKey ''order_id'' ''orders'' ''id'' Cascade),
       AddConstraint ''order_items'' ''FK_9263386c35b6b242540f9493b00'' (ForeignKey ''product_id'' ''products'' ''id'' Restrict),
       AddConstraint ''orders'' ''FK_a922b820eeef29ac1c6800e826a'' (ForeignKey ''user_id'' ''users'' ''id'' Restrict)],
     mg_down =
      [DropConstraint ''orders'' ''FK_a922b820eeef29ac1c6800e826a'',
       DropConstraint ''order_items'' ''FK_9263386c35b6b242540f9493b00'',
       DropConstraint ''order_items'' ''FK_145532db85752b29c57d2b7b1f1'',
       DropTable ''users'',
       DropIndex ''orders_user_id_created_at_idx'',
       DropIndex ''orders_cancelled_created_at_idx'',
       DropTable ''orders'',
       DropIndex ''order_items_order_id_idx'',
       DropIndex ''order_items_product_id_idx'',
       DropTable ''order_items'',
       DropIndex ''idx_products_search_vector'',
       DropTable ''products'',
       DeleteMetadata search_key]\<rparr>"

definition AddStockBalanceJobs :: migration where
  "AddStockBalanceJobs = \<lparr>mg_name = ''AddStockBalanceJobs1789983310105'',
     mg_up =
      [CreateTable ''jobs''
         [id_col, default_col ''queue'' Text (DefaultText ''default''), column ''type'' Text, column ''payload'' Jsonb,
          default_col ''status'' Text (DefaultText ''pending''), default_col ''processed'' Integer (DefaultInt 0),
          default_col ''attempts'' Integer (DefaultInt 0), nullable_col ''last_error'' Text, nullable_col ''worker'' Text,
          created_col, nullable_col ''processed_at'' Timestamptz]
         [(''jobs_attempts_check'', Check (AtLeast ''attempts'' 0)),
          (''jobs_processed_check'', Check (AtLeast ''processed'' 0)),
          (''jobs_status_check'', Check (OneOf ''status'' [''pending'', ''done'', ''failed''])),
          (''PK_cf0a6c42b72fcc7f7c237def345'', PrimaryKey [''id''])],
       CreateIndex (partial_index ''jobs_pending_queue_id_idx'' ''jobs'' [''queue'', ''id''] (OneOf ''status'' [''pending''])),
       AddColumn ''products'' (default_col ''stock'' Integer (DefaultInt 0)),
       AddColumn ''users'' (default_col ''balance'' Integer (DefaultInt 0)),
       AddConstraint ''products'' ''products_stock_check'' (Check (AtLeast ''stock'' 0)),
       AddConstraint ''users'' ''users_balance_check'' (Check (AtLeast ''balance'' 0))],
     mg_down =
      [DropConstraint ''users'' ''users_balance_check'',
       DropConstraint ''products'' ''products_stock_check'',
       DropColumn ''users'' ''balance'',
       DropColumn ''products'' ''stock'',
       DropIndex ''jobs_pending_queue_id_idx'',
       DropTable ''jobs'']\<rparr>"

definition AddReceipts :: migration where
  "AddReceipts = \<lparr>mg_name = ''AddReceipts1791370516778'',
     mg_up =
      [CreateTable ''receipts''
         [id_col, column ''event_id'' Text, column ''order_id'' Bigint, column ''total'' Integer,
          default_col ''issued_at'' Timestamptz DefaultNow]
         [(''UQ_24f0e73ac9fd9166da129f18f78'', Unique [''event_id'']),
          (''receipts_total_check'', Check (AtLeast ''total'' 0)),
          (''PK_5e8182d7c29e023da6e1ff33bfe'', PrimaryKey [''id''])],
       AddConstraint ''receipts'' ''FK_9545ae8fc5f7714cd8a807dd937'' (ForeignKey ''order_id'' ''orders'' ''id'' Restrict)],
     mg_down =
      [DropConstraint ''receipts'' ''FK_9545ae8fc5f7714cd8a807dd937'',
       DropTable ''receipts'']\<rparr>"

definition AddOutboxInbox :: migration where
  "AddOutboxInbox = \<lparr>mg_name = ''AddOutboxInbox1792594714472'',
     mg_up =
      [CreateTable ''outbox''
         [uuid_col, column ''aggregate_type'' Text, column ''aggregate_id'' Text, column ''type'' Text, column ''payload'' Jsonb,
          created_col, nullable_col ''published_at'' Timestamptz, default_col ''attempts'' Integer (DefaultInt 0)]
         [(''outbox_attempts_check'', Check (AtLeast ''attempts'' 0)),
          (''PK_340ab539f309f03bdaa14aa7649'', PrimaryKey [''id''])],
       CreateIndex (partial_index ''outbox_unpublished_idx'' ''outbox'' [''created_at''] (IsNull ''published_at'')),
       CreateTable ''processed_messages''
         [column ''message_id'' Uuid, column ''consumer'' Text, default_col ''processed_at'' Timestamptz DefaultNow]
         [(''PK_d4853eee97acfc588e49f9290d1'', PrimaryKey [''message_id'', ''consumer''])],
       AddColumn ''orders'' (nullable_col ''idempotency_key'' Text),
       CreateIndex (unique_index ''orders_user_id_idempotency_key_key'' ''orders'' [''user_id'', ''idempotency_key'']),
       CreateIndex (unique_index ''receipts_order_id_key'' ''receipts'' [''order_id''])],
     mg_down =
      [DropIndex ''receipts_order_id_key'',
       DropIndex ''orders_user_id_idempotency_key_key'',
       DropColumn ''orders'' ''idempotency_key'',
       DropTable ''processed_messages'',
       DropIndex ''outbox_unpublished_idx'',
       DropTable ''outbox'']\<rparr>"

definition AddAuth :: migration where
  "AddAuth = \<lparr>mg_name = ''AddAuth1793627454954'',
     mg_up =
      [CreateTable ''refresh_tokens''
         [uuid_col, column ''user_id'' Bigint, column ''family_id'' Uuid, column ''token_hash'' Text, column ''expires_at'' Timestamptz,
          nullable_col ''used_at'' Timestamptz, nullable_col ''revoked_at'' Timestamptz, created_col]
         [(''PK_7d8bee0204106019488c4c50ffa'', PrimaryKey [''id''])],
       CreateIndex (plain_index ''refresh_tokens_family_id_idx'' ''refresh_tokens'' [''family_id'']),
       CreateIndex (unique_index ''refresh_tokens_token_hash_key'' ''refresh_tokens'' [''token_hash'']),
       AddColumn ''users'' (nullable_col ''password_hash'' Text),
       AddColumn ''users'' (default_col ''role'' Text (DefaultText ''buyer'')),
       AddConstraint ''users'' ''users_role_check'' (Check (OneOf ''role'' [''buyer'', ''seller'', ''admin''])),
       AddConstraint ''refresh_tokens'' ''FK_3ddc983c5f7bcf132fd8732c3f4'' (ForeignKey ''user_id'' ''users'' ''id'' Cascade)],
     mg_down =
      [DropConstraint ''refresh_tokens'' ''FK_3ddc983c5f7bcf132fd8732c3f4'',
       DropConstraint ''users'' ''users_role_check'',
       DropColumn ''users'' ''role'',
       DropColumn ''users'' ''password_hash'',
       DropIndex ''refresh_tokens_token_hash_key'',
       DropIndex ''refresh_tokens_family_id_idx'',
       DropTable ''refresh_tokens'']\<rparr>"

definition AddRefreshTokenMaintenanceIndexes :: migration where
  "AddRefreshTokenMaintenanceIndexes = \<lparr>mg_name = ''AddRefreshTokenMaintenanceIndexes1793865298498'',
     mg_up =
      [CreateIndex (partial_index ''refresh_tokens_revoked_at_idx'' ''refresh_tokens'' [''revoked_at''] (IsNotNull ''revoked_at'')),
       CreateIndex (plain_index ''refresh_tokens_expires_at_idx'' ''refresh_tokens'' [''expires_at''])],
     mg_down =
      [DropIndex ''refresh_tokens_expires_at_idx'',
       DropIndex ''refresh_tokens_revoked_at_idx'']\<rparr>"

definition migrations :: "migration list" where
  "migrations = [InitialSchema, AddStockBalanceJobs, AddReceipts, AddOutboxInbox, AddAuth, AddRefreshTokenMaintenanceIndexes]"

text \<open>\<open>migration:run\<close> runs the pending migrations in order.\<close>

definition run_migrations :: "migration list \<Rightarrow> catalog \<Rightarrow> catalog option" where
  "run_migrations ms = exec_all (concat (map mg_up ms))"

end
