(* ===== verification/Entities.thy ===== *)
theory Entities
  imports Migrations
begin

text \<open>
  The entity classes of \<open>src/entities\<close> as their decorators declare them, and the schema TypeORM expects for
  them (\<open>src/database/options.ts\<close> lists them). A relation
  shares the column its join column names. TypeORM invents the names of keys, so those are not compared.
\<close>

section \<open>Decorators\<close>

record column_options =
  co_name :: "string option"
  co_nullable :: bool
  co_default :: column_default
  co_unique :: bool

definition no_options :: column_options where
  "no_options = \<lparr>co_name = None, co_nullable = False, co_default = NoDefault, co_unique = False\<rparr>"

definition named :: "string \<Rightarrow> column_options" where
  "named n = no_options\<lparr>co_name := Some n\<rparr>"

datatype decorated =
    PrimaryGeneratedIdentity string
  | PrimaryGeneratedUuid string
  | PrimaryColumn string sql_type column_options
  | Column string sql_type column_options
  | CreateDateColumn string string
  | ManyToOne string string delete_rule string

record entity_index =
  ei_name :: string
  ei_properties :: "string list"
  ei_unique :: bool
  ei_method :: index_method
  ei_where :: "condition option"

record entity_class =
  ec_table :: string
  ec_checks :: "(string \<times> condition) list"
  ec_indexes :: "entity_index list"
  ec_properties :: "decorated list"

definition Index :: "string \<Rightarrow> string list \<Rightarrow> entity_index" where
  "Index n ps = \<lparr>ei_name = n, ei_properties = ps, ei_unique = False, ei_method = Btree, ei_where = None\<rparr>"

definition UserEntity :: entity_class where
  "UserEntity = \<lparr>ec_table = ''users'',
     ec_checks = [(''users_phone_check'', MatchesPhone ''phone''), (''users_email_lower_check'', IsLower ''email''),
       (''users_balance_check'', AtLeast ''balance'' 0), (''users_role_check'', OneOf ''role'' [''buyer'', ''seller'', ''admin''])],
     ec_indexes = [],
     ec_properties = [PrimaryGeneratedIdentity ''id'', Column ''email'' Text (no_options\<lparr>co_unique := True\<rparr>),
       Column ''phone'' Text (no_options\<lparr>co_unique := True\<rparr>), Column ''name'' Text no_options,
       Column ''balance'' Integer (no_options\<lparr>co_default := DefaultInt 0\<rparr>),
       Column ''passwordHash'' Text ((named ''password_hash'')\<lparr>co_nullable := True\<rparr>),
       Column ''role'' Text (no_options\<lparr>co_default := DefaultText ''buyer''\<rparr>),
       CreateDateColumn ''createdAt'' ''created_at'']\<rparr>"

definition ProductEntity :: entity_class where
  "ProductEntity = \<lparr>ec_table = ''products'',
     ec_checks = [(''products_price_check'', GreaterThan ''price'' 0), (''products_stock_check'', AtLeast ''stock'' 0)],
     ec_indexes = [(Index ''idx_products_search_vector'' [''searchVector''])\<lparr>ei_method := Gin\<rparr>],
     ec_properties = [PrimaryGeneratedIdentity ''id'', Column ''name'' Text (no_options\<lparr>co_unique := True\<rparr>),
       Column ''description'' Text no_options, Column ''price'' Integer no_options,
       Column ''stock'' Integer (no_options\<lparr>co_default := DefaultInt 0\<rparr>), CreateDateColumn ''createdAt'' ''created_at'',
       Column ''searchVector'' Tsvector ((named ''search_vector'')\<lparr>co_default := StoredAs search_expression\<rparr>)]\<rparr>"

definition OrderEntity :: entity_class where
  "OrderEntity = \<lparr>ec_table = ''orders'',
     ec_checks = [(''orders_status_check'', OneOf ''status'' [''pending'', ''paid'', ''cancelled'']),
       (''orders_total_check'', AtLeast ''total'' 0)],
     ec_indexes = [(Index ''orders_user_id_created_at_idx'' [''userId'', ''createdAt''])\<lparr>ei_unique := True\<rparr>,
       (Index ''orders_cancelled_created_at_idx'' [''createdAt''])\<lparr>ei_where := Some (OneOf ''status'' [''cancelled''])\<rparr>,
       (Index ''orders_user_id_idempotency_key_key'' [''userId'', ''idempotencyKey''])\<lparr>ei_unique := True\<rparr>],
     ec_properties = [PrimaryGeneratedIdentity ''id'', Column ''userId'' Bigint (named ''user_id''),
       ManyToOne ''user'' ''users'' Restrict ''user_id'', Column ''status'' Text no_options, Column ''total'' Integer no_options,
       Column ''idempotencyKey'' Text ((named ''idempotency_key'')\<lparr>co_nullable := True\<rparr>),
       CreateDateColumn ''createdAt'' ''created_at'']\<rparr>"

definition OrderItemEntity :: entity_class where
  "OrderItemEntity = \<lparr>ec_table = ''order_items'',
     ec_checks = [(''order_items_quantity_check'', GreaterThan ''quantity'' 0),
       (''order_items_unit_price_check'', GreaterThan ''unit_price'' 0)],
     ec_indexes = [Index ''order_items_order_id_idx'' [''orderId''], Index ''order_items_product_id_idx'' [''productId'']],
     ec_properties = [PrimaryGeneratedIdentity ''id'', Column ''orderId'' Bigint (named ''order_id''),
       ManyToOne ''order'' ''orders'' Cascade ''order_id'', Column ''productId'' Bigint (named ''product_id''),
       ManyToOne ''product'' ''products'' Restrict ''product_id'', Column ''quantity'' Integer no_options,
       Column ''unitPrice'' Integer (named ''unit_price'')]\<rparr>"

definition JobEntity :: entity_class where
  "JobEntity = \<lparr>ec_table = ''jobs'',
     ec_checks = [(''jobs_status_check'', OneOf ''status'' [''pending'', ''done'', ''failed'']),
       (''jobs_processed_check'', AtLeast ''processed'' 0), (''jobs_attempts_check'', AtLeast ''attempts'' 0)],
     ec_indexes = [(Index ''jobs_pending_queue_id_idx'' [''queue'', ''id''])\<lparr>ei_where := Some (OneOf ''status'' [''pending''])\<rparr>],
     ec_properties = [PrimaryGeneratedIdentity ''id'', Column ''queue'' Text (no_options\<lparr>co_default := DefaultText ''default''\<rparr>),
       Column ''type'' Text no_options, Column ''payload'' Jsonb no_options,
       Column ''status'' Text (no_options\<lparr>co_default := DefaultText ''pending''\<rparr>),
       Column ''processed'' Integer (no_options\<lparr>co_default := DefaultInt 0\<rparr>),
       Column ''attempts'' Integer (no_options\<lparr>co_default := DefaultInt 0\<rparr>),
       Column ''lastError'' Text ((named ''last_error'')\<lparr>co_nullable := True\<rparr>),
       Column ''worker'' Text (no_options\<lparr>co_nullable := True\<rparr>), CreateDateColumn ''createdAt'' ''created_at'',
       Column ''processedAt'' Timestamptz ((named ''processed_at'')\<lparr>co_nullable := True\<rparr>)]\<rparr>"

definition OutboxEntity :: entity_class where
  "OutboxEntity = \<lparr>ec_table = ''outbox'',
     ec_checks = [(''outbox_attempts_check'', AtLeast ''attempts'' 0)],
     ec_indexes = [(Index ''outbox_unpublished_idx'' [''createdAt''])\<lparr>ei_where := Some (IsNull ''published_at'')\<rparr>],
     ec_properties = [PrimaryGeneratedUuid ''id'', Column ''aggregateType'' Text (named ''aggregate_type''),
       Column ''aggregateId'' Text (named ''aggregate_id''), Column ''type'' Text no_options, Column ''payload'' Jsonb no_options,
       CreateDateColumn ''createdAt'' ''created_at'',
       Column ''publishedAt'' Timestamptz ((named ''published_at'')\<lparr>co_nullable := True\<rparr>),
       Column ''attempts'' Integer (no_options\<lparr>co_default := DefaultInt 0\<rparr>)]\<rparr>"

definition ProcessedMessageEntity :: entity_class where
  "ProcessedMessageEntity = \<lparr>ec_table = ''processed_messages'', ec_checks = [], ec_indexes = [],
     ec_properties = [PrimaryColumn ''messageId'' Uuid (named ''message_id''), PrimaryColumn ''consumer'' Text no_options,
       CreateDateColumn ''processedAt'' ''processed_at'']\<rparr>"

definition ReceiptEntity :: entity_class where
  "ReceiptEntity = \<lparr>ec_table = ''receipts'',
     ec_checks = [(''receipts_total_check'', AtLeast ''total'' 0)],
     ec_indexes = [(Index ''receipts_order_id_key'' [''orderId''])\<lparr>ei_unique := True\<rparr>],
     ec_properties = [PrimaryGeneratedIdentity ''id'', Column ''eventId'' Text ((named ''event_id'')\<lparr>co_unique := True\<rparr>),
       Column ''orderId'' Bigint (named ''order_id''), ManyToOne ''order'' ''orders'' Restrict ''order_id'',
       Column ''total'' Integer no_options, CreateDateColumn ''issuedAt'' ''issued_at'']\<rparr>"

definition RefreshTokenEntity :: entity_class where
  "RefreshTokenEntity = \<lparr>ec_table = ''refresh_tokens'', ec_checks = [],
     ec_indexes = [(Index ''refresh_tokens_token_hash_key'' [''tokenHash''])\<lparr>ei_unique := True\<rparr>,
       Index ''refresh_tokens_family_id_idx'' [''familyId''], Index ''refresh_tokens_expires_at_idx'' [''expiresAt''],
       (Index ''refresh_tokens_revoked_at_idx'' [''revokedAt''])\<lparr>ei_where := Some (IsNotNull ''revoked_at'')\<rparr>],
     ec_properties = [PrimaryGeneratedUuid ''id'', Column ''userId'' Bigint (named ''user_id''),
       ManyToOne ''user'' ''users'' Cascade ''user_id'', Column ''familyId'' Uuid (named ''family_id''),
       Column ''tokenHash'' Text (named ''token_hash''), Column ''expiresAt'' Timestamptz (named ''expires_at''),
       Column ''usedAt'' Timestamptz ((named ''used_at'')\<lparr>co_nullable := True\<rparr>),
       Column ''revokedAt'' Timestamptz ((named ''revoked_at'')\<lparr>co_nullable := True\<rparr>),
       CreateDateColumn ''createdAt'' ''created_at'']\<rparr>"

definition entities :: "entity_class list" where
  "entities = [UserEntity, ProductEntity, OrderEntity, OrderItemEntity, JobEntity, ReceiptEntity, OutboxEntity,
     ProcessedMessageEntity, RefreshTokenEntity]"

section \<open>What TypeORM expects of the database\<close>

definition option_name :: "string \<Rightarrow> column_options \<Rightarrow> string" where
  "option_name p opts = (case co_name opts of None \<Rightarrow> p | Some n \<Rightarrow> n)"

definition option_column :: "string \<Rightarrow> sql_type \<Rightarrow> column_options \<Rightarrow> column_def" where
  "option_column p ty opts = \<lparr>cd_name = option_name p opts, cd_type = ty, cd_notNull = (\<not> co_nullable opts),
     cd_default = co_default opts\<rparr>"

fun property_column :: "decorated \<Rightarrow> (string \<times> column_def) list" where
  "property_column (PrimaryGeneratedIdentity p) = [(p, default_col p Bigint IdentityAlways)]"
| "property_column (PrimaryGeneratedUuid p) = [(p, default_col p Uuid DefaultUuid)]"
| "property_column (PrimaryColumn p ty opts) = [(p, option_column p ty opts)]"
| "property_column (Column p ty opts) = [(p, option_column p ty opts)]"
| "property_column (CreateDateColumn p n) = [(p, default_col n Timestamptz DefaultNow)]"
| "property_column (ManyToOne p t d n) = []"

definition entity_columns :: "entity_class \<Rightarrow> (string \<times> column_def) list" where
  "entity_columns e = concat (map property_column (ec_properties e))"

fun primary_column :: "decorated \<Rightarrow> string list" where
  "primary_column (PrimaryGeneratedIdentity p) = [p]"
| "primary_column (PrimaryGeneratedUuid p) = [p]"
| "primary_column (PrimaryColumn p ty opts) = [option_name p opts]"
| "primary_column x = []"

fun property_constraint :: "decorated \<Rightarrow> constraint list" where
  "property_constraint (Column p ty opts) = (if co_unique opts then [Unique [option_name p opts]] else [])"
| "property_constraint (ManyToOne p t d n) = [ForeignKey n t ''id'' d]"
| "property_constraint x = []"

definition column_name :: "entity_class \<Rightarrow> string \<Rightarrow> string" where
  "column_name e p = (case map_of (entity_columns e) p of None \<Rightarrow> p | Some c \<Rightarrow> cd_name c)"

text \<open>A schema: columns by table, constraints with the names of checks only, indexes.\<close>

record schema =
  sm_columns :: "(string \<times> column_def) list"
  sm_constraints :: "(string \<times> string option \<times> constraint) list"
  sm_indexes :: "index_def list"

definition entity_schema :: "entity_class \<Rightarrow> schema" where
  "entity_schema e = \<lparr>
     sm_columns = map (\<lambda>(p, c). (ec_table e, c)) (entity_columns e),
     sm_constraints = map (\<lambda>(n, p). (ec_table e, Some n, Check p)) (ec_checks e) @
       [(ec_table e, None, PrimaryKey (concat (map primary_column (ec_properties e))))] @
       map (\<lambda>k. (ec_table e, None, k)) (concat (map property_constraint (ec_properties e))),
     sm_indexes = map (\<lambda>i. \<lparr>ix_name = ei_name i, ix_table = ec_table e, ix_unique = ei_unique i, ix_method = ei_method i,
       ix_columns = map (column_name e) (ei_properties i), ix_where = ei_where i\<rparr>) (ec_indexes e)\<rparr>"

definition entities_schema :: "entity_class list \<Rightarrow> schema" where
  "entities_schema es = \<lparr>sm_columns = concat (map (sm_columns \<circ> entity_schema) es),
     sm_constraints = concat (map (sm_constraints \<circ> entity_schema) es), sm_indexes = concat (map (sm_indexes \<circ> entity_schema) es)\<rparr>"

fun check_name :: "constraint_def \<Rightarrow> string option" where
  "check_name k = (case kd_body k of Check p \<Rightarrow> Some (kd_name k) | _ \<Rightarrow> None)"

definition catalog_schema :: "catalog \<Rightarrow> schema" where
  "catalog_schema c = \<lparr>sm_columns = concat (map (\<lambda>(t, cols). map (Pair t) cols) (ct_tables c)),
     sm_constraints = map (\<lambda>k. (kd_table k, check_name k, kd_body k)) (ct_constraints c), sm_indexes = ct_indexes c\<rparr>"

definition same_schema :: "schema \<Rightarrow> schema \<Rightarrow> bool" where
  "same_schema a b \<longleftrightarrow> set (sm_columns a) = set (sm_columns b) \<and> set (sm_constraints a) = set (sm_constraints b) \<and>
     set (sm_indexes a) = set (sm_indexes b)"

end
