(* ===== verification/Migrations_Theorems.thy ===== *)
theory Migrations_Theorems
  imports Entities
begin

text \<open>
  What the migrations do: statements keep the catalogue well formed, the down half of each migration takes
  back its up half, and the constraints the model's database invariant rests on are those they declare.
\<close>

section \<open>Well-formed catalogues\<close>

definition constraint_wf :: "catalog \<Rightarrow> constraint_def \<Rightarrow> bool" where
  "constraint_wf c k \<longleftrightarrow> has_table (kd_table k) c \<and> set (constraint_columns (kd_body k)) \<subseteq> set (columns_of (kd_table k) c) \<and>
     reference_ok c (kd_body k)"

definition index_wf :: "catalog \<Rightarrow> index_def \<Rightarrow> bool" where
  "index_wf c i \<longleftrightarrow> has_table (ix_table i) c \<and> set (index_uses i) \<subseteq> set (columns_of (ix_table i) c)"

definition catalog_wf :: "catalog \<Rightarrow> bool" where
  "catalog_wf c \<longleftrightarrow> distinct (map fst (ct_tables c)) \<and> (\<forall>k \<in> set (ct_constraints c). constraint_wf c k) \<and>
     (\<forall>i \<in> set (ct_indexes c). index_wf c i)"

lemma add_constraints_result:
  "add_constraints t ks c = Some c' \<Longrightarrow>
    \<exists>new. c' = c\<lparr>ct_constraints := ct_constraints c @ new\<rparr> \<and> (\<forall>k \<in> set new. kd_table k = t)"
proof (induction ks arbitrary: c)
  case Nil
  then show ?case by (intro exI [of _ "[]"]) simp
next
  case (Cons x ks)
  obtain n k where x: "x = (n, k)" by (cases x)
  from Cons.prems obtain d where d: "add_constraint t n k c = Some d" "add_constraints t ks d = Some c'"
    by (auto simp: x bind_eq_Some_conv)
  obtain new where new: "c' = d\<lparr>ct_constraints := ct_constraints d @ new\<rparr>" "\<forall>k \<in> set new. kd_table k = t"
    using Cons.IH [OF d(2)] by blast
  then show ?case
    using d(1) by (intro exI [of _ "\<lparr>kd_table = t, kd_name = n, kd_body = k\<rparr> # new"])
      (auto simp: add_constraint_def split: if_splits)
qed

lemma has_table_simps [simp]:
  "has_table t (c\<lparr>ct_constraints := ks\<rparr>) = has_table t c" "has_table t (c\<lparr>ct_indexes := is\<rparr>) = has_table t c"
  "has_table t (c\<lparr>ct_metadata := m\<rparr>) = has_table t c" "has_table t (map_table u f c) = has_table t c"
  by (simp_all add: has_table_def map_table_def comp_def case_prod_beta)

lemma columns_of_simps [simp]:
  "columns_of t (c\<lparr>ct_constraints := ks\<rparr>) = columns_of t c" "columns_of t (c\<lparr>ct_indexes := is\<rparr>) = columns_of t c"
  "columns_of t (c\<lparr>ct_metadata := m\<rparr>) = columns_of t c"
  by (simp_all add: columns_of_def)

lemma relation_names_table: "t \<notin> set (relation_names c) \<Longrightarrow> \<not> has_table t c"
  by (auto simp: relation_names_def has_table_def)

lemma columns_of_map_table:
  "columns_of t (map_table u f c) = (if t = u then (case map_of (ct_tables c) u of None \<Rightarrow> [] | Some cols \<Rightarrow> map cd_name (f cols))
     else columns_of t c)"
proof -
  have "map_of (map (\<lambda>(n, cols). (n, if n = u then f cols else cols)) ts) t =
      map_option (\<lambda>cols. if t = u then f cols else cols) (map_of ts t)" for ts
    by (induction ts) auto
  then show ?thesis by (auto simp: columns_of_def map_table_def split: option.splits)
qed

lemma constraints_map_table [simp]:
  "ct_constraints (map_table u f c) = ct_constraints c" "ct_indexes (map_table u f c) = ct_indexes c"
  "map fst (ct_tables (map_table u f c)) = map fst (ct_tables c)"
  by (simp_all add: map_table_def comp_def case_prod_beta)

lemma reference_mono:
  "reference_ok c k \<Longrightarrow> set (ct_constraints c) \<subseteq> set (ct_constraints c') \<Longrightarrow> reference_ok c' k"
  by (cases k) (auto simp: list_ex_iff)

lemma reference_simps [simp]:
  "reference_ok (c\<lparr>ct_indexes := is\<rparr>) k = reference_ok c k" "reference_ok (c\<lparr>ct_metadata := m\<rparr>) k = reference_ok c k"
  "reference_ok (map_table u f c) k = reference_ok c k"
  by (cases k; simp)+

lemma keep_references_Some:
  "keep_references c = Some c' \<longleftrightarrow> c' = c \<and> (\<forall>k \<in> set (ct_constraints c). reference_ok c (kd_body k))"
  by (auto simp: keep_references_def list_all_iff)

section \<open>Statements keep it well formed\<close>

lemma add_constraint_wf:
  assumes "catalog_wf c" and "add_constraint t n k c = Some c'"
  shows "catalog_wf c'"
proof -
  have c': "constraint_fits t n k c" "c' = c\<lparr>ct_constraints := ct_constraints c @ [\<lparr>kd_table = t, kd_name = n, kd_body = k\<rparr>]\<rparr>"
    using assms(2) by (auto simp: add_constraint_def split: if_splits)
  have mono: "reference_ok c b \<Longrightarrow> reference_ok c' b" for b by (erule reference_mono) (auto simp: c'(2))
  show ?thesis
    using assms(1) c'(1) mono unfolding catalog_wf_def constraint_wf_def index_wf_def constraint_fits_def
    by (auto simp: c'(2) list_all_iff)
qed

lemma add_constraints_wf: "catalog_wf c \<Longrightarrow> add_constraints t ks c = Some c' \<Longrightarrow> catalog_wf c'"
proof (induction ks arbitrary: c)
  case (Cons x ks)
  then show ?case by (cases x) (auto simp: bind_eq_Some_conv intro: add_constraint_wf Cons.IH)
qed simp

lemma create_table_wf:
  assumes "catalog_wf c" and "\<not> has_table t c"
  shows "catalog_wf (c\<lparr>ct_tables := ct_tables c @ [(t, cols)]\<rparr>)"
proof -
  let ?d = "c\<lparr>ct_tables := ct_tables c @ [(t, cols)]\<rparr>"
  have "has_table u ?d" "columns_of u ?d = columns_of u c" if "has_table u c" for u
    using that assms(2) by (auto simp: has_table_def columns_of_def map_add_def split: option.splits)
  moreover have "reference_ok c b \<Longrightarrow> reference_ok ?d b" for b by (erule reference_mono) simp
  ultimately show ?thesis
    using assms unfolding catalog_wf_def constraint_wf_def index_wf_def by (auto simp: has_table_def)
qed

lemma keep_references_wf:
  assumes "keep_references c = Some c'" and "distinct (map fst (ct_tables c))"
    and "\<And>k. k \<in> set (ct_constraints c) \<Longrightarrow> has_table (kd_table k) c \<and> set (constraint_columns (kd_body k)) \<subseteq> set (columns_of (kd_table k) c)"
    and "\<And>i. i \<in> set (ct_indexes c) \<Longrightarrow> index_wf c i"
  shows "catalog_wf c'"
  using assms by (auto simp: keep_references_Some catalog_wf_def constraint_wf_def)

lemma drop_table_wf:
  assumes "catalog_wf c"
    and "keep_references (c\<lparr>ct_tables := filter (\<lambda>x. fst x \<noteq> t) (ct_tables c),
        ct_constraints := filter (\<lambda>k. kd_table k \<noteq> t) (ct_constraints c),
        ct_indexes := filter (\<lambda>i. ix_table i \<noteq> t) (ct_indexes c)\<rparr>) = Some c'"
  shows "catalog_wf c'"
proof -
  let ?d = "c\<lparr>ct_tables := filter (\<lambda>x. fst x \<noteq> t) (ct_tables c),
        ct_constraints := filter (\<lambda>k. kd_table k \<noteq> t) (ct_constraints c),
        ct_indexes := filter (\<lambda>i. ix_table i \<noteq> t) (ct_indexes c)\<rparr>"
  have look: "u \<noteq> t \<Longrightarrow> map_of (filter (\<lambda>x. fst x \<noteq> t) ts) u = map_of ts u" for u and ts :: "(string \<times> column_def list) list"
    by (induction ts) auto
  have "has_table u ?d = has_table u c" "columns_of u ?d = columns_of u c" if "u \<noteq> t" for u
    using that look by (auto simp: has_table_def columns_of_def)
  then show ?thesis
    using assms(1) [unfolded catalog_wf_def constraint_wf_def index_wf_def]
    by (intro keep_references_wf [OF assms(2)]) (auto simp: distinct_map_filter index_wf_def)
qed

lemma drop_column_wf:
  assumes "catalog_wf c"
    and "keep_references ((map_table t (filter (\<lambda>col. cd_name col \<noteq> n)) c)\<lparr>
        ct_constraints := filter (\<lambda>k. \<not> (kd_table k = t \<and> n \<in> set (constraint_columns (kd_body k)))) (ct_constraints c),
        ct_indexes := filter (\<lambda>i. \<not> (ix_table i = t \<and> n \<in> set (index_uses i))) (ct_indexes c)\<rparr>) = Some c'"
  shows "catalog_wf c'"
proof -
  have cols: "set (columns_of u (map_table t (filter (\<lambda>col. cd_name col \<noteq> n)) c)) =
      (if u = t then set (columns_of u c) - {n} else set (columns_of u c))" for u
    unfolding columns_of_map_table by (auto simp: columns_of_def split: option.splits)
  show ?thesis
    using assms(1) [unfolded catalog_wf_def constraint_wf_def index_wf_def]
    by (intro keep_references_wf [OF assms(2)]) (auto simp: cols index_wf_def)
qed

lemma exec_wf:
  assumes wf: "catalog_wf c" and exec: "exec_ddl s c = Some c'"
  shows "catalog_wf c'"
proof (cases s)
  case (CreateTable t cols ks)
  with exec wf show ?thesis
    by (auto split: if_splits dest: relation_names_table intro: add_constraints_wf create_table_wf)
next
  case (DropTable t)
  with exec show ?thesis using drop_table_wf [OF wf, of t c'] by (auto split: if_splits)
next
  case (CreateIndex i)
  with exec wf show ?thesis
    by (auto simp: catalog_wf_def constraint_wf_def index_wf_def list_all_iff split: if_splits) blast+
next
  case (DropIndex n)
  with exec wf show ?thesis
    by (auto simp: catalog_wf_def constraint_wf_def index_wf_def split: if_splits) blast+
next
  case (AddColumn t col)
  let ?d = "map_table t (\<lambda>cols. cols @ [col]) c"
  have cols: "set (columns_of u c) \<subseteq> set (columns_of u ?d)" for u
    unfolding columns_of_map_table by (auto simp: columns_of_def split: option.splits)
  with AddColumn exec wf show ?thesis
    unfolding catalog_wf_def constraint_wf_def index_wf_def by (auto split: if_splits) blast+
next
  case (DropColumn t n)
  with exec show ?thesis using drop_column_wf [OF wf, of t n c'] by (auto split: if_splits)
next
  case (AddConstraint t n k)
  with exec show ?thesis using add_constraint_wf [OF wf] by simp
next
  case (DropConstraint t n)
  with exec show ?thesis
    using wf by (auto simp: keep_references_Some catalog_wf_def constraint_wf_def index_wf_def split: if_splits)
next
  case (InsertMetadata r v)
  with exec wf show ?thesis by (auto simp: catalog_wf_def constraint_wf_def index_wf_def) blast+
next
  case (DeleteMetadata r)
  with exec wf show ?thesis by (auto simp: catalog_wf_def constraint_wf_def index_wf_def) blast+
qed

section \<open>Taking a statement back\<close>

fun inverse_ddl :: "ddl \<Rightarrow> ddl option" where
  "inverse_ddl (CreateTable t cols ks) = Some (DropTable t)"
| "inverse_ddl (CreateIndex i) = Some (DropIndex (ix_name i))"
| "inverse_ddl (AddColumn t col) = Some (DropColumn t (cd_name col))"
| "inverse_ddl (AddConstraint t n k) = Some (DropConstraint t n)"
| "inverse_ddl (InsertMetadata r v) = Some (DeleteMetadata r)"
| "inverse_ddl s = None"

text \<open>A metadata row is taken back exactly when there was none before it.\<close>

fun fresh_metadata :: "catalog \<Rightarrow> ddl \<Rightarrow> bool" where
  "fresh_metadata c (InsertMetadata r v) \<longleftrightarrow> r \<notin> set (map fst (ct_metadata c))"
| "fresh_metadata c s \<longleftrightarrow> True"

lemma wf_references: "catalog_wf c \<Longrightarrow> keep_references c = Some c"
  by (auto simp: keep_references_Some catalog_wf_def constraint_wf_def)

lemma undo_create_table:
  assumes "catalog_wf c" and "exec_ddl (CreateTable t cols ks) c = Some c'"
  shows "exec_ddl (DropTable t) c' = Some c"
proof -
  let ?d = "c\<lparr>ct_tables := ct_tables c @ [(t, cols)]\<rparr>"
  have fresh: "\<not> has_table t c" and add: "add_constraints t ks ?d = Some c'"
    using assms(2) by (auto split: if_splits dest: relation_names_table)
  obtain new where new: "c' = ?d\<lparr>ct_constraints := ct_constraints c @ new\<rparr>" "\<forall>k \<in> set new. kd_table k = t"
    using add_constraints_result [OF add] by auto
  have "filter (\<lambda>x. fst x \<noteq> t) (ct_tables c) = ct_tables c"
    using fresh by (auto simp: has_table_def filter_id_conv)
  moreover have "filter (\<lambda>k. kd_table k \<noteq> t) (ct_constraints c) = ct_constraints c"
    using assms(1) fresh by (auto simp: catalog_wf_def constraint_wf_def filter_id_conv)
  moreover have "filter (\<lambda>i. ix_table i \<noteq> t) (ct_indexes c) = ct_indexes c"
    using assms(1) fresh by (auto simp: catalog_wf_def index_wf_def filter_id_conv)
  moreover have "filter (\<lambda>k. kd_table k \<noteq> t) new = []" using new(2) by (simp add: filter_empty_conv)
  moreover have "has_table t c'" by (simp add: new(1) has_table_def)
  ultimately show ?thesis using wf_references [OF assms(1)] by (simp add: new(1))
qed

lemma undo_add_column:
  assumes "catalog_wf c" and "exec_ddl (AddColumn t col) c = Some c'"
  shows "exec_ddl (DropColumn t (cd_name col)) c' = Some c"
proof -
  have fresh: "has_table t c" "cd_name col \<notin> set (columns_of t c)" and c': "c' = map_table t (\<lambda>cols. cols @ [col]) c"
    using assms(2) by (auto split: if_splits)
  obtain cols where cols: "map_of (ct_tables c) t = Some cols"
    using fresh(1) unfolding has_table_def by (metis set_map map_of_eq_None_iff not_None_eq)
  then have "cd_name col \<in> set (columns_of t c')" by (simp add: c' columns_of_map_table)
  moreover have "map_table t (filter (\<lambda>k. cd_name k \<noteq> cd_name col)) c' = c"
  proof -
    have "filter (\<lambda>k. cd_name k \<noteq> cd_name col) cs = cs" if "(t, cs) \<in> set (ct_tables c)" for cs
    proof -
      have "map_of (ct_tables c) t = Some cs"
        using that assms(1) by (simp add: catalog_wf_def)
      then show ?thesis using fresh(2) by (auto simp: columns_of_def filter_id_conv) (metis imageI)
    qed
    then have "map (\<lambda>(n, cols). (n, if n = t then filter (\<lambda>k. cd_name k \<noteq> cd_name col) cols else cols))
        (map (\<lambda>(n, cols). (n, if n = t then cols @ [col] else cols)) (ct_tables c)) = ct_tables c"
      by (auto simp: comp_def intro!: map_idI)
    then show ?thesis by (simp add: c' map_table_def)
  qed
  moreover have "filter (\<lambda>k. \<not> (kd_table k = t \<and> cd_name col \<in> set (constraint_columns (kd_body k)))) (ct_constraints c) = ct_constraints c"
    "filter (\<lambda>i. \<not> (ix_table i = t \<and> cd_name col \<in> set (index_uses i))) (ct_indexes c) = ct_indexes c"
    using assms(1) fresh(2) by (auto simp: catalog_wf_def constraint_wf_def index_wf_def filter_id_conv)
  ultimately show ?thesis using wf_references [OF assms(1)] by (simp add: c')
qed

lemma undo_ddl:
  assumes wf: "catalog_wf c" and exec: "exec_ddl s c = Some c'" and inv: "inverse_ddl s = Some s'" and "fresh_metadata c s"
  shows "exec_ddl s' c' = Some c"
proof (cases s)
  case (CreateTable t cols ks)
  then show ?thesis using undo_create_table [OF wf, of t cols ks c'] exec inv by (auto simp del: exec_ddl.simps)
next
  case (AddColumn t col)
  then show ?thesis using undo_add_column [OF wf, of t col c'] exec inv by (auto simp del: exec_ddl.simps)
next
  case (CreateIndex i)
  then have "ix_name i \<notin> set (map ix_name (ct_indexes c))" "c' = c\<lparr>ct_indexes := ct_indexes c @ [i]\<rparr>"
    using exec by (auto simp: relation_names_def split: if_splits)
  moreover from this have "filter (\<lambda>j. ix_name j \<noteq> ix_name i) (ct_indexes c) = ct_indexes c"
    by (auto simp: filter_id_conv) (metis imageI)
  ultimately show ?thesis using inv CreateIndex by auto
next
  case (AddConstraint t n k)
  then have fresh: "\<not> list_ex (\<lambda>k'. kd_table k' = t \<and> kd_name k' = n) (ct_constraints c)"
    and c': "c' = c\<lparr>ct_constraints := ct_constraints c @ [\<lparr>kd_table = t, kd_name = n, kd_body = k\<rparr>]\<rparr>"
    using exec by (auto simp: add_constraint_def constraint_fits_def split: if_splits)
  have "filter (\<lambda>k. \<not> (kd_table k = t \<and> kd_name k = n)) (ct_constraints c) = ct_constraints c"
    using fresh by (auto simp: list_ex_iff filter_id_conv)
  then show ?thesis using inv AddConstraint wf_references [OF wf] by (auto simp: c' list_ex_iff)
next
  case (InsertMetadata r v)
  then have "filter (\<lambda>m. fst m \<noteq> r) (ct_metadata c) = ct_metadata c" using assms(4) by (auto simp: filter_id_conv)
  then show ?thesis using inv InsertMetadata exec by auto
qed (use inv in simp_all)

text \<open>A list of statements is taken back by the inverses in reverse order.\<close>

lemma exec_all_append: "exec_all (xs @ ys) c = Option.bind (exec_all xs c) (exec_all ys)"
  by (induction xs arbitrary: c) (auto simp: bind_assoc split: bind_splits)

fun fresh_all :: "catalog \<Rightarrow> ddl list \<Rightarrow> bool" where
  "fresh_all c [] \<longleftrightarrow> True"
| "fresh_all c (s # ss) \<longleftrightarrow> fresh_metadata c s \<and> (case exec_ddl s c of None \<Rightarrow> True | Some d \<Rightarrow> fresh_all d ss)"

lemma exec_all_wf: "catalog_wf c \<Longrightarrow> exec_all ss c = Some c' \<Longrightarrow> catalog_wf c'"
  by (induction ss arbitrary: c) (auto simp: bind_eq_Some_conv dest: exec_wf)

lemma undo_all:
  assumes "catalog_wf c" and "exec_all ss c = Some c'" and "map inverse_ddl ss = map Some rs" and "fresh_all c ss"
  shows "exec_all (rev rs) c' = Some c"
  using assms
proof (induction ss arbitrary: c rs)
  case (Cons s ss)
  obtain d where d: "exec_ddl s c = Some d" "exec_all ss d = Some c'" using Cons.prems(2) by (auto simp: bind_eq_Some_conv)
  obtain r rs' where rs: "rs = r # rs'" "inverse_ddl s = Some r" "map inverse_ddl ss = map Some rs'"
    using Cons.prems(3) by (cases rs) auto
  have "exec_all (rev rs') c' = Some d"
    using Cons.IH [OF exec_wf [OF Cons.prems(1) d(1)] d(2) rs(3)] Cons.prems(4) d(1) by simp
  moreover have "exec_ddl r d = Some c" using undo_ddl [OF Cons.prems(1) d(1) rs(2)] Cons.prems(4) by simp
  ultimately show ?case by (simp add: rs(1) exec_all_append)
qed simp

section \<open>The migrations\<close>

lemma down_inverts_up:
  "list_all (\<lambda>m. map inverse_ddl (mg_up m) = map Some (rev (mg_down m))) migrations"
  by (simp add: migrations_def InitialSchema_def AddStockBalanceJobs_def AddReceipts_def AddOutboxInbox_def AddAuth_def
      AddRefreshTokenMaintenanceIndexes_def plain_index_def unique_index_def partial_index_def default_col_def nullable_col_def column_def)

text \<open>Where they end.\<close>

definition marketplace_catalog :: catalog where
  "marketplace_catalog = \<lparr>ct_tables =
      [(''products'', [id_col, column ''name'' Text, column ''description'' Text, column ''price'' Integer, created_col,
          default_col ''search_vector'' Tsvector (StoredAs search_expression), default_col ''stock'' Integer (DefaultInt 0)]),
       (''order_items'', [id_col, column ''order_id'' Bigint, column ''product_id'' Bigint, column ''quantity'' Integer,
          column ''unit_price'' Integer]),
       (''orders'', [id_col, column ''user_id'' Bigint, column ''status'' Text, column ''total'' Integer, created_col,
          nullable_col ''idempotency_key'' Text]),
       (''users'', [id_col, column ''email'' Text, column ''phone'' Text, column ''name'' Text, created_col,
          default_col ''balance'' Integer (DefaultInt 0), nullable_col ''password_hash'' Text,
          default_col ''role'' Text (DefaultText ''buyer'')]),
       (''jobs'', [id_col, default_col ''queue'' Text (DefaultText ''default''), column ''type'' Text, column ''payload'' Jsonb,
          default_col ''status'' Text (DefaultText ''pending''), default_col ''processed'' Integer (DefaultInt 0),
          default_col ''attempts'' Integer (DefaultInt 0), nullable_col ''last_error'' Text, nullable_col ''worker'' Text,
          created_col, nullable_col ''processed_at'' Timestamptz]),
       (''receipts'', [id_col, column ''event_id'' Text, column ''order_id'' Bigint, column ''total'' Integer,
          default_col ''issued_at'' Timestamptz DefaultNow]),
       (''outbox'', [uuid_col, column ''aggregate_type'' Text, column ''aggregate_id'' Text, column ''type'' Text,
          column ''payload'' Jsonb, created_col, nullable_col ''published_at'' Timestamptz,
          default_col ''attempts'' Integer (DefaultInt 0)]),
       (''processed_messages'', [column ''message_id'' Uuid, column ''consumer'' Text,
          default_col ''processed_at'' Timestamptz DefaultNow]),
       (''refresh_tokens'', [uuid_col, column ''user_id'' Bigint, column ''family_id'' Uuid, column ''token_hash'' Text,
          column ''expires_at'' Timestamptz, nullable_col ''used_at'' Timestamptz, nullable_col ''revoked_at'' Timestamptz,
          created_col])],
     ct_constraints = map (\<lambda>(t, n, k). \<lparr>kd_table = t, kd_name = n, kd_body = k\<rparr>)
      [(''products'', ''UQ_4c9fb58de893725258746385e16'', Unique [''name'']),
       (''products'', ''products_price_check'', Check (GreaterThan ''price'' 0)),
       (''products'', ''PK_0806c755e0aca124e67c0cf6d7d'', PrimaryKey [''id'']),
       (''order_items'', ''order_items_unit_price_check'', Check (GreaterThan ''unit_price'' 0)),
       (''order_items'', ''order_items_quantity_check'', Check (GreaterThan ''quantity'' 0)),
       (''order_items'', ''PK_005269d8574e6fac0493715c308'', PrimaryKey [''id'']),
       (''orders'', ''orders_total_check'', Check (AtLeast ''total'' 0)),
       (''orders'', ''orders_status_check'', Check (OneOf ''status'' [''pending'', ''paid'', ''cancelled''])),
       (''orders'', ''PK_710e2d4957aa5878dfe94e4ac2f'', PrimaryKey [''id'']),
       (''users'', ''UQ_97672ac88f789774dd47f7c8be3'', Unique [''email'']),
       (''users'', ''UQ_a000cca60bcf04454e727699490'', Unique [''phone'']),
       (''users'', ''users_email_lower_check'', Check (IsLower ''email'')),
       (''users'', ''users_phone_check'', Check (MatchesPhone ''phone'')),
       (''users'', ''PK_a3ffb1c0c8416b9fc6f907b7433'', PrimaryKey [''id'']),
       (''order_items'', ''FK_145532db85752b29c57d2b7b1f1'', ForeignKey ''order_id'' ''orders'' ''id'' Cascade),
       (''order_items'', ''FK_9263386c35b6b242540f9493b00'', ForeignKey ''product_id'' ''products'' ''id'' Restrict),
       (''orders'', ''FK_a922b820eeef29ac1c6800e826a'', ForeignKey ''user_id'' ''users'' ''id'' Restrict),
       (''jobs'', ''jobs_attempts_check'', Check (AtLeast ''attempts'' 0)),
       (''jobs'', ''jobs_processed_check'', Check (AtLeast ''processed'' 0)),
       (''jobs'', ''jobs_status_check'', Check (OneOf ''status'' [''pending'', ''done'', ''failed''])),
       (''jobs'', ''PK_cf0a6c42b72fcc7f7c237def345'', PrimaryKey [''id'']),
       (''products'', ''products_stock_check'', Check (AtLeast ''stock'' 0)),
       (''users'', ''users_balance_check'', Check (AtLeast ''balance'' 0)),
       (''receipts'', ''UQ_24f0e73ac9fd9166da129f18f78'', Unique [''event_id'']),
       (''receipts'', ''receipts_total_check'', Check (AtLeast ''total'' 0)),
       (''receipts'', ''PK_5e8182d7c29e023da6e1ff33bfe'', PrimaryKey [''id'']),
       (''receipts'', ''FK_9545ae8fc5f7714cd8a807dd937'', ForeignKey ''order_id'' ''orders'' ''id'' Restrict),
       (''outbox'', ''outbox_attempts_check'', Check (AtLeast ''attempts'' 0)),
       (''outbox'', ''PK_340ab539f309f03bdaa14aa7649'', PrimaryKey [''id'']),
       (''processed_messages'', ''PK_d4853eee97acfc588e49f9290d1'', PrimaryKey [''message_id'', ''consumer'']),
       (''refresh_tokens'', ''PK_7d8bee0204106019488c4c50ffa'', PrimaryKey [''id'']),
       (''users'', ''users_role_check'', Check (OneOf ''role'' [''buyer'', ''seller'', ''admin''])),
       (''refresh_tokens'', ''FK_3ddc983c5f7bcf132fd8732c3f4'', ForeignKey ''user_id'' ''users'' ''id'' Cascade)],
     ct_indexes =
      [(plain_index ''idx_products_search_vector'' ''products'' [''search_vector''])\<lparr>ix_method := Gin\<rparr>,
       plain_index ''order_items_product_id_idx'' ''order_items'' [''product_id''],
       plain_index ''order_items_order_id_idx'' ''order_items'' [''order_id''],
       partial_index ''orders_cancelled_created_at_idx'' ''orders'' [''created_at''] (OneOf ''status'' [''cancelled'']),
       unique_index ''orders_user_id_created_at_idx'' ''orders'' [''user_id'', ''created_at''],
       partial_index ''jobs_pending_queue_id_idx'' ''jobs'' [''queue'', ''id''] (OneOf ''status'' [''pending'']),
       partial_index ''outbox_unpublished_idx'' ''outbox'' [''created_at''] (IsNull ''published_at''),
       unique_index ''orders_user_id_idempotency_key_key'' ''orders'' [''user_id'', ''idempotency_key''],
       unique_index ''receipts_order_id_key'' ''receipts'' [''order_id''],
       plain_index ''refresh_tokens_family_id_idx'' ''refresh_tokens'' [''family_id''],
       unique_index ''refresh_tokens_token_hash_key'' ''refresh_tokens'' [''token_hash''],
       partial_index ''refresh_tokens_revoked_at_idx'' ''refresh_tokens'' [''revoked_at''] (IsNotNull ''revoked_at''),
       plain_index ''refresh_tokens_expires_at_idx'' ''refresh_tokens'' [''expires_at'']],
     ct_metadata = [(search_key, search_expression)]\<rparr>"

lemma migrations_end: "run_migrations migrations empty_catalog = Some marketplace_catalog"
  by code_simp

end
