(* ===== verification/Declared.thy ===== *)
theory Declared
  imports Migrations_Theorems
begin

text \<open>
  What it means that the tables of the model satisfy a catalogue: rows as named cells, with the
  three-valued conditions of SQL, and the types, checks, keys and foreign keys the catalogue lists. The
  invariant the other theories keep rests on what the migrations declare.
\<close>

section \<open>Rows\<close>

datatype sql_value = SNull | SInt int | SText string | SOther

type_synonym cells = "(string \<times> sql_value) list"

definition cell :: "cells \<Rightarrow> string \<Rightarrow> sql_value" where
  "cell r c = (case map_of r c of None \<Rightarrow> SNull | Some v \<Rightarrow> v)"

definition nullable :: "('a \<Rightarrow> sql_value) \<Rightarrow> 'a option \<Rightarrow> sql_value" where
  "nullable f v = (case v of None \<Rightarrow> SNull | Some x \<Rightarrow> f x)"

abbreviation SId :: "nat \<Rightarrow> sql_value" where "SId k \<equiv> SInt (int k)"

fun job_status_text :: "job_status \<Rightarrow> string" where
  "job_status_text JPending = ''pending''"
| "job_status_text JDone = ''done''"
| "job_status_text JFailed = ''failed''"

definition user_cells :: "User \<Rightarrow> cells" where
  "user_cells u = [(''id'', SId (u_id u)), (''email'', SText (u_email u)), (''phone'', SText (u_phone u)),
     (''name'', SText (u_name u)), (''created_at'', SInt (u_createdAt u)), (''balance'', SInt (u_balance u)),
     (''password_hash'', nullable SText (u_passwordHash u)), (''role'', SText (role_text (u_role u)))]"

definition product_cells :: "Product \<Rightarrow> cells" where
  "product_cells p = [(''id'', SId (p_id p)), (''name'', SText (p_name p)), (''description'', SText (p_description p)),
     (''price'', SInt (p_price p)), (''created_at'', SInt (p_createdAt p)), (''search_vector'', SOther), (''stock'', SInt (p_stock p))]"

definition order_cells :: "Order \<Rightarrow> cells" where
  "order_cells r = [(''id'', SId (o_id r)), (''user_id'', SId (o_userId r)), (''status'', SText (status_text (o_status r))),
     (''total'', SInt (o_total r)), (''created_at'', SInt (o_createdAt r)), (''idempotency_key'', nullable SText (o_idempotencyKey r))]"

definition item_cells :: "OrderItem \<Rightarrow> cells" where
  "item_cells i = [(''id'', SId (i_id i)), (''order_id'', SId (i_orderId i)), (''product_id'', SId (i_productId i)),
     (''quantity'', SInt (i_quantity i)), (''unit_price'', SInt (i_unitPrice i))]"

definition job_cells :: "Job \<Rightarrow> cells" where
  "job_cells j = [(''id'', SId (j_id j)), (''queue'', SText (j_queue j)), (''type'', SText (j_type j)), (''payload'', SOther),
     (''status'', SText (job_status_text (j_status j))), (''processed'', SInt (j_processed j)), (''attempts'', SInt (j_attempts j)),
     (''last_error'', nullable SText (j_lastError j)), (''worker'', nullable SText (j_worker j)), (''created_at'', SInt (j_createdAt j)),
     (''processed_at'', nullable SInt (j_processedAt j))]"

definition receipt_cells :: "Receipt \<Rightarrow> cells" where
  "receipt_cells r = [(''id'', SId (r_id r)), (''event_id'', SText (r_eventId r)), (''order_id'', SId (r_orderId r)),
     (''total'', SInt (r_total r)), (''issued_at'', SInt (r_issuedAt r))]"

definition outbox_cells :: "Outbox \<Rightarrow> cells" where
  "outbox_cells x = [(''id'', SText (x_id x)), (''aggregate_type'', SText (x_aggregateType x)),
     (''aggregate_id'', SText (x_aggregateId x)), (''type'', SText (x_type x)), (''payload'', SOther),
     (''created_at'', SInt (x_createdAt x)), (''published_at'', nullable SInt (x_publishedAt x)), (''attempts'', SInt (x_attempts x))]"

definition processed_cells :: "ProcessedMessage \<Rightarrow> cells" where
  "processed_cells m = [(''message_id'', SText (m_messageId m)), (''consumer'', SText (m_consumer m)),
     (''processed_at'', SInt (m_processedAt m))]"

definition token_cells :: "RefreshToken \<Rightarrow> cells" where
  "token_cells t = [(''id'', SText (t_id t)), (''user_id'', SId (t_userId t)), (''family_id'', SText (t_familyId t)),
     (''token_hash'', SText (t_tokenHash t)), (''expires_at'', SInt (t_expiresAt t)), (''used_at'', nullable SInt (t_usedAt t)),
     (''revoked_at'', nullable SInt (t_revokedAt t)), (''created_at'', SInt (t_createdAt t))]"

definition stored_rows :: "db \<Rightarrow> (string \<times> cells list) list" where
  "stored_rows d = [(''users'', map user_cells (users d)), (''products'', map product_cells (products d)),
     (''orders'', map order_cells (orders d)), (''order_items'', map item_cells (orderItems d)), (''jobs'', map job_cells (jobs d)),
     (''receipts'', map receipt_cells (receipts d)), (''outbox'', map outbox_cells (outbox d)),
     (''processed_messages'', map processed_cells (processedMessages d)), (''refresh_tokens'', map token_cells (refreshTokens d))]"

definition rows_of :: "string \<Rightarrow> db \<Rightarrow> cells list" where
  "rows_of t d = (case map_of (stored_rows d) t of None \<Rightarrow> [] | Some rs \<Rightarrow> rs)"

section \<open>Satisfying a catalogue\<close>

text \<open>A condition is true, false or unknown; a check is violated only when it is false.\<close>

fun condition_value :: "condition \<Rightarrow> cells \<Rightarrow> bool option" where
  "condition_value (GreaterThan c n) r = (case cell r c of SInt i \<Rightarrow> Some (n < i) | _ \<Rightarrow> None)"
| "condition_value (AtLeast c n) r = (case cell r c of SInt i \<Rightarrow> Some (n \<le> i) | _ \<Rightarrow> None)"
| "condition_value (OneOf c vs) r = (case cell r c of SText s \<Rightarrow> Some (s \<in> set vs) | _ \<Rightarrow> None)"
| "condition_value (IsLower c) r = (case cell r c of SText s \<Rightarrow> Some (s = toLowerCase s) | _ \<Rightarrow> None)"
| "condition_value (MatchesPhone c) r = (case cell r c of SText s \<Rightarrow> Some (phone_ok s) | _ \<Rightarrow> None)"
| "condition_value (IsNull c) r = Some (cell r c = SNull)"
| "condition_value (IsNotNull c) r = Some (cell r c \<noteq> SNull)"

definition key_tuples :: "string list \<Rightarrow> cells list \<Rightarrow> sql_value list list" where
  "key_tuples cs rs = filter (\<lambda>vs. SNull \<notin> set vs) (map (\<lambda>r. map (cell r) cs) rs)"

fun constraint_holds :: "db \<Rightarrow> string \<Rightarrow> constraint \<Rightarrow> bool" where
  "constraint_holds d t (Check p) \<longleftrightarrow> list_all (\<lambda>r. condition_value p r \<noteq> Some False) (rows_of t d)"
| "constraint_holds d t (Unique cs) \<longleftrightarrow> distinct (key_tuples cs (rows_of t d))"
| "constraint_holds d t (PrimaryKey cs) \<longleftrightarrow> distinct (key_tuples cs (rows_of t d)) \<and>
     list_all (\<lambda>r. list_all (\<lambda>c. cell r c \<noteq> SNull) cs) (rows_of t d)"
| "constraint_holds d t (ForeignKey c u k rule) \<longleftrightarrow>
     list_all (\<lambda>r. cell r c = SNull \<or> list_ex (\<lambda>s. cell s k = cell r c) (rows_of u d)) (rows_of t d)"

definition index_holds :: "db \<Rightarrow> index_def \<Rightarrow> bool" where
  "index_holds d i \<longleftrightarrow> ix_unique i \<longrightarrow> distinct (key_tuples (ix_columns i)
     (filter (\<lambda>r. case ix_where i of None \<Rightarrow> True | Some p \<Rightarrow> condition_value p r = Some True) (rows_of (ix_table i) d)))"

fun of_type :: "sql_type \<Rightarrow> sql_value \<Rightarrow> bool" where
  "of_type ty SNull \<longleftrightarrow> True"
| "of_type Bigint (SInt i) \<longleftrightarrow> - int int8_max - 1 \<le> i \<and> i \<le> int int8_max"
| "of_type Integer (SInt i) \<longleftrightarrow> - int4_max - 1 \<le> i \<and> i \<le> int4_max"
| "of_type Timestamptz (SInt i) \<longleftrightarrow> True"
| "of_type Text (SText s) \<longleftrightarrow> True"
| "of_type Uuid (SText s) \<longleftrightarrow> True"
| "of_type Jsonb SOther \<longleftrightarrow> True"
| "of_type Tsvector SOther \<longleftrightarrow> True"
| "of_type ty v \<longleftrightarrow> False"

definition column_holds :: "db \<Rightarrow> string \<Rightarrow> column_def \<Rightarrow> bool" where
  "column_holds d t c \<longleftrightarrow> list_all (\<lambda>r. of_type (cd_type c) (cell r (cd_name c)) \<and> (cd_notNull c \<longrightarrow> cell r (cd_name c) \<noteq> SNull))
     (rows_of t d)"

definition satisfies :: "catalog \<Rightarrow> db \<Rightarrow> bool" where
  "satisfies c d \<longleftrightarrow> list_all (\<lambda>(t, cols). list_all (column_holds d t) cols) (ct_tables c) \<and>
     list_all (\<lambda>k. constraint_holds d (kd_table k) (kd_body k)) (ct_constraints c) \<and> list_all (index_holds d) (ct_indexes c)"

section \<open>What the marketplace's catalogue says of the tables\<close>

lemmas cells_defs = user_cells_def product_cells_def order_cells_def item_cells_def job_cells_def receipt_cells_def
  outbox_cells_def processed_cells_def token_cells_def

lemma rows_simps [simp]:
  "rows_of ''users'' d = map user_cells (users d)" "rows_of ''products'' d = map product_cells (products d)"
  "rows_of ''orders'' d = map order_cells (orders d)" "rows_of ''order_items'' d = map item_cells (orderItems d)"
  "rows_of ''jobs'' d = map job_cells (jobs d)" "rows_of ''receipts'' d = map receipt_cells (receipts d)"
  "rows_of ''outbox'' d = map outbox_cells (outbox d)"
  "rows_of ''processed_messages'' d = map processed_cells (processedMessages d)"
  "rows_of ''refresh_tokens'' d = map token_cells (refreshTokens d)"
  by (simp_all add: rows_of_def stored_rows_def)

lemma distinct_key_one:
  assumes "\<And>x. cell (f x) c = g x" and "\<And>x. g x \<noteq> SNull"
  shows "distinct (key_tuples [c] (map f xs)) = distinct (map g xs)"
proof -
  have "key_tuples [c] (map f xs) = map (\<lambda>v. [v]) (map g xs)"
    using assms(2) by (simp add: key_tuples_def assms(1) comp_def filter_id_conv) (metis)
  then show ?thesis by (simp add: distinct_map inj_on_def)
qed

lemma distinct_map_inj: "inj h \<Longrightarrow> distinct (map (\<lambda>x. h (g x)) xs) = distinct (map g xs)"
  using distinct_map [of h "map g xs"] by (auto simp: comp_def inj_on_def distinct_map)

lemma inj_values [simp]: "inj SText" "inj SId"
  by (simp_all add: inj_def)

lemma satisfied_parts:
  assumes "satisfies c d"
  shows "(t, cols) \<in> set (ct_tables c) \<Longrightarrow> k \<in> set cols \<Longrightarrow> column_holds d t k"
    and "\<lparr>kd_table = t, kd_name = n, kd_body = b\<rparr> \<in> set (ct_constraints c) \<Longrightarrow> constraint_holds d t b"
    and "i \<in> set (ct_indexes c) \<Longrightarrow> index_holds d i"
  using assms by (fastforce simp: satisfies_def list_all_iff)+

lemma declared_columns:
  assumes "satisfies marketplace_catalog d"
  shows "column_holds d ''users'' (default_col ''balance'' Integer (DefaultInt 0))"
    and "column_holds d ''products'' (column ''price'' Integer)"
    and "column_holds d ''products'' (default_col ''stock'' Integer (DefaultInt 0))"
    and "column_holds d ''orders'' (column ''total'' Integer)"
    and "column_holds d ''order_items'' (column ''quantity'' Integer)"
    and "column_holds d ''order_items'' (column ''unit_price'' Integer)"
    and "column_holds d ''receipts'' (column ''total'' Integer)"
  by (rule satisfied_parts(1) [OF assms], simp add: marketplace_catalog_def, simp)+

lemma declared_checks:
  assumes "satisfies marketplace_catalog d"
  shows "constraint_holds d ''users'' (Check (IsLower ''email''))" and "constraint_holds d ''users'' (Check (MatchesPhone ''phone''))"
    and "constraint_holds d ''users'' (Check (AtLeast ''balance'' 0))"
    and "constraint_holds d ''products'' (Check (GreaterThan ''price'' 0))"
    and "constraint_holds d ''products'' (Check (AtLeast ''stock'' 0))"
    and "constraint_holds d ''orders'' (Check (AtLeast ''total'' 0))"
    and "constraint_holds d ''order_items'' (Check (GreaterThan ''quantity'' 0))"
    and "constraint_holds d ''order_items'' (Check (GreaterThan ''unit_price'' 0))"
    and "constraint_holds d ''jobs'' (Check (AtLeast ''processed'' 0))"
    and "constraint_holds d ''jobs'' (Check (AtLeast ''attempts'' 0))"
    and "constraint_holds d ''outbox'' (Check (AtLeast ''attempts'' 0))"
    and "constraint_holds d ''receipts'' (Check (AtLeast ''total'' 0))"
  by (rule satisfied_parts(2) [OF assms], simp add: marketplace_catalog_def)+

lemma declared_keys:
  assumes "satisfies marketplace_catalog d"
  shows "constraint_holds d ''users'' (PrimaryKey [''id''])" and "constraint_holds d ''users'' (Unique [''email''])"
    and "constraint_holds d ''users'' (Unique [''phone''])" and "constraint_holds d ''products'' (PrimaryKey [''id''])"
    and "constraint_holds d ''products'' (Unique [''name''])" and "constraint_holds d ''orders'' (PrimaryKey [''id''])"
    and "constraint_holds d ''order_items'' (PrimaryKey [''id''])" and "constraint_holds d ''jobs'' (PrimaryKey [''id''])"
    and "constraint_holds d ''outbox'' (PrimaryKey [''id''])" and "constraint_holds d ''receipts'' (Unique [''event_id''])"
    and "constraint_holds d ''processed_messages'' (PrimaryKey [''message_id'', ''consumer''])"
  by (rule satisfied_parts(2) [OF assms], simp add: marketplace_catalog_def)+

lemma declared_references:
  assumes "satisfies marketplace_catalog d"
  shows "constraint_holds d ''orders'' (ForeignKey ''user_id'' ''users'' ''id'' Restrict)"
    and "constraint_holds d ''order_items'' (ForeignKey ''order_id'' ''orders'' ''id'' Cascade)"
    and "constraint_holds d ''order_items'' (ForeignKey ''product_id'' ''products'' ''id'' Restrict)"
    and "constraint_holds d ''receipts'' (ForeignKey ''order_id'' ''orders'' ''id'' Restrict)"
    and "constraint_holds d ''refresh_tokens'' (ForeignKey ''user_id'' ''users'' ''id'' Cascade)"
  by (rule satisfied_parts(2) [OF assms], simp add: marketplace_catalog_def)+

lemma declared_indexes:
  assumes "satisfies marketplace_catalog d"
  shows "index_holds d (unique_index ''receipts_order_id_key'' ''receipts'' [''order_id''])"
    and "index_holds d (unique_index ''refresh_tokens_token_hash_key'' ''refresh_tokens'' [''token_hash''])"
    and "index_holds d (unique_index ''orders_user_id_created_at_idx'' ''orders'' [''user_id'', ''created_at''])"
    and "index_holds d (unique_index ''orders_user_id_idempotency_key_key'' ''orders'' [''user_id'', ''idempotency_key''])"
  by (rule satisfied_parts(3) [OF assms], simp add: marketplace_catalog_def)+

text \<open>Their meaning on the records.\<close>

lemma declared_checks_ok:
  assumes "satisfies marketplace_catalog d"
  shows "checks_ok d"
  using declared_checks [OF assms] declared_columns [OF assms]
  by (auto simp: checks_ok_def user_ok_def product_ok_def order_ok_def item_ok_def job_ok_def outbox_ok_def receipt_ok_def
      column_holds_def list_all_iff cell_def cells_defs column_def default_col_def)

lemma unique_holds:
  "constraint_holds d t (Unique cs) \<Longrightarrow> distinct (key_tuples cs (rows_of t d))"
  "constraint_holds d t (PrimaryKey cs) \<Longrightarrow> distinct (key_tuples cs (rows_of t d))"
  "index_holds d (unique_index n t cs) \<Longrightarrow> distinct (key_tuples cs (rows_of t d))"
  by (simp_all add: index_holds_def unique_index_def plain_index_def)

lemma cells_keys:
  "cell (user_cells u) ''id'' = SId (u_id u)" "cell (user_cells u) ''email'' = SText (u_email u)"
  "cell (user_cells u) ''phone'' = SText (u_phone u)" "cell (product_cells p) ''id'' = SId (p_id p)"
  "cell (product_cells p) ''name'' = SText (p_name p)" "cell (order_cells r) ''id'' = SId (o_id r)"
  "cell (order_cells r) ''user_id'' = SId (o_userId r)" "cell (order_cells r) ''created_at'' = SInt (o_createdAt r)"
  "cell (order_cells r) ''idempotency_key'' = nullable SText (o_idempotencyKey r)"
  "cell (item_cells i) ''id'' = SId (i_id i)" "cell (item_cells i) ''order_id'' = SId (i_orderId i)"
  "cell (item_cells i) ''product_id'' = SId (i_productId i)" "cell (job_cells j) ''id'' = SId (j_id j)"
  "cell (outbox_cells x) ''id'' = SText (x_id x)" "cell (receipt_cells rc) ''event_id'' = SText (r_eventId rc)"
  "cell (receipt_cells rc) ''order_id'' = SId (r_orderId rc)" "cell (processed_cells m) ''message_id'' = SText (m_messageId m)"
  "cell (processed_cells m) ''consumer'' = SText (m_consumer m)" "cell (token_cells k) ''token_hash'' = SText (t_tokenHash k)"
  "cell (token_cells k) ''user_id'' = SId (t_userId k)"
  by (simp_all add: cell_def cells_defs)

lemma keys_distinct:
  assumes "distinct (key_tuples cs (map f xs))" and "\<And>x. SNull \<notin> set (map (cell (f x)) cs)"
    and same: "\<And>x y. g x = g y \<Longrightarrow> map (cell (f x)) cs = map (cell (f y)) cs"
  shows "distinct (map g xs)"
proof -
  have "distinct (map (\<lambda>x. map (cell (f x)) cs) xs)"
    using assms(1,2) by (simp add: key_tuples_def comp_def filter_id_conv)
  then show ?thesis unfolding distinct_map inj_on_def using same by blast
qed

lemma idempotency_keys:
  "key_tuples [''user_id'', ''idempotency_key''] (map order_cells rs) =
    map (\<lambda>r. [SId (o_userId r), SText (the (o_idempotencyKey r))]) (filter (\<lambda>r. o_idempotencyKey r \<noteq> None) rs)"
  by (induction rs) (auto simp: key_tuples_def cells_keys nullable_def split: option.splits)

lemma declared_keys_ok:
  assumes sat: "satisfies marketplace_catalog d"
  shows "keys_ok d"
proof -
  note pk = declared_keys [OF sat] and ix = declared_indexes [OF sat]
  have "idempotency_unique (orders d)"
    using unique_holds(3) [OF ix(4)] unfolding idempotency_unique_def
    by (simp add: idempotency_keys distinct_map inj_on_def)
  then show ?thesis
    unfolding keys_ok_def
    using keys_distinct [OF unique_holds(2) [OF pk(1), unfolded rows_simps], of u_id]
      keys_distinct [OF unique_holds(1) [OF pk(2), unfolded rows_simps], of u_email]
      keys_distinct [OF unique_holds(1) [OF pk(3), unfolded rows_simps], of u_phone]
      keys_distinct [OF unique_holds(2) [OF pk(4), unfolded rows_simps], of p_id]
      keys_distinct [OF unique_holds(1) [OF pk(5), unfolded rows_simps], of p_name]
      keys_distinct [OF unique_holds(2) [OF pk(6), unfolded rows_simps], of o_id]
      keys_distinct [OF unique_holds(2) [OF pk(7), unfolded rows_simps], of i_id]
      keys_distinct [OF unique_holds(2) [OF pk(8), unfolded rows_simps], of j_id]
      keys_distinct [OF unique_holds(2) [OF pk(9), unfolded rows_simps], of x_id]
      keys_distinct [OF unique_holds(1) [OF pk(10), unfolded rows_simps], of r_eventId]
      keys_distinct [OF unique_holds(2) [OF pk(11), unfolded rows_simps], of "\<lambda>m. (m_messageId m, m_consumer m)"]
      keys_distinct [OF unique_holds(3) [OF ix(1), unfolded rows_simps], of r_orderId]
      keys_distinct [OF unique_holds(3) [OF ix(2), unfolded rows_simps], of t_tokenHash]
      keys_distinct [OF unique_holds(3) [OF ix(3), unfolded rows_simps], of "\<lambda>r. (o_userId r, o_createdAt r)"]
    by (simp add: cells_keys)
qed

lemma reference_holds:
  assumes "constraint_holds d t (ForeignKey c u k rule)" and "rows_of t d = map f xs" and "rows_of u d = map g ys"
    and "\<And>x. cell (f x) c = SId (a x)" and "\<And>y. cell (g y) k = SId (b y)"
  shows "a ` set xs \<subseteq> b ` set ys"
  using assms by (auto simp: list_all_iff list_ex_iff image_iff)

lemma declared_references_ok:
  assumes sat: "satisfies marketplace_catalog d"
  shows "foreign_keys_ok d"
  unfolding foreign_keys_ok_def
  using reference_holds [OF declared_references(1) [OF sat] rows_simps(3,1) cells_keys(7,1)]
    reference_holds [OF declared_references(2) [OF sat] rows_simps(4,3) cells_keys(11,6)]
    reference_holds [OF declared_references(3) [OF sat] rows_simps(4,2) cells_keys(12,4)]
    reference_holds [OF declared_references(4) [OF sat] rows_simps(6,3) cells_keys(16,6)]
    reference_holds [OF declared_references(5) [OF sat] rows_simps(9,1) cells_keys(20,1)]
  by blast

text \<open>A small database for the examples.\<close>

definition one_order_db :: db where
  "one_order_db = \<lparr>users = [\<lparr>u_id = 1, u_email = ''a@b'', u_phone = ''+380501000001'', u_name = ''A'', u_balance = 70,
       u_passwordHash = None, u_role = buyer, u_createdAt = 0\<rparr>],
     products = [\<lparr>p_id = 1, p_name = ''Ink'', p_description = ''Blue'', p_price = 30, p_stock = 2, p_createdAt = 0\<rparr>],
     orders = [\<lparr>o_id = 1, o_userId = 1, o_status = pending, o_total = 30, o_idempotencyKey = Some ''k'', o_createdAt = 5\<rparr>,
       \<lparr>o_id = 2, o_userId = 1, o_status = paid, o_total = 60, o_idempotencyKey = None, o_createdAt = 6\<rparr>],
     orderItems = [\<lparr>i_id = 1, i_orderId = 1, i_productId = 1, i_quantity = 1, i_unitPrice = 30\<rparr>,
       \<lparr>i_id = 2, i_orderId = 2, i_productId = 1, i_quantity = 2, i_unitPrice = 30\<rparr>],
     jobs = [], outbox = [], receipts = [\<lparr>r_id = 1, r_eventId = ''e'', r_orderId = 2, r_total = 60, r_issuedAt = 7\<rparr>],
     processedMessages = [], refreshTokens = [],
     seqs = \<lparr>sq_product = 2, sq_order = 3, sq_item = 3, sq_job = 1, sq_receipt = 2\<rparr>\<rparr>"

section \<open>Properties\<close>

text \<open>
  C35: the migrations run on an empty database, and the columns with their types, nullability and
  defaults, the keys, checks and foreign keys, and the indexes they leave are exactly those the entity
  classes declare.
\<close>

theorem migrations_match_entities:
  "\<exists>c. run_migrations migrations empty_catalog = Some c \<and> same_schema (catalog_schema c) (entities_schema entities)"
proof -
  have "same_schema (catalog_schema marketplace_catalog) (entities_schema entities)" by code_simp
  with migrations_end show ?thesis by blast
qed

text \<open>
  C37: every migration can be taken back: from any well-formed catalogue its down half, run after its up
  half, restores that catalogue, as long as no metadata row of the same key was there before.
\<close>

theorem migration_reverts:
  assumes "catalog_wf c" and "m \<in> set migrations" and "exec_all (mg_up m) c = Some c'" and "fresh_all c (mg_up m)"
  shows "exec_all (mg_down m) c' = Some c"
proof -
  have "map inverse_ddl (mg_up m) = map Some (rev (mg_down m))"
    using down_inverts_up assms(2) by (auto simp: list_all_iff)
  from undo_all [OF assms(1,3) this assms(4)] show ?thesis by simp
qed

theorem migration_reverts_witness:
  "exec_all (mg_down InitialSchema) (the (exec_all (mg_up InitialSchema) empty_catalog)) = Some empty_catalog"
proof -
  have "exec_all (mg_up InitialSchema) empty_catalog \<noteq> None \<and> fresh_all empty_catalog (mg_up InitialSchema)" by code_simp
  then show ?thesis
    using migration_reverts [of empty_catalog InitialSchema]
    by (auto simp: catalog_wf_def empty_catalog_def migrations_def)
qed

text \<open>
  C36: whatever rows the migrated database admits, the checks, keys and foreign keys of the model's
  database invariant hold of them.
\<close>

theorem migrated_rows_are_valid:
  assumes "run_migrations migrations empty_catalog = Some c" and "satisfies c d"
  shows "checks_ok d \<and> keys_ok d \<and> foreign_keys_ok d"
proof -
  have "satisfies marketplace_catalog d" using assms migrations_end by simp
  then show ?thesis using declared_checks_ok declared_keys_ok declared_references_ok by blast
qed

theorem migrated_rows_are_valid_witness: "checks_ok one_order_db \<and> keys_ok one_order_db \<and> foreign_keys_ok one_order_db"
proof -
  have "satisfies marketplace_catalog one_order_db" by code_simp
  from migrated_rows_are_valid [OF migrations_end this] show ?thesis .
qed

end
