(* ===== verification/Relay_Process.thy ===== *)
theory Relay_Process
  imports Messaging_Theorems
begin

text \<open>
  The relay process \<open>src/relay.ts\<close>: rounds of an hourly cleanup and a batch, a pause after a batch that
  published nothing, and the stop between two rounds. What other transactions insert into the outbox before
  a round, the clock, and whether a signal came during the round are arguments. An error of a batch ends
  the process.
\<close>

section \<open>The loop\<close>

definition POLL_INTERVAL_MS :: int where "POLL_INTERVAL_MS = 1000"
definition CLEANUP_INTERVAL_MS :: int where "CLEANUP_INTERVAL_MS = 60 * 60 * 1000"

record 'b relay_state =
  rl_db :: db
  rl_publisher :: "'b publisher"
  rl_nextCleanupAt :: int
  rl_slept :: int
  rl_running :: bool

record 'b relay_turn =
  rr_new :: "Outbox list"
  rr_clock :: int
  rr_after :: int
  rr_env :: "'b relay_env"
  rr_signal :: bool

definition relay_start :: "db \<Rightarrow> 'b publisher \<Rightarrow> 'b relay_state" where
  "relay_start d p = \<lparr>rl_db = d, rl_publisher = p, rl_nextCleanupAt = 0, rl_slept = 0, rl_running = True\<rparr>"

text \<open>The cleanup deletes until a batch comes back short, for which one round a row and one more are enough.\<close>

definition relay_cleanup :: "'b relay_turn \<Rightarrow> 'b relay_state \<Rightarrow> 'b relay_state" where
  "relay_cleanup r s =
     (if rr_clock r < rl_nextCleanupAt s then s
      else (case cleanupOutbox (Suc (length (outbox (rl_db s)))) (re_now (rr_env r)) OUTBOX_RETENTION_DAYS
              OUTBOX_CLEANUP_BATCH (rl_db s) of
          None \<Rightarrow> s
        | Some (deleted, d) \<Rightarrow> s\<lparr>rl_db := d, rl_nextCleanupAt := rr_after r + CLEANUP_INTERVAL_MS\<rparr>))"

definition relay_round :: "'b relay_turn \<Rightarrow> ('b relay_state, unit) action" where
  "relay_round r s =
     (let s1 = relay_cleanup r (s\<lparr>rl_db := (rl_db s)\<lparr>outbox := outbox (rl_db s) @ rr_new r\<rparr>\<rparr>)
      in case relayBatch (rr_env r) RELAY_BATCH_SIZE (rl_db s1, rl_publisher s1) of
           (Inl e, (d, p)) \<Rightarrow> (Inl e, s1\<lparr>rl_db := d, rl_publisher := p\<rparr>)
         | (Inr published, (d, p)) \<Rightarrow>
             (Inr (), s1\<lparr>rl_db := d, rl_publisher := p, rl_running := \<not> rr_signal r,
                rl_slept := rl_slept s1 + (if 0 < published then 0 else POLL_INTERVAL_MS)\<rparr>))"

text \<open>The rounds the process gets to; after a signal it closes its connection, and the rest do not happen.\<close>

fun relay_main :: "'b relay_turn list \<Rightarrow> ('b relay_state, unit) action" where
  "relay_main [] = return ()"
| "relay_main (r # rs) =
     andThen (relay_round r) (\<lambda>_ s.
       if rl_running s then relay_main rs s
       else (Inr (), s\<lparr>rl_publisher := (rl_publisher s)\<lparr>pub_open := False\<rparr>\<rparr>))"

section \<open>What a round leaves\<close>

lemma cleanup_keeps_waiting:
  "waiting (rl_db (relay_cleanup r s)) = waiting (rl_db s)"
  "rl_publisher (relay_cleanup r s) = rl_publisher s" "rl_running (relay_cleanup r s) = rl_running s"
  "rl_slept (relay_cleanup r s) = rl_slept s"
  "distinct (map x_id (outbox (rl_db s))) \<Longrightarrow> distinct (map x_id (outbox (rl_db (relay_cleanup r s))))"
  "set (outbox (rl_db (relay_cleanup r s))) \<subseteq> set (outbox (rl_db s))"
proof -
  let ?keep = "\<lambda>now x. \<forall>t. x_publishedAt x = Some t \<longrightarrow> \<not> t < now - OUTBOX_RETENTION_DAYS * 86400000000"
  have keep: "filter (\<lambda>x. ?keep now x \<and> eligible [] x) rows = filter (eligible []) rows" for now rows
    by (rule filter_cong) (auto simp: eligible_def)
  have ran: "\<exists>n. cleanupOutbox (Suc (length (outbox d))) now OUTBOX_RETENTION_DAYS OUTBOX_CLEANUP_BATCH d =
      Some (n, d\<lparr>outbox := filter (?keep now) (outbox d)\<rparr>)" for now d
    using cleanupOutbox_correct [of OUTBOX_CLEANUP_BATCH now OUTBOX_RETENTION_DAYS d]
    by (simp add: OUTBOX_CLEANUP_BATCH_def less_Suc_eq_le)
  then have c: "relay_cleanup r s = s \<or> (\<exists>now t. relay_cleanup r s =
      s\<lparr>rl_db := (rl_db s)\<lparr>outbox := filter (?keep now) (outbox (rl_db s))\<rparr>, rl_nextCleanupAt := t\<rparr>)"
  proof (cases "rr_clock r < rl_nextCleanupAt s")
    case False
    obtain n where "cleanupOutbox (Suc (length (outbox (rl_db s)))) (re_now (rr_env r)) OUTBOX_RETENTION_DAYS OUTBOX_CLEANUP_BATCH (rl_db s) =
      Some (n, (rl_db s)\<lparr>outbox := filter (?keep (re_now (rr_env r))) (outbox (rl_db s))\<rparr>)" using ran by blast
    with False have "relay_cleanup r s = s\<lparr>rl_db := (rl_db s)\<lparr>outbox := filter (?keep (re_now (rr_env r))) (outbox (rl_db s))\<rparr>,
        rl_nextCleanupAt := rr_after r + CLEANUP_INTERVAL_MS\<rparr>" by (simp add: relay_cleanup_def)
    then show ?thesis by blast
  qed (simp add: relay_cleanup_def)
  show "waiting (rl_db (relay_cleanup r s)) = waiting (rl_db s)"
    "rl_publisher (relay_cleanup r s) = rl_publisher s" "rl_running (relay_cleanup r s) = rl_running s"
    "rl_slept (relay_cleanup r s) = rl_slept s"
    "distinct (map x_id (outbox (rl_db s))) \<Longrightarrow> distinct (map x_id (outbox (rl_db (relay_cleanup r s))))"
    "set (outbox (rl_db (relay_cleanup r s))) \<subseteq> set (outbox (rl_db s))"
    using c by (auto simp: waiting_def keep distinct_map_filter)
qed

lemma waiting_new:
  assumes "list_all (eligible []) xs"
  shows "mset (waiting (d\<lparr>outbox := outbox d @ xs\<rparr>)) = mset (waiting d) + mset xs"
proof -
  have "filter (eligible []) xs = xs" using assms by (simp add: list_all_iff filter_id_conv)
  then show ?thesis by (simp add: waiting_def)
qed

text \<open>The message of a row.\<close>

definition message_of :: "(int \<Rightarrow> string) \<Rightarrow> Outbox \<Rightarrow> amqp_message" where
  "message_of toISO x = order_message toISO (x_payload x) (x_id x)"

text \<open>A round with a broker that takes every message, no hook and no second relay.\<close>

definition plain_round :: "('b \<Rightarrow> amqp_message list) \<Rightarrow> (int \<Rightarrow> string) \<Rightarrow> 'b relay_turn \<Rightarrow> bool" where
  "plain_round taken toISO r \<longleftrightarrow> reliable (re_send (rr_env r)) taken \<and> quiet_relay (rr_env r) \<and> re_toISO (rr_env r) = toISO \<and>
     list_all (eligible []) (rr_new r)"

definition relay_ready :: "'b relay_state \<Rightarrow> bool" where
  "relay_ready s \<longleftrightarrow> distinct (map x_id (outbox (rl_db s))) \<and> pub_open (rl_publisher s) \<and> pub_returned (rl_publisher s) = []"

lemma relay_round_plain:
  assumes plain: "plain_round taken toISO r" and ready: "relay_ready s"
    and ids: "distinct (map x_id (outbox (rl_db s) @ rr_new r))"
  defines "backlog \<equiv> mset (waiting (rl_db s)) + mset (rr_new r)"
  shows "\<exists>s' sent. relay_round r s = (Inr (), s') \<and> relay_ready s' \<and>
    set (map x_id (outbox (rl_db s'))) \<subseteq> set (map x_id (outbox (rl_db s) @ rr_new r)) \<and>
    rl_running s' = (\<not> rr_signal r) \<and>
    taken (pub_broker (rl_publisher s')) = taken (pub_broker (rl_publisher s)) @ map (message_of toISO) sent \<and>
    mset sent + mset (waiting (rl_db s')) = backlog \<and> length sent = min RELAY_BATCH_SIZE (size backlog) \<and>
    rl_slept s' = rl_slept s + (if backlog = {#} then POLL_INTERVAL_MS else 0)"
proof -
  let ?s0 = "s\<lparr>rl_db := (rl_db s)\<lparr>outbox := outbox (rl_db s) @ rr_new r\<rparr>\<rparr>"
  let ?s1 = "relay_cleanup r ?s0"
  have s1: "distinct (map x_id (outbox (rl_db ?s1)))" "pub_open (rl_publisher ?s1)" "pub_returned (rl_publisher ?s1) = []"
    using ready ids by (simp_all add: cleanup_keeps_waiting relay_ready_def)
  have left: "mset (waiting (rl_db ?s1)) = backlog"
    using plain by (simp add: cleanup_keeps_waiting waiting_new plain_round_def backlog_def)
  then have len: "length (waiting (rl_db ?s1)) = size backlog" by (metis size_mset)
  obtain d' p' where batch: "relay_loop (rr_env r) RELAY_BATCH_SIZE [] 0 (rl_db ?s1, rl_publisher ?s1) =
        (Inr (0 + min RELAY_BATCH_SIZE (length (waiting (rl_db ?s1)))), (d', p'))"
      "taken (pub_broker p') = taken (pub_broker (rl_publisher ?s1)) @
        map (\<lambda>x. order_message (re_toISO (rr_env r)) (x_payload x) (x_id x)) (take RELAY_BATCH_SIZE (waiting (rl_db ?s1)))"
      "waiting d' = drop RELAY_BATCH_SIZE (waiting (rl_db ?s1))" "map x_id (outbox d') = map x_id (outbox (rl_db ?s1))"
      "pub_open p'" "pub_returned p' = []"
    using relay_loop_reliable [of "rr_env r" taken "rl_db ?s1" "rl_publisher ?s1" RELAY_BATCH_SIZE 0] plain s1
    unfolding plain_round_def by blast
  have "(\<lambda>x. order_message (re_toISO (rr_env r)) (x_payload x) (x_id x)) = message_of toISO"
    using plain by (auto simp: plain_round_def message_of_def)
  then have run: "relayBatch (rr_env r) RELAY_BATCH_SIZE (rl_db ?s1, rl_publisher ?s1) =
        (Inr (min RELAY_BATCH_SIZE (size backlog)), (d', p'))"
      "taken (pub_broker p') = taken (pub_broker (rl_publisher s)) @ map (message_of toISO) (take RELAY_BATCH_SIZE (waiting (rl_db ?s1)))"
    using batch(1,2) unfolding relayBatch_def len by (simp_all add: cleanup_keeps_waiting(2))
  note run = run batch(3-6)
  let ?sent = "take RELAY_BATCH_SIZE (waiting (rl_db ?s1))"
  let ?s' = "?s1\<lparr>rl_db := d', rl_publisher := p', rl_running := \<not> rr_signal r,
    rl_slept := rl_slept ?s1 + (if 0 < min RELAY_BATCH_SIZE (size backlog) then 0 else POLL_INTERVAL_MS)\<rparr>"
  have "relay_round r s = (Inr (), ?s')" by (simp add: relay_round_def Let_def run(1))
  moreover have "relay_ready ?s'" using run(4-6) s1(1) by (simp add: relay_ready_def)
  moreover have "set (map x_id (outbox d')) \<subseteq> set (map x_id (outbox (rl_db s) @ rr_new r))"
    using cleanup_keeps_waiting(6) [of r ?s0] unfolding run(4) by auto
  moreover have "mset ?sent + mset (waiting d') = backlog"
    unfolding run(3) left [symmetric] by (metis append_take_drop_id mset_append)
  moreover have "rl_slept ?s' = rl_slept s + (if backlog = {#} then POLL_INTERVAL_MS else 0)"
    by (simp add: cleanup_keeps_waiting RELAY_BATCH_SIZE_def nonempty_has_size)
  ultimately show ?thesis using run(2) len by (intro exI [of _ ?s'] exI [of _ ?sent]) (simp add: min.commute)
qed

section \<open>A run of the process\<close>

definition backlog_after :: "nat \<Rightarrow> 'b relay_turn list \<Rightarrow> nat" where
  "backlog_after n rs = foldl (\<lambda>n r. n + length (rr_new r) - RELAY_BATCH_SIZE) n rs"

lemma backlog_after_simps [simp]:
  "backlog_after n [] = n" "backlog_after n (r # rs) = backlog_after (n + length (rr_new r) - RELAY_BATCH_SIZE) rs"
  by (simp_all add: backlog_after_def)

lemma backlog_idle: "\<forall>r \<in> set rs. rr_new r = [] \<Longrightarrow> backlog_after n rs = n - RELAY_BATCH_SIZE * length rs"
  by (induction rs arbitrary: n) auto

definition new_ids_fresh :: "'b relay_state \<Rightarrow> 'b relay_turn list \<Rightarrow> bool" where
  "new_ids_fresh s rs \<longleftrightarrow> distinct (map x_id (outbox (rl_db s) @ concat (map rr_new rs)))"

lemma distinct_smaller: "distinct (xs @ ys @ zs) \<Longrightarrow> distinct xs' \<Longrightarrow> set xs' \<subseteq> set (xs @ ys) \<Longrightarrow> distinct (xs' @ zs)"
  by auto

lemma relay_main_plain:
  assumes "\<forall>r \<in> set rs. plain_round taken toISO r \<and> \<not> rr_signal r" and "relay_ready s" and "new_ids_fresh s (rs @ rest)"
  shows "\<exists>s' sent. relay_main (rs @ rest) s = relay_main rest s' \<and> relay_ready s' \<and> new_ids_fresh s' rest \<and>
    taken (pub_broker (rl_publisher s')) = taken (pub_broker (rl_publisher s)) @ map (message_of toISO) sent \<and>
    mset sent + mset (waiting (rl_db s')) = mset (waiting (rl_db s)) + mset (concat (map rr_new rs)) \<and>
    length (waiting (rl_db s')) = backlog_after (length (waiting (rl_db s))) rs"
  using assms
proof (induction rs arbitrary: s)
  case Nil
  then show ?case by (intro exI [of _ s] exI [of _ "[]"]) simp
next
  case (Cons r rs)
  have ids: "distinct (map x_id (outbox (rl_db s) @ rr_new r))"
    using Cons.prems(3) by (auto simp: new_ids_fresh_def)
  obtain s1 sent1 where s1: "relay_round r s = (Inr (), s1)" "relay_ready s1" "rl_running s1"
      "set (map x_id (outbox (rl_db s1))) \<subseteq> set (map x_id (outbox (rl_db s) @ rr_new r))"
      "taken (pub_broker (rl_publisher s1)) = taken (pub_broker (rl_publisher s)) @ map (message_of toISO) sent1"
      "mset sent1 + mset (waiting (rl_db s1)) = mset (waiting (rl_db s)) + mset (rr_new r)"
      "length sent1 = min RELAY_BATCH_SIZE (size (mset (waiting (rl_db s)) + mset (rr_new r)))"
    using relay_round_plain [OF _ Cons.prems(2) ids, of taken toISO] Cons.prems(1) by fastforce
  have "new_ids_fresh s1 (rs @ rest)"
    using distinct_smaller [of "map x_id (outbox (rl_db s))" "map x_id (rr_new r)" "map x_id (concat (map rr_new (rs @ rest)))"
        "map x_id (outbox (rl_db s1))"] Cons.prems(3) s1(2,4)
    unfolding new_ids_fresh_def relay_ready_def map_append by (simp only: list.map concat.simps map_append append_assoc append_Cons)
  with Cons.IH [of s1] Cons.prems(1) s1(2) obtain s' sent2 where s2: "relay_main (rs @ rest) s1 = relay_main rest s'"
      "relay_ready s'" "new_ids_fresh s' rest"
      "taken (pub_broker (rl_publisher s')) = taken (pub_broker (rl_publisher s1)) @ map (message_of toISO) sent2"
      "mset sent2 + mset (waiting (rl_db s')) = mset (waiting (rl_db s1)) + mset (concat (map rr_new rs))"
      "length (waiting (rl_db s')) = backlog_after (length (waiting (rl_db s1))) rs"
    by auto
  have "relay_main ((r # rs) @ rest) s = relay_main rest s'" using s1(1,3) s2(1) by (simp add: andThen_def)
  moreover have "mset (sent1 @ sent2) + mset (waiting (rl_db s')) = mset (waiting (rl_db s)) + mset (concat (map rr_new (r # rs)))"
    using s1(6) s2(5) by (simp add: ac_simps)
  moreover have "length (waiting (rl_db s1)) = length (waiting (rl_db s)) + length (rr_new r) - RELAY_BATCH_SIZE"
    using arg_cong [OF s1(6), of size] s1(7) by simp
  ultimately show ?case using s1(5) s2 by (intro exI [of _ s'] exI [of _ "sent1 @ sent2"]) simp
qed

section \<open>Property\<close>

text \<open>
  C38: as long as the broker takes every message, the relay process neither loses nor doubles an event: what
  it has sent and what still waits are together what waited and what checkouts added. A round sends a
  hundred, so that the backlog falls by a hundred a round and without new orders is empty after backlog over
  hundred rounds. The process ends with the round a signal came in, whose batch is still complete.
\<close>

theorem relay_process_drains:
  assumes "\<forall>r \<in> set (rs @ [final]). plain_round taken toISO r" and "\<forall>r \<in> set rs. \<not> rr_signal r" and "rr_signal final"
    and "new_ids_fresh (relay_start d p) (rs @ final # rest)" and "pub_open p" and "pub_returned p = []"
  shows "\<exists>s sent. relay_main (rs @ final # rest) (relay_start d p) = (Inr (), s) \<and>
    \<not> rl_running s \<and> \<not> pub_open (rl_publisher s) \<and>
    taken (pub_broker (rl_publisher s)) = taken (pub_broker p) @ map (message_of toISO) sent \<and>
    mset sent + mset (waiting (rl_db s)) = mset (waiting d) + mset (concat (map rr_new (rs @ [final]))) \<and>
    length (waiting (rl_db s)) = backlog_after (length (waiting d)) (rs @ [final]) \<and>
    (concat (map rr_new (rs @ [final])) = [] \<longrightarrow> length (waiting (rl_db s)) = length (waiting d) - 100 * Suc (length rs))"
proof -
  let ?s = "relay_start d p"
  have ready: "relay_ready ?s" using assms(4-6) by (simp add: relay_ready_def relay_start_def new_ids_fresh_def)
  obtain s1 sent1 where s1: "relay_main (rs @ final # rest) ?s = relay_main (final # rest) s1" "relay_ready s1"
      "new_ids_fresh s1 (final # rest)"
      "taken (pub_broker (rl_publisher s1)) = taken (pub_broker p) @ map (message_of toISO) sent1"
      "mset sent1 + mset (waiting (rl_db s1)) = mset (waiting d) + mset (concat (map rr_new rs))"
      "length (waiting (rl_db s1)) = backlog_after (length (waiting d)) rs"
    using relay_main_plain [of rs taken toISO ?s "final # rest"] assms(1,2,4) ready by (auto simp: relay_start_def)
  have "distinct (map x_id (outbox (rl_db s1) @ rr_new final))" using s1(3) by (auto simp: new_ids_fresh_def)
  then obtain s2 sent2 where s2: "relay_round final s1 = (Inr (), s2)" "\<not> rl_running s2"
      "taken (pub_broker (rl_publisher s2)) = taken (pub_broker (rl_publisher s1)) @ map (message_of toISO) sent2"
      "mset sent2 + mset (waiting (rl_db s2)) = mset (waiting (rl_db s1)) + mset (rr_new final)"
      "length sent2 = min RELAY_BATCH_SIZE (size (mset (waiting (rl_db s1)) + mset (rr_new final)))"
    using relay_round_plain [OF _ s1(2), of taken toISO final] assms(1,3) by auto
  let ?s2 = "s2\<lparr>rl_publisher := (rl_publisher s2)\<lparr>pub_open := False\<rparr>\<rparr>"
  have len: "length (waiting (rl_db s2)) = backlog_after (length (waiting d)) (rs @ [final])"
    using arg_cong [OF s2(4), of size] s2(5) s1(6) by (simp add: backlog_after_def)
  have "relay_main (rs @ final # rest) ?s = (Inr (), ?s2)" using s1(1) s2(1,2) by (simp add: andThen_def)
  moreover have "mset (sent1 @ sent2) + mset (waiting (rl_db s2)) = mset (waiting d) + mset (concat (map rr_new (rs @ [final])))"
    using s1(5) s2(4) by (simp add: ac_simps)
  moreover have "length (waiting (rl_db s2)) = length (waiting d) - 100 * Suc (length rs)"
    if "concat (map rr_new (rs @ [final])) = []"
    using backlog_idle [of "rs @ [final]" "length (waiting d)"] that len by (auto simp: RELAY_BATCH_SIZE_def)
  ultimately show ?thesis using s1(4) s2(2,3) len by (intro exI [of _ ?s2] exI [of _ "sent1 @ sent2"]) simp
qed

definition idle_round :: "amqp_message list relay_turn" where
  "idle_round = \<lparr>rr_new = [], rr_clock = 5, rr_after = 6, rr_env = relay_env_of log_send, rr_signal = True\<rparr>"

theorem relay_process_drains_witness:
  "\<exists>s. relay_main [idle_round] (relay_start sold_db open_publisher) = (Inr (), s) \<and> waiting (rl_db s) = [] \<and>
     length (pub_broker (rl_publisher s)) = 1 \<and> \<not> pub_open (rl_publisher s)"
proof -
  have "plain_round (\<lambda>b. b) (\<lambda>_. ''T'') idle_round"
    by (simp add: plain_round_def idle_round_def reliable_def relay_env_of_def log_send_def quiet_relay_def)
  moreover have "new_ids_fresh (relay_start sold_db open_publisher) [idle_round]" "length (waiting sold_db) = 1" by code_simp+
  moreover have "rr_signal idle_round" "rr_new idle_round = []" by (simp_all add: idle_round_def)
  ultimately obtain s sent where s: "relay_main [idle_round] (relay_start sold_db open_publisher) = (Inr (), s)"
      "\<not> pub_open (rl_publisher s)" "pub_broker (rl_publisher s) = map (message_of (\<lambda>_. ''T'')) sent"
      "mset sent + mset (waiting (rl_db s)) = mset (waiting sold_db)" "length (waiting (rl_db s)) = 0"
    using relay_process_drains [of "[]" idle_round "\<lambda>b. b" "\<lambda>_. ''T''" sold_db open_publisher "[]"]
    by (auto simp: open_publisher_def)
  moreover from this have "length sent = 1" using arg_cong [OF s(4), of size] \<open>length (waiting sold_db) = 1\<close> by simp
  ultimately show ?thesis by (intro exI [of _ s]) simp
qed

end
