(* ===== verification/Demo_Workers.thy ===== *)
theory Demo_Workers
  imports Jobs_Theorems
begin

text \<open>
  Workers that share a queue, with a handler that decides by the payload alone; and the demonstration
  \<open>src/demo/demo-workers.ts\<close>: four of them, twenty regular jobs and a poison one among them, and the
  counts its verdict compares. A worker between two jobs polls until no job of the queue is pending, so
  the pool stands still exactly when every worker has returned.
\<close>

section \<open>The pool\<close>

definition payload_handler :: "(json \<Rightarrow> bool) \<Rightarrow> string \<Rightarrow> 'h job_handler" where
  "payload_handler poison message job h = (if poison (cj_payload job) then (Some message, h) else (None, h))"

inductive workers_step :: "WorkerOptions \<Rightarrow> string list \<Rightarrow> unit job_handler \<Rightarrow> pool \<Rightarrow> pool \<Rightarrow> bool"
  for opts names handler where
  take_job: "claim_next (wo_queue opts) (map snd locks) (jobs d) = Some j \<Longrightarrow> w \<in> set names \<Longrightarrow> w \<notin> fst ` set locks \<Longrightarrow>
    workers_step opts names handler \<lparr>pl_db = d, pl_locks = locks\<rparr> \<lparr>pl_db = d, pl_locks = (w, j_id j) # locks\<rparr>"
| end_job: "(w, j_id j) \<in> set locks \<Longrightarrow> j \<in> set (jobs d) \<Longrightarrow> handler (claimed j) () = (None, ()) \<Longrightarrow>
    workers_step opts names handler \<lparr>pl_db = d, pl_locks = locks\<rparr>
      \<lparr>pl_db = set_job (j_id j) (mark_done now w) d, pl_locks = release w locks\<rparr>"
| fail_job: "(w, j_id j) \<in> set locks \<Longrightarrow> j \<in> set (jobs d) \<Longrightarrow> handler (claimed j) () = (Some m, ()) \<Longrightarrow>
    workers_step opts names handler \<lparr>pl_db = d, pl_locks = locks\<rparr>
      \<lparr>pl_db = set_job (j_id j) (mark_failed m w (wo_maxAttempts opts)) d, pl_locks = release w locks\<rparr>"

inductive_cases workers_stepE: "workers_step opts names handler p p'"

lemma workers_pool: "workers_step opts names handler p p' \<Longrightarrow> pool_step opts p p'"
  by (induction rule: workers_step.induct) (auto intro: pool_step.intros)

section \<open>How far a job has come\<close>

definition job_so_far :: "WorkerOptions \<Rightarrow> (json \<Rightarrow> bool) \<Rightarrow> Job \<Rightarrow> Job \<Rightarrow> bool" where
  "job_so_far opts poison j0 j \<longleftrightarrow> j_id j = j_id j0 \<and> j_queue j = j_queue j0 \<and> j_payload j = j_payload j0 \<and>
     (if j_queue j0 \<noteq> wo_queue opts then j = j0
      else if poison (j_payload j0)
        then j_processed j = 0 \<and> (j_status j = JPending \<and> 0 \<le> j_attempts j \<and> j_attempts j < wo_maxAttempts opts \<or>
          j_status j = JFailed \<and> j_attempts j = wo_maxAttempts opts)
        else j_status j = JPending \<and> j_attempts j = 0 \<and> j_processed j = 0 \<or> j_status j = JDone \<and> j_attempts j = 1 \<and> j_processed j = 1)"

definition fresh_queue :: "WorkerOptions \<Rightarrow> db \<Rightarrow> bool" where
  "fresh_queue opts d \<longleftrightarrow> distinct (map j_id (jobs d)) \<and> (\<forall>j \<in> set (jobs d). job_row_ok j) \<and>
     (\<forall>j \<in> set (jobs d). j_queue j = wo_queue opts \<longrightarrow> j_status j = JPending \<and> j_attempts j = 0 \<and> j_processed j = 0)"

definition workers_inv :: "WorkerOptions \<Rightarrow> (json \<Rightarrow> bool) \<Rightarrow> db \<Rightarrow> pool \<Rightarrow> bool" where
  "workers_inv opts poison d0 p \<longleftrightarrow> pool_ok opts p \<and> list_all2 (job_so_far opts poison) (jobs d0) (jobs (pl_db p))"

lemma workers_inv_start:
  assumes "fresh_queue opts d" and "0 < wo_maxAttempts opts"
  shows "workers_inv opts poison d \<lparr>pl_db = d, pl_locks = []\<rparr>"
  using assms by (auto simp: workers_inv_def pool_ok_def fresh_queue_def job_so_far_def list_all2_same)

lemma job_so_far_done:
  assumes "job_so_far opts poison j0 j" and "is_pending (wo_queue opts) j" and "\<not> poison (j_payload j)"
  shows "job_so_far opts poison j0 (mark_done now w j)"
  using assms by (auto simp: job_so_far_def mark_done_def is_pending_def split: if_splits)

lemma job_so_far_failed:
  assumes "job_so_far opts poison j0 j" and "is_pending (wo_queue opts) j" and "poison (j_payload j)"
  shows "job_so_far opts poison j0 (mark_failed m w (wo_maxAttempts opts) j)"
  using assms by (auto simp: job_so_far_def mark_failed_def is_pending_def split: if_splits)

lemma set_job_so_far:
  assumes rows: "list_all2 R js0 (jobs d)" and dist: "distinct (map j_id (jobs d))" and j: "j \<in> set (jobs d)"
    and step: "\<And>j0. R j0 j \<Longrightarrow> R j0 (f j)"
  shows "list_all2 R js0 (jobs (set_job (j_id j) f d))"
proof -
  have "R j0 (if j_id x = j_id j then f x else x)" if "x \<in> set (jobs d)" "R j0 x" for j0 x
    using that distinct_key_eq [OF dist that(1) j] step by auto
  then show ?thesis
    using rows by (auto simp: set_job_def update_where_def list_all2_conv_all_nth)
qed

lemma workers_inv_step:
  assumes inv: "workers_inv opts poison d0 p" and step: "workers_step opts names (payload_handler poison msg) p p'"
  shows "workers_inv opts poison d0 p'"
proof -
  have ok: "pool_ok opts p'" using pool_step_ok [OF workers_pool [OF step]] inv by (simp add: workers_inv_def)
  have held: "is_pending (wo_queue opts) j" if "(w, j_id j) \<in> set (pl_locks p)" "j \<in> set (jobs (pl_db p))" for w j
  proof -
    from inv that(1) obtain x where x: "x \<in> set (jobs (pl_db p))" "j_id x = j_id j" "is_pending (wo_queue opts) x"
      by (fastforce simp: workers_inv_def pool_ok_def)
    moreover have "distinct (map j_id (jobs (pl_db p)))" using inv by (simp add: workers_inv_def pool_ok_def)
    ultimately show ?thesis using distinct_key_eq that(2) by metis
  qed
  have "list_all2 (job_so_far opts poison) (jobs d0) (jobs (pl_db p'))"
    using step
  proof cases
    case (take_job locks d j w)
    with inv show ?thesis by (simp add: workers_inv_def)
  next
    case (end_job w j locks d now)
    then have "\<not> poison (j_payload j)" by (auto simp: payload_handler_def claimed_def split: if_splits)
    then show ?thesis
      using end_job inv held [of w j] by (auto simp: workers_inv_def pool_ok_def intro!: set_job_so_far job_so_far_done)
  next
    case (fail_job w j locks d m)
    then have "poison (j_payload j)" by (auto simp: payload_handler_def claimed_def split: if_splits)
    then show ?thesis
      using fail_job inv held [of w j] by (auto simp: workers_inv_def pool_ok_def intro!: set_job_so_far job_so_far_failed)
  qed
  with ok show ?thesis by (simp add: workers_inv_def)
qed

section \<open>An end\<close>

definition turns_left :: "WorkerOptions \<Rightarrow> (json \<Rightarrow> bool) \<Rightarrow> Job \<Rightarrow> int" where
  "turns_left opts poison j = (if \<not> is_pending (wo_queue opts) j then 0
     else if poison (j_payload j) then max 1 (wo_maxAttempts opts - j_attempts j) else 1)"

definition pool_turns :: "WorkerOptions \<Rightarrow> (json \<Rightarrow> bool) \<Rightarrow> pool \<Rightarrow> int" where
  "pool_turns opts poison p = 2 * sum_list (map (turns_left opts poison) (jobs (pl_db p))) - int (length (pl_locks p))"

lemma turns_left_drop:
  assumes "is_pending (wo_queue opts) j"
  shows "turns_left opts poison (mark_done now w j) + 1 \<le> turns_left opts poison j"
    and "poison (j_payload j) \<Longrightarrow> turns_left opts poison (mark_failed m w (wo_maxAttempts opts) j) + 1 \<le> turns_left opts poison j"
  using assms by (auto simp: turns_left_def is_pending_def mark_done_def mark_failed_def)

lemma release_length:
  assumes "distinct (map fst locks)" and "(w, k) \<in> set locks"
  shows "length locks = Suc (length (release w locks))"
  using assms
proof (induction locks)
  case (Cons l locks)
  show ?case
  proof (cases "fst l = w")
    case True
    then have "release w (l # locks) = locks" using Cons.prems(1) 
      unfolding release_def by (simp add: filter_id_conv) (metis imageI)
    then show ?thesis by simp
  next
    case False
    then show ?thesis using Cons by (auto simp: release_def)
  qed
qed simp

lemma workers_turn:
  assumes inv: "workers_inv opts poison d0 p" and step: "workers_step opts names (payload_handler poison msg) p p'"
  shows "pool_turns opts poison p' < pool_turns opts poison p"
proof -
  have pool: "pool_ok opts p" using inv by (simp add: workers_inv_def)
  have dist: "distinct (map j_id (jobs (pl_db p)))" using pool by (simp add: pool_ok_def)
  have turn: "pool_turns opts poison p' < pool_turns opts poison p"
    if lock: "(w, j_id j) \<in> set (pl_locks p)" and j: "j \<in> set (jobs (pl_db p))"
      and f: "is_pending (wo_queue opts) j \<Longrightarrow> turns_left opts poison (f j) + 1 \<le> turns_left opts poison j"
      and p': "p' = \<lparr>pl_db = set_job (j_id j) f (pl_db p), pl_locks = release w (pl_locks p)\<rparr>" for w j f
  proof -
    obtain x where "x \<in> set (jobs (pl_db p))" "j_id x = j_id j" "is_pending (wo_queue opts) x"
      using pool lock by (fastforce simp: pool_ok_def)
    then have "is_pending (wo_queue opts) j" using distinct_key_eq [OF dist] j by metis
    moreover have "length (pl_locks p) = Suc (length (release w (pl_locks p)))"
      using release_length lock pool by (auto simp: pool_ok_def)
    ultimately show ?thesis using f set_job_rows [OF dist j, of "turns_left opts poison" f] by (simp add: pool_turns_def p')
  qed
  show ?thesis
    using step
  proof cases
    case (take_job locks d j w)
    then show ?thesis by (simp add: pool_turns_def)
  next
    case (end_job w j locks d now)
    with turn [of w j "mark_done now w"] turns_left_drop(1) show ?thesis by simp
  next
    case (fail_job w j locks d m)
    then have "poison (j_payload j)" by (auto simp: payload_handler_def claimed_def split: if_splits)
    with fail_job turn [of w j "mark_failed m w (wo_maxAttempts opts)"] turns_left_drop(2) show ?thesis by simp
  qed
qed

lemma pool_turns_nonneg:
  assumes "pool_ok opts p"
  shows "0 \<le> pool_turns opts poison p"
proof -
  let ?js = "filter (is_pending (wo_queue opts)) (jobs (pl_db p))"
  have "set (map snd (pl_locks p)) \<subseteq> set (map j_id ?js)"
    using assms by (fastforce simp: pool_ok_def image_iff)
  moreover have "distinct (map snd (pl_locks p))" using assms by (simp add: pool_ok_def)
  ultimately have "length (pl_locks p) \<le> length ?js"
    by (metis card_mono card_length distinct_card le_trans length_map finite_set)
  moreover have "int (length (filter (is_pending (wo_queue opts)) js)) \<le> sum_list (map (turns_left opts poison) js)" for js
    by (induction js) (auto simp: turns_left_def)
  then have "int (length ?js) \<le> sum_list (map (turns_left opts poison) (jobs (pl_db p)))" .
  ultimately show ?thesis by (simp add: pool_turns_def)
qed

lemma workers_run:
  assumes "workers_inv opts poison d p" and "(workers_step opts names (payload_handler poison msg) ^^ n) p q"
  shows "workers_inv opts poison d q \<and> int n + pool_turns opts poison q \<le> pool_turns opts poison p"
  using assms(2)
proof (induction n arbitrary: q)
  case 0
  then show ?case using assms(1) by simp
next
  case (Suc n)
  then obtain r where r: "(workers_step opts names (payload_handler poison msg) ^^ n) p r"
    "workers_step opts names (payload_handler poison msg) r q" by auto
  from Suc.IH [OF r(1)] workers_inv_step [OF _ r(2)] workers_turn [OF _ r(2)] show ?case by fastforce
qed

text \<open>Where the pool stands still, nothing is held and nothing is pending.\<close>

lemma workers_stand_still:
  assumes inv: "workers_inv opts poison d0 p" and names: "names \<noteq> []"
    and stuck: "\<nexists>p'. workers_step opts names (payload_handler poison msg) p p'"
  shows "pl_locks p = []" and "\<forall>j \<in> set (jobs (pl_db p)). \<not> is_pending (wo_queue opts) j"
proof -
  obtain d locks where p: "p = \<lparr>pl_db = d, pl_locks = locks\<rparr>" by (cases p)
  have none: "locks = []"
  proof (rule ccontr)
    assume "locks \<noteq> []"
    then obtain w k where l: "(w, k) \<in> set locks" by (cases locks) auto
    then obtain j where j: "j \<in> set (jobs d)" "j_id j = k" using inv by (fastforce simp: workers_inv_def pool_ok_def p)
    show False
    proof (cases "poison (j_payload j)")
      case True
      then show False using fail_job [of w j locks d "payload_handler poison msg" msg opts names] l j stuck
        by (auto simp: p payload_handler_def claimed_def)
    next
      case False
      then show False using end_job [of w j locks d "payload_handler poison msg" opts names] l j stuck
        by (auto simp: p payload_handler_def claimed_def)
    qed
  qed
  show "pl_locks p = []" by (simp add: p none)
  have "claim_next (wo_queue opts) [] (jobs d) = None"
  proof (rule ccontr)
    assume "\<not> ?thesis"
    then obtain j where "claim_next (wo_queue opts) [] (jobs d) = Some j" by auto
    moreover obtain w where "w \<in> set names" using names by (cases names) auto
    ultimately have "\<exists>p'. workers_step opts names (payload_handler poison msg) p p'"
      using take_job [of opts "[]" d j w names "payload_handler poison msg"] by (auto simp: p none)
    with stuck show False ..
  qed
  then show "\<forall>j \<in> set (jobs (pl_db p)). \<not> is_pending (wo_queue opts) j" by (simp add: claim_next_None p)
qed
section \<open>The demonstration\<close>

definition WORKERS :: nat where "WORKERS = 4"
definition REGULAR_JOBS :: nat where "REGULAR_JOBS = 20"
definition POISON_JOBS :: nat where "POISON_JOBS = 1"
definition MAX_ATTEMPTS :: int where "MAX_ATTEMPTS = 3"
definition JOB_DURATION_MS :: int where "JOB_DURATION_MS = 100"

definition is_poison :: "json \<Rightarrow> bool" where
  "is_poison payload \<longleftrightarrow> json_get ''poison'' (Some payload) = Some (JBool True)"

definition demo_handler :: "unit job_handler" where
  "demo_handler = payload_handler is_poison ''poison job''"

text \<open>\<open>splice(poisonPosition, 0, \<dots>)\<close> puts the poison job in the middle.\<close>

definition demo_payloads :: "json list" where
  "demo_payloads = (let regular = map (\<lambda>n. JObj [(''number'', JNum (JsInt (int n)))]) [1..<Suc REGULAR_JOBS];
       position = REGULAR_JOBS div 2
     in take position regular @ [JObj [(''poison'', JBool True)]] @ drop position regular)"

definition insert_demo_job :: "int \<Rightarrow> string \<Rightarrow> json \<Rightarrow> db \<Rightarrow> db" where
  "insert_demo_job now queue payload d =
     d\<lparr>jobs := jobs d @ [\<lparr>j_id = sq_job (seqs d), j_queue = queue, j_type = ''send_receipt'', j_payload = payload,
           j_status = JPending, j_processed = 0, j_attempts = 0, j_lastError = None, j_worker = None,
           j_createdAt = now, j_processedAt = None\<rparr>],
       seqs := (seqs d)\<lparr>sq_job := Suc (sq_job (seqs d))\<rparr>\<rparr>"

definition workers_start :: "int \<Rightarrow> string \<Rightarrow> db \<Rightarrow> db" where
  "workers_start now queue d = fold (insert_demo_job now queue) demo_payloads d"

definition worker_names :: "string list" where
  "worker_names = map (\<lambda>i. ''worker-'' @ dec (i + 1)) [0..<WORKERS]"

definition demo_options :: "string \<Rightarrow> WorkerOptions" where
  "demo_options queue = \<lparr>wo_queue = queue, wo_maxAttempts = MAX_ATTEMPTS\<rparr>"

text \<open>The counts of the summary, and the verdict on them, the number of busy workers and the time.\<close>

definition count_jobs :: "string \<Rightarrow> (Job \<Rightarrow> bool) \<Rightarrow> db \<Rightarrow> nat" where
  "count_jobs queue P d = length (filter (\<lambda>j. j_queue j = queue \<and> P j) (jobs d))"

record workers_summary =
  wm_total :: nat
  wm_processedOnce :: nat
  wm_processedTwice :: nat
  wm_failed :: nat
  wm_stillPending :: nat

definition workers_counts :: "string \<Rightarrow> db \<Rightarrow> workers_summary" where
  "workers_counts queue d = \<lparr>
     wm_total = count_jobs queue (\<lambda>j. True) d,
     wm_processedOnce = count_jobs queue (\<lambda>j. j_status j = JDone \<and> j_processed j = 1) d,
     wm_processedTwice = count_jobs queue (\<lambda>j. 1 < j_processed j) d,
     wm_failed = count_jobs queue (\<lambda>j. j_status j = JFailed \<and> j_processed j = 0 \<and> j_attempts j = MAX_ATTEMPTS) d,
     wm_stillPending = count_jobs queue (\<lambda>j. j_status j = JPending) d\<rparr>"

definition workers_verdict :: "workers_summary \<Rightarrow> nat \<Rightarrow> int \<Rightarrow> bool" where
  "workers_verdict s busy elapsedMs \<longleftrightarrow> wm_total s = REGULAR_JOBS + POISON_JOBS \<and> wm_processedOnce s = REGULAR_JOBS \<and>
     wm_processedTwice s = 0 \<and> wm_failed s = POISON_JOBS \<and> wm_stillPending s = 0 \<and>
     2 \<le> busy \<and> elapsedMs < int REGULAR_JOBS * JOB_DURATION_MS"

lemma list_all2_filter_length:
  "list_all2 R xs ys \<Longrightarrow> (\<And>x y. y \<in> set ys \<Longrightarrow> R x y \<Longrightarrow> P x = Q y) \<Longrightarrow> length (filter P xs) = length (filter Q ys)"
proof (induction rule: list_all2_induct)
  case (Cons x xs y ys)
  have "P x = Q y" using Cons.prems [of y x] Cons.hyps(1) by simp
  moreover have "length (filter P xs) = length (filter Q ys)" using Cons.IH Cons.prems by auto
  ultimately show ?case by simp
qed simp

definition regular_jobs :: "WorkerOptions \<Rightarrow> (json \<Rightarrow> bool) \<Rightarrow> db \<Rightarrow> nat" where
  "regular_jobs opts poison d = count_jobs (wo_queue opts) (\<lambda>j. \<not> poison (j_payload j)) d"

definition poison_jobs :: "WorkerOptions \<Rightarrow> (json \<Rightarrow> bool) \<Rightarrow> db \<Rightarrow> nat" where
  "poison_jobs opts poison d = count_jobs (wo_queue opts) (\<lambda>j. poison (j_payload j)) d"

lemma settled_counts:
  assumes inv: "workers_inv opts poison d0 p" and idle: "\<forall>j \<in> set (jobs (pl_db p)). \<not> is_pending (wo_queue opts) j"
    and m: "wo_maxAttempts opts = MAX_ATTEMPTS"
  shows "workers_counts (wo_queue opts) (pl_db p) = \<lparr>wm_total = regular_jobs opts poison d0 + poison_jobs opts poison d0,
    wm_processedOnce = regular_jobs opts poison d0, wm_processedTwice = 0, wm_failed = poison_jobs opts poison d0,
    wm_stillPending = 0\<rparr>"
proof -
  have rows: "list_all2 (job_so_far opts poison) (jobs d0) (jobs (pl_db p))" using inv by (simp add: workers_inv_def)
  have count: "count_jobs (wo_queue opts) P d0 = count_jobs (wo_queue opts) Q (pl_db p)"
    if "\<And>x y. y \<in> set (jobs (pl_db p)) \<Longrightarrow> job_so_far opts poison x y \<Longrightarrow>
      (j_queue x = wo_queue opts \<and> P x) = (j_queue y = wo_queue opts \<and> Q y)" for P Q
    unfolding count_jobs_def by (rule list_all2_filter_length [OF rows that])
  have one: "regular_jobs opts poison d0 = count_jobs (wo_queue opts) (\<lambda>j. j_status j = JDone \<and> j_processed j = 1) (pl_db p)"
    unfolding regular_jobs_def using idle by (intro count) (auto simp: job_so_far_def is_pending_def split: if_splits)
  have failed: "poison_jobs opts poison d0 =
      count_jobs (wo_queue opts) (\<lambda>j. j_status j = JFailed \<and> j_processed j = 0 \<and> j_attempts j = MAX_ATTEMPTS) (pl_db p)"
    unfolding poison_jobs_def using idle m by (intro count) (auto simp: job_so_far_def is_pending_def split: if_splits)
  have "count_jobs (wo_queue opts) (\<lambda>j. True) d0 = count_jobs (wo_queue opts) (\<lambda>j. True) (pl_db p)"
    by (rule count) (auto simp: job_so_far_def)
  moreover have "count_jobs (wo_queue opts) (\<lambda>j. True) d0 = regular_jobs opts poison d0 + poison_jobs opts poison d0"
  proof -
    have "length (filter A js) = length (filter (\<lambda>j. A j \<and> \<not> B j) js) + length (filter (\<lambda>j. A j \<and> B j) js)" for A B and js :: "Job list"
      by (induction js) auto
    then show ?thesis by (simp add: count_jobs_def regular_jobs_def poison_jobs_def)
  qed
  moreover have "count_jobs (wo_queue opts) (\<lambda>j. False) d0 = count_jobs (wo_queue opts) (\<lambda>j. 1 < j_processed j) (pl_db p)"
    by (rule count) (auto simp: job_so_far_def split: if_splits)
  then have "0 = count_jobs (wo_queue opts) (\<lambda>j. 1 < j_processed j) (pl_db p)" by (simp add: count_jobs_def)
  moreover have "0 = count_jobs (wo_queue opts) (\<lambda>j. j_status j = JPending) (pl_db p)"
    using idle by (auto simp: count_jobs_def is_pending_def filter_empty_conv)
  ultimately show ?thesis using one failed by (simp add: workers_counts_def)
qed

section \<open>Property\<close>

text \<open>
  C39: workers that share a queue of new jobs, with a handler that throws on the poison jobs, always come to
  an end: no run has more steps than two a regular job and two for each of the three attempts of a poison
  job, and where none can go on, no job is pending or held, every regular job was processed exactly once,
  none twice, and every poison job failed after exactly three attempts, however the workers interleaved.
\<close>

theorem workers_settle_queue:
  assumes "fresh_queue opts d" and "wo_maxAttempts opts = MAX_ATTEMPTS" and "names \<noteq> []"
    and "(workers_step opts names (payload_handler poison message) ^^ n) \<lparr>pl_db = d, pl_locks = []\<rparr> p"
  shows "n \<le> 2 * regular_jobs opts poison d + 6 * poison_jobs opts poison d \<and>
    ((\<exists>p'. workers_step opts names (payload_handler poison message) p p') \<or>
     pl_locks p = [] \<and>
     workers_counts (wo_queue opts) (pl_db p) = \<lparr>wm_total = regular_jobs opts poison d + poison_jobs opts poison d,
       wm_processedOnce = regular_jobs opts poison d, wm_processedTwice = 0, wm_failed = poison_jobs opts poison d,
       wm_stillPending = 0\<rparr>)"
proof (rule conjI)
  let ?start = "\<lparr>pl_db = d, pl_locks = []\<rparr>"
  have inv: "workers_inv opts poison d ?start" using workers_inv_start assms(1,2) by (simp add: MAX_ATTEMPTS_def)
  note run = workers_run [OF inv assms(4)]
  have "0 \<le> pool_turns opts poison p" using run by (intro pool_turns_nonneg) (simp add: workers_inv_def)
  moreover have "pool_turns opts poison ?start = 2 * int (regular_jobs opts poison d) + 6 * int (poison_jobs opts poison d)"
  proof -
    have "\<forall>j \<in> set js. j_queue j = wo_queue opts \<longrightarrow> j_status j = JPending \<and> j_attempts j = 0 \<Longrightarrow>
      sum_list (map (turns_left opts poison) js) =
        int (length (filter (\<lambda>j. j_queue j = wo_queue opts \<and> \<not> poison (j_payload j)) js)) +
        3 * int (length (filter (\<lambda>j. j_queue j = wo_queue opts \<and> poison (j_payload j)) js))" for js
      by (induction js) (auto simp: turns_left_def is_pending_def assms(2) MAX_ATTEMPTS_def)
    then show ?thesis
      using assms(1) by (simp add: pool_turns_def regular_jobs_def poison_jobs_def count_jobs_def fresh_queue_def)
  qed
  ultimately show "n \<le> 2 * regular_jobs opts poison d + 6 * poison_jobs opts poison d" using run by linarith
  show "(\<exists>p'. workers_step opts names (payload_handler poison message) p p') \<or> pl_locks p = [] \<and>
     workers_counts (wo_queue opts) (pl_db p) = \<lparr>wm_total = regular_jobs opts poison d + poison_jobs opts poison d,
       wm_processedOnce = regular_jobs opts poison d, wm_processedTwice = 0, wm_failed = poison_jobs opts poison d,
       wm_stillPending = 0\<rparr>"
  proof (cases "\<exists>p'. workers_step opts names (payload_handler poison message) p p'")
    case False
    have inv: "workers_inv opts poison d p" using run by blast
    show ?thesis
      using workers_stand_still(1) [OF inv assms(3) False] settled_counts [OF inv workers_stand_still(2) [OF inv assms(3) False] assms(2)]
      by blast
  qed blast
qed

text \<open>The demonstration: its counts hold; its verdict also asks for two busy workers and for speed.\<close>

theorem workers_settle_queue_witness:
  "\<exists>n p. (workers_step (demo_options ''q'') worker_names demo_handler ^^ n) \<lparr>pl_db = workers_start 7 ''q'' empty_db, pl_locks = []\<rparr> p \<and>
     pl_locks p = [] \<and> workers_verdict (workers_counts ''q'' (pl_db p)) 2 1999"
proof (rule bounded_run_ends [where k = 46])
  fix n p
  let ?d = "workers_start 7 ''q'' empty_db"
  assume run: "(workers_step (demo_options ''q'') worker_names demo_handler ^^ n) \<lparr>pl_db = ?d, pl_locks = []\<rparr> p"
  have fresh: "fresh_queue (demo_options ''q'') ?d" by code_simp
  have few: "regular_jobs (demo_options ''q'') is_poison ?d = 20" "poison_jobs (demo_options ''q'') is_poison ?d = 1" by code_simp+
  have opts: "wo_maxAttempts (demo_options ''q'') = MAX_ATTEMPTS" "wo_queue (demo_options ''q'') = ''q''" "worker_names \<noteq> []"
    by (simp_all add: demo_options_def worker_names_def WORKERS_def)
  show "n \<le> 46 \<and> ((\<exists>p'. workers_step (demo_options ''q'') worker_names demo_handler p p') \<or>
      pl_locks p = [] \<and> workers_verdict (workers_counts ''q'' (pl_db p)) 2 1999)"
    using workers_settle_queue [OF fresh opts(1,3) run [unfolded demo_handler_def]] few opts(2)
    by (auto simp: demo_handler_def workers_verdict_def REGULAR_JOBS_def POISON_JOBS_def JOB_DURATION_MS_def)
qed

end
