(* ===== verification/Demo_Retry.thy ===== *)
theory Demo_Retry
  imports Retry Loops
begin

text \<open>
  Retries against each other (\<open>src/demo/demo-retry.ts\<close> over \<open>src/services/with-retry.ts\<close>): debits of one
  account as REPEATABLE READ transactions that read the balance, wait and write the difference. A
  transaction reads its snapshot; its UPDATE waits for the transaction that has written the row and fails
  with 40001 when the row was committed by another since the snapshot. \<open>dp_version\<close> counts the commits of
  the row. Only the debits write the account.
\<close>

section \<open>The calls\<close>

datatype debit_phase =
    Ready nat
  | Snapshot nat int nat
  | Written nat int
  | Debited nat
  | Thrown nat js_error

record debit_pool =
  dp_db :: db
  dp_version :: nat
  dp_calls :: "debit_phase list"

definition account_balance :: "nat \<Rightarrow> db \<Rightarrow> int option" where
  "account_balance k d = map_option u_balance (select_one (\<lambda>u. u_id u = k) (users d))"

definition write_balance :: "nat \<Rightarrow> int \<Rightarrow> db \<Rightarrow> db" where
  "write_balance k b d = d\<lparr>users := update_where (\<lambda>u. u_id u = k) (\<lambda>u. u\<lparr>u_balance := b\<rparr>) (users d)\<rparr>"

definition serialization_failure :: js_error where
  "serialization_failure = QueryFailedError \<lparr>de_code = ''40001'', de_constraint = None\<rparr>"

text \<open>What \<open>withRetry\<close> does with an error of attempt \<open>k\<close>.\<close>

definition after_error :: "RetryOptions \<Rightarrow> nat \<Rightarrow> js_error \<Rightarrow> debit_phase" where
  "after_error opts k e = (if gives_up (\<lambda>_. None) opts k e then Thrown k e else Ready (Suc k))"

fun debit_next :: "RetryOptions \<Rightarrow> nat \<Rightarrow> int \<Rightarrow> db \<Rightarrow> nat \<Rightarrow> debit_phase \<Rightarrow> debit_phase \<times> db \<times> nat" where
  "debit_next opts account amount d version (Ready k) =
     (case account_balance account d of
        None \<Rightarrow> (after_error opts k (Foreign ''TypeError''), d, version)
      | Some b \<Rightarrow> (Snapshot k b version, d, version))"
| "debit_next opts account amount d version (Snapshot k b v) =
     (if v \<noteq> version then (after_error opts k serialization_failure, d, version)
      else if b - amount < 0 then (after_error opts k (violation ''23514'' ''users_balance_check''), d, version)
      else (Written k (b - amount), d, version))"
| "debit_next opts account amount d version (Written k b) = (Debited k, write_balance account b d, Suc version)"
| "debit_next opts account amount d version ph = (ph, d, version)"

fun returned :: "debit_phase \<Rightarrow> bool" where
  "returned (Debited k) = True"
| "returned (Thrown k e) = True"
| "returned ph = False"

fun has_written :: "debit_phase \<Rightarrow> bool" where
  "has_written (Written k b) = True"
| "has_written ph = False"

fun writes_next :: "debit_phase \<Rightarrow> bool" where
  "writes_next (Snapshot k b v) = True"
| "writes_next ph = False"

inductive debit_step :: "RetryOptions \<Rightarrow> nat \<Rightarrow> int \<Rightarrow> debit_pool \<Rightarrow> debit_pool \<Rightarrow> bool" for opts account amount where
  debit_statement: "debit_step opts account amount \<lparr>dp_db = d, dp_version = v, dp_calls = cs\<rparr>
      \<lparr>dp_db = d', dp_version = v', dp_calls = cs[i := ph']\<rparr>"
    if "i < length cs" and "\<not> returned (cs ! i)" and "writes_next (cs ! i) \<Longrightarrow> \<forall>ph \<in> set cs. \<not> has_written ph"
      and "debit_next opts account amount d v (cs ! i) = (ph', d', v')"

inductive_cases debit_step_cases: "debit_step opts account amount s t"

definition start_debits :: "nat \<Rightarrow> db \<Rightarrow> debit_pool" where
  "start_debits n d = \<lparr>dp_db = d, dp_version = 0, dp_calls = replicate n (Ready 1)\<rparr>"

section \<open>The invariant\<close>

fun debited :: "debit_phase \<Rightarrow> bool" where
  "debited (Debited k) = True"
| "debited ph = False"

definition debits :: "debit_phase list \<Rightarrow> nat" where
  "debits cs = length (filter debited cs)"

text \<open>Every failed attempt of a call has seen another debit commit.\<close>

fun phase_ok :: "int \<Rightarrow> int \<Rightarrow> nat \<Rightarrow> debit_phase \<Rightarrow> bool" where
  "phase_ok b amount v (Ready k) \<longleftrightarrow> k \<le> Suc v"
| "phase_ok b amount v (Snapshot k r w) \<longleftrightarrow> k \<le> Suc w \<and> w \<le> v \<and> (w = v \<longrightarrow> r = b)"
| "phase_ok b amount v (Written k r) \<longleftrightarrow> k \<le> Suc v \<and> r = b - amount"
| "phase_ok b amount v (Debited k) \<longleftrightarrow> True"
| "phase_ok b amount v (Thrown k e) \<longleftrightarrow> False"

definition debits_ok :: "nat \<Rightarrow> int \<Rightarrow> int \<Rightarrow> nat \<Rightarrow> debit_pool \<Rightarrow> bool" where
  "debits_ok account amount B n s \<longleftrightarrow> length (dp_calls s) = n \<and> dp_version s = debits (dp_calls s) \<and>
     account_balance account (dp_db s) = Some (B - amount * int (debits (dp_calls s))) \<and>
     (\<forall>ph \<in> set (dp_calls s). phase_ok (B - amount * int (debits (dp_calls s))) amount (dp_version s) ph) \<and>
     length (filter has_written (dp_calls s)) \<le> 1"

lemma balance_write: "account_balance k d = Some b \<Longrightarrow> account_balance k (write_balance k b' d) = Some b'"
proof -
  have look: "select_one (\<lambda>u. u_id u = k) (update_where (\<lambda>u. u_id u = k) (\<lambda>u. u\<lparr>u_balance := b'\<rparr>) us) =
      map_option (\<lambda>u. u\<lparr>u_balance := b'\<rparr>) (select_one (\<lambda>u. u_id u = k) us)" for us
    by (induction us) (simp_all add: select_one_def)
  assume "account_balance k d = Some b"
  then obtain u where "select_one (\<lambda>u. u_id u = k) (users d) = Some u" by (auto simp: account_balance_def)
  then show ?thesis using look [of "users d"] by (simp add: account_balance_def write_balance_def)
qed

lemma filter_update_length:
  "i < length xs \<Longrightarrow> length (filter P (xs[i := x])) + (if P (xs ! i) then 1 else 0) =
    length (filter P xs) + (if P x then 1 else 0)"
proof (induction xs arbitrary: i)
  case (Cons y ys)
  then show ?case by (cases i) fastforce+
qed simp

lemma no_give_up: "k < ro_maxAttempts opts \<Longrightarrow> after_error opts k serialization_failure = Ready (Suc k)"
  by (simp add: after_error_def gives_up_def serialization_failure_def RETRYABLE_CODES_def)

lemma debits_less: "i < length cs \<Longrightarrow> \<not> debited (cs ! i) \<Longrightarrow> debits cs < length cs"
  unfolding debits_def by (metis length_filter_less nth_mem)

lemma debits_update:
  "i < length cs \<Longrightarrow> \<not> returned (cs ! i) \<Longrightarrow> debits (cs[i := ph]) = debits cs + (if debited ph then 1 else 0)"
  using filter_update_length [of i cs debited ph] by (cases "cs ! i") (auto simp: debits_def)

lemma phase_ok_commit: "phase_ok b amount v ph \<Longrightarrow> \<not> has_written ph \<Longrightarrow> phase_ok b' amount (Suc v) ph"
  by (cases ph) auto

lemma only_writer:
  assumes "length (filter P xs) \<le> 1" and "i < length xs" and "P (xs ! i)" and "j < length xs" and "j \<noteq> i"
  shows "\<not> P (xs ! j)"
proof
  assume "P (xs ! j)"
  with assms have "{i, j} \<subseteq> {k. k < length xs \<and> P (xs ! k)}" by simp
  then have "card {i, j} \<le> length (filter P xs)" unfolding length_filter_conv_card by (intro card_mono) auto
  with assms(1,5) show False by simp
qed

lemma debit_step_ok:
  assumes ok: "debits_ok account amount B n s" and step: "debit_step opts account amount s t"
    and enough: "n \<le> ro_maxAttempts opts" "amount * int n \<le> B" "0 \<le> amount"
  shows "debits_ok account amount B n t"
  using step
proof cases
  case (debit_statement i cs d v ph' d' v')
  let ?b = "B - amount * int (debits cs)"
  have inv: "length cs = n" "v = debits cs" "account_balance account d = Some ?b" "\<forall>ph \<in> set cs. phase_ok ?b amount v ph"
    "length (filter has_written cs) \<le> 1"
    using ok debit_statement(1) by (auto simp: debits_ok_def)
  have mine: "phase_ok ?b amount v (cs ! i)" using inv(4) debit_statement(3) nth_mem by blast
  have less: "v < n"
    using debits_less [OF debit_statement(3)] debit_statement(4) inv(1,2) by (cases "cs ! i") auto
  have money: "0 \<le> ?b - amount"
  proof -
    have "amount * (int (debits cs) + 1) \<le> amount * int n" using less inv(2) enough(3) by (intro mult_left_mono) auto
    then show ?thesis using enough(2) by (simp add: algebra_simps)
  qed
  note upd = debits_update [OF debit_statement(3,4), of ph']
  have rest: "ph \<in> set (cs[i := ph']) \<Longrightarrow> ph = ph' \<or> (\<exists>j < length cs. j \<noteq> i \<and> ph = cs ! j)" for ph
    by (metis in_set_conv_nth length_list_update nth_list_update_eq nth_list_update_neq)
  have writer: "length (filter has_written (cs[i := ph'])) + (if has_written (cs ! i) then 1 else 0) =
      length (filter has_written cs) + (if has_written ph' then 1 else 0)"
    by (rule filter_update_length [OF debit_statement(3)])
  show ?thesis
  proof (cases "cs ! i")
    case (Ready k)
    with debit_statement(6) inv(3) have "ph' = Snapshot k ?b v" "d' = d" "v' = v" by auto
    with inv mine upd writer Ready rest show ?thesis unfolding debit_statement(2) debits_ok_def
      by (fastforce dest: nth_mem)
  next
    case (Snapshot k r w)
    show ?thesis
    proof (cases "w = v")
      case True
      with Snapshot debit_statement(6) mine money have new: "ph' = Written k (?b - amount)" "d' = d" "v' = v" by auto
      have "length (filter has_written cs) = 0" using debit_statement(5) Snapshot by (simp add: filter_empty_conv)
      with inv mine upd writer Snapshot rest new True show ?thesis unfolding debit_statement(2) debits_ok_def
        by (fastforce dest: nth_mem)
    next
      case False
      with Snapshot mine less enough(1) have "k < ro_maxAttempts opts" "k \<le> v" by simp_all
      with False Snapshot debit_statement(6) have "ph' = Ready (Suc k)" "d' = d" "v' = v" by (auto simp: no_give_up)
      with inv mine upd writer Snapshot rest \<open>k \<le> v\<close> show ?thesis unfolding debit_statement(2) debits_ok_def
        by (fastforce dest: nth_mem)
    qed
  next
    case (Written k r)
    with debit_statement(6) mine have new: "ph' = Debited k" "d' = write_balance account (?b - amount) d" "v' = Suc v" by auto
    have others: "\<not> has_written (cs ! j)" if "j < length cs" "j \<noteq> i" for j
      using only_writer [OF inv(5) debit_statement(3) _ that] Written by simp
    have "phase_ok (?b - amount) amount (Suc v) ph" if "ph \<in> set (cs[i := ph'])" for ph
      using rest [OF that] new(1) phase_ok_commit [OF bspec [OF inv(4) nth_mem] others] by auto
    moreover have "B - amount * int (debits (cs[i := ph'])) = ?b - amount" using upd new(1) by (simp add: algebra_simps)
    ultimately have "\<forall>ph \<in> set (cs[i := ph']). phase_ok (B - amount * int (debits (cs[i := ph']))) amount (Suc v) ph"
      and "account_balance account d' = Some (B - amount * int (debits (cs[i := ph'])))"
      using new(2) balance_write [OF inv(3)] by metis+
    moreover have "Suc v = debits (cs[i := ph'])" using upd new(1) inv(2) by simp
    moreover have "length (filter has_written (cs[i := ph'])) \<le> 1" using writer inv(5) new(1) by simp
    ultimately show ?thesis
      using inv(1) unfolding debit_statement(2) debits_ok_def new(3) by simp
  qed (use debit_statement(4) in simp_all)
qed

section \<open>An end\<close>

text \<open>Of the at most \<open>n\<close> attempts of a call each takes three statements.\<close>

fun statements_to_go :: "nat \<Rightarrow> debit_phase \<Rightarrow> nat" where
  "statements_to_go n (Ready k) = 3 * (n - k) + 3"
| "statements_to_go n (Snapshot k b v) = 3 * (n - k) + 2"
| "statements_to_go n (Written k b) = 3 * (n - k) + 1"
| "statements_to_go n ph = 0"

definition debits_to_go :: "nat \<Rightarrow> debit_pool \<Rightarrow> nat" where
  "debits_to_go n s = sum_list (map (statements_to_go n) (dp_calls s))"

lemma sum_list_update_less:
  "i < length xs \<Longrightarrow> f x < f (xs ! i) \<Longrightarrow> sum_list (map f (xs[i := x])) < (sum_list (map f xs) :: nat)"
proof (induction xs arbitrary: i)
  case (Cons y ys)
  then show ?case by (cases i) auto
qed simp

lemma debit_step_shrinks:
  assumes ok: "debits_ok account amount B n s" and step: "debit_step opts account amount s t"
    and enough: "n \<le> ro_maxAttempts opts" "amount * int n \<le> B" "0 \<le> amount"
  shows "debits_to_go n t < debits_to_go n s"
  using step
proof cases
  case (debit_statement i cs d v ph' d' v')
  have "debits_ok account amount B n t" by (rule debit_step_ok [OF ok step enough])
  then have "phase_ok (B - amount * int (debits (cs[i := ph']))) amount v' ph'" "v' = debits (cs[i := ph'])" "length cs = n"
    using debit_statement(2,3) by (auto simp: debits_ok_def set_update_memI)
  moreover have "phase_ok (B - amount * int (debits cs)) amount v (cs ! i)" "v = debits cs"
    using ok debit_statement(1,3) by (auto simp: debits_ok_def)
  moreover have "v < n" using debits_less [OF debit_statement(3)] debit_statement(4) calculation by (cases "cs ! i") auto
  ultimately have "statements_to_go n ph' < statements_to_go n (cs ! i)"
    using debit_statement(4,6) by (cases "cs ! i"; cases ph')
      (auto simp: after_error_def split: if_splits option.splits)
  then show ?thesis
    using sum_list_update_less [OF debit_statement(3)] by (simp add: debits_to_go_def debit_statement(1,2))
qed

lemma debits_start_ok: "account_balance account d = Some B \<Longrightarrow> debits_ok account amount B n (start_debits n d)"
  by (auto simp: debits_ok_def start_debits_def debits_def)

lemma debits_run:
  assumes "account_balance account d = Some B" and "n \<le> ro_maxAttempts opts" and "amount * int n \<le> B" and "0 \<le> amount"
    and "(debit_step opts account amount ^^ m) (start_debits n d) s"
  shows "debits_ok account amount B n s \<and> m + debits_to_go n s \<le> 3 * n * n"
  using assms(5)
proof (induction m arbitrary: s)
  case 0
  have "3 * n * n = debits_to_go n (start_debits n d)"
    by (cases n) (simp_all add: debits_to_go_def start_debits_def sum_list_replicate algebra_simps)
  with 0 debits_start_ok [OF assms(1)] show ?case by auto
next
  case (Suc m)
  then obtain r where r: "(debit_step opts account amount ^^ m) (start_debits n d) r" "debit_step opts account amount r s" by auto
  from Suc.IH [OF r(1)] debit_step_ok [OF _ r(2) assms(2-4)] debit_step_shrinks [OF _ r(2) assms(2-4)] show ?case by fastforce
qed

lemma debits_stand_still:
  assumes ok: "debits_ok account amount B n s" and stuck: "\<nexists>t. debit_step opts account amount s t"
  shows "\<forall>ph \<in> set (dp_calls s). debited ph"
proof (rule ccontr)
  obtain d v cs where s: "s = \<lparr>dp_db = d, dp_version = v, dp_calls = cs\<rparr>" by (cases s)
  have moves: False if "i < length cs" "\<not> returned (cs ! i)" "writes_next (cs ! i) \<Longrightarrow> \<forall>ph \<in> set cs. \<not> has_written ph" for i
    using stuck debit_step.debit_statement [of i cs opts account amount d v] that unfolding s by (metis prod_cases3)
  assume "\<not> ?thesis"
  then obtain i where i: "i < length cs" "\<not> debited (cs ! i)" by (auto simp: s in_set_conv_nth)
  have "phase_ok (B - amount * int (debits cs)) amount v (cs ! i)" using ok i(1) by (auto simp: s debits_ok_def)
  then have open_call: "\<not> returned (cs ! i)" using i(2) by (cases "cs ! i") auto
  show False
  proof (cases "\<exists>ph \<in> set cs. has_written ph")
    case True
    then obtain j where "j < length cs" "has_written (cs ! j)" by (auto simp: in_set_conv_nth)
    then show False using moves [of j] by (cases "cs ! j") auto
  qed (use moves [OF i(1) open_call] in blast)
qed

section \<open>Property\<close>

text \<open>
  C40: debits that race on one account never lose an update: at every moment the balance is what the
  debits that have returned leave. With no more of them than attempts no call gives up: each failed attempt
  is one another call has overtaken. So all end, within three statements for each of \<open>n\<close> attempts of
  \<open>n\<close> calls, with every debit applied exactly once.
\<close>

theorem retried_debits_all_apply:
  assumes "account_balance account d = Some B" and "n \<le> ro_maxAttempts opts" and "amount * int n \<le> B" and "0 \<le> amount"
    and "(debit_step opts account amount ^^ m) (start_debits n d) s"
  shows "m \<le> 3 * n * n \<and> account_balance account (dp_db s) = Some (B - amount * int (debits (dp_calls s))) \<and>
    ((\<exists>t. debit_step opts account amount s t) \<or>
     list_all debited (dp_calls s) \<and> account_balance account (dp_db s) = Some (B - amount * int n))"
proof -
  have run: "debits_ok account amount B n s" "m \<le> 3 * n * n" using debits_run [OF assms] by auto
  have "debits (dp_calls s) = n" if "list_all debited (dp_calls s)"
  proof -
    have "filter debited (dp_calls s) = dp_calls s" using that by (simp add: list_all_iff filter_id_conv)
    then show ?thesis using run(1) by (simp add: debits_def debits_ok_def)
  qed
  then show ?thesis
    using run debits_stand_still [OF run(1)] by (auto simp: debits_ok_def list_all_iff)
qed

definition CONCURRENT_DEBITS :: nat where "CONCURRENT_DEBITS = 3"
definition DEBIT_AMOUNT :: int where "DEBIT_AMOUNT = 10000"
definition INITIAL_BALANCE :: int where "INITIAL_BALANCE = 1000000"

definition retry_account :: User where
  "retry_account = \<lparr>u_id = 7, u_email = ''retry-demo@example.com'', u_phone = ''+380980000001'', u_name = ''Retry Demo'',
     u_balance = INITIAL_BALANCE, u_passwordHash = None, u_role = buyer, u_createdAt = 0\<rparr>"

text \<open>The verdict also asks that some attempt failed, which the interleaving decides.\<close>

definition retry_verdict :: "int \<Rightarrow> nat \<Rightarrow> bool" where
  "retry_verdict finalBalance retries \<longleftrightarrow> finalBalance = INITIAL_BALANCE - int CONCURRENT_DEBITS * DEBIT_AMOUNT \<and> 1 \<le> retries"

theorem retried_debits_all_apply_witness:
  "\<exists>m s. (debit_step DEFAULT_RETRY 7 DEBIT_AMOUNT ^^ m) (start_debits CONCURRENT_DEBITS (empty_db\<lparr>users := [retry_account]\<rparr>)) s \<and>
     list_all debited (dp_calls s) \<and> (\<exists>b. account_balance 7 (dp_db s) = Some b \<and> retry_verdict b 1)"
proof (rule bounded_run_ends [where k = 27])
  fix m s
  let ?d = "empty_db\<lparr>users := [retry_account]\<rparr>"
  assume run: "(debit_step DEFAULT_RETRY 7 DEBIT_AMOUNT ^^ m) (start_debits CONCURRENT_DEBITS ?d) s"
  have "account_balance 7 ?d = Some INITIAL_BALANCE" by code_simp
  from retried_debits_all_apply [OF this _ _ _ run]
  show "m \<le> 27 \<and> ((\<exists>t. debit_step DEFAULT_RETRY 7 DEBIT_AMOUNT s t) \<or>
      list_all debited (dp_calls s) \<and> (\<exists>b. account_balance 7 (dp_db s) = Some b \<and> retry_verdict b 1))"
    by (auto simp: DEFAULT_RETRY_def CONCURRENT_DEBITS_def DEBIT_AMOUNT_def INITIAL_BALANCE_def retry_verdict_def)
qed

end
