(* ===== verification/Maintenance.thy ===== *)
theory Maintenance
  imports Schema
begin

text \<open>
  The tasks \<open>src/auth/auth-maintenance.ts\<close> runs beside the server: when it starts the copy of the revoked
  sessions and the cleanup of the refresh tokens, that each runs at most once at a time, and how it stops.
  What the tasks do is modelled in \<open>Denylist\<close> and \<open>Auth\<close>; here they are names. Events come in any order.
\<close>

section \<open>State\<close>

definition REVOKED_SESSIONS_SYNC_INTERVAL_MS :: int where "REVOKED_SESSIONS_SYNC_INTERVAL_MS = 5000"
definition REFRESH_TOKENS_CLEANUP_INTERVAL_MS :: int where "REFRESH_TOKENS_CLEANUP_INTERVAL_MS = 60 * 60 * 1000"

datatype maintenance_task = revoked_sessions_sync | refresh_tokens_cleanup

text \<open>The bootstrap waits for the first copy before it goes on.\<close>

datatype bootstrap = not_started | first_copy | bootstrapped

record AuthMaintenance =
  am_running :: "maintenance_task list"
  am_timers :: "(maintenance_task \<times> int) list"
  am_stopped :: bool
  am_bootstrap :: bootstrap
  am_started :: "maintenance_task list"
  am_warnings :: "(maintenance_task \<times> string) list"

definition new_maintenance :: AuthMaintenance where
  "new_maintenance = \<lparr>am_running = [], am_timers = [], am_stopped = False, am_bootstrap = not_started, am_started = [], am_warnings = []\<rparr>"

section \<open>Operations\<close>

definition launch :: "maintenance_task \<Rightarrow> AuthMaintenance \<Rightarrow> AuthMaintenance" where
  "launch task m = (if task \<in> set (am_running m) \<or> am_stopped m then m
     else m\<lparr>am_running := am_running m @ [task], am_started := am_started m @ [task]\<rparr>)"

definition every :: "int \<Rightarrow> maintenance_task \<Rightarrow> AuthMaintenance \<Rightarrow> AuthMaintenance" where
  "every interval task m = m\<lparr>am_timers := am_timers m @ [(task, interval)]\<rparr>"

definition finish_bootstrap :: "AuthMaintenance \<Rightarrow> AuthMaintenance" where
  "finish_bootstrap m =
     every REFRESH_TOKENS_CLEANUP_INTERVAL_MS refresh_tokens_cleanup
       (every REVOKED_SESSIONS_SYNC_INTERVAL_MS revoked_sessions_sync
         (launch refresh_tokens_cleanup (m\<lparr>am_bootstrap := bootstrapped\<rparr>)))"

datatype maintenance_event =
    Bootstrap
  | RedisReady
  | TimerFires maintenance_task
  | TaskEnds maintenance_task "string option"
  | ModuleDestroy

text \<open>
  A task that ends leaves \<open>running\<close>, and its error is logged unless the module has stopped; the end of
  the copy the bootstrap awaits lets the bootstrap go on. A launch that returns at once lets it go on, too.
\<close>

fun on_event :: "maintenance_event \<Rightarrow> AuthMaintenance \<Rightarrow> AuthMaintenance" where
  "on_event Bootstrap m =
     (if am_bootstrap m \<noteq> not_started then m
      else if am_stopped m then finish_bootstrap m
      else (launch revoked_sessions_sync m)\<lparr>am_bootstrap := first_copy\<rparr>)"
| "on_event RedisReady m =
     (if am_bootstrap m = not_started then m else launch revoked_sessions_sync m)"
| "on_event (TimerFires task) m = (if task \<in> fst ` set (am_timers m) then launch task m else m)"
| "on_event (TaskEnds task err) m =
     (if task \<notin> set (am_running m) then m
      else let m' = m\<lparr>am_running := removeAll task (am_running m),
             am_warnings := am_warnings m @ (case err of None \<Rightarrow> [] | Some e \<Rightarrow> if am_stopped m then [] else [(task, e)])\<rparr>
        in if am_bootstrap m = first_copy \<and> task = revoked_sessions_sync then finish_bootstrap m' else m')"
| "on_event ModuleDestroy m = m\<lparr>am_stopped := True, am_timers := []\<rparr>"

definition maintenance_run :: "maintenance_event list \<Rightarrow> AuthMaintenance \<Rightarrow> AuthMaintenance" where
  "maintenance_run es m = fold on_event es m"

lemma maintenance_run_simps [simp]:
  "maintenance_run [] m = m" "maintenance_run (e # es) m = maintenance_run es (on_event e m)"
  "maintenance_run (es @ fs) m = maintenance_run fs (maintenance_run es m)"
  by (simp_all add: maintenance_run_def)

section \<open>One at a time, and none after the stop\<close>

lemma launch_single: "distinct (am_running m) \<Longrightarrow> distinct (am_running (launch task m))"
  by (simp add: launch_def)

lemma event_single: "distinct (am_running m) \<Longrightarrow> distinct (am_running (on_event e m))"
  by (cases e) (auto simp: launch_single finish_bootstrap_def every_def distinct_removeAll Let_def launch_def)

lemma tasks_run_once: "distinct (am_running (maintenance_run es new_maintenance))"
proof -
  have "distinct (am_running m) \<Longrightarrow> distinct (am_running (maintenance_run es m))" for m
    by (induction es arbitrary: m) (simp_all add: event_single)
  then show ?thesis by (simp add: new_maintenance_def)
qed

lemma launch_stopped [simp]: "am_stopped m \<Longrightarrow> launch task m = m"
  by (simp add: launch_def)

lemma event_stopped:
  "am_stopped m \<Longrightarrow> am_stopped (on_event e m) \<and> am_started (on_event e m) = am_started m \<and>
    set (am_running (on_event e m)) \<subseteq> set (am_running m) \<and> am_warnings (on_event e m) = am_warnings m"
  by (cases e) (auto simp: finish_bootstrap_def every_def Let_def split: option.splits)

lemma nothing_after_stop:
  assumes "m = maintenance_run (es @ [ModuleDestroy]) new_maintenance"
  shows "am_started (maintenance_run fs m) = am_started m \<and> set (am_running (maintenance_run fs m)) \<subseteq> set (am_running m) \<and>
    am_warnings (maintenance_run fs m) = am_warnings m"
proof -
  have "am_stopped n \<Longrightarrow> am_started (maintenance_run fs n) = am_started n \<and> set (am_running (maintenance_run fs n)) \<subseteq> set (am_running n) \<and>
    am_warnings (maintenance_run fs n) = am_warnings n" for n
  proof (induction fs arbitrary: n)
    case (Cons f fs)
    then show ?case using event_stopped [of n f] Cons.IH [of "on_event f n"] by auto
  qed simp
  moreover have "am_stopped m" by (simp add: assms)
  ultimately show ?thesis by blast
qed

text \<open>Every timer and every ready connection starts its task unless it is running.\<close>

lemma timer_starts:
  assumes "\<not> am_stopped m" and "task \<in> fst ` set (am_timers m)"
  shows "task \<in> set (am_running (on_event (TimerFires task) m))"
  using assms by (simp add: launch_def)

definition timers_set :: "AuthMaintenance \<Rightarrow> bool" where
  "timers_set m \<longleftrightarrow> \<not> am_stopped m \<and> set (am_timers m) = (if am_bootstrap m = bootstrapped
     then {(revoked_sessions_sync, 5000), (refresh_tokens_cleanup, 3600000)} else {})"

lemma timers_launch [simp]: "timers_set (launch task m) = timers_set m"
  by (simp add: launch_def timers_set_def)

lemma timers_event: "timers_set m \<Longrightarrow> e \<noteq> ModuleDestroy \<Longrightarrow> timers_set (on_event e m)"
  by (cases e; cases "am_bootstrap m")
    (auto simp: finish_bootstrap_def every_def launch_def Let_def timers_set_def REVOKED_SESSIONS_SYNC_INTERVAL_MS_def
      REFRESH_TOKENS_CLEANUP_INTERVAL_MS_def)

lemma bootstrapped_timers:
  assumes "am_bootstrap (maintenance_run es new_maintenance) = bootstrapped" and "ModuleDestroy \<notin> set es"
  shows "set (am_timers (maintenance_run es new_maintenance)) =
    {(revoked_sessions_sync, 5000), (refresh_tokens_cleanup, 3600000)}"
proof -
  have "ModuleDestroy \<notin> set es \<Longrightarrow> timers_set m \<Longrightarrow> timers_set (maintenance_run es m)" for m
    by (induction es arbitrary: m) (auto simp: timers_event)
  moreover have "timers_set new_maintenance" by (simp add: timers_set_def new_maintenance_def)
  ultimately show ?thesis using assms by (simp add: timers_set_def)
qed

text \<open>A connection that comes back while a copy is running starts none: that copy goes on with what it read.\<close>

lemma ready_during_copy_dropped:
  "am_started (maintenance_run [Bootstrap, TaskEnds revoked_sessions_sync None, TimerFires revoked_sessions_sync, RedisReady,
     TaskEnds revoked_sessions_sync None] new_maintenance) =
   [revoked_sessions_sync, refresh_tokens_cleanup, revoked_sessions_sync]"
  by code_simp

section \<open>Health\<close>

text \<open>
  \<open>src/controllers/health.controller.ts\<close>: the value \<open>SELECT 1 AS ok\<close> gave, or None when the query threw;
  the status, whether the body says the database is up, and the uptime it shows.
\<close>

definition health_check :: "int option \<Rightarrow> int \<Rightarrow> nat \<times> string \<times> bool \<times> int option" where
  "health_check answer uptime = (case answer of
     Some ok \<Rightarrow> (200, ''ok'', ok = 1, Some uptime)
   | None \<Rightarrow> (503, ''error'', False, None))"

end
