(* ===== verification/Spec2Isabelle.thy ===== *)
theory Spec2Isabelle
  imports Checkout_Theorems Orders_Theorems OrderEvents_Replay OrderStatusService Jobs_Theorems
    Pipeline_Theorems Retry RateLimiter Access_Theorems Idempotency_Theorems ProductCards_Theorems
    Products_Theorems Http_Theorems Demo_Race Config_Theorems
    Auth_Concurrent_Theorems Declared Relay_Process Demo_Workers Demo_Retry Maintenance
begin

text \<open>
  A verification library of the marketplace backend under \<open>src/src\<close>: a NestJS server over Postgres
  (TypeORM), two Redis instances (cache and state), RabbitMQ and BullMQ. Buyers check out carts and
  follow their orders; sellers create products and move orders along their statuses; background
  processes issue receipts, refresh cached product cards and keep the token denylist complete.

  \<^bold>\<open>How the parts interact.\<close> \<open>checkout\<close> is one transaction that lowers stock and balance and inserts the
  order, its items, a job and an outbox row. \<open>place\<close> wraps it for retries under an idempotency key. The
  relay publishes outbox rows to the broker, the consumer turns each message into one receipt. A status
  change updates the order, publishes an event to the log that server-sent events and sockets read, and
  queues refreshes of the cards of the order's products. Access tokens are checked against keys and
  against a denylist in Redis, which is restored from the refresh tokens in Postgres.

  \<^bold>\<open>Theories and sources\<close> (paths under \<open>src/src\<close>).

  \<^item> \<open>Prelude\<close>: results and errors as sums, actions on a state, decimal strings, JavaScript numbers and
    \<open>Number\<close> as IEEE doubles, SQL parameters, table operations. \<open>Guarded\<close>: the conditional decrement as a
    locale, interpreted on stock and on balance. \<open>Locking\<close>: row locks of concurrent transactions as a locale,
    interpreted on the statements of checkouts and of sessions. \<open>Loops\<close>: batch and retry loops on fuel, with a locale for
    loops that make progress. \<open>Json\<close>: JSON values and the event of \<open>messaging/order-placed.event.ts\<close>.
  \<^item> \<open>Schema\<close>: \<open>entities/\<close>, every table a list of records in insertion order, the constraints \<open>db_ok\<close>, identity
    sequences, transactions with rollback.
  \<^item> \<open>Migrations\<close>, \<open>Entities\<close>, \<open>Migrations_Theorems\<close>, \<open>Declared\<close>: \<open>migrations/\<close> as DDL data run on a catalogue, the
    decorators of \<open>entities/\<close> as data, \<open>database/options.ts\<close>; both describe one schema, every migration can be
    taken back, and rows the migrated database admits meet the invariant of \<open>Schema\<close>.
  \<^item> \<open>Checkout\<close>, \<open>Checkout_Reserve\<close>, \<open>Checkout_Facts\<close>, \<open>Checkout_Ledger\<close>, \<open>Checkout_Theorems\<close>:
    \<open>services/checkout.service.ts\<close>; a specification of the accepted carts and of the state they leave, the
    refinement, the ledgers of goods and money, atomicity and the meaning of the errors.
    \<open>Checkout_Concurrent\<close>, \<open>Checkout_Statements\<close>, \<open>Checkout_Concurrent_Theorems\<close>: checkouts interleaved
    statement by statement with row locks, where an INSERT draws its identity values when it runs and the
    COMMIT makes the rows visible. A transaction that took its statements one at a time ends as a serial
    checkout at the values it drew; so the runs are serializable up to these values, and without deadlock
    while product ids are exact as numbers.
  \<^item> \<open>Orders\<close>, \<open>Orders_Same\<close>, \<open>Orders_Theorems\<close>: \<open>services/place-order.service.ts\<close>,
    \<open>repositories/orders.repository.ts\<close>, \<open>queue/product-card-refresher.ts\<close>; when two requests count as the
    same, and idempotent placement with other clients' commits in every gap. A retry is replayed when its
    product ids are written as the tables print them; one with a leading zero is refused, not repeated.
  \<^item> \<open>OrderEvents\<close>, \<open>OrderEvents_Replay\<close>, \<open>OrderStatusService\<close>: \<open>services/order-events.service.ts\<close> and
    \<open>services/order-status.service.ts\<close>; the bounded log (100 events an order, 1000 orders), what a client
    missed and what of it the buffers still hold, the status machine.
  \<^item> \<open>Jobs\<close>, \<open>Jobs_Theorems\<close>: \<open>services/job-worker.service.ts\<close>; draining, and concurrent workers as a step
    relation with row locks.
  \<^item> \<open>Messaging\<close>, \<open>Messaging_Theorems\<close>, \<open>Consumer\<close>, \<open>Pipeline\<close>, \<open>Pipeline_Theorems\<close>: \<open>messaging/\<close>; relay,
    publisher, cleanup, consumer, and all of them with checkouts, redeliveries, crashes and dead letters
    as one step relation whose invariant gives exactly one receipt per order in a shop that started without
    orders. Dead letters are kept as a history; whether one reaches \<open>shop.dlq\<close>, which the broker promises at
    most once, is left open. \<open>Relay_Process\<close>: the loop of
    \<open>relay.ts\<close>, which works off the backlog and stops between two rounds.
  \<^item> \<open>Retry\<close>: \<open>services/with-retry.ts\<close>. \<open>RateLimiter\<close>: \<open>services/rate-limiter.service.ts\<close> with its Lua script,
    \<open>http/rate-limit.guard.ts\<close>.
  \<^item> \<open>Auth\<close>, \<open>Auth_Theorems\<close>: \<open>auth/auth.service.ts\<close>, \<open>auth/password.ts\<close>, \<open>auth/token.service.ts\<close>, the cleanup
    of \<open>auth/auth-maintenance.ts\<close>; rotation with reuse detection over arbitrary runs of calls.
    \<open>Auth_Concurrent\<close>, \<open>Auth_Concurrent_Theorems\<close>: refreshes, logouts and logins interleaved statement by
    statement; a token rotates once, and a revoked session stays closed when a refresh raced with it.
  \<^item> \<open>Denylist\<close>, \<open>Denylist_Theorems\<close>: \<open>auth/access-denylist.ts\<close> and the sync; commands, failures, broken
    connections and overlapping syncs of one process as a step relation with one clock.
  \<^item> \<open>Access\<close>, \<open>Access_Theorems\<close>: \<open>auth/verification-keys.ts\<close>, \<open>auth/access-authenticator.ts\<close>, the guards;
    a revoked session is refused after any interleaving.
  \<^item> \<open>Idempotency\<close>, \<open>Idempotency_Theorems\<close>: \<open>services/idempotency.service.ts\<close>; canonical JSON decides equality
    up to the order of properties, and creation once per key without overlaps.
  \<^item> \<open>Products\<close>, \<open>Products_Theorems\<close>: \<open>repositories/products.repository.ts\<close>, \<open>report.ts\<close>, \<open>redis/lock.ts\<close>; the
    revenue report against the orders.
  \<^item> \<open>ProductCards\<close>, \<open>ProductCards_Theorems\<close>: \<open>services/product-card.service.ts\<close>, \<open>redis/cache.ts\<close>, the
    processor of \<open>queue/product-cards.queue.ts\<close>; termination; every card
    returned or cached is the card of a database some query has seen; mutual exclusion.
  \<^item> \<open>Http\<close>, \<open>Gateway\<close>, \<open>Http_Theorems\<close>: \<open>controllers/\<close>, \<open>http/problem.filter.ts\<close>,
    \<open>services/session.service.ts\<close>, \<open>gateways/orders.gateway.ts\<close>; answers by owner, confidentiality of other
    buyers' orders, and what a resumed stream writes and what it has lost to the bounded buffers.
  \<^item> \<open>Seed\<close>, \<open>Seed_Theorems\<close>: \<open>seed.ts\<close>; what a run establishes, and that another run changes nothing.
    \<open>Demo_Race\<close>, \<open>Demo_Workers\<close>, \<open>Demo_Retry\<close>: \<open>demo/demo-race.ts\<close>, \<open>demo/demo-workers.ts\<close> and \<open>demo/demo-retry.ts\<close>,
    each a pool of concurrent calls of one service that comes to an end with the counts its script expects,
    however the calls interleave.
  \<^item> \<open>Maintenance\<close>: when \<open>auth/auth-maintenance.ts\<close> starts its tasks, one run of each at a time and none after
    the stop; \<open>controllers/health.controller.ts\<close>.
  \<^item> \<open>Config\<close>, \<open>Config_Theorems\<close>: \<open>config/env.schema.ts\<close> and the connection of \<open>database/database.module.ts\<close>;
    which environments are accepted, and the rotation of the signing key.

  \<^bold>\<open>State and effects.\<close> A database action takes the tables and returns a result and the new tables; an
  error is a value of \<open>js_error\<close>, with the SQLSTATE and the constraint where the code reads them. Each SQL
  statement is an operation on tables. The components are built on serial
  transactions; \<open>Checkout_Concurrent\<close> and \<open>Auth_Concurrent\<close> model READ COMMITTED itself,
  \<open>Jobs\<close> and \<open>Pipeline\<close> interleave the transactions of several processes. What other clients commit between
  two transactions of one call is an argument (a function on the tables). Database
  instants are microseconds, JavaScript instants milliseconds. Identifiers are strings in the code and
  natural numbers in the tables; a string bound to a \<open>bigint\<close> parameter is read as digits only.

  \<^bold>\<open>Parameters.\<close> Redis, the broker, BullMQ, Socket.IO, scrypt, the HMAC, SHA-256, signing and verifying
  tokens, clocks and random draws are arguments. What the proofs need of them is a named predicate
  (\<open>scrypt_lawful\<close>, \<open>redis_lawful\<close>, \<open>jwt_lawful\<close>, \<open>lock_lawful\<close>, \<open>card_world_lawful\<close>), each with an
  instance that the witnesses run.

  \<^bold>\<open>Fuel.\<close> Loops that run until a table or a deadline stops them take fuel, and their theorems give the
  amount that is enough: one round per batch and one more for the cleanups, the attempts left plus one for
  the worker, and 201 rounds for a card, since every round that does not end the request sleeps 25 of the
  5000 milliseconds the wait may last.

  \<^bold>\<open>Not modelled.\<close> Dependency injection, decorators of routes and of the OpenAPI document, and the options of the
  drivers, which the code only passes on. Of the processes \<open>server.ts\<close>, \<open>worker.ts\<close> and \<open>consumer.ts\<close>, which start and
  stop what is modelled here, and \<open>messaging/broker.ts\<close>, which opens connections. The other demonstrations, which
  start containers and processes, send requests to them and print what came back; the services they call
  are modelled. What a migration does to stored rows, and the sequences of identity columns. Sleeps
  between polls, log output and the timer that ends a stream at the expiry of its token are left out where
  the text of the theory says so. The lists of names and texts the seed and the demonstrations insert are
  arguments.
\<close>

end
